(* ===== verification/Peno_Prelude.thy ===== *)
theory Peno_Prelude
  imports Main "HOL-Library.Word" "HOL-Library.AList" "HOL-Library.Sublist"
begin

text \<open>
  Shared vocabulary of the development: names for the machine types of the Rust sources,
  saturating arithmetic, the error-and-state computations the converters are written in,
  the string helpers (\<open>strip_prefix\<close>, \<open>contains\<close>, decimal formatting), the insertion-ordered
  map \<open>IndexMap\<close> as an association list, and the interface locales that several components
  implement.  A Rust \<open>String\<close> is its UTF-8 byte sequence, so \<open>length\<close> is \<open>str::len\<close>.
\<close>

section \<open>Machine types\<close>

type_synonym u8 = "8 word"
type_synonym u32 = "32 word"
type_synonym u64 = "64 word"
type_synonym bytes = "8 word list"

named_theorems peno_defs \<open>unfolding rules of non-recursive operations\<close>
named_theorems keeps_intros \<open>rules that a computation keeps an invariant\<close>

definition usize_max :: nat where
  "usize_max = 2 ^ 64 - 1"

definition i64_min :: int where
  "i64_min = - (2 ^ 63)"

definition i64_max :: int where
  "i64_max = 2 ^ 63 - 1"

definition in_i64 :: "int \<Rightarrow> bool" where
  "in_i64 i \<longleftrightarrow> i64_min \<le> i \<and> i \<le> i64_max"

text \<open>
  A \<open>usize\<close> that the sources only ever change by saturating arithmetic is a \<open>nat\<close>
  bounded by \<open>usize_max\<close>; an id or a counter that wraps is a word.
\<close>

definition usat_add :: "nat \<Rightarrow> nat \<Rightarrow> nat" where
  "usat_add a b = min (a + b) usize_max"

definition usat_mul :: "nat \<Rightarrow> nat \<Rightarrow> nat" where
  "usat_mul a b = min (a * b) usize_max"

definition wsat_add :: "'a::len word \<Rightarrow> 'a word \<Rightarrow> 'a word" where
  "wsat_add a b = (if unat a + unat b < 2 ^ LENGTH('a) then a + b else - 1)"

definition wsat_sub :: "'a::len word \<Rightarrow> 'a word \<Rightarrow> 'a word" where
  "wsat_sub a b = (if b \<le> a then a - b else 0)"

lemma usat_add_0 [simp]: "a \<le> usize_max \<Longrightarrow> usat_add a 0 = a"
  by (simp add: usat_add_def)

lemma usat_add_le_max [simp]: "usat_add a b \<le> usize_max"
  by (simp add: usat_add_def)

lemma usat_add_ge: "a \<le> usize_max \<Longrightarrow> a \<le> usat_add a b"
  by (simp add: usat_add_def)

lemma usat_add_exact: "usat_add a b < usize_max \<Longrightarrow> usat_add a b = a + b"
  by (simp add: usat_add_def split: if_splits)

lemma usat_add_le: "usat_add a b \<le> a + b"
  by (simp add: usat_add_def)

lemma unat_wsat_add:
  "unat (wsat_add a b) = min (unat a + unat b) (2 ^ LENGTH('a) - 1)"
  for a b :: "'a::len word"
proof (cases "unat a + unat b < 2 ^ LENGTH('a)")
  case True
  then have "unat (a + b) = unat a + unat b"
    by (simp add: unat_word_ariths)
  with True show ?thesis
    by (simp add: wsat_add_def)
next
  case False
  then show ?thesis
    by (simp add: wsat_add_def unat_sub_if' word_size unsigned_minus_1_eq_mask mask_eq_exp_minus_1)
qed

lemma wsat_add_ge: "a \<le> wsat_add a b"
  for a b :: "'a::len word"
proof -
  have "unat a < 2 ^ LENGTH('a)"
    by (rule unsigned_less)
  then have "unat a \<le> 2 ^ LENGTH('a) - 1"
    by linarith
  then show ?thesis
    by (simp add: word_le_nat_alt unat_wsat_add)
qed

lemma unat_wsat_sub: "unat (wsat_sub a b) = unat a - unat b"
  by (simp add: wsat_sub_def word_le_nat_alt unat_sub)

lemma unat_Suc_word:
  fixes w :: "'a::len word"
  assumes "w \<noteq> - 1"
  shows "unat (w + 1) = Suc (unat w)"
proof -
  have "unat w \<noteq> unat (- 1 :: 'a word)" using assms by (simp add: word_unat_eq_iff)
  then have "unat w \<noteq> 2 ^ LENGTH('a) - 1"
    by (simp add: unsigned_minus_1_eq_mask mask_eq_exp_minus_1)
  moreover have "unat w < 2 ^ LENGTH('a)" by (rule unsigned_less)
  ultimately have "Suc (unat w) < 2 ^ LENGTH('a)" by linarith
  then show ?thesis by (simp add: unat_word_ariths)
qed

lemma unat_word_less: "w \<noteq> - 1 \<Longrightarrow> (i < w + 1) = (i \<le> w)" for w :: "'a::len word"
  by (simp add: word_less_nat_alt word_le_nat_alt unat_Suc_word less_Suc_eq_le)

lemma wsat_add_1: "unat a < 2 ^ LENGTH('a) - 1 \<Longrightarrow> unat (wsat_add a 1) = Suc (unat a)" for a :: "'a::len word"
  by (simp add: unat_wsat_add)

lemma unat_u32_less: "unat (w :: u32) < 2 ^ 32"
  using unsigned_less [of w] by simp

lemma card_u32: "card (A :: u32 set) \<le> 2 ^ 32"
  using card_mono [of UNIV A] card_word [where 'a = 32] by simp

section \<open>Computations with errors and state\<close>

text \<open>
  A fallible routine that also writes through \<open>&mut\<close> arguments is a function from the state
  to a sum and the state it leaves behind: \<open>Inl\<close> is an early return by \<open>?\<close>, which keeps the
  writes made before it.
\<close>

type_synonym ('s, 'e, 'a) comp = "'s \<Rightarrow> ('e + 'a) \<times> 's"

definition sret :: "'a \<Rightarrow> ('s, 'e, 'a) comp" where
  "sret a s = (Inr a, s)"

definition sfail :: "'e \<Rightarrow> ('s, 'e, 'a) comp" where
  "sfail e s = (Inl e, s)"

definition sbind :: "('s, 'e, 'a) comp \<Rightarrow> ('a \<Rightarrow> ('s, 'e, 'b) comp) \<Rightarrow> ('s, 'e, 'b) comp" where
  "sbind m f s = (case m s of (Inl e, s') \<Rightarrow> (Inl e, s') | (Inr a, s') \<Rightarrow> f a s')"

definition sthen :: "('s, 'e, 'a) comp \<Rightarrow> ('s, 'e, 'b) comp \<Rightarrow> ('s, 'e, 'b) comp" where
  "sthen m k = sbind m (\<lambda>_. k)"

fun smap :: "('v \<Rightarrow> ('s, 'e, 'a) comp) \<Rightarrow> 'v list \<Rightarrow> ('s, 'e, 'a list) comp" where
  "smap f [] = sret []"
| "smap f (x # xs) = sbind (f x) (\<lambda>y. sbind (smap f xs) (\<lambda>ys. sret (y # ys)))"

fun sfold :: "('a \<Rightarrow> 'v \<Rightarrow> ('s, 'e, 'a) comp) \<Rightarrow> 'a \<Rightarrow> 'v list \<Rightarrow> ('s, 'e, 'a) comp" where
  "sfold f acc [] = sret acc"
| "sfold f acc (x # xs) = sbind (f acc x) (\<lambda>acc'. sfold f acc' xs)"

text \<open>A fallible routine over a list that stops at the first error.\<close>

fun rmap :: "('v \<Rightarrow> 'e + 'a) \<Rightarrow> 'v list \<Rightarrow> 'e + 'a list" where
  "rmap f [] = Inr []"
| "rmap f (x # xs) = (case f x of Inl e \<Rightarrow> Inl e
     | Inr y \<Rightarrow> (case rmap f xs of Inl e \<Rightarrow> Inl e | Inr ys \<Rightarrow> Inr (y # ys)))"

definition tag_snd :: "'k \<Rightarrow> 'e + 'a \<Rightarrow> 'e + 'k \<times> 'a" where
  "tag_snd k r = (case r of Inl e \<Rightarrow> Inl e | Inr y \<Rightarrow> Inr (k, y))"

lemma rmap_cong [fundef_cong]:
  "xs = ys \<Longrightarrow> (\<And>x. x \<in> set ys \<Longrightarrow> f x = g x) \<Longrightarrow> rmap f xs = rmap g ys"
proof (induction ys arbitrary: xs)
  case (Cons y ys)
  then have "rmap f ys = rmap g ys" "f y = g y" by simp_all
  with Cons.prems(1) show ?case by (simp cong: sum.case_cong)
qed simp

lemma rmap_Cons_Inr:
  "rmap f (x # xs) = Inr ys \<longleftrightarrow> (\<exists>z zs. ys = z # zs \<and> f x = Inr z \<and> rmap f xs = Inr zs)"
  by (auto split: sum.splits)

lemma tag_snd_Inr: "tag_snd k r = Inr p \<longleftrightarrow> (\<exists>y. r = Inr y \<and> p = (k, y))"
  by (auto simp: tag_snd_def split: sum.splits)

lemma rmap_Inr_iff: "rmap f xs = Inr ys \<longleftrightarrow> list_all2 (\<lambda>x y. f x = Inr y) xs ys"
proof (induction xs arbitrary: ys)
  case (Cons x xs)
  show ?case
    unfolding rmap_Cons_Inr list_all2_Cons1 Cons.IH by blast
qed auto

definition slift :: "('e + 'a) \<Rightarrow> ('s, 'e, 'a) comp" where
  "slift r s = (r, s)"

lemma smap_cong [fundef_cong]:
  "xs = ys \<Longrightarrow> (\<And>x. x \<in> set ys \<Longrightarrow> f x = g x) \<Longrightarrow> smap f xs = smap g ys"
  by (induction ys arbitrary: xs) auto

lemma sfold_cong [fundef_cong]:
  "acc = acc' \<Longrightarrow> xs = ys \<Longrightarrow> (\<And>a x. x \<in> set ys \<Longrightarrow> f a x = g a x) \<Longrightarrow> sfold f acc xs = sfold g acc' ys"
  by (induction ys arbitrary: xs acc acc') auto

lemma sbind_Inr:
  "sbind m f s = (Inr b, s'') \<longleftrightarrow> (\<exists>a s'. m s = (Inr a, s') \<and> f a s' = (Inr b, s''))"
  by (auto simp: sbind_def split: prod.splits sum.splits)

lemma sthen_Inr:
  "sthen m k s = (Inr b, s'') \<longleftrightarrow> (\<exists>a s'. m s = (Inr a, s') \<and> k s' = (Inr b, s''))"
  by (simp add: sthen_def sbind_Inr)

lemma sret_Inr [simp]: "sret a s = (r, s') \<longleftrightarrow> r = Inr a \<and> s' = s"
  by (auto simp: sret_def)

lemma sfail_Inr [simp]: "sfail e s = (r, s') \<longleftrightarrow> r = Inl e \<and> s' = s"
  by (auto simp: sfail_def)

lemma slift_Inr [simp]: "slift x s = (r, s') \<longleftrightarrow> r = x \<and> s' = s"
  by (auto simp: slift_def)

lemma sbind_sret [simp]: "sbind (sret a) f = f a"
  by (simp add: sbind_def sret_def fun_eq_iff)

lemma sbind_eval_Inr: "m s = (Inr a, s') \<Longrightarrow> sbind m f s = f a s'"
  by (simp add: sbind_def)

lemma sbind_eval_Inl: "m s = (Inl e, s') \<Longrightarrow> sbind m f s = (Inl e, s')"
  by (simp add: sbind_def)

lemma smap_length: "smap f xs s = (Inr ys, s') \<Longrightarrow> length ys = length xs"
  by (induction xs arbitrary: s s' ys) (auto simp: sbind_Inr)

text \<open>\<open>keeps P m\<close>: whatever the outcome, \<open>m\<close> leaves a state that satisfies \<open>P\<close>.\<close>

definition keeps :: "('s \<Rightarrow> bool) \<Rightarrow> ('s, 'e, 'a) comp \<Rightarrow> bool" where
  "keeps P m \<longleftrightarrow> (\<forall>s. P s \<longrightarrow> P (snd (m s)))"

lemma keeps_app: "keeps P m \<Longrightarrow> P s \<Longrightarrow> P (snd (m s))"
  by (simp add: keeps_def)

lemma keepsD: "keeps P m \<Longrightarrow> P s \<Longrightarrow> m s = (r, s') \<Longrightarrow> P s'"
  by (metis keeps_def snd_conv)

lemma keeps_sret [keeps_intros]: "keeps P (sret a)"
  by (simp add: keeps_def sret_def)

lemma keeps_sfail [keeps_intros]: "keeps P (sfail e)"
  by (simp add: keeps_def sfail_def)

lemma keeps_slift [keeps_intros]: "keeps P (slift r)"
  by (simp add: keeps_def slift_def)

lemma keeps_sbind [keeps_intros]: "keeps P m \<Longrightarrow> (\<And>a. keeps P (f a)) \<Longrightarrow> keeps P (sbind m f)"
  by (auto simp: keeps_def sbind_def split: prod.split sum.split)

lemma keeps_sthen [keeps_intros]: "keeps P m \<Longrightarrow> keeps P k \<Longrightarrow> keeps P (sthen m k)"
  unfolding sthen_def by (rule keeps_sbind)

section \<open>Strings\<close>

fun strip_prefix :: "string \<Rightarrow> string \<Rightarrow> string option" where
  "strip_prefix [] s = Some s"
| "strip_prefix (p # ps) [] = None"
| "strip_prefix (p # ps) (c # cs) = (if p = c then strip_prefix ps cs else None)"

definition starts_with :: "string \<Rightarrow> string \<Rightarrow> bool" where
  "starts_with p s \<longleftrightarrow> strip_prefix p s \<noteq> None"

fun contains :: "string \<Rightarrow> string \<Rightarrow> bool" where
  "contains p [] = (p = [])"
| "contains p (c # cs) = (starts_with p (c # cs) \<or> contains p cs)"

text \<open>\<open>index_of p s\<close> is the position of the first occurrence, as JavaScript's \<open>indexOf\<close>.\<close>

fun index_of :: "string \<Rightarrow> string \<Rightarrow> nat option" where
  "index_of p [] = (if p = [] then Some 0 else None)"
| "index_of p (c # cs) =
     (if starts_with p (c # cs) then Some 0 else map_option Suc (index_of p cs))"

lemma strip_prefix_append [simp]: "strip_prefix p (p @ s) = Some s"
  by (induction p) auto

lemma strip_prefix_Some: "strip_prefix p s = Some t \<longleftrightarrow> s = p @ t"
  by (induction p s rule: strip_prefix.induct) auto

lemma starts_with_iff: "starts_with p s \<longleftrightarrow> (\<exists>t. s = p @ t)"
  by (auto simp: starts_with_def strip_prefix_Some)

lemma starts_with_Nil [simp]: "starts_with [] s"
  by (simp add: starts_with_def)

lemma contains_iff: "contains p s \<longleftrightarrow> (\<exists>u t. s = u @ p @ t)"
proof (induction s)
  case Nil
  then show ?case by auto
next
  case (Cons c cs)
  then show ?case
    by (auto simp: starts_with_iff Cons_eq_append_conv)
qed

lemma contains_append: "contains p s \<Longrightarrow> contains p (u @ s @ t)"
  unfolding contains_iff by (metis append.assoc)

lemma index_of_None: "index_of p s = None \<longleftrightarrow> \<not> contains p s"
  by (induction s) auto

lemma index_of_Some_split:
  "index_of p s = Some n \<Longrightarrow> \<exists>t. s = take n s @ p @ t"
proof (induction s arbitrary: n)
  case Nil
  then show ?case by (auto split: if_splits)
next
  case (Cons c cs)
  show ?case
  proof (cases "starts_with p (c # cs)")
    case True
    with Cons.prems show ?thesis by (auto simp: starts_with_iff)
  next
    case False
    with Cons.prems obtain m where "index_of p cs = Some m" "n = Suc m" by auto
    with Cons.IH [of m] show ?thesis by auto
  qed
qed

definition digit_char :: "int \<Rightarrow> char" where
  "digit_char d = ''0123456789'' ! nat d"

function show_uint :: "int \<Rightarrow> string" where
  "show_uint n = (if n < 10 then [digit_char n]
     else show_uint (n div 10) @ [digit_char (n mod 10)])"
  by pat_completeness auto
termination
  by (relation "measure nat") auto

declare show_uint.simps [simp del]

definition show_int :: "int \<Rightarrow> string" where
  "show_int i = (if i < 0 then ''-'' @ show_uint (- i) else show_uint i)"

text \<open>Decimal parsing, the inverse of \<open>show_int\<close>.\<close>

definition digit_val :: "char \<Rightarrow> int" where
  "digit_val c = int (of_char c) - 48"

definition parse_uint :: "string \<Rightarrow> int" where
  "parse_uint s = foldl (\<lambda>acc c. acc * 10 + digit_val c) 0 s"

definition parse_int :: "string \<Rightarrow> int option" where
  "parse_int s =
     (let body = (case strip_prefix ''-'' s of Some t \<Rightarrow> t | None \<Rightarrow> s)
      in if body = [] \<or> \<not> list_all (\<lambda>c. 0 \<le> digit_val c \<and> digit_val c \<le> 9) body then None
         else Some (if body = s then parse_uint body else - parse_uint body))"

lemma digit_val_char: "0 \<le> d \<Longrightarrow> d < 10 \<Longrightarrow> digit_val (digit_char d) = d"
proof -
  assume "0 \<le> d" "d < 10"
  then have "d = 0 \<or> d = 1 \<or> d = 2 \<or> d = 3 \<or> d = 4 \<or> d = 5 \<or> d = 6 \<or> d = 7 \<or> d = 8 \<or> d = 9"
    by presburger
  then show ?thesis by (elim disjE) (simp_all add: digit_val_def digit_char_def)
qed

lemma parse_uint_snoc: "parse_uint (s @ [c]) = parse_uint s * 10 + digit_val c"
  by (simp add: parse_uint_def)

lemma show_uint_digits:
  "0 \<le> n \<Longrightarrow> show_uint n \<noteq> [] \<and> list_all (\<lambda>c. 0 \<le> digit_val c \<and> digit_val c \<le> 9) (show_uint n)"
proof (induction n rule: show_uint.induct)
  case (1 n)
  then show ?case
    by (subst (1 2) show_uint.simps) (auto simp: digit_val_char)
qed

lemma parse_show_uint: "0 \<le> n \<Longrightarrow> parse_uint (show_uint n) = n"
proof (induction n rule: show_uint.induct)
  case (1 n)
  show ?case
  proof (cases "n < 10")
    case True
    then show ?thesis
      using 1 parse_uint_snoc [of "[]"] by (simp add: show_uint.simps [of n] digit_val_char parse_uint_def)
  next
    case False
    then show ?thesis
      using 1 by (simp add: show_uint.simps [of n] parse_uint_snoc digit_val_char)
  qed
qed

lemma parse_show_int: "parse_int (show_int i) = Some i"
proof -
  have hd: "strip_prefix ''-'' (show_uint n) = None" if "0 \<le> n" for n
  proof -
    from show_uint_digits [OF that] obtain c cs where "show_uint n = c # cs" "0 \<le> digit_val c"
      by (cases "show_uint n") auto
    then show ?thesis by (auto simp: digit_val_def)
  qed
  show ?thesis
    using hd show_uint_digits [of i] show_uint_digits [of "- i"] parse_show_uint
    by (auto simp: parse_int_def show_int_def Let_def)
qed

definition show_nat :: "nat \<Rightarrow> string" where
  "show_nat n = show_uint (int n)"

definition show_word :: "'a::len word \<Rightarrow> string" where
  "show_word w = show_uint (uint w)"

definition show_bool :: "bool \<Rightarrow> string" where
  "show_bool b = (if b then ''true'' else ''false'')"

section \<open>Insertion-ordered maps\<close>

text \<open>
  \<open>IndexMap\<close> is an association list with distinct keys: \<open>insert\<close> of a present key overwrites
  in place and appends otherwise (\<^theory_text>\<open>AList.update\<close>), \<open>get\<close> is \<open>map_of\<close>, and
  \<open>shift_remove\<close> keeps the order of the rest (\<^theory_text>\<open>AList.delete\<close>).
\<close>

type_synonym ('k, 'v) imap = "('k \<times> 'v) list"

definition im_inv :: "('k, 'v) imap \<Rightarrow> bool" where
  "im_inv m \<longleftrightarrow> distinct (map fst m)"

definition im_from_entries :: "('k \<times> 'v) list \<Rightarrow> ('k, 'v) imap" where
  "im_from_entries es = foldl (\<lambda>m (k, v). AList.update k v m) [] es"

lemma update_fresh: "k \<notin> fst ` set m \<Longrightarrow> AList.update k v m = m @ [(k, v)]"
  by (induction m) auto

lemma foldl_update_distinct:
  "distinct (map fst (m @ es)) \<Longrightarrow> foldl (\<lambda>m (k, v). AList.update k v m) m es = m @ es"
proof (induction es arbitrary: m)
  case (Cons e es)
  obtain k v where "e = (k, v)" by force
  with Cons.prems Cons.IH [of "m @ [(k, v)]"] show ?case
    by (simp add: update_fresh)
qed simp

lemma im_from_entries_distinct: "im_inv es \<Longrightarrow> im_from_entries es = es"
  using foldl_update_distinct [of "[]" es] by (simp add: im_inv_def im_from_entries_def)

locale keyed_store =
  fixes look :: "'m \<Rightarrow> 'k \<Rightarrow> 'v option"
    and put :: "'k \<Rightarrow> 'v \<Rightarrow> 'm \<Rightarrow> 'm"
    and drop_key :: "'k \<Rightarrow> 'm \<Rightarrow> 'm"
    and wf :: "'m \<Rightarrow> bool"
  assumes look_put: "wf m \<Longrightarrow> look (put k v m) j = (if j = k then Some v else look m j)"
    and look_drop: "wf m \<Longrightarrow> look (drop_key k m) j = (if j = k then None else look m j)"
    and wf_put: "wf m \<Longrightarrow> wf (put k v m)"
    and wf_drop: "wf m \<Longrightarrow> wf (drop_key k m)"
begin

lemma look_put_same: "wf m \<Longrightarrow> look (put k v m) k = Some v"
  by (simp add: look_put)

lemma look_put_other: "wf m \<Longrightarrow> j \<noteq> k \<Longrightarrow> look (put k v m) j = look m j"
  by (simp add: look_put)

lemma look_put_drop: "wf m \<Longrightarrow> look (drop_key k (put k v m)) k = None"
  by (simp add: look_drop wf_put)

lemma look_drop_put: "wf m \<Longrightarrow> look (put k v (drop_key k m)) j = look (put k v m) j"
  by (simp add: look_put look_drop wf_drop)

end

interpretation im: keyed_store map_of AList.update AList.delete im_inv
proof unfold_locales
  fix m :: "('k, 'v) imap" and k j :: 'k and v :: 'v
  show "map_of (AList.update k v m) j = (if j = k then Some v else map_of m j)"
    by (simp add: update_conv')
  show "map_of (AList.delete k m) j = (if j = k then None else map_of m j)"
    by (simp add: delete_conv')
  show "im_inv m \<Longrightarrow> im_inv (AList.update k v m)"
    by (simp add: im_inv_def distinct_update)
  show "im_inv m \<Longrightarrow> im_inv (AList.delete k m)"
    by (simp add: im_inv_def distinct_delete)
qed

interpretation hm: keyed_store "\<lambda>m. m" "\<lambda>k v m. m(k \<mapsto> v)" "\<lambda>k m. m(k := None)" "\<lambda>m. True"
  by unfold_locales auto

end
