(* ===== verification/Peno_F64.thy ===== *)
theory Peno_F64
  imports Complex_Main Peno_Prelude
begin

text \<open>
  The part of IEEE-754 binary64 the sources rely on: Rust's standard operations \<open>is_finite\<close>,
  \<open>fract\<close>, comparison, the saturating casts \<open>as i64\<close>, \<open>as u32\<close>, \<open>as u64\<close>, the rounding cast
  \<open>i64 as f64\<close>, \<open>round\<close>, and multiplication and division by a constant.  A finite double is
  the rational number it denotes; the two zeros denote the same number and are not told apart.
  Results are rounded to 53 significant bits, ties to even; the model does not round to the
  subnormal range or overflow to infinity, which the operands of the sources (a 64-bit count of
  milliseconds, divided or multiplied by 1000) cannot reach.
\<close>

datatype f64 = NaN | Inf (negative: bool) | Fin rat

fun f64_is_nan :: "f64 \<Rightarrow> bool" where
  "f64_is_nan NaN = True"
| "f64_is_nan _ = False"

fun f64_is_infinite :: "f64 \<Rightarrow> bool" where
  "f64_is_infinite (Inf _) = True"
| "f64_is_infinite _ = False"

fun f64_is_finite :: "f64 \<Rightarrow> bool" where
  "f64_is_finite (Fin _) = True"
| "f64_is_finite _ = False"

text \<open>\<open>x.fract() == 0.0\<close>; on an infinity or NaN \<open>fract\<close> is NaN and the test is false.\<close>

fun f64_fract_zero :: "f64 \<Rightarrow> bool" where
  "f64_fract_zero (Fin q) = (of_int \<lfloor>q\<rfloor> = q)"
| "f64_fract_zero _ = False"

text \<open>Comparison with a rational constant; every comparison with NaN is false.\<close>

fun f64_less :: "f64 \<Rightarrow> rat \<Rightarrow> bool" where
  "f64_less (Fin q) c = (q < c)"
| "f64_less (Inf neg) c = neg"
| "f64_less NaN c = False"

fun f64_greater :: "f64 \<Rightarrow> rat \<Rightarrow> bool" where
  "f64_greater (Fin q) c = (c < q)"
| "f64_greater (Inf neg) c = (\<not> neg)"
| "f64_greater NaN c = False"

definition f64_eq_zero :: "f64 \<Rightarrow> bool" where
  "f64_eq_zero x \<longleftrightarrow> x = Fin 0"

definition trunc_rat :: "rat \<Rightarrow> int" where
  "trunc_rat q = (if 0 \<le> q then \<lfloor>q\<rfloor> else - \<lfloor>- q\<rfloor>)"

definition clamp_int :: "int \<Rightarrow> int \<Rightarrow> int \<Rightarrow> int" where
  "clamp_int lo hi i = max lo (min hi i)"

text \<open>A float-to-integer \<open>as\<close> cast truncates, saturates at the type's bounds and maps NaN to 0.\<close>

fun f64_cast :: "int \<Rightarrow> int \<Rightarrow> f64 \<Rightarrow> int" where
  "f64_cast lo hi NaN = 0"
| "f64_cast lo hi (Inf neg) = (if neg then lo else hi)"
| "f64_cast lo hi (Fin q) = clamp_int lo hi (trunc_rat q)"

definition f64_as_i64 :: "f64 \<Rightarrow> int" where
  "f64_as_i64 x = f64_cast i64_min i64_max x"

definition f64_as_u32 :: "f64 \<Rightarrow> u32" where
  "f64_as_u32 x = word_of_int (f64_cast 0 (2 ^ 32 - 1) x)"

definition f64_as_u64 :: "f64 \<Rightarrow> u64" where
  "f64_as_u64 x = word_of_int (f64_cast 0 (2 ^ 64 - 1) x)"

section \<open>Rounding\<close>

function bit_length :: "int \<Rightarrow> nat" where
  "bit_length n = (if n \<le> 0 then 0 else Suc (bit_length (n div 2)))"
  by pat_completeness auto
termination
  by (relation "measure nat") auto

declare bit_length.simps [simp del]

definition pow2 :: "int \<Rightarrow> rat" where
  "pow2 e = (if 0 \<le> e then 2 ^ nat e else 1 / 2 ^ nat (- e))"

text \<open>\<open>exponent q\<close> is the binary exponent of a non-zero rational, \<open>\<lfloor>log\<^sub>2 \<bar>q\<bar>\<rfloor>\<close>.\<close>

definition exponent :: "rat \<Rightarrow> int" where
  "exponent q =
     (let (n, d) = quotient_of \<bar>q\<bar>;
          k = int (bit_length n) - int (bit_length d)
      in if pow2 k \<le> \<bar>q\<bar> then k else k - 1)"

definition round_half_even :: "rat \<Rightarrow> int" where
  "round_half_even q =
     (let f = \<lfloor>q\<rfloor>; d = q - of_int f
      in if d < 1 / 2 then f else if 1 / 2 < d then f + 1 else if even f then f else f + 1)"

definition round53 :: "rat \<Rightarrow> rat" where
  "round53 q =
     (if q = 0 then 0
      else let s = pow2 (exponent q - 52) in of_int (round_half_even (q / s)) * s)"

definition f64_of_int :: "int \<Rightarrow> f64" where
  "f64_of_int i = Fin (round53 (of_int i))"

fun f64_mul_const :: "rat \<Rightarrow> f64 \<Rightarrow> f64" where
  "f64_mul_const c (Fin q) = Fin (round53 (q * c))"
| "f64_mul_const c x = x"

fun f64_div_const :: "rat \<Rightarrow> f64 \<Rightarrow> f64" where
  "f64_div_const c (Fin q) = Fin (round53 (q / c))"
| "f64_div_const c x = x"

text \<open>\<open>f64::round\<close> rounds half away from zero.\<close>

fun f64_round_as_i64 :: "f64 \<Rightarrow> int" where
  "f64_round_as_i64 (Fin q) =
     clamp_int i64_min i64_max (if 0 \<le> q then \<lfloor>q + 1 / 2\<rfloor> else - \<lfloor>1 / 2 - q\<rfloor>)"
| "f64_round_as_i64 x = f64_as_i64 x"

section \<open>Facts\<close>

lemma trunc_rat_of_int [simp]: "trunc_rat (of_int i) = i"
  by (simp add: trunc_rat_def flip: of_int_minus)

lemma clamp_int_in_i64: "in_i64 (clamp_int i64_min i64_max i)"
  by (auto simp: in_i64_def clamp_int_def i64_min_def i64_max_def)

lemma clamp_int_id: "lo \<le> i \<Longrightarrow> i \<le> hi \<Longrightarrow> clamp_int lo hi i = i"
  by (simp add: clamp_int_def)

lemma f64_as_i64_in_range: "in_i64 (f64_as_i64 x)"
proof (cases x)
  case (Fin q)
  then show ?thesis by (simp add: f64_as_i64_def clamp_int_in_i64)
qed (auto simp: f64_as_i64_def in_i64_def i64_min_def i64_max_def)

lemma f64_round_in_range: "in_i64 (f64_round_as_i64 x)"
  by (cases x) (simp_all add: clamp_int_in_i64 f64_as_i64_in_range)

lemma round_half_even_of_int [simp]: "round_half_even (of_int i) = i"
  by (simp add: round_half_even_def)

lemma pow2_pos [simp]: "0 < pow2 e"
  by (simp add: pow2_def)

text \<open>A number on the grid of its own exponent is not moved by rounding.\<close>

lemma round53_exact: "q = of_int m * pow2 (exponent q - 52) \<Longrightarrow> round53 q = q"
proof -
  assume q: "q = of_int m * pow2 (exponent q - 52)"
  have "pow2 (exponent q - 52) \<noteq> 0"
    using pow2_pos [of "exponent q - 52"] by linarith
  with q have "q / pow2 (exponent q - 52) = of_int m"
    by (simp add: field_simps)
  with q show ?thesis by (simp add: round53_def Let_def)
qed

lemma bit_length_le: "n < 2 ^ k \<Longrightarrow> bit_length n \<le> k"
proof (induction k arbitrary: n)
  case 0
  then show ?case by (simp add: bit_length.simps)
next
  case (Suc k)
  then have "bit_length (n div 2) \<le> k" by simp
  then show ?case by (subst bit_length.simps) simp
qed

lemma bit_length_1: "bit_length 1 = 1"
  by (simp add: bit_length.simps [of 1] bit_length.simps [of 0])

lemma exponent_of_int:
  assumes "\<bar>i\<bar> < 2 ^ k"
  shows "exponent (of_int i) \<le> int k - 1"
proof -
  have q: "quotient_of \<bar>of_int i\<bar> = (\<bar>i\<bar>, 1)"
    by (simp flip: of_int_abs)
  from assms have "bit_length \<bar>i\<bar> \<le> k"
    by (rule bit_length_le)
  with q show ?thesis
    by (auto simp: exponent_def Let_def bit_length_1)
qed

lemma round53_of_int:
  assumes "\<bar>i\<bar> < 2 ^ 53"
  shows "round53 (of_int i) = of_int i"
proof (rule round53_exact)
  let ?e = "exponent (of_int i) - 52"
  have "?e \<le> 0"
    using exponent_of_int [OF assms] by simp
  then have "pow2 ?e = 1 / 2 ^ nat (- ?e)"
    by (cases "?e = 0") (simp_all add: pow2_def)
  then show "of_int i = of_int (i * 2 ^ nat (- ?e)) * pow2 ?e"
    by simp
qed

lemma f64_of_int_small: "\<bar>i\<bar> < 2 ^ 53 \<Longrightarrow> f64_of_int i = Fin (of_int i)"
  by (simp add: f64_of_int_def round53_of_int)

end
