(* ===== verification/Peno_Error.thy ===== *)
theory Peno_Error
  imports Peno_Prelude
begin

text \<open>
  Runtime errors (\<open>src/runtime/error.rs\<close>), how the runner recognises an error that a
  termination caused (\<open>runner.rs\<close>), and the Python exceptions they become
  (\<open>src/runtime/python/error.rs\<close>).  The structures of \<open>deno_core\<close> that are read here
  (\<open>JsError\<close>, \<open>CoreError\<close>, \<open>JsErrorBox\<close>) appear with the fields the code reads.
\<close>

section \<open>Error values\<close>

record js_frame_summary =
  function_name :: "string option"
  file_name :: "string option"
  line_number :: "int option"
  column_number :: "int option"

record js_exception_details =
  exc_name :: "string option"
  exc_message :: "string option"
  exc_stack :: "string option"
  exc_frames :: "js_frame_summary list"

text \<open>The fields of \<open>deno_core::error::JsError\<close> that \<open>from_js_error\<close> reads.\<close>

record js_error =
  je_name :: "string option"
  je_message :: "string option"
  je_stack :: "string option"
  je_exception_message :: string
  je_frames :: "js_frame_summary list"

datatype js_error_box = JsErrorBox (box_class: string) (box_message: string)

definition type_error :: "string \<Rightarrow> js_error_box" where
  "type_error msg = JsErrorBox ''TypeError'' msg"

datatype core_error = CoreJs js_error | CoreJsBox js_error_box | CoreOther string

datatype runtime_error =
    JavaScript js_exception_details
  | Timeout string
  | Internal string
  | Terminated "string option"
  | ForceKilled string

type_synonym 'a runtime_result = "runtime_error + 'a"

section \<open>Construction and rendering\<close>

definition from_js_error :: "js_error \<Rightarrow> js_exception_details" where
  "from_js_error e =
     \<lparr>exc_name = je_name e,
      exc_message = (case je_message e of Some m \<Rightarrow> Some m
        | None \<Rightarrow> if je_exception_message e \<noteq> [] then Some (je_exception_message e) else None),
      exc_stack = (case je_stack e of
          Some st \<Rightarrow> if st \<noteq> [] then Some st
            else if je_exception_message e \<noteq> [] then Some (je_exception_message e) else None
        | None \<Rightarrow> if je_exception_message e \<noteq> [] then Some (je_exception_message e) else None),
      exc_frames = je_frames e\<rparr>"

definition from_js_error_box :: "js_error_box \<Rightarrow> js_exception_details" where
  "from_js_error_box e =
     \<lparr>exc_name = Some (box_class e), exc_message = Some (box_message e), exc_stack = None,
      exc_frames = []\<rparr>"

definition summary :: "js_exception_details \<Rightarrow> string" where
  "summary d =
     (let name = (case exc_name d of Some n \<Rightarrow> n | None \<Rightarrow> ''Error'')
      in case exc_message d of
           Some msg \<Rightarrow> if msg \<noteq> [] then name @ '': '' @ msg else name
         | None \<Rightarrow> name)"

fun error_context :: "runtime_error \<Rightarrow> string option" where
  "error_context (JavaScript _) = None"
| "error_context (Timeout c) = Some c"
| "error_context (Internal c) = Some c"
| "error_context (ForceKilled c) = Some c"
| "error_context (Terminated r) =
     (case r of Some s \<Rightarrow> Some s | None \<Rightarrow> Some ''Runtime terminated'')"

fun display_error :: "runtime_error \<Rightarrow> string" where
  "display_error (JavaScript d) = summary d"
| "display_error (Timeout c) = c"
| "display_error (Internal c) = c"
| "display_error (ForceKilled c) = c"
| "display_error (Terminated r) =
     (case r of Some s \<Rightarrow> s | None \<Rightarrow> ''Runtime terminated'')"

text \<open>
  \<open>From<CoreError>\<close>: \<open>shown\<close> is \<open>error.to_string()\<close>, which \<open>deno_core\<close> computes.
\<close>

fun from_core_error :: "core_error \<Rightarrow> runtime_error" where
  "from_core_error (CoreJs e) = JavaScript (from_js_error e)"
| "from_core_error (CoreJsBox b) = JavaScript (from_js_error_box b)"
| "from_core_error (CoreOther shown) = Internal shown"

section \<open>Errors caused by a termination\<close>

definition js_error_indicates_termination :: "js_exception_details \<Rightarrow> bool" where
  "js_error_indicates_termination d \<longleftrightarrow>
     (case exc_message d of Some m \<Rightarrow> contains ''execution terminated'' m | None \<Rightarrow> False)
     \<or> contains ''execution terminated'' (summary d)"

fun runtime_error_indicates_termination :: "runtime_error \<Rightarrow> bool" where
  "runtime_error_indicates_termination (JavaScript d) = js_error_indicates_termination d"
| "runtime_error_indicates_termination (Timeout c) = contains ''execution terminated'' c"
| "runtime_error_indicates_termination (Internal c) = contains ''execution terminated'' c"
| "runtime_error_indicates_termination (Terminated _) = True"
| "runtime_error_indicates_termination (ForceKilled _) = True"

text \<open>The first disjunct of the test on a JavaScript error is subsumed by the second.\<close>

lemma js_error_indicates_termination_iff:
  "js_error_indicates_termination d \<longleftrightarrow> contains ''execution terminated'' (summary d)"
proof -
  have "contains ''execution terminated'' (summary d)"
    if m: "exc_message d = Some m" "contains ''execution terminated'' m" for m
  proof -
    from m(2) have "m \<noteq> []" by auto
    then have "\<exists>n. summary d = n @ m @ []"
      using m(1) by (auto simp: summary_def Let_def split: option.split)
    then show ?thesis using contains_append [OF m(2)] by metis
  qed
  then show ?thesis
    by (auto simp: js_error_indicates_termination_def split: option.splits)
qed

section \<open>Python exceptions\<close>

datatype frame_value = FrameStr string | FrameInt int

datatype py_exc =
    PyRuntimeError string
  | PyValueError string
  | JavaScriptError string "string option" "string option" "string option"
      "(string \<times> frame_value) list list"
  | RuntimeTerminated string
  | RuntimeForceKilled string
  | PyStopAsyncIteration string
  | PyOther string string

definition frame_dict :: "js_frame_summary \<Rightarrow> (string \<times> frame_value) list" where
  "frame_dict f =
     (case function_name f of Some n \<Rightarrow> [(''function_name'', FrameStr n)] | None \<Rightarrow> [])
   @ (case file_name f of Some n \<Rightarrow> [(''file_name'', FrameStr n)] | None \<Rightarrow> [])
   @ (case line_number f of Some n \<Rightarrow> [(''line_number'', FrameInt n)] | None \<Rightarrow> [])
   @ (case column_number f of Some n \<Rightarrow> [(''column_number'', FrameInt n)] | None \<Rightarrow> [])"

definition build_js_exception :: "js_exception_details \<Rightarrow> string option \<Rightarrow> py_exc" where
  "build_js_exception d context =
     JavaScriptError
       (case context of
          Some p \<Rightarrow> if p \<noteq> [] then p @ '': '' @ summary d else summary d
        | None \<Rightarrow> summary d)
       (exc_name d) (exc_message d) (exc_stack d) (map frame_dict (exc_frames d))"

fun runtime_error_to_py_with :: "runtime_error \<Rightarrow> string option \<Rightarrow> py_exc" where
  "runtime_error_to_py_with (JavaScript d) context = build_js_exception d context"
| "runtime_error_to_py_with (Timeout msg) context =
     PyRuntimeError (case context of Some p \<Rightarrow> p @ '': '' @ msg | None \<Rightarrow> msg)"
| "runtime_error_to_py_with (Internal msg) context =
     PyRuntimeError (case context of Some p \<Rightarrow> p @ '': '' @ msg | None \<Rightarrow> msg)"
| "runtime_error_to_py_with (Terminated reason) context =
     (let base = (case reason of Some m \<Rightarrow> if m \<noteq> [] then m else ''Runtime terminated''
                  | None \<Rightarrow> ''Runtime terminated'')
      in RuntimeTerminated (case context of
           Some p \<Rightarrow> if p \<noteq> [] then p @ '': '' @ base else base
         | None \<Rightarrow> base))"
| "runtime_error_to_py_with (ForceKilled msg) context =
     RuntimeForceKilled (case context of
         Some p \<Rightarrow> if p \<noteq> [] then p @ '': '' @ msg else msg
       | None \<Rightarrow> msg)"

definition runtime_error_to_py :: "runtime_error \<Rightarrow> py_exc" where
  "runtime_error_to_py e = runtime_error_to_py_with e None"

definition runtime_error_with_context :: "string \<Rightarrow> runtime_error \<Rightarrow> py_exc" where
  "runtime_error_with_context context e = runtime_error_to_py_with e (Some context)"

lemma py_terminated_iff:
  "(\<exists>m. runtime_error_to_py_with e c = RuntimeTerminated m) \<longleftrightarrow> (\<exists>r. e = Terminated r)"
  by (cases e) (auto simp: build_js_exception_def Let_def)

lemma py_force_killed_iff:
  "(\<exists>m. runtime_error_to_py_with e c = RuntimeForceKilled m) \<longleftrightarrow> (\<exists>m. e = ForceKilled m)"
  by (cases e) (auto simp: build_js_exception_def Let_def)

end
