(* ===== verification/Peno_JsValue.thy ===== *)
theory Peno_JsValue
  imports Peno_F64 Peno_Error
begin

text \<open>
  \<open>src/runtime/js_value.rs\<close>: the value type both directions of the boundary go through, its
  \<open>Serialize\<close> and \<open>Deserialize\<close> implementations over serde's data model, and the
  \<open>LimitTracker\<close> that every converter charges.  \<open>BigInt\<close> formatting and parsing belong to
  \<open>num_bigint\<close>; they are the parameters \<open>big_show\<close> and \<open>big_parse\<close>.
\<close>

section \<open>Values\<close>

datatype js_value =
    JUndefined
  | JNull
  | JBool bool
  | JInt int
  | JBigInt int
  | JFloat f64
  | JString string
  | JBytes bytes
  | JArray "js_value list"
  | JObject "(string \<times> js_value) list"
  | JDate int
  | JSet "js_value list"
  | JFunction u32
  | JJsStream u32
  | JPyStream u32

abbreviation "TYPE_TAG \<equiv> ''__peno_type''"
abbreviation "UNDEFINED_TYPE \<equiv> ''Undefined''"
abbreviation "DATE_TYPE \<equiv> ''Date''"
abbreviation "DATE_EPOCH_KEY \<equiv> ''epoch_ms''"
abbreviation "SET_TYPE \<equiv> ''Set''"
abbreviation "SET_VALUES_KEY \<equiv> ''values''"
abbreviation "BIGINT_TYPE \<equiv> ''BigInt''"
abbreviation "BIGINT_VALUE_KEY \<equiv> ''value''"
abbreviation "JS_STREAM_TYPE \<equiv> ''JsStream''"
abbreviation "PY_STREAM_TYPE \<equiv> ''PyStream''"
abbreviation "STREAM_ID_KEY \<equiv> ''id''"

definition MAX_JS_DEPTH :: nat where
  "MAX_JS_DEPTH = 100"

definition MAX_JS_BYTES :: nat where
  "MAX_JS_BYTES = 10 * 1024 * 1024"

record serialization_limits =
  lim_depth :: nat
  lim_bytes :: nat

definition default_limits :: serialization_limits where
  "default_limits = \<lparr>lim_depth = MAX_JS_DEPTH, lim_bytes = MAX_JS_BYTES\<rparr>"

lemma size_pair_in [termination_simp]:
  "(k, v) \<in> set m \<Longrightarrow> size v < Suc (size_list (size_prod (\<lambda>_. 0) size) m)"
  by (induction m) auto

text \<open>Nesting depth, counting the value itself as one level.\<close>

fun js_depth :: "js_value \<Rightarrow> nat" where
  "js_depth (JArray vs) = Suc (fold max (map js_depth vs) 0)"
| "js_depth (JSet vs) = Suc (fold max (map js_depth vs) 0)"
| "js_depth (JObject m) = Suc (fold max (map (\<lambda>(k, v). js_depth v) m) 0)"
| "js_depth _ = 1"

text \<open>
  What Rust's types guarantee of a \<open>JSValue\<close>: \<open>i64\<close> payloads are in range and an \<open>IndexMap\<close>
  has no key twice.
\<close>

fun js_wf :: "js_value \<Rightarrow> bool" where
  "js_wf (JInt i) = in_i64 i"
| "js_wf (JDate i) = in_i64 i"
| "js_wf (JArray vs) = list_all js_wf vs"
| "js_wf (JSet vs) = list_all js_wf vs"
| "js_wf (JObject m) = (im_inv m \<and> list_all (\<lambda>(k, v). js_wf v) m)"
| "js_wf _ = True"

lemma fold_max_ge_acc: "(a :: nat) \<le> fold max xs a"
  by (induction xs arbitrary: a) (auto intro: order_trans [OF max.cobounded2])

lemma fold_max_ge: "(x :: nat) \<in> set xs \<Longrightarrow> x \<le> fold max xs a"
  by (induction xs arbitrary: a) (auto intro: order_trans [OF max.cobounded1 fold_max_ge_acc])

lemma fold_max_le: "fold max xs (a :: nat) \<le> b \<longleftrightarrow> a \<le> b \<and> (\<forall>x \<in> set xs. x \<le> b)"
  by (induction xs arbitrary: a) auto

text \<open>An object whose \<open>TYPE_TAG\<close> entry is a string, which the decoders read as one of their tags.\<close>

definition carries_tag :: "(string, js_value) imap \<Rightarrow> bool" where
  "carries_tag m = (case map_of m TYPE_TAG of Some (JString _) \<Rightarrow> True | _ \<Rightarrow> False)"

text \<open>
  What a value is charged when it crosses the boundary, and the levels it takes.  A converter
  that reads a tagged object as the tag's meaning does not descend into it (\<open>deep = False\<close>).
\<close>

fun js_weight :: "bool \<Rightarrow> (int \<Rightarrow> nat) \<Rightarrow> js_value \<Rightarrow> nat" where
  "js_weight deep big_len JUndefined = 0"
| "js_weight deep big_len JNull = 4"
| "js_weight deep big_len (JBool _) = 1"
| "js_weight deep big_len (JInt _) = 8"
| "js_weight deep big_len (JBigInt i) = big_len i"
| "js_weight deep big_len (JFloat _) = 8"
| "js_weight deep big_len (JString s) = length s + 16"
| "js_weight deep big_len (JBytes bs) = length bs"
| "js_weight deep big_len (JArray vs) = 16 + length vs * 8 + sum_list (map (js_weight deep big_len) vs)"
| "js_weight deep big_len (JSet vs) = 24 + length vs * 8 + sum_list (map (js_weight deep big_len) vs)"
| "js_weight deep big_len (JObject m) = 24 + length m * 16
     + (if deep \<or> \<not> carries_tag m
        then sum_list (map (\<lambda>(k, v). length k + 8 + js_weight deep big_len v) m) else 0)"
| "js_weight deep big_len (JDate _) = 16"
| "js_weight deep big_len (JFunction _) = 8"
| "js_weight deep big_len (JJsStream _) = 8"
| "js_weight deep big_len (JPyStream _) = 4"

fun js_height :: "bool \<Rightarrow> js_value \<Rightarrow> nat" where
  "js_height deep (JArray vs) = Suc (fold max (map (js_height deep) vs) 0)"
| "js_height deep (JSet vs) = Suc (fold max (map (js_height deep) vs) 0)"
| "js_height deep (JObject m) =
     Suc (if deep \<or> \<not> carries_tag m then fold max (map (\<lambda>(k, v). js_height deep v) m) 0 else 0)"
| "js_height deep _ = 1"

lemma js_height_deep: "js_height True v = js_depth v"
proof (induction v rule: js_depth.induct)
  case (1 vs)
  then have "map (js_height True) vs = map js_depth vs" by simp
  then show ?case by (simp only: js_height.simps js_depth.simps)
next
  case (2 vs)
  then have "map (js_height True) vs = map js_depth vs" by simp
  then show ?case by (simp only: js_height.simps js_depth.simps)
next
  case (3 m)
  then have "map (\<lambda>(k, v). js_height True v) m = map (\<lambda>(k, v). js_depth v) m" by auto
  then show ?case by (simp only: js_height.simps js_depth.simps simp_thms if_True)
qed simp_all

section \<open>Serde\<close>

text \<open>
  The data model of serde: a serializer call on one side is the visitor call of the same name on
  the other (\<open>serialize_u32\<close> arrives at \<open>visit_u64\<close>, serde's default).
\<close>

datatype serde =
    SBool bool
  | SI64 int
  | SU64 nat
  | SF64 f64
  | SStr string
  | SBytes bytes
  | SNone
  | SUnit
  | SSeq "serde list"
  | SMap "(string \<times> serde) list"

datatype codec_error =
    FunctionNotSerializable u32
  | InvalidBigIntLiteral string
  | InvalidBigIntPayload js_value
  | InvalidJsStreamId js_value
  | InvalidPyStreamId js_value

fun serialize :: "(int \<Rightarrow> string) \<Rightarrow> js_value \<Rightarrow> codec_error + serde" where
  "serialize big_show JUndefined = Inr (SMap [(TYPE_TAG, SStr UNDEFINED_TYPE)])"
| "serialize big_show JNull = Inr SNone"
| "serialize big_show (JBool b) = Inr (SBool b)"
| "serialize big_show (JInt i) = Inr (SI64 i)"
| "serialize big_show (JBigInt i) =
     Inr (SMap [(TYPE_TAG, SStr BIGINT_TYPE), (BIGINT_VALUE_KEY, SStr (big_show i))])"
| "serialize big_show (JFloat f) = Inr (SF64 f)"
| "serialize big_show (JString s) = Inr (SStr s)"
| "serialize big_show (JBytes bs) = Inr (SBytes bs)"
| "serialize big_show (JArray vs) =
     (case rmap (serialize big_show) vs of Inl e \<Rightarrow> Inl e | Inr ss \<Rightarrow> Inr (SSeq ss))"
| "serialize big_show (JObject m) =
     (case rmap (\<lambda>(k, v). tag_snd k (serialize big_show v)) m of
        Inl e \<Rightarrow> Inl e | Inr es \<Rightarrow> Inr (SMap es))"
| "serialize big_show (JDate ms) =
     Inr (SMap [(TYPE_TAG, SStr DATE_TYPE), (DATE_EPOCH_KEY, SI64 ms)])"
| "serialize big_show (JSet vs) =
     (case rmap (serialize big_show) vs of Inl e \<Rightarrow> Inl e
      | Inr ss \<Rightarrow> Inr (SMap [(TYPE_TAG, SStr SET_TYPE), (SET_VALUES_KEY, SSeq ss)]))"
| "serialize big_show (JFunction i) = Inl (FunctionNotSerializable i)"
| "serialize big_show (JJsStream i) =
     Inr (SMap [(TYPE_TAG, SStr JS_STREAM_TYPE), (STREAM_ID_KEY, SU64 (unat i))])"
| "serialize big_show (JPyStream i) =
     Inr (SMap [(TYPE_TAG, SStr PY_STREAM_TYPE), (STREAM_ID_KEY, SU64 (unat i))])"

text \<open>
  The loop at the head of \<open>visit_map\<close>: entries go into the object in order, except that a
  string under \<open>TYPE_TAG\<close> is held back as the tag.
\<close>

fun take_entry ::
  "(string, js_value) imap \<times> string option \<Rightarrow> string \<times> js_value
    \<Rightarrow> (string, js_value) imap \<times> string option" where
  "take_entry (object, tag) (key, v) =
     (if key = TYPE_TAG
      then (case v of JString t \<Rightarrow> (object, Some t) | _ \<Rightarrow> (AList.update key v object, tag))
      else (AList.update key v object, tag))"

fun stream_id_of :: "js_value \<Rightarrow> u32 option" where
  "stream_id_of (JInt v) = (if 0 \<le> v then Some (word_of_int v) else None)"
| "stream_id_of (JFloat f) =
     (if f64_is_finite f \<and> \<not> f64_less f 0 then Some (f64_as_u32 f) else None)"
| "stream_id_of _ = None"

text \<open>
  The \<open>match\<close> on the tag: \<open>Some r\<close> is an early \<open>return r\<close>, \<open>None\<close> falls through to the plain
  object.
\<close>

definition decode_tagged ::
  "(string \<Rightarrow> int option) \<Rightarrow> string \<Rightarrow> (string, js_value) imap \<Rightarrow> (codec_error + js_value) option"
where
  "decode_tagged big_parse tag object =
     (if tag = UNDEFINED_TYPE then Some (Inr JUndefined)
      else if tag = DATE_TYPE then
        (case map_of object DATE_EPOCH_KEY of
           Some (JInt ms) \<Rightarrow> Some (Inr (JDate ms))
         | Some (JFloat f) \<Rightarrow> if f64_is_finite f then Some (Inr (JDate (f64_as_i64 f))) else None
         | _ \<Rightarrow> None)
      else if tag = SET_TYPE then
        (case map_of object SET_VALUES_KEY of
           Some (JArray vs) \<Rightarrow> Some (Inr (JSet vs))
         | _ \<Rightarrow> None)
      else if tag = BIGINT_TYPE then
        (case map_of object BIGINT_VALUE_KEY of
           None \<Rightarrow> None
         | Some (JString s) \<Rightarrow> (case big_parse s of
               None \<Rightarrow> Some (Inl (InvalidBigIntLiteral s))
             | Some i \<Rightarrow> Some (Inr (JBigInt i)))
         | Some (JInt i) \<Rightarrow> Some (Inr (JBigInt i))
         | Some other \<Rightarrow> Some (Inl (InvalidBigIntPayload other)))
      else if tag = JS_STREAM_TYPE then
        (case map_of object STREAM_ID_KEY of
           None \<Rightarrow> None
         | Some entry \<Rightarrow> (case stream_id_of entry of
               Some i \<Rightarrow> Some (Inr (JJsStream i))
             | None \<Rightarrow> Some (Inl (InvalidJsStreamId entry))))
      else if tag = PY_STREAM_TYPE then
        (case map_of object STREAM_ID_KEY of
           None \<Rightarrow> None
         | Some entry \<Rightarrow> (case stream_id_of entry of
               Some i \<Rightarrow> Some (Inr (JPyStream i))
             | None \<Rightarrow> Some (Inl (InvalidPyStreamId entry))))
      else None)"

definition visit_map ::
  "(string \<Rightarrow> int option) \<Rightarrow> (string \<times> js_value) list \<Rightarrow> codec_error + js_value" where
  "visit_map big_parse es =
     (case foldl take_entry ([], None) es of
        (object, None) \<Rightarrow> Inr (JObject object)
      | (object, Some tag) \<Rightarrow>
          (case decode_tagged big_parse tag object of
             Some r \<Rightarrow> r
           | None \<Rightarrow> Inr (JObject (AList.update TYPE_TAG (JString tag) object))))"

fun deserialize :: "(string \<Rightarrow> int option) \<Rightarrow> serde \<Rightarrow> codec_error + js_value" where
  "deserialize big_parse (SBool b) = Inr (JBool b)"
| "deserialize big_parse (SI64 i) = Inr (JInt i)"
| "deserialize big_parse (SU64 n) =
     (if int n \<le> i64_max then Inr (JInt (int n)) else Inr (JFloat (f64_of_int (int n))))"
| "deserialize big_parse (SF64 f) = Inr (JFloat f)"
| "deserialize big_parse (SStr s) = Inr (JString s)"
| "deserialize big_parse (SBytes bs) = Inr (JBytes bs)"
| "deserialize big_parse SNone = Inr JNull"
| "deserialize big_parse SUnit = Inr JUndefined"
| "deserialize big_parse (SSeq ss) =
     (case rmap (deserialize big_parse) ss of Inl e \<Rightarrow> Inl e | Inr vs \<Rightarrow> Inr (JArray vs))"
| "deserialize big_parse (SMap es) =
     (case rmap (\<lambda>(k, s). tag_snd k (deserialize big_parse s)) es of
        Inl e \<Rightarrow> Inl e | Inr m \<Rightarrow> visit_map big_parse m)"

section \<open>Round trip\<close>

text \<open>
  The values the serde codec carries faithfully: no function inside, and no object with a string
  under \<open>TYPE_TAG\<close>, which the decoder reads as one of its own tags.
\<close>

fun transportable :: "js_value \<Rightarrow> bool" where
  "transportable (JFunction _) = False"
| "transportable (JArray vs) = list_all transportable vs"
| "transportable (JSet vs) = list_all transportable vs"
| "transportable (JObject m) = (\<not> carries_tag m \<and> list_all (\<lambda>(k, v). transportable v) m)"
| "transportable _ = True"

lemma take_entry_untagged:
  assumes "\<not> (key = TYPE_TAG \<and> (\<exists>t. v = JString t))"
  shows "take_entry (object, tag) (key, v) = (AList.update key v object, tag)"
  using assms by (cases v) auto

lemma foldl_take_entry:
  assumes "distinct (map fst (acc @ es))"
    and "\<And>t. (TYPE_TAG, JString t) \<notin> set es"
  shows "foldl take_entry (acc, tag) es = (acc @ es, tag)"
  using assms
proof (induction es arbitrary: acc)
  case (Cons e es)
  obtain k v where e: "e = (k, v)" by force
  have "take_entry (acc, tag) e = (acc @ [e], tag)"
    using Cons.prems e by (subst e, subst take_entry_untagged) (auto simp: update_fresh)
  then show ?case
    using Cons.IH [of "acc @ [e]"] Cons.prems by simp
qed simp

lemma visit_map_untagged:
  assumes "im_inv m" "\<not> carries_tag m"
  shows "visit_map big_parse m = Inr (JObject m)"
proof -
  have "(TYPE_TAG, JString t) \<notin> set m" for t
    using assms by (auto simp: carries_tag_def im_inv_def)
  with assms(1) show ?thesis
    using foldl_take_entry [of "[]" m None] by (simp add: visit_map_def im_inv_def)
qed

lemma rmap_roundtrip:
  assumes "\<And>x. x \<in> set xs \<Longrightarrow> \<exists>y. f x = Inr y \<and> g y = Inr x"
  shows "\<exists>ys. rmap f xs = Inr ys \<and> rmap g ys = Inr xs"
  using assms
proof (induction xs)
  case (Cons x xs)
  then obtain y ys where "f x = Inr y" "g y = Inr x" "rmap f xs = Inr ys" "rmap g ys = Inr xs"
    by (metis list.set_intros(1,2))
  then show ?case by (intro exI [of _ "y # ys"]) simp
qed simp

lemma u32_in_i64 [simp]: "uint i \<le> i64_max" for i :: u32
proof -
  have "uint i < 2 ^ 32"
    using uint_lt2p [of i] by simp
  then show ?thesis by (simp add: i64_max_def)
qed

lemma codec_roundtrip:
  assumes big: "\<And>i. big_parse (big_show i) = Some i"
    and "js_wf v" "transportable v"
  shows "\<exists>s. serialize big_show v = Inr s \<and> deserialize big_parse s = Inr v"
  using assms(2,3)
proof (induction v rule: js_depth.induct)
  case (1 vs)
  then show ?case
    using rmap_roundtrip [of vs "serialize big_show" "deserialize big_parse"]
    by (fastforce simp: list_all_iff)
next
  case (2 vs)
  then have "\<exists>ss. rmap (serialize big_show) vs = Inr ss \<and> rmap (deserialize big_parse) ss = Inr vs"
    by (intro rmap_roundtrip) (auto simp: list_all_iff)
  then obtain ss where "rmap (serialize big_show) vs = Inr ss"
    and "rmap (deserialize big_parse) ss = Inr vs" by blast
  then show ?case
    by (simp add: tag_snd_def visit_map_def decode_tagged_def)
next
  case (3 m)
  let ?f = "\<lambda>(k, v). tag_snd k (serialize big_show v)"
  let ?g = "\<lambda>(k, s). tag_snd k (deserialize big_parse s)"
  have "\<exists>y. ?f x = Inr y \<and> ?g y = Inr x" if x: "x \<in> set m" for x
  proof -
    obtain k v where kv: "x = (k, v)" by force
    with x "3.prems" have "js_wf v" "transportable v"
      by (auto simp: list_all_iff)
    with x kv "3.IH" have "\<exists>s. serialize big_show v = Inr s \<and> deserialize big_parse s = Inr v"
      by blast
    with kv show ?thesis by (auto simp: tag_snd_def)
  qed
  then obtain es where "rmap ?f m = Inr es" "rmap ?g es = Inr m"
    using rmap_roundtrip [of m ?f ?g] by blast
  with 3 show ?case by (simp add: visit_map_untagged)
qed (simp_all add: tag_snd_def visit_map_def decode_tagged_def big)

section \<open>Properties\<close>

text \<open>
  C38  Whatever \<open>JSValue\<close> carries no function and no forged tag, serializing it and deserializing
  the result gives the same value; the only assumption is that \<open>num_bigint\<close> parses back what it
  prints.
\<close>

theorem codec_round_trip:
  assumes "\<And>i. big_parse (big_show i) = Some i" "js_wf v" "transportable v"
  shows "\<exists>s. serialize big_show v = Inr s \<and> deserialize big_parse s = Inr v"
  by (rule codec_roundtrip [OF assms])

theorem codec_round_trip_witness:
  "\<exists>s. serialize show_int (JObject [(''k'', JSet [JBigInt (2 ^ 70), JDate 5, JPyStream 3])]) = Inr s
     \<and> deserialize parse_int s = Inr (JObject [(''k'', JSet [JBigInt (2 ^ 70), JDate 5, JPyStream 3])])"
  by (rule codec_round_trip [OF parse_show_int])
    (simp_all add: im_inv_def carries_tag_def in_i64_def i64_min_def i64_max_def)

end
