(* ===== verification/Peno_Limits.thy ===== *)
theory Peno_Limits
  imports Peno_JsValue
begin

text \<open>
  \<open>LimitTracker\<close> (\<open>src/runtime/js_value.rs\<close>): the depth and byte budget that the three
  converters charge.  The contract \<open>meters\<close> says what a successful conversion does to the
  tracker it was given; the locale \<open>metered_conv\<close> states it as an interface, so that whatever
  runs a converter over several values against one tracker inherits the aggregate bound.
\<close>

record limit_tracker =
  max_depth :: nat
  max_bytes :: nat
  current_depth :: nat
  current_bytes :: nat

definition tracker_new :: "nat \<Rightarrow> nat \<Rightarrow> limit_tracker" where
  "tracker_new d b = \<lparr>max_depth = d, max_bytes = b, current_depth = 0, current_bytes = 0\<rparr>"

definition depth_limit_message :: "nat \<Rightarrow> string" where
  "depth_limit_message d =
     ''Serialization depth exceeded the configured limit of '' @ show_nat d
       @ '' (RuntimeConfig(max_serialization_depth=...))''"

definition byte_limit_message :: "nat \<Rightarrow> nat \<Rightarrow> string" where
  "byte_limit_message cur mx =
     ''Serialization size ('' @ show_nat cur @ '' bytes) exceeded the configured limit of ''
       @ show_nat mx @ '' bytes (RuntimeConfig(max_serialization_bytes=...)); see ''
       @ ''docs/guides/advanced/arrow-ipc-dataframes.md for transferring large payloads''"

definition enter :: "(limit_tracker, runtime_error, unit) comp" where
  "enter t =
     (let t' = t\<lparr>current_depth := usat_add (current_depth t) 1\<rparr>
      in if max_depth t' < current_depth t'
         then (Inl (Internal (depth_limit_message (max_depth t'))), t')
         else (Inr (), t'))"

definition exit_level :: "limit_tracker \<Rightarrow> limit_tracker" where
  "exit_level t = t\<lparr>current_depth := current_depth t - 1\<rparr>"

definition add_bytes :: "nat \<Rightarrow> (limit_tracker, runtime_error, unit) comp" where
  "add_bytes n t =
     (let t' = t\<lparr>current_bytes := usat_add (current_bytes t) n\<rparr>
      in if max_bytes t' < current_bytes t'
         then (Inl (Internal (byte_limit_message (current_bytes t') (max_bytes t'))), t')
         else (Inr (), t'))"

text \<open>
  The tracker is one component of a converter's state; \<open>on_tracker f\<close> runs a tracker routine on
  it, with its error translated by \<open>f\<close>, and \<open>leave\<close> is \<open>tracker.exit()\<close>.
\<close>

definition on_tracker ::
  "(runtime_error \<Rightarrow> 'e) \<Rightarrow> (limit_tracker, runtime_error, 'a) comp
    \<Rightarrow> (limit_tracker \<times> 'x, 'e, 'a) comp" where
  "on_tracker f m s =
     (case m (fst s) of
        (Inl e, t) \<Rightarrow> (Inl (f e), (t, snd s))
      | (Inr a, t) \<Rightarrow> (Inr a, (t, snd s)))"

definition leave :: "(limit_tracker \<times> 'x, 'e, unit) comp" where
  "leave s = (Inr (), (exit_level (fst s), snd s))"

section \<open>The metering contract\<close>

definition tracker_wf :: "limit_tracker \<Rightarrow> bool" where
  "tracker_wf t \<longleftrightarrow> max_depth t < usize_max \<and> current_depth t \<le> max_depth t
     \<and> max_bytes t < usize_max \<and> current_bytes t \<le> max_bytes t"

definition meters :: "limit_tracker \<Rightarrow> limit_tracker \<Rightarrow> bool" where
  "meters t t' \<longleftrightarrow> max_depth t' = max_depth t \<and> max_bytes t' = max_bytes t
     \<and> current_depth t' = current_depth t
     \<and> current_bytes t \<le> current_bytes t' \<and> current_bytes t' \<le> max_bytes t"

text \<open>\<open>charges n t t'\<close>: the contract, and at least \<open>n\<close> bytes were counted.\<close>

definition charges :: "nat \<Rightarrow> limit_tracker \<Rightarrow> limit_tracker \<Rightarrow> bool" where
  "charges n t t' \<longleftrightarrow> meters t t' \<and> current_bytes t + n \<le> current_bytes t'"

lemma meters_refl [simp]: "tracker_wf t \<Longrightarrow> meters t t"
  by (simp add: meters_def tracker_wf_def)

lemma meters_trans: "meters t u \<Longrightarrow> meters u v \<Longrightarrow> meters t v"
  by (simp add: meters_def)

lemma meters_wf: "meters t t' \<Longrightarrow> tracker_wf t \<Longrightarrow> tracker_wf t'"
  by (auto simp: meters_def tracker_wf_def)

lemma charges_meters: "charges n t t' \<Longrightarrow> meters t t'"
  by (simp add: charges_def)

lemma charges_trans: "charges m t u \<Longrightarrow> charges n u v \<Longrightarrow> charges (m + n) t v"
  by (auto simp: charges_def meters_def)

lemma charges_0 [simp]: "tracker_wf t \<Longrightarrow> charges 0 t t"
  by (simp add: charges_def)

lemma charges_weaken: "charges n t t' \<Longrightarrow> m \<le> n \<Longrightarrow> charges m t t'"
  by (auto simp: charges_def)

lemma charges_wf: "charges n t t' \<Longrightarrow> tracker_wf t \<Longrightarrow> tracker_wf t'"
  using charges_meters meters_wf by blast

lemma add_bytes_charges:
  "tracker_wf t \<Longrightarrow> add_bytes n t = (Inr a, t') \<Longrightarrow> charges n t t'"
  by (auto simp: add_bytes_def charges_def meters_def tracker_wf_def usat_add_def Let_def
      split: if_splits)

lemma enter_Inr:
  assumes "tracker_wf t" "enter t = (Inr a, t')"
  shows "t' = t\<lparr>current_depth := Suc (current_depth t)\<rparr>" "Suc (current_depth t) \<le> max_depth t"
    "tracker_wf t'"
  using assms by (auto simp: enter_def tracker_wf_def usat_add_def Let_def split: if_splits)

lemma enter_fails_iff:
  "tracker_wf t \<Longrightarrow> (\<exists>e t'. enter t = (Inl e, t')) \<longleftrightarrow> current_depth t = max_depth t"
  by (auto simp: enter_def tracker_wf_def usat_add_def Let_def)

lemma on_tracker_Inr:
  "on_tracker f m s = (Inr a, s') \<longleftrightarrow> (\<exists>t. m (fst s) = (Inr a, t) \<and> s' = (t, snd s))"
  by (auto simp: on_tracker_def split: prod.splits sum.splits)

lemma leave_Inr [simp]: "leave s = (r, s') \<longleftrightarrow> r = Inr () \<and> s' = (exit_level (fst s), snd s)"
  by (auto simp: leave_def)

text \<open>One level of a converter: \<open>enter\<close>, a body that keeps the contract, \<open>exit\<close>.\<close>

lemma level_charges:
  assumes "tracker_wf t" "enter t = (Inr a, t1)" "charges n t1 t2"
  shows "charges n t (exit_level t2)"
proof -
  from enter_Inr [OF assms(1,2)] have "t1 = t\<lparr>current_depth := Suc (current_depth t)\<rparr>" by simp
  with assms(3) show ?thesis by (auto simp: charges_def meters_def exit_level_def)
qed

text \<open>A sequence of conversions charges the sum.\<close>

lemma smap_charges:
  assumes "smap f xs (t, x) = (Inr ys, (t', x'))" "tracker_wf t"
    and "\<And>v t x y t' x'. v \<in> set xs \<Longrightarrow> tracker_wf t \<Longrightarrow> f v (t, x) = (Inr y, (t', x'))
          \<Longrightarrow> charges (w v y) t t'"
  shows "charges (sum_list (map2 w xs ys)) t t'"
  using assms
proof (induction xs arbitrary: t x ys)
  case Nil
  then show ?case by simp
next
  case (Cons v vs)
  from Cons.prems(1) obtain y t1 x1 zs where
    f: "f v (t, x) = (Inr y, (t1, x1))" and r: "smap f vs (t1, x1) = (Inr zs, (t', x'))"
    and ys: "ys = y # zs"
    by (auto simp: sbind_Inr)
  have c: "charges (w v y) t t1" using Cons.prems(2,3) f by simp
  then have "tracker_wf t1" using Cons.prems(2) charges_wf by blast
  then have "charges (sum_list (map2 w vs zs)) t1 t'"
    using Cons.IH [OF r] Cons.prems(3) by simp
  with c ys show ?case using charges_trans by fastforce
qed

text \<open>A property of each single conversion that holds at the level it starts from.\<close>

lemma smap_levels:
  assumes "smap f xs (t, x) = (Inr ys, (t', x'))" "tracker_wf t"
    and "\<And>v t x y t' x'. v \<in> set xs \<Longrightarrow> tracker_wf t \<Longrightarrow> f v (t, x) = (Inr y, (t', x'))
          \<Longrightarrow> meters t t'"
    and "\<And>v t x y t' x'. v \<in> set xs \<Longrightarrow> tracker_wf t \<Longrightarrow> f v (t, x) = (Inr y, (t', x'))
          \<Longrightarrow> current_depth t + h v y \<le> max_depth t"
  shows "list_all2 (\<lambda>v y. current_depth t + h v y \<le> max_depth t) xs ys"
  using assms
proof (induction xs arbitrary: t x ys)
  case Nil
  then show ?case by simp
next
  case (Cons v vs)
  from Cons.prems(1) obtain y t1 x1 zs where
    f: "f v (t, x) = (Inr y, (t1, x1))" and r: "smap f vs (t1, x1) = (Inr zs, (t', x'))"
    and ys: "ys = y # zs"
    by (auto simp: sbind_Inr)
  have m: "meters t t1" using Cons.prems(3) [OF _ Cons.prems(2) f] by simp
  have "list_all2 (\<lambda>v y. current_depth t1 + h v y \<le> max_depth t1) vs zs"
    using Cons.IH [OF r meters_wf [OF m Cons.prems(2)]] Cons.prems(3,4)
    by (meson list.set_intros(2))
  moreover have "current_depth t + h v y \<le> max_depth t"
    using Cons.prems(4) [OF _ Cons.prems(2) f] by simp
  ultimately show ?case using m ys by (simp add: meters_def)
qed

section \<open>The interface of a metered converter\<close>

text \<open>
  \<open>weight v r\<close> is the least that converting \<open>v\<close> into \<open>r\<close> is charged, \<open>height v r\<close> the nesting depth of
  the value that crossed.
\<close>

locale metered_conv =
  fixes conv :: "'v \<Rightarrow> (limit_tracker \<times> 'x, 'e, 'r) comp"
    and weight :: "'v \<Rightarrow> 'r \<Rightarrow> nat"
    and height :: "'v \<Rightarrow> 'r \<Rightarrow> nat"
  assumes conv_charges:
      "tracker_wf t \<Longrightarrow> conv v (t, x) = (Inr r, (t', x')) \<Longrightarrow> charges (weight v r) t t'"
    and conv_height:
      "tracker_wf t \<Longrightarrow> conv v (t, x) = (Inr r, (t', x')) \<Longrightarrow> current_depth t + height v r \<le> max_depth t"
begin

lemma conv_all_charges:
  "smap conv vs (t, x) = (Inr rs, (t', x')) \<Longrightarrow> tracker_wf t
    \<Longrightarrow> charges (sum_list (map2 weight vs rs)) t t'"
  by (rule smap_charges) (auto intro: conv_charges)

lemma conv_all_height:
  "smap conv vs (t, x) = (Inr rs, (t', x')) \<Longrightarrow> tracker_wf t
    \<Longrightarrow> list_all2 (\<lambda>v r. current_depth t + height v r \<le> max_depth t) vs rs"
  by (rule smap_levels) (auto intro: conv_height charges_meters conv_charges)

text \<open>
  One fresh tracker over a whole argument list: the total weight of all the arguments fits in
  the byte budget, and no argument is deeper than the depth budget.
\<close>

lemma aggregate_budget:
  assumes "smap conv vs (tracker_new d b, x) = (Inr rs, (t', x'))" "d < usize_max" "b < usize_max"
  shows "sum_list (map2 weight vs rs) \<le> b" "list_all2 (\<lambda>v r. height v r \<le> d) vs rs"
proof -
  have wf: "tracker_wf (tracker_new d b)"
    using assms(2,3) by (simp add: tracker_wf_def tracker_new_def)
  have "charges (sum_list (map2 weight vs rs)) (tracker_new d b) t'"
    using assms(1) wf by (rule conv_all_charges)
  then show "sum_list (map2 weight vs rs) \<le> b"
    by (auto simp: charges_def meters_def tracker_new_def)
  show "list_all2 (\<lambda>v r. height v r \<le> d) vs rs"
    using conv_all_height [OF assms(1) wf] by (simp add: tracker_new_def)
qed

end

end
