(* ===== verification/Peno_Conversion.thy ===== *)
theory Peno_Conversion
  imports Peno_Limits
begin

text \<open>
  \<open>src/runtime/conversion.rs\<close>: Python objects to \<open>JSValue\<close> and back, against a shared
  \<open>LimitTracker\<close>.  Python containers live in a heap, so that aliasing and cycles are those of the
  object graph; what CPython and the \<open>datetime\<close> module compute is the record \<open>py_env\<close>.
\<close>

section \<open>Python objects\<close>

record js_function_obj =
  jf_id :: u32
  jf_closed :: bool
  jf_has_handle :: bool

record py_stream_source =
  pss_id :: u32
  pss_closed :: bool
  pss_has_handle :: bool

datatype py_val =
    PNone
  | PUndefined
  | PBool bool
  | PInt int
  | PFloat f64
  | PStr string
  | PBytesObj bytes
  | PByteArray bytes
  | PMemoryView "py_exc + bytes"
  | PDateTime nat
  | PRef nat
  | PJsFunction js_function_obj
  | PJsStream u32
  | PStreamSource py_stream_source
  | POther nat

datatype py_cont =
    PListO "py_val list"
  | PDictO "(py_val \<times> py_val) list"
  | PSetO "py_val list"
  | PFrozenSetO "py_val list"

type_synonym py_heap = "nat \<rightharpoonup> py_cont"

text \<open>
  What the converters ask of code outside the repository: \<open>num_bigint\<close>'s parser and magnitude
  length, \<open>datetime\<close> arithmetic on opaque datetime objects, \<open>set.add\<close> (which hashes and compares
  elements), what \<open>__index__\<close> and \<open>__float__\<close> of an object of another class give PyO3, whether the
  runtime behind a \<open>JsFunction\<close> has shut down, and the exception PyO3
  raises for a dict key that is no string.
\<close>

record py_env =
  big_parse :: "string \<Rightarrow> int option"
  big_len :: "int \<Rightarrow> nat"
  dt_is_naive :: "nat \<Rightarrow> py_exc + bool"
  dt_replace_utc :: "nat \<Rightarrow> py_exc + nat"
  dt_astimezone_utc :: "nat \<Rightarrow> py_exc + nat"
  dt_timestamp :: "nat \<Rightarrow> py_exc + f64"
  dt_fromtimestamp_utc :: "f64 \<Rightarrow> py_exc + nat"
  set_add :: "py_val \<Rightarrow> py_val list \<Rightarrow> py_exc + py_val list"
  runtime_is_shutdown :: bool
  other_index :: "nat \<Rightarrow> int option"
  other_float :: "nat \<Rightarrow> f64 option"
  key_error :: "py_val \<Rightarrow> py_exc"

text \<open>\<open>JsFunction::function_id_for_transfer\<close> and \<open>PyStreamSource::stream_id_for_transfer\<close>
  (\<open>src/runtime/python/runtime.rs\<close>).\<close>

definition function_id_for_transfer :: "py_env \<Rightarrow> js_function_obj \<Rightarrow> py_exc + u32" where
  "function_id_for_transfer env f =
     (if jf_closed f then Inl (PyRuntimeError ''Function has been closed'')
      else if \<not> jf_has_handle f then Inl (PyRuntimeError ''Runtime has been shut down'')
      else if runtime_is_shutdown env then Inl (PyRuntimeError ''Runtime has been shut down'')
      else Inr (jf_id f))"

definition stream_id_for_transfer :: "py_stream_source \<Rightarrow> py_exc + u32" where
  "stream_id_for_transfer st =
     (if pss_closed st then Inl (PyRuntimeError ''Stream has been closed'')
      else if \<not> pss_has_handle st then Inl (PyRuntimeError ''Runtime has been shut down'')
      else Inr (pss_id st))"

section \<open>Python to JavaScript\<close>

text \<open>
  The state is the tracker and the set \<open>seen\<close> of addresses on the current path.
  \<open>charge\<close> is \<open>tracker.add_bytes(..).map_err(runtime_error_to_py)\<close>, \<open>mark\<close> and \<open>unmark\<close> are
  \<open>seen.insert\<close> with its check and \<open>seen.remove\<close>, and \<open>finish\<close> is the end of the function:
  \<open>tracker.exit(); result\<close>.
\<close>

type_synonym 'a p2j = "(limit_tracker \<times> nat set, py_exc, 'a) comp"

definition charge :: "nat \<Rightarrow> (limit_tracker \<times> 'x, py_exc, unit) comp" where
  "charge n = on_tracker runtime_error_to_py (add_bytes n)"

definition enter_py :: "(limit_tracker \<times> 'x, py_exc, unit) comp" where
  "enter_py = on_tracker runtime_error_to_py enter"

definition mark :: "nat \<Rightarrow> string \<Rightarrow> unit p2j" where
  "mark p what s =
     (if p \<in> snd s
      then (Inl (PyRuntimeError (''Circular reference detected while converting Python '' @ what)), s)
      else (Inr (), (fst s, insert p (snd s))))"

definition unmark :: "nat \<Rightarrow> unit p2j" where
  "unmark p s = (Inr (), (fst s, snd s - {p}))"

definition finish :: "py_exc + 'a \<Rightarrow> (limit_tracker \<times> 'x, py_exc, 'a) comp" where
  "finish r = sthen leave (slift r)"

definition extract_string :: "py_env \<Rightarrow> py_val \<Rightarrow> py_exc + string" where
  "extract_string env k = (case k of PStr s \<Rightarrow> Inr s | _ \<Rightarrow> Inl (key_error env k))"

text \<open>The \<open>PyDateTime\<close> branch: normalise to UTC, read the timestamp, check the range, round.\<close>

definition rbind :: "'e + 'a \<Rightarrow> ('a \<Rightarrow> 'e + 'b) \<Rightarrow> 'e + 'b" where
  "rbind r f = (case r of Inl e \<Rightarrow> Inl e | Inr a \<Rightarrow> f a)"

definition datetime_to_ms :: "py_env \<Rightarrow> nat \<Rightarrow> py_exc + int" where
  "datetime_to_ms env d =
     rbind (dt_is_naive env d) (\<lambda>naive.
     rbind (if naive then dt_replace_utc env d else dt_astimezone_utc env d) (\<lambda>u.
     rbind (dt_timestamp env u) (\<lambda>ts.
       if \<not> f64_is_finite ts
       then Inl (PyRuntimeError ''datetime.timestamp returned non-finite value'')
       else
         let epoch_ms = f64_mul_const 1000 ts
         in if \<not> f64_is_finite epoch_ms \<or> f64_less epoch_ms (of_int (- (2 ^ 63)))
               \<or> f64_greater epoch_ms (of_int (2 ^ 63))
            then Inl (PyRuntimeError ''Datetime value out of range for JavaScript Date'')
            else Inr (f64_round_as_i64 epoch_ms))))"

definition string_to_js :: "string \<Rightarrow> js_value p2j" where
  "string_to_js s st =
     (if max_bytes (fst st) < length s
      then (Inl (PyRuntimeError (byte_limit_message (length s) (max_bytes (fst st)))), st)
      else sthen (charge (length s)) (sthen (charge 16) (finish (Inr (JString s)))) st)"

text \<open>
  The recursion is over the object graph and is bounded by the depth limit; \<open>fuel\<close> counts the
  levels that are left, and \<open>python_to_js_value_tracked\<close> starts with one more than \<open>enter\<close>
  admits, so that the level limit always fires before the fuel is out.
\<close>

fun py_to_js :: "py_env \<Rightarrow> py_heap \<Rightarrow> nat \<Rightarrow> py_val \<Rightarrow> js_value p2j" where
  "py_to_js env heap 0 obj = sthen enter_py (sfail (PyRuntimeError ''level limit''))"
| "py_to_js env heap (Suc fuel) obj = sthen enter_py
     (case obj of
        PNone \<Rightarrow> sthen (charge 4) (finish (Inr JNull))
      | PUndefined \<Rightarrow> sthen (charge 0) (finish (Inr JUndefined))
      | PStreamSource src \<Rightarrow>
          sthen (charge 4) (sbind (slift (stream_id_for_transfer src)) (\<lambda>i. finish (Inr (JPyStream i))))
      | PBytesObj data \<Rightarrow> sthen (charge (length data)) (finish (Inr (JBytes data)))
      | PByteArray data \<Rightarrow> sthen (charge (length data)) (finish (Inr (JBytes data)))
      | PMemoryView r \<Rightarrow>
          sbind (slift r) (\<lambda>data. sthen (charge (length data)) (finish (Inr (JBytes data))))
      | PRef p \<Rightarrow>
          (case heap p of
             Some (PListO xs) \<Rightarrow>
               sthen (mark p ''list'')
              (sthen (charge 16)
              (sthen (charge (usat_mul (length xs) 8))
              (sbind (smap (py_to_js env heap fuel) xs) (\<lambda>items.
               sthen (unmark p) (finish (Inr (JArray items)))))))
           | Some (PDictO es) \<Rightarrow>
               sthen (mark p ''dict'')
              (sthen (charge 24)
              (sthen (charge (usat_mul (length es) 16))
              (sbind (smap (\<lambda>(k, v).
                 sbind (slift (extract_string env k)) (\<lambda>ks.
                 sthen (charge (length ks))
                (sthen (charge 8)
                (sbind (py_to_js env heap fuel v) (\<lambda>j. sret (ks, j)))))) es) (\<lambda>entries.
               sthen (unmark p) (finish (Inr (JObject (im_from_entries entries))))))))
           | Some (PSetO xs) \<Rightarrow>
               sthen (mark p ''set'')
              (sthen (charge 24)
              (sthen (charge (usat_mul (length xs) 8))
              (sbind (smap (py_to_js env heap fuel) xs) (\<lambda>items.
               sthen (unmark p) (finish (Inr (JSet items)))))))
           | Some (PFrozenSetO xs) \<Rightarrow>
               sthen (mark p ''frozenset'')
              (sthen (charge 24)
              (sthen (charge (usat_mul (length xs) 8))
              (sbind (smap (py_to_js env heap fuel) xs) (\<lambda>items.
               sthen (unmark p) (finish (Inr (JSet items)))))))
           | None \<Rightarrow>
               finish (Inl (PyRuntimeError ''Unsupported Python type for JSValue conversion'')))
      | PDateTime d \<Rightarrow>
          sthen (charge 16) (sbind (slift (datetime_to_ms env d)) (\<lambda>ms. finish (Inr (JDate ms))))
      | PBool b \<Rightarrow> sthen (charge 1) (finish (Inr (JBool b)))
      | PInt i \<Rightarrow>
          (if in_i64 i then sthen (charge 8) (finish (Inr (JInt i)))
           else sthen (charge (big_len env i)) (finish (Inr (JBigInt i))))
      | PFloat f \<Rightarrow> sthen (charge 8) (finish (Inr (JFloat f)))
      | PStr s \<Rightarrow> string_to_js s
      | PJsFunction f \<Rightarrow>
          sbind (slift (function_id_for_transfer env f)) (\<lambda>i.
            sthen (charge 8) (finish (Inr (JFunction i))))
      | PJsStream _ \<Rightarrow> finish (Inl (PyRuntimeError ''Unsupported Python type for JSValue conversion''))
      | POther n \<Rightarrow>
          (case other_index env n of
             Some i \<Rightarrow>
               if in_i64 i then sthen (charge 8) (finish (Inr (JInt i)))
               else sthen (charge (big_len env i)) (finish (Inr (JBigInt i)))
           | None \<Rightarrow>
               (case other_float env n of
                  Some f \<Rightarrow> sthen (charge 8) (finish (Inr (JFloat f)))
                | None \<Rightarrow> finish (Inl (PyRuntimeError ''Unsupported Python type for JSValue conversion'')))))"

definition python_to_js_value_tracked ::
  "py_env \<Rightarrow> py_heap \<Rightarrow> py_val \<Rightarrow> (limit_tracker, py_exc, js_value) comp" where
  "python_to_js_value_tracked env heap obj t =
     (case py_to_js env heap (Suc (max_depth t - current_depth t)) obj (t, {}) of
        (r, (t', _)) \<Rightarrow> (r, t'))"

definition python_to_js_value ::
  "py_env \<Rightarrow> py_heap \<Rightarrow> serialization_limits \<Rightarrow> py_val \<Rightarrow> py_exc + js_value" where
  "python_to_js_value env heap limits obj =
     fst (python_to_js_value_tracked env heap obj
       (tracker_new (lim_depth limits) (lim_bytes limits)))"

section \<open>JavaScript to Python\<close>

text \<open>
  The converter builds fresh Python containers and, for functions and streams, proxies whose id
  the handle tracks (\<open>JsFunction::new\<close>, \<open>JsStream::new\<close>).
\<close>

record py_store =
  py_heap_of :: py_heap
  py_next :: nat
  tracked_fns :: "u32 set"
  tracked_streams :: "u32 set"

type_synonym 'a j2p = "(limit_tracker \<times> py_store, py_exc, 'a) comp"

definition alloc :: "nat j2p" where
  "alloc s = (Inr (py_next (snd s)), (fst s, (snd s)\<lparr>py_next := Suc (py_next (snd s))\<rparr>))"

definition store_cont :: "nat \<Rightarrow> py_cont \<Rightarrow> unit j2p" where
  "store_cont p c s = (Inr (), (fst s, (snd s)\<lparr>py_heap_of := (py_heap_of (snd s))(p \<mapsto> c)\<rparr>))"

definition new_js_function :: "u32 \<Rightarrow> py_val j2p" where
  "new_js_function i s =
     (Inr (PJsFunction \<lparr>jf_id = i, jf_closed = False, jf_has_handle = True\<rparr>),
      (fst s, (snd s)\<lparr>tracked_fns := insert i (tracked_fns (snd s))\<rparr>))"

definition new_js_stream :: "u32 \<Rightarrow> py_val j2p" where
  "new_js_stream i s =
     (Inr (PJsStream i),
      (fst s, (snd s)\<lparr>tracked_streams := insert i (tracked_streams (snd s))\<rparr>))"

text \<open>\<open>datetime.fromtimestamp(epoch_ms as f64 / 1000.0, timezone.utc)\<close>\<close>

definition ms_to_datetime :: "py_env \<Rightarrow> int \<Rightarrow> py_exc + py_val" where
  "ms_to_datetime env ms =
     rbind (dt_fromtimestamp_utc env (f64_div_const 1000 (f64_of_int ms))) (\<lambda>d. Inr (PDateTime d))"

definition epoch_payload :: "js_value \<Rightarrow> py_exc + int" where
  "epoch_payload v =
     (case v of
        JInt i \<Rightarrow> Inr i
      | JFloat f \<Rightarrow> if f64_is_finite f then Inr (f64_as_i64 f)
          else Inl (PyRuntimeError ''Invalid epoch_ms payload for Date'')
      | _ \<Rightarrow> Inl (PyRuntimeError ''Invalid epoch_ms payload for Date''))"

definition tag_of :: "(string, js_value) imap \<Rightarrow> string option" where
  "tag_of m = (case map_of m TYPE_TAG of Some (JString t) \<Rightarrow> Some t | _ \<Rightarrow> None)"

lemma map_of_JArray_size [termination_simp]:
  fixes x :: js_value
  assumes m: "map_of m k = Some (JArray vs)" and x: "x \<in> set vs"
  shows "size x < Suc (size_list (\<lambda>p. Suc (size (snd p))) m)"
proof -
  have "size x < size (JArray vs)"
    using x by (simp add: less_Suc_eq_le size_list_estimation')
  also have "\<dots> \<le> Suc (size (snd (k, JArray vs)))" by simp
  also have "\<dots> \<le> size_list (\<lambda>p. Suc (size (snd p))) m"
    using map_of_SomeD [OF m] by (rule size_list_estimation') simp
  finally show ?thesis by simp
qed

text \<open>
  \<open>js_value_to_python_tracked\<close> is \<open>enter\<close>, the body, \<open>exit\<close>; the body's error is returned after
  the \<open>exit\<close>.
\<close>

definition level :: "(limit_tracker \<times> 'x, py_exc, 'a) comp \<Rightarrow> (limit_tracker \<times> 'x, py_exc, 'a) comp" where
  "level body = sthen enter_py (\<lambda>s. case body s of (r, s') \<Rightarrow> (r, (exit_level (fst s'), snd s')))"

fun js_to_py :: "py_env \<Rightarrow> bool \<Rightarrow> js_value \<Rightarrow> py_val j2p" where
  "js_to_py env has_handle JUndefined = level (sret PUndefined)"
| "js_to_py env has_handle JNull = level (sthen (charge 4) (sret PNone))"
| "js_to_py env has_handle (JBool b) = level (sthen (charge 1) (sret (PBool b)))"
| "js_to_py env has_handle (JInt i) = level (sthen (charge 8) (sret (PInt i)))"
| "js_to_py env has_handle (JBigInt i) =
     level (sthen (charge (big_len env i)) (sret (PInt i)))"
| "js_to_py env has_handle (JFloat f) = level (sthen (charge 8) (sret (PFloat f)))"
| "js_to_py env has_handle (JString s) =
     level (sthen (charge (length s)) (sthen (charge 16) (sret (PStr s))))"
| "js_to_py env has_handle (JBytes bs) =
     level (sthen (charge (length bs)) (sret (PBytesObj bs)))"
| "js_to_py env has_handle (JArray items) =
     level (sthen (charge 16) (sthen (charge (usat_mul (length items) 8))
    (sbind alloc (\<lambda>p.
     sbind (smap (js_to_py env has_handle) items) (\<lambda>xs.
     sthen (store_cont p (PListO xs)) (sret (PRef p)))))))"
| "js_to_py env has_handle (JSet items) =
     level (sthen (charge 24) (sthen (charge (usat_mul (length items) 8))
    (sbind alloc (\<lambda>p.
     sbind (sfold (\<lambda>acc x. sbind (js_to_py env has_handle x) (\<lambda>y. slift (set_add env y acc)))
       [] items) (\<lambda>elems.
     sthen (store_cont p (PSetO elems)) (sret (PRef p)))))))"
| "js_to_py env has_handle (JObject m) =
     level (sthen (charge 24) (sthen (charge (usat_mul (length m) 16))
    (let plain =
       sbind alloc (\<lambda>p.
       sbind (smap (\<lambda>(k, v).
         sthen (charge (length k)) (sthen (charge 8)
        (sbind (js_to_py env has_handle v) (\<lambda>x. sret (PStr k, x))))) m) (\<lambda>es.
       sthen (store_cont p (PDictO (im_from_entries es))) (sret (PRef p))))
     in (if tag_of m = Some UNDEFINED_TYPE then sret PUndefined
         else if tag_of m = Some DATE_TYPE then
           (case map_of m DATE_EPOCH_KEY of
              Some e \<Rightarrow> slift (rbind (epoch_payload e) (ms_to_datetime env))
            | None \<Rightarrow> plain)
         else if tag_of m = Some SET_TYPE then
           (case map_of m SET_VALUES_KEY of
              Some (JArray vs) \<Rightarrow>
                sbind alloc (\<lambda>p.
                sbind (sfold (\<lambda>acc x. sbind (js_to_py env has_handle x) (\<lambda>y. slift (set_add env y acc)))
                  [] vs) (\<lambda>elems.
                sthen (store_cont p (PSetO elems)) (sret (PRef p))))
            | _ \<Rightarrow> plain)
         else if tag_of m = Some BIGINT_TYPE then
           (case map_of m BIGINT_VALUE_KEY of
              Some (JString text) \<Rightarrow>
                (case big_parse env text of
                   Some i \<Rightarrow> sret (PInt i)
                 | None \<Rightarrow> sfail (PyRuntimeError ''Invalid BigInt payload from JavaScript''))
            | _ \<Rightarrow> plain)
         else plain))))"
| "js_to_py env has_handle (JDate ms) =
     level (sthen (charge 16) (slift (ms_to_datetime env ms)))"
| "js_to_py env has_handle (JFunction i) =
     level (sthen (charge 8)
    (if has_handle then sbind (new_js_function i) (\<lambda>f. sret f)
     else sfail (PyRuntimeError ''RuntimeHandle required to convert JSValue::Function'')))"
| "js_to_py env has_handle (JJsStream i) =
     level (sthen (charge 8)
    (if has_handle then sbind (new_js_stream i) (\<lambda>f. sret f)
     else sfail (PyRuntimeError ''RuntimeHandle required to convert JSValue::JsStream'')))"
| "js_to_py env has_handle (JPyStream i) =
     level
    (sfail (PyRuntimeError ''PyStream placeholders cannot be materialized on the Python side''))"

definition js_value_to_python ::
  "py_env \<Rightarrow> bool \<Rightarrow> js_value \<Rightarrow> py_store \<Rightarrow> (py_exc + py_val) \<times> py_store" where
  "js_value_to_python env has_handle v st =
     (case js_to_py env has_handle v (tracker_new usize_max usize_max, st) of
        (r, (_, st')) \<Rightarrow> (r, st'))"

text \<open>One concrete environment and an empty store, for evaluation.\<close>

definition sample_env :: py_env where
  "sample_env = \<lparr>big_parse = (\<lambda>_. None), big_len = (\<lambda>i. nat \<bar>i\<bar>), dt_is_naive = (\<lambda>_. Inr False),
     dt_replace_utc = Inr, dt_astimezone_utc = Inr, dt_timestamp = (\<lambda>d. Inr (Fin (of_nat d))),
     dt_fromtimestamp_utc = (\<lambda>_. Inr 0), set_add = (\<lambda>x xs. Inr (xs @ [x])),
     runtime_is_shutdown = False, other_index = (\<lambda>_. None), other_float = (\<lambda>_. None), key_error = (\<lambda>_. PyRuntimeError ''key'')\<rparr>"

definition empty_store :: py_store where
  "empty_store = \<lparr>py_heap_of = (\<lambda>_. None), py_next = 0, tracked_fns = {}, tracked_streams = {}\<rparr>"

end
