(* ===== verification/Peno_ConvLaws.thy ===== *)
theory Peno_ConvLaws
  imports Peno_Conversion
begin

text \<open>
  The metering contract of the two converters of \<open>conversion.rs\<close>, their completeness on plain
  values, and the round trip from JavaScript to Python and back.
\<close>

section \<open>Steps of a converter\<close>

lemma charge_Inr:
  "charge n (t, x) = (Inr u, (t', x')) \<longleftrightarrow> add_bytes n t = (Inr u, t') \<and> x' = x"
  by (auto simp: charge_def on_tracker_Inr)

lemma enter_py_Inr:
  "enter_py (t, x) = (Inr u, (t', x')) \<longleftrightarrow> enter t = (Inr u, t') \<and> x' = x"
  by (auto simp: enter_py_def on_tracker_Inr)

lemma add_bytes_mul:
  assumes "tracker_wf t" "add_bytes (usat_mul a b) t = (Inr u, t')"
  shows "charges (a * b) t t'"
proof (cases "a * b \<le> usize_max")
  case True
  then have "usat_mul a b = a * b" by (simp add: usat_mul_def)
  with assms show ?thesis using add_bytes_charges by metis
next
  case False
  then have "usat_mul a b = usize_max" by (simp add: usat_mul_def)
  with assms have False
    by (auto simp: add_bytes_def usat_add_def tracker_wf_def Let_def split: if_splits)
  then show ?thesis ..
qed

lemma finish_Inr:
  "finish r (t, x) = (Inr v, (t', x')) \<longleftrightarrow> r = Inr v \<and> t' = exit_level t \<and> x' = x"
  by (auto simp: finish_def sthen_Inr)

lemma level_Inr:
  "level body (t, x) = (Inr v, (t', x')) \<longleftrightarrow>
     (\<exists>t1 t2. enter t = (Inr (), t1) \<and> body (t1, x) = (Inr v, (t2, x')) \<and> t' = exit_level t2)"
proof -
  have out: "(case y of (r, s') \<Rightarrow> (r, (exit_level (fst s'), snd s'))) = (Inr v, (t', x'))
      \<longleftrightarrow> (\<exists>t2. y = (Inr v, (t2, x')) \<and> t' = exit_level t2)" for y
    by (cases y) auto
  then have "level body (t, x) = (Inr v, (t', x')) \<longleftrightarrow> (\<exists>t1. enter t = (Inr (), t1)
      \<and> (\<exists>t2. body (t1, x) = (Inr v, (t2, x')) \<and> t' = exit_level t2))"
    by (auto simp: level_def sthen_Inr enter_py_Inr out)
  then show ?thesis by blast
qed

text \<open>A level whose body charged and whose children fit.\<close>

definition fits :: "nat \<Rightarrow> nat \<Rightarrow> limit_tracker \<Rightarrow> limit_tracker \<Rightarrow> bool" where
  "fits w h t t' \<longleftrightarrow> charges w t t' \<and> current_depth t + h \<le> max_depth t"

lemma fits_level:
  assumes "tracker_wf t" "enter t = (Inr a, t1)" "charges w t1 t2"
    and "current_depth t1 + h \<le> max_depth t1"
  shows "fits w (Suc h) t (exit_level t2)"
  using level_charges [OF assms(1,2,3)] enter_Inr [OF assms(1,2)] assms(4) by (simp add: fits_def)

lemma fits_leaf:
  "tracker_wf t \<Longrightarrow> enter t = (Inr a, t1) \<Longrightarrow> charges w t1 t2 \<Longrightarrow> fits w 1 t (exit_level t2)"
  using fits_level [of t a t1 w t2 0] enter_Inr [of t a t1] by simp

lemma enter_wf: "tracker_wf t \<Longrightarrow> enter t = (Inr a, t1) \<Longrightarrow> tracker_wf t1"
  by (rule enter_Inr(3))

text \<open>Lists of children, measured on what goes in and on what comes out.\<close>

lemma smap_fits_in:
  assumes "smap f xs (t, x) = (Inr ys, (t', x'))" "tracker_wf t"
    and "\<And>v t x y t' x'. v \<in> set xs \<Longrightarrow> tracker_wf t \<Longrightarrow> f v (t, x) = (Inr y, (t', x'))
          \<Longrightarrow> fits (w v) (h v) t t'"
  shows "charges (sum_list (map w xs)) t t'"
    "v \<in> set xs \<Longrightarrow> current_depth t + h v \<le> max_depth t"
proof -
  have "charges (sum_list (map w xs)) t t' \<and> (\<forall>v \<in> set xs. current_depth t + h v \<le> max_depth t)"
    using assms
  proof (induction xs arbitrary: t x ys)
    case (Cons u us)
    from Cons.prems(1) obtain y t1 x1 zs where
      f: "f u (t, x) = (Inr y, (t1, x1))" and r: "smap f us (t1, x1) = (Inr zs, (t', x'))"
      by (auto simp: sbind_Inr)
    have m: "fits (w u) (h u) t t1" using Cons.prems(3) [OF _ Cons.prems(2) f] by simp
    then have wf: "tracker_wf t1" using Cons.prems(2) charges_wf by (auto simp: fits_def)
    have "charges (sum_list (map w us)) t1 t' \<and> (\<forall>v \<in> set us. current_depth t1 + h v \<le> max_depth t1)"
      using Cons.prems(3) by (intro Cons.IH [OF r wf]) (meson list.set_intros(2))
    with m show ?case
      using charges_trans by (auto simp: fits_def charges_def meters_def)
  qed simp
  then show "charges (sum_list (map w xs)) t t'"
    and "v \<in> set xs \<Longrightarrow> current_depth t + h v \<le> max_depth t" by auto
qed

lemma smap_fits_out:
  assumes "smap f xs (t, x) = (Inr ys, (t', x'))" "tracker_wf t"
    and "\<And>v t x y t' x'. v \<in> set xs \<Longrightarrow> tracker_wf t \<Longrightarrow> f v (t, x) = (Inr y, (t', x'))
          \<Longrightarrow> fits (w y) (h y) t t' \<and> x' = x"
  shows "charges (sum_list (map w ys)) t t'"
    "y \<in> set ys \<Longrightarrow> current_depth t + h y \<le> max_depth t" "x' = x"
proof -
  have "charges (sum_list (map w ys)) t t' \<and> (\<forall>y \<in> set ys. current_depth t + h y \<le> max_depth t) \<and> x' = x"
    using assms
  proof (induction xs arbitrary: t x ys)
    case (Cons u us)
    from Cons.prems(1) obtain y t1 x1 zs where
      f: "f u (t, x) = (Inr y, (t1, x1))" and r: "smap f us (t1, x1) = (Inr zs, (t', x'))"
      and ys: "ys = y # zs"
      by (auto simp: sbind_Inr)
    have m: "fits (w y) (h y) t t1" "x1 = x" using Cons.prems(3) [OF _ Cons.prems(2) f] by simp_all
    then have wf: "tracker_wf t1" using Cons.prems(2) charges_wf by (auto simp: fits_def)
    have "charges (sum_list (map w zs)) t1 t'
        \<and> (\<forall>y \<in> set zs. current_depth t1 + h y \<le> max_depth t1) \<and> x' = x1"
      using Cons.prems(3) by (intro Cons.IH [OF r wf]) (meson list.set_intros(2))
    with m ys show ?case
      using charges_trans by (auto simp: fits_def charges_def meters_def)
  qed simp
  then show "charges (sum_list (map w ys)) t t'"
    and "y \<in> set ys \<Longrightarrow> current_depth t + h y \<le> max_depth t" and "x' = x" by auto
qed

lemma sfold_fits:
  assumes "sfold f a xs (t, x) = (Inr b, (t', x'))" "tracker_wf t"
    and "\<And>v t x a b t' x'. v \<in> set xs \<Longrightarrow> tracker_wf t \<Longrightarrow> f a v (t, x) = (Inr b, (t', x'))
          \<Longrightarrow> fits (w v) (h v) t t'"
  shows "charges (sum_list (map w xs)) t t'"
    "v \<in> set xs \<Longrightarrow> current_depth t + h v \<le> max_depth t"
proof -
  have "charges (sum_list (map w xs)) t t' \<and> (\<forall>v \<in> set xs. current_depth t + h v \<le> max_depth t)"
    using assms
  proof (induction xs arbitrary: t x a)
    case (Cons u us)
    from Cons.prems(1) obtain c t1 x1 where
      f: "f a u (t, x) = (Inr c, (t1, x1))" and r: "sfold f c us (t1, x1) = (Inr b, (t', x'))"
      by (auto simp: sbind_Inr)
    have m: "fits (w u) (h u) t t1" using Cons.prems(3) [OF _ Cons.prems(2) f] by simp
    then have wf: "tracker_wf t1" using Cons.prems(2) charges_wf by (auto simp: fits_def)
    have "charges (sum_list (map w us)) t1 t' \<and> (\<forall>v \<in> set us. current_depth t1 + h v \<le> max_depth t1)"
      using Cons.prems(3) by (intro Cons.IH [OF r wf]) (meson list.set_intros(2))
    with m show ?case
      using charges_trans by (auto simp: fits_def charges_def meters_def)
  qed simp
  then show "charges (sum_list (map w xs)) t t'"
    and "v \<in> set xs \<Longrightarrow> current_depth t + h v \<le> max_depth t" by auto
qed

lemma children_levels:
  assumes "\<And>v. v \<in> set vs \<Longrightarrow> (d :: nat) + h v \<le> m" "d \<le> m"
  shows "d + fold max (map h vs) 0 \<le> m"
proof -
  have "fold max (map h vs) 0 \<le> m - d"
    using assms by (auto simp: fold_max_le add.commute le_diff_conv2)
  with assms(2) show ?thesis by simp
qed

lemma children_in:
  assumes "smap f xs (t, x) = (Inr ys, (t', x'))" "tracker_wf t"
    and "\<And>v t x y t' x'. v \<in> set xs \<Longrightarrow> tracker_wf t \<Longrightarrow> f v (t, x) = (Inr y, (t', x'))
          \<Longrightarrow> fits (w v) (h v) t t'"
  shows "charges (sum_list (map w xs)) t t'" "current_depth t + fold max (map h xs) 0 \<le> max_depth t"
  using smap_fits_in [where w = w and h = h, OF assms] assms(2)
  by (auto intro!: children_levels simp: tracker_wf_def)

lemma children_fold:
  assumes "sfold f a xs (t, x) = (Inr b, (t', x'))" "tracker_wf t"
    and "\<And>v t x a b t' x'. v \<in> set xs \<Longrightarrow> tracker_wf t \<Longrightarrow> f a v (t, x) = (Inr b, (t', x'))
          \<Longrightarrow> fits (w v) (h v) t t'"
  shows "charges (sum_list (map w xs)) t t'" "current_depth t + fold max (map h xs) 0 \<le> max_depth t"
  using sfold_fits [where w = w and h = h, OF assms] assms(2)
  by (auto intro!: children_levels simp: tracker_wf_def)

text \<open>The two charges that open every container.\<close>

lemma container_charges:
  assumes "tracker_wf t" "charge a (t, x) = (Inr u, (t1, x1))"
    "charge (usat_mul n b) (t1, x1) = (Inr u', (t2, x2))"
  shows "charges (a + n * b) t t2" "x2 = x" "tracker_wf t2"
proof -
  have c1: "charges a t t1" "x1 = x"
    using assms(1,2) by (auto simp: charge_Inr dest: add_bytes_charges)
  then have "tracker_wf t1" using assms(1) charges_wf by blast
  then have c2: "charges (n * b) t1 t2" "x2 = x1"
    using assms(3) by (auto simp: charge_Inr dest: add_bytes_mul)
  from c1 c2 show "charges (a + n * b) t t2" "x2 = x" using charges_trans by blast+
  then show "tracker_wf t2" using assms(1) charges_wf by blast
qed

lemma container_level:
  assumes "tracker_wf t" "enter t = (Inr u, t1)" "charge a (t1, x) = (Inr u', (t2, x1))"
    "charge (usat_mul n b) (t2, x1) = (Inr u'', (t3, x2))"
    and "charges w t3 t4" "current_depth t3 + h \<le> max_depth t3"
  shows "fits (a + n * b + w) (Suc h) t (exit_level t4)"
proof -
  have c: "charges (a + n * b) t1 t3"
    using container_charges [OF enter_wf [OF assms(1,2)] assms(3,4)] by simp
  then have "current_depth t1 + h \<le> max_depth t1"
    using assms(6) by (simp add: charges_def meters_def)
  with fits_level [OF assms(1,2) charges_trans [OF c assms(5)]] show ?thesis by simp
qed

section \<open>JavaScript to Python keeps the metering contract\<close>

lemma fits_leaf_charge:
  assumes "tracker_wf t" "enter t = (Inr u, t1)" "add_bytes n t1 = (Inr u', t2)"
  shows "fits n (Suc 0) t (exit_level t2)"
  by (rule fits_leaf [unfolded One_nat_def, OF assms(1,2) add_bytes_charges [OF enter_wf [OF assms(1,2)] assms(3)]])

lemma fits_leaf_two:
  assumes "tracker_wf t" "enter t = (Inr u, t1)" "add_bytes m t1 = (Inr u', t2)"
    and "add_bytes n t2 = (Inr u'', t3)"
  shows "fits (m + n) (Suc 0) t (exit_level t3)"
proof -
  have c: "charges m t1 t2" by (rule add_bytes_charges [OF enter_wf [OF assms(1,2)] assms(3)])
  have "charges n t2 t3"
    by (rule add_bytes_charges [OF charges_wf [OF c enter_wf [OF assms(1,2)]] assms(4)])
  then show ?thesis by (rule fits_leaf [unfolded One_nat_def, OF assms(1,2) charges_trans [OF c]])
qed

lemma fits_leaf_free:
  assumes "tracker_wf t" "enter t = (Inr u, t1)"
  shows "fits 0 (Suc 0) t (exit_level t1)"
  by (rule fits_leaf [unfolded One_nat_def, OF assms charges_0 [OF enter_wf [OF assms]]])

lemma elem_size:
  "x \<in> set vs \<Longrightarrow> size x < size (JArray vs)" "x \<in> set vs \<Longrightarrow> size x < size (JSet vs)"
  "(k, x) \<in> set m \<Longrightarrow> size x < size (JObject m)"
  by (auto simp: less_Suc_eq_le size_list_estimation' intro: size_pair_in)

lemma charges_then_fits:
  "charges n t t1 \<Longrightarrow> fits w h t1 t2 \<Longrightarrow> fits (n + w) h t t2"
  using charges_trans by (auto simp: fits_def charges_def meters_def)

lemma fits_weaken: "fits w h t t' \<Longrightarrow> w' \<le> w \<Longrightarrow> h' \<le> h \<Longrightarrow> fits w' h' t t'"
  using charges_weaken by (auto simp: fits_def)

text \<open>A dict entry: its key, eight bytes, its value.\<close>

lemma entry_fits:
  assumes "tracker_wf t" "sthen (charge a) (sthen (charge b) (sbind f (\<lambda>x. sret (g x)))) (t, x) = (Inr y, (t', x'))"
    and "\<And>t1 x1 z. tracker_wf t1 \<Longrightarrow> f (t1, x1) = (Inr z, (t', x')) \<Longrightarrow> y = g z \<Longrightarrow> fits (w z) (h z) t1 t'"
  obtains z where "y = g z" "fits (a + b + w z) (h z) t t'"
proof -
  from assms(2) obtain t1 t2 z where run: "add_bytes a t = (Inr (), t1)" "add_bytes b t1 = (Inr (), t2)"
    "f (t2, x) = (Inr z, (t', x'))" and y: "y = g z"
    by (auto simp: sthen_Inr sbind_Inr charge_Inr)
  have c: "charges a t t1" by (rule add_bytes_charges [OF assms(1) run(1)])
  then have "charges (a + b) t t2"
    by (rule charges_trans) (rule add_bytes_charges [OF charges_wf [OF c assms(1)] run(2)])
  then have "fits (a + b + w z) (h z) t t'"
    using charges_then_fits assms(1,3) run(3) y charges_wf by blast
  with y show thesis by (rule that)
qed

lemma tag_of_carries: "carries_tag m \<longleftrightarrow> tag_of m \<noteq> None"
  by (auto simp: carries_tag_def tag_of_def split: option.splits js_value.splits)

text \<open>
  What a successful conversion of an object did after its two opening charges: an untagged object
  became a dict; a tagged one became a leaf, a set or a dict.
\<close>

abbreviation (input) "put_entry env hh \<equiv> \<lambda>(k, v). sthen (charge (length k)) (sthen (charge 8)
  (sbind (js_to_py env hh v) (\<lambda>x. sret (PStr k, x))))"

abbreviation (input) "put_elem env hh \<equiv> \<lambda>acc x. sbind (js_to_py env hh x) (\<lambda>y. slift (set_add env y acc))"

lemma js_to_py_object_cases:
  assumes "js_to_py env hh (JObject m) (t, st) = (Inr p, (t', st'))"
  obtains t1 t2 t3 x1 x2 st3 t4 where
    "enter t = (Inr (), t1)" "charge 24 (t1, st) = (Inr (), (t2, x1))"
    "charge (usat_mul (length m) 16) (t2, x1) = (Inr (), (t3, x2))" "t' = exit_level t4"
    "(carries_tag m \<and> t4 = t3)
      \<or> (\<exists>es st4. smap (put_entry env hh) m (t3, st3) = (Inr es, (t4, st4)))
      \<or> (carries_tag m \<and> (\<exists>vs acc st4. map_of m SET_VALUES_KEY = Some (JArray vs)
            \<and> sfold (put_elem env hh) [] vs (t3, st3) = (Inr acc, (t4, st4))))"
proof -
  let ?plain = "sbind alloc (\<lambda>p. sbind (smap (put_entry env hh) m) (\<lambda>es.
       sthen (store_cont p (PDictO (im_from_entries es))) (sret (PRef p))))"
  let ?set = "\<lambda>vs. sbind alloc (\<lambda>p. sbind (sfold (put_elem env hh) [] vs)
       (\<lambda>elems. sthen (store_cont p (PSetO elems)) (sret (PRef p))))"
  from assms obtain t1 t2 t3 x1 x2 t4 where
    open_charges: "enter t = (Inr (), t1)" "charge 24 (t1, st) = (Inr (), (t2, x1))"
      "charge (usat_mul (length m) 16) (t2, x1) = (Inr (), (t3, x2))" "t' = exit_level t4"
    and body: "(if tag_of m = Some UNDEFINED_TYPE then sret PUndefined
         else if tag_of m = Some DATE_TYPE then
           (case map_of m DATE_EPOCH_KEY of
              Some e \<Rightarrow> slift (rbind (epoch_payload e) (ms_to_datetime env))
            | None \<Rightarrow> ?plain)
         else if tag_of m = Some SET_TYPE then
           (case map_of m SET_VALUES_KEY of Some (JArray vs) \<Rightarrow> ?set vs | _ \<Rightarrow> ?plain)
         else if tag_of m = Some BIGINT_TYPE then
           (case map_of m BIGINT_VALUE_KEY of
              Some (JString text) \<Rightarrow>
                (case big_parse env text of
                   Some i \<Rightarrow> sret (PInt i)
                 | None \<Rightarrow> sfail (PyRuntimeError ''Invalid BigInt payload from JavaScript''))
            | _ \<Rightarrow> ?plain)
         else ?plain) (t3, x2) = (Inr p, (t4, st'))"
    by (auto simp: level_Inr sthen_Inr Let_def)
  have "(carries_tag m \<and> t4 = t3) \<or> ?plain (t3, x2) = (Inr p, (t4, st'))
     \<or> (carries_tag m \<and> (\<exists>vs. map_of m SET_VALUES_KEY = Some (JArray vs)
          \<and> ?set vs (t3, x2) = (Inr p, (t4, st'))))"
    using body unfolding tag_of_carries
    by (auto split: if_splits option.split_asm js_value.split_asm simp del: sbind_Inr)
  then show thesis
    using open_charges
    by (intro that [where ?st3.0 = "snd (snd (alloc (t3, x2)))"]) (auto simp: sbind_Inr sthen_Inr alloc_def store_cont_def)
qed

text \<open>A value whose every successful conversion keeps the contract.\<close>

definition metered_in :: "py_env \<Rightarrow> bool \<Rightarrow> js_value \<Rightarrow> bool" where
  "metered_in env hh v \<longleftrightarrow> (\<forall>t st p t' st'. tracker_wf t \<longrightarrow> js_to_py env hh v (t, st) = (Inr p, (t', st'))
     \<longrightarrow> fits (js_weight False (big_len env) v) (js_height False v) t t')"

lemma metered_inD:
  "metered_in env hh v \<Longrightarrow> tracker_wf t \<Longrightarrow> js_to_py env hh v (t, st) = (Inr p, (t', st'))
    \<Longrightarrow> fits (js_weight False (big_len env) v) (js_height False v) t t'"
  unfolding metered_in_def by blast

lemma metered_array:
  assumes "\<And>v. v \<in> set vs \<Longrightarrow> metered_in env hh v"
  shows "metered_in env hh (JArray vs)"
  unfolding metered_in_def
proof (intro allI impI)
  fix t st p t' st' assume wf: "tracker_wf t" and conv: "js_to_py env hh (JArray vs) (t, st) = (Inr p, (t', st'))"
  let ?w = "js_weight False (big_len env)" and ?h = "js_height False"
  from conv obtain t1 t2 t3 x1 x2 u u' st3 ps st4 t4 where
    run: "enter t = (Inr (), t1)" "charge 16 (t1, st) = (Inr u, (t2, x1))"
      "charge (usat_mul (length vs) 8) (t2, x1) = (Inr u', (t3, x2))"
      "smap (js_to_py env hh) vs (t3, st3) = (Inr ps, (t4, st4))" and t': "t' = exit_level t4"
    by (auto simp: level_Inr sthen_Inr sbind_Inr alloc_def store_cont_def)
  have wf3: "tracker_wf t3" using container_charges [OF enter_wf run(2,3)] wf run(1) by blast
  have "charges (sum_list (map ?w vs)) t3 t4" "current_depth t3 + fold max (map ?h vs) 0 \<le> max_depth t3"
    by (rule children_in [where w = ?w and h = ?h, OF run(4) wf3]; use metered_inD [OF assms] in blast)+
  from container_level [OF wf run(1,2,3) this] show "fits (?w (JArray vs)) (?h (JArray vs)) t t'"
    using t' by (simp add: algebra_simps)
qed

lemma metered_set:
  assumes "\<And>v. v \<in> set vs \<Longrightarrow> metered_in env hh v"
  shows "metered_in env hh (JSet vs)"
  unfolding metered_in_def
proof (intro allI impI)
  fix t st p t' st' assume wf: "tracker_wf t" and conv: "js_to_py env hh (JSet vs) (t, st) = (Inr p, (t', st'))"
  let ?w = "js_weight False (big_len env)" and ?h = "js_height False"
  from conv obtain t1 t2 t3 x1 x2 u u' st3 ps st4 t4 where
    run: "enter t = (Inr (), t1)" "charge 24 (t1, st) = (Inr u, (t2, x1))"
      "charge (usat_mul (length vs) 8) (t2, x1) = (Inr u', (t3, x2))"
      "sfold (put_elem env hh) [] vs (t3, st3) = (Inr ps, (t4, st4))" and t': "t' = exit_level t4"
    by (auto simp: level_Inr sthen_Inr sbind_Inr alloc_def store_cont_def)
  have wf3: "tracker_wf t3" using container_charges [OF enter_wf run(2,3)] wf run(1) by blast
  have "charges (sum_list (map ?w vs)) t3 t4" "current_depth t3 + fold max (map ?h vs) 0 \<le> max_depth t3"
    by (rule children_fold [where w = ?w and h = ?h, OF run(4) wf3], use assms in \<open>auto simp: sbind_Inr dest: metered_inD\<close>)+
  from container_level [OF wf run(1,2,3) this] show "fits (?w (JSet vs)) (?h (JSet vs)) t t'"
    using t' by (simp add: algebra_simps)
qed

lemma metered_entry:
  assumes "metered_in env hh v" "tracker_wf t" "put_entry env hh (k, v) (t, x) = (Inr y, (t', x'))"
  shows "fits (length k + 8 + js_weight False (big_len env) v) (js_height False v) t t'"
proof -
  from assms(3) have "sthen (charge (length k)) (sthen (charge 8)
    (sbind (js_to_py env hh v) (\<lambda>x. sret (PStr k, x)))) (t, x) = (Inr y, (t', x'))"
    by simp
  then show ?thesis
    by (rule entry_fits [OF assms(2), where w = "\<lambda>_. js_weight False (big_len env) v" and h = "\<lambda>_. js_height False v"])
      (auto dest: metered_inD [OF assms(1)])
qed

text \<open>What the body of an object has charged; nothing is claimed of a tagged one.\<close>

lemma metered_object_body:
  assumes "\<And>v. size v < size (JObject m) \<Longrightarrow> metered_in env hh v" "tracker_wf t3"
    and "(carries_tag m \<and> t4 = t3)
      \<or> (\<exists>es st4. smap (put_entry env hh) m (t3, st3) = (Inr es, (t4, st4)))
      \<or> (carries_tag m \<and> (\<exists>vs acc st4. map_of m SET_VALUES_KEY = Some (JArray vs)
            \<and> sfold (put_elem env hh) [] vs (t3, st3) = (Inr acc, (t4, st4))))"
  defines "e \<equiv> \<lambda>(k :: string, v). length k + 8 + js_weight False (big_len env) v" and "d \<equiv> \<lambda>(k :: string, v). js_height False v"
  shows "charges (if carries_tag m then 0 else sum_list (map e m)) t3 t4 \<and>
      current_depth t3 + (if carries_tag m then 0 else fold max (map d m) 0) \<le> max_depth t3"
  using assms(3)
proof (elim disjE exE conjE)
  assume "carries_tag m" "t4 = t3"
  then show ?thesis using assms(2) by (auto simp: tracker_wf_def)
next
  fix es st4 assume run: "smap (put_entry env hh) m (t3, st3) = (Inr es, (t4, st4))"
  have entry: "fits (e kv) (d kv) t t'" if "kv \<in> set m" "tracker_wf t"
      "put_entry env hh kv (t, x) = (Inr y, (t', x'))" for kv t x y t' x'
  proof -
    obtain k v where kv: "kv = (k, v)" by force
    have "metered_in env hh v" using assms(1) elem_size(3) that(1) kv by blast
    from metered_entry [OF this that(2) that(3) [unfolded kv]] show ?thesis
      by (simp add: kv e_def d_def)
  qed
  have "charges (sum_list (map e m)) t3 t4" "current_depth t3 + fold max (map d m) 0 \<le> max_depth t3"
    by (rule children_in [where w = e and h = d, OF run assms(2)]; use entry in blast)+
  then show ?thesis using charges_weaken by auto
next
  fix vs acc st4
  assume vs: "map_of m SET_VALUES_KEY = Some (JArray vs)"
    and run: "sfold (put_elem env hh) [] vs (t3, st3) = (Inr acc, (t4, st4))" and "carries_tag m"
  have "metered_in env hh x" if "x \<in> set vs" for x
    using elem_size(1) [OF that] elem_size(3) [OF map_of_SomeD [OF vs]] by (intro assms(1)) linarith
  then have "charges (sum_list (map (js_weight False (big_len env)) vs)) t3 t4"
    by (intro children_fold(1) [where h = "js_height False", OF run assms(2)]) (auto simp: sbind_Inr dest: metered_inD)
  then show ?thesis using charges_weaken \<open>carries_tag m\<close> assms(2) by (auto simp: tracker_wf_def)
qed

lemma metered_object:
  assumes "\<And>v. size v < size (JObject m) \<Longrightarrow> metered_in env hh v"
  shows "metered_in env hh (JObject m)"
  unfolding metered_in_def
proof (intro allI impI)
  fix t st p t' st' assume wf: "tracker_wf t" and conv: "js_to_py env hh (JObject m) (t, st) = (Inr p, (t', st'))"
  obtain t1 t2 t3 x1 x2 st3 t4 where
    run: "enter t = (Inr (), t1)" "charge 24 (t1, st) = (Inr (), (t2, x1))"
      "charge (usat_mul (length m) 16) (t2, x1) = (Inr (), (t3, x2))"
    and t': "t' = exit_level t4"
    and body: "(carries_tag m \<and> t4 = t3)
      \<or> (\<exists>es st4. smap (put_entry env hh) m (t3, st3) = (Inr es, (t4, st4)))
      \<or> (carries_tag m \<and> (\<exists>vs acc st4. map_of m SET_VALUES_KEY = Some (JArray vs)
            \<and> sfold (put_elem env hh) [] vs (t3, st3) = (Inr acc, (t4, st4))))"
    by (rule js_to_py_object_cases [OF conv]) blast
  have wf3: "tracker_wf t3" using container_charges [OF enter_wf run(2,3)] wf run(1) by blast
  show "fits (js_weight False (big_len env) (JObject m)) (js_height False (JObject m)) t t'"
    using container_level [OF wf run metered_object_body [OF assms wf3 body, THEN conjunct1]
        metered_object_body [OF assms wf3 body, THEN conjunct2]] t'
    by (simp add: algebra_simps split: if_splits)
qed

lemma all_metered_in: "metered_in env hh v"
proof (induction v rule: measure_induct_rule [of size])
  case (less v)
  show ?case
  proof (cases v)
    case (JArray vs)
    then show ?thesis using less elem_size(1) by (auto intro: metered_array)
  next
    case (JSet vs)
    then show ?thesis using less elem_size(2) by (auto intro: metered_set)
  next
    case (JObject m)
    then show ?thesis using less by (auto intro: metered_object)
  qed (auto simp: metered_in_def level_Inr sthen_Inr sbind_Inr charge_Inr new_js_function_def new_js_stream_def
      split: if_splits intro: fits_leaf_charge fits_leaf_two fits_leaf_free)
qed

lemma js_to_py_fits:
  assumes "tracker_wf t" "js_to_py env hh v (t, st) = (Inr p, (t', st'))"
  shows "fits (js_weight False (big_len env) v) (js_height False v) t t'"
  using all_metered_in assms by (rule metered_inD)

section \<open>Python to JavaScript keeps the metering contract\<close>

lemma children_out:
  assumes "smap f xs (t, x) = (Inr ys, (t', x'))" "tracker_wf t"
    and "\<And>v t x y t' x'. v \<in> set xs \<Longrightarrow> tracker_wf t \<Longrightarrow> f v (t, x) = (Inr y, (t', x'))
          \<Longrightarrow> fits (w y) (h y) t t' \<and> x' = x"
  shows "charges (sum_list (map w ys)) t t'" "current_depth t + fold max (map h ys) 0 \<le> max_depth t"
    "x' = x" "length ys = length xs"
  using smap_fits_out [where w = w and h = h, OF assms] assms(2) smap_length [OF assms(1)]
  by (auto intro!: children_levels simp: tracker_wf_def)

lemma mark_Inr: "mark p what (t, seen) = (Inr u, s') \<longleftrightarrow> p \<notin> seen \<and> s' = (t, insert p seen)"
  by (auto simp: mark_def)

lemma unmark_Inr: "unmark p (t, seen) = (r, s') \<longleftrightarrow> r = Inr () \<and> s' = (t, seen - {p})"
  by (auto simp: unmark_def)

text \<open>Overwriting a key never adds to what the entries weigh, nor a value that was not converted.\<close>

lemma update_sum: "sum_list (map (g :: _ \<Rightarrow> nat) (AList.update k v m)) \<le> sum_list (map g m) + g (k, v)"
  by (induction m) auto

lemma im_from_entries_bounds:
  fixes g :: "'k \<times> 'v \<Rightarrow> nat"
  shows "sum_list (map g (im_from_entries es)) \<le> sum_list (map g es)"
    "length (im_from_entries es) \<le> length es" "set (im_from_entries es) \<subseteq> set es"
proof -
  have "sum_list (map g (foldl (\<lambda>m (k, v). AList.update k v m) m es)) \<le> sum_list (map g m) + sum_list (map g es)"
    for m and g :: "'k \<times> 'v \<Rightarrow> nat"
  proof (induction es arbitrary: m)
    case (Cons e es)
    obtain k v where "e = (k, v)" by force
    then show ?case
      using Cons.IH [of "AList.update k v m"] update_sum [of g k v m] by simp
  qed simp
  note sum = this
  show "sum_list (map g (im_from_entries es)) \<le> sum_list (map g es)"
    using sum [of g "[]"] by (simp add: im_from_entries_def)
  show "length (im_from_entries es) \<le> length es"
    using sum [of "\<lambda>_. 1" "[]"] by (simp add: im_from_entries_def sum_list_triv)
  have "set (foldl (\<lambda>m (k, v). AList.update k v m) m es) \<subseteq> set m \<union> set es" for m
  proof (induction es arbitrary: m)
    case (Cons e es)
    obtain k v where e: "e = (k, v)" by force
    have "set (AList.update k v m) \<subseteq> insert (k, v) (set m)" by (induction m) auto
    with e show ?case using Cons.IH [of "AList.update k v m"] by auto
  qed simp
  from this [of "[]"] show "set (im_from_entries es) \<subseteq> set es" by (simp add: im_from_entries_def)
qed

text \<open>A Python container: mark it, charge for it, convert the children, unmark it.\<close>

lemma py_container_fits:
  assumes wf: "tracker_wf t"
    and run: "sthen enter_py (sthen (mark p what) (sthen (charge c) (sthen (charge (usat_mul (length xs) b))
      (sbind (smap f xs) (\<lambda>ys. sthen (unmark p) (finish (Inr (g ys)))))))) (t, seen) = (Inr v, (t', seen'))"
    and f: "\<And>x t seen y t' seen'. x \<in> set xs \<Longrightarrow> tracker_wf t \<Longrightarrow> f x (t, seen) = (Inr y, (t', seen'))
      \<Longrightarrow> fits (w y) (h y) t t' \<and> seen' = seen"
  obtains ys where "v = g ys" "length ys = length xs"
    "fits (c + length xs * b + sum_list (map w ys)) (Suc (fold max (map h ys) 0)) t t'" "seen' = seen"
proof -
  from run obtain t1 t2 t3 t4 x2 x3 x4 ys where r: "enter t = (Inr (), t1)" "p \<notin> seen"
      "charge c (t1, insert p seen) = (Inr (), (t2, x2))"
      "charge (usat_mul (length xs) b) (t2, x2) = (Inr (), (t3, x3))"
      "smap f xs (t3, x3) = (Inr ys, (t4, x4))"
    and out: "v = g ys" "t' = exit_level t4" "seen' = x4 - {p}"
    by (auto simp: sthen_Inr sbind_Inr enter_py_Inr mark_Inr unmark_Inr finish_Inr)
  note cc = container_charges [OF enter_wf [OF wf r(1)] r(3,4)]
  have ch: "charges (sum_list (map w ys)) t3 t4" "current_depth t3 + fold max (map h ys) 0 \<le> max_depth t3"
    "x4 = x3" "length ys = length xs"
    by (rule children_out [where w = w and h = h, OF r(5) cc(3)], erule (2) f)+
  have "fits (c + length xs * b + sum_list (map w ys)) (Suc (fold max (map h ys) 0)) t t'"
    unfolding out(2) by (rule container_level [OF wf r(1,3,4) ch(1,2)])
  moreover have "seen' = seen"
    using ch(3) cc(2) r(2) out(3) by auto
  ultimately show thesis using that out(1) ch(4) by blast
qed

lemma fold_max_subset: "set xs \<subseteq> set ys \<Longrightarrow> fold max (map f xs) (0 :: nat) \<le> fold max (map f ys) 0"
  by (force simp: fold_max_le intro: fold_max_ge)

text \<open>A converter of children that keeps the contract and leaves the set of open containers as it was.\<close>

abbreviation (input) "metered_out env f \<equiv> (\<forall>x t seen y t' seen'. tracker_wf t \<longrightarrow> f x (t, seen) = (Inr y, (t', seen'))
  \<longrightarrow> fits (js_weight True (big_len env) y) (js_height True y) t t' \<and> seen' = seen)"

lemma metered_out_entry:
  assumes f: "metered_out env f" and wf: "tracker_wf t"
    and conv: "sbind (slift (extract_string env k)) (\<lambda>ks. sthen (charge (length ks)) (sthen (charge 8)
        (sbind (f x) (\<lambda>j. sret (ks, j))))) (t, seen) = (Inr y, (t', seen'))"
  shows "fits (length (fst y) + 8 + js_weight True (big_len env) (snd y)) (js_height True (snd y)) t t' \<and> seen' = seen"
proof -
  from conv obtain ks where run: "sthen (charge (length ks)) (sthen (charge 8)
      (sbind (f x) (\<lambda>j. sret (ks, j)))) (t, seen) = (Inr y, (t', seen'))"
    by (auto simp: sbind_Inr)
  obtain z where "y = (ks, z)" "fits (length ks + 8 + js_weight True (big_len env) z) (js_height True z) t t'"
    by (rule entry_fits [OF wf run, where w = "js_weight True (big_len env)" and h = "js_height True"]) (use f in blast)
  moreover have "seen' = seen"
  proof -
    from run obtain t1 t2 z where "add_bytes (length ks) t = (Inr (), t1)"
      "add_bytes 8 t1 = (Inr (), t2)" "f x (t2, seen) = (Inr z, (t', seen'))"
      by (auto simp: sthen_Inr sbind_Inr charge_Inr)
    moreover from this have "tracker_wf t2"
      using wf add_bytes_charges charges_wf by meson
    ultimately show ?thesis using f by blast
  qed
  ultimately show ?thesis by simp
qed

lemma metered_out_dict:
  assumes f: "metered_out env f" and wf: "tracker_wf t"
    and run: "sthen enter_py (sthen (mark p what) (sthen (charge 24) (sthen (charge (usat_mul (length es) 16))
      (sbind (smap (\<lambda>(k, v). sbind (slift (extract_string env k)) (\<lambda>ks. sthen (charge (length ks)) (sthen (charge 8)
          (sbind (f v) (\<lambda>j. sret (ks, j)))))) es)
        (\<lambda>ys. sthen (unmark p) (finish (Inr (JObject (im_from_entries ys))))))))) (t, seen) = (Inr v, (t', seen'))"
  shows "fits (js_weight True (big_len env) v) (js_height True v) t t' \<and> seen' = seen"
proof -
  let ?w = "js_weight True (big_len env)"
  let ?e = "\<lambda>(k :: string, v). length k + 8 + ?w v" and ?d = "\<lambda>(k :: string, v). js_height True v"
  let ?f = "\<lambda>(k, v). sbind (slift (extract_string env k)) (\<lambda>ks. sthen (charge (length ks)) (sthen (charge 8)
          (sbind (f v) (\<lambda>j. sret (ks, j)))))"
  have entry: "fits (?e y) (?d y) t t' \<and> seen' = seen"
    if "tracker_wf t" "?f kv (t, seen) = (Inr y, (t', seen'))" for kv t seen y t' seen'
    using metered_out_entry [OF f that(1)] that(2) by (cases kv) (simp add: case_prod_beta)
  obtain ys where v: "v = JObject (im_from_entries ys)"
    and len: "length ys = length es" and seen: "seen' = seen"
    and ch: "fits (24 + length es * 16 + sum_list (map ?e ys)) (Suc (fold max (map ?d ys) 0)) t t'"
    by (rule py_container_fits [OF wf run, where w = ?e and h = ?d, OF entry])
  have "24 + length (im_from_entries ys) * 16 + sum_list (map ?e (im_from_entries ys))
      \<le> 24 + length es * 16 + sum_list (map ?e ys)"
    using im_from_entries_bounds(1) [of ?e ys] im_from_entries_bounds(2) [of ys] len by linarith
  moreover have "fold max (map ?d (im_from_entries ys)) 0 \<le> fold max (map ?d ys) 0"
    by (rule fold_max_subset [OF im_from_entries_bounds(3)])
  ultimately show ?thesis
    using v seen fits_weaken [OF ch] by simp
qed

lemma py_to_js_fits:
  assumes "tracker_wf t" "py_to_js env heap n obj (t, seen) = (Inr v, (t', seen'))"
  shows "fits (js_weight True (big_len env) v) (js_height True v) t t' \<and> seen' = seen"
  using assms
proof (induction n arbitrary: obj t seen v t' seen')
  case 0
  then show ?case by (auto simp: sthen_Inr)
next
  case (Suc n)
  have child: "metered_out env (py_to_js env heap n)" using Suc.IH by blast
  show ?case
  proof (cases obj)
    case (PRef p)
    show ?thesis
    proof (cases "heap p")
      case None
      with PRef Suc.prems show ?thesis by (auto simp: sthen_Inr finish_Inr)
    next
      case (Some c)
      show ?thesis
      proof (cases c)
        case (PDictO es)
        with Suc.prems PRef Some show ?thesis
          by (intro metered_out_dict [OF child, of t p "''dict''" es seen v t' seen']) simp_all
      qed (use Suc.prems PRef Some in \<open>auto elim!: py_container_fits [rotated, where w = "js_weight True (big_len env)"
          and h = "js_height True"] dest: Suc.IH\<close>)
    qed
  qed (use Suc.prems in \<open>auto simp: sthen_Inr sbind_Inr charge_Inr enter_py_Inr finish_Inr string_to_js_def
      split: if_splits option.splits intro: fits_leaf_charge fits_leaf_two fits_leaf_free\<close>)
qed

section \<open>The converters as metered converters\<close>

interpretation j2p: metered_conv "js_to_py env hh"
  "\<lambda>v _. js_weight False (big_len env) v" "\<lambda>v _. js_height False v" for env hh
  by unfold_locales (auto dest: js_to_py_fits simp: fits_def)

interpretation p2j: metered_conv "py_to_js env heap n"
  "\<lambda>_ v. js_weight True (big_len env) v" "\<lambda>_ v. js_height True v" for env heap n
  by unfold_locales (auto dest: py_to_js_fits simp: fits_def)

lemma python_to_js_bounds:
  assumes "python_to_js_value env heap limits obj = Inr v"
    and "lim_depth limits < usize_max" "lim_bytes limits < usize_max"
  shows "js_weight True (big_len env) v \<le> lim_bytes limits \<and> js_depth v \<le> lim_depth limits"
proof -
  let ?t = "tracker_new (lim_depth limits) (lim_bytes limits)"
  obtain t' seen' where "py_to_js env heap (Suc (lim_depth limits)) obj (?t, {}) = (Inr v, (t', seen'))"
    using assms(1) by (auto simp: python_to_js_value_def python_to_js_value_tracked_def tracker_new_def
        split: prod.splits)
  moreover have "tracker_wf ?t" using assms(2,3) by (simp add: tracker_wf_def tracker_new_def)
  ultimately have "fits (js_weight True (big_len env) v) (js_height True v) ?t t'"
    using py_to_js_fits by blast
  then show ?thesis
    by (auto simp: fits_def charges_def meters_def tracker_new_def js_height_deep)
qed

end
