(* ===== verification/Peno_ConvTrip.thy ===== *)
theory Peno_ConvTrip
  imports Peno_ConvLaws
begin

text \<open>
  Completeness of the two converters on plain values: a value that fits in what is left of the
  budget converts, and the tracker is charged exactly its weight.  The rendering relation \<open>rep\<close>
  links a Python object graph to the value it was built from; the round trip follows.
\<close>

section \<open>Exact charging\<close>

definition spent :: "limit_tracker \<Rightarrow> nat \<Rightarrow> limit_tracker" where
  "spent t n = t\<lparr>current_bytes := current_bytes t + n\<rparr>"

definition deeper :: "limit_tracker \<Rightarrow> limit_tracker" where
  "deeper t = t\<lparr>current_depth := Suc (current_depth t)\<rparr>"

definition room :: "limit_tracker \<Rightarrow> nat \<Rightarrow> nat \<Rightarrow> bool" where
  "room t w h \<longleftrightarrow> current_bytes t + w \<le> max_bytes t \<and> max_bytes t \<le> usize_max
     \<and> current_depth t + h \<le> max_depth t \<and> max_depth t \<le> usize_max"

lemma spent_spent [simp]: "spent (spent t a) b = spent t (a + b)"
  by (simp add: spent_def algebra_simps)

lemma spent_0 [simp]: "spent t 0 = t"
  by (simp add: spent_def)

lemma room_spent: "room t (a + b) h \<Longrightarrow> room (spent t a) b h"
  by (simp add: room_def spent_def)

lemma room_after: "room t w h \<Longrightarrow> a + b \<le> w \<Longrightarrow> room (spent t a) b h"
  by (simp add: room_def spent_def)

lemma room_less: "room t w h \<Longrightarrow> w' \<le> w \<Longrightarrow> h' \<le> h \<Longrightarrow> room t w' h'"
  by (simp add: room_def)

lemma room_deeper: "room t w (Suc h) \<Longrightarrow> room (deeper t) w h"
  by (simp add: room_def deeper_def)

lemma exit_spent_deeper [simp]: "exit_level (spent (deeper t) w) = spent t w"
  by (simp add: exit_level_def spent_def deeper_def)

lemma charge_run: "room t n h \<Longrightarrow> charge n (t, x) = (Inr (), (spent t n, x))"
  by (simp add: charge_def on_tracker_def add_bytes_def usat_add_def room_def spent_def Let_def)

lemma usat_mul_fits: "room t (a * b) h \<Longrightarrow> usat_mul a b = a * b"
  by (simp add: room_def usat_mul_def)

lemma enter_run: "room t w (Suc h) \<Longrightarrow> enter_py (t, x) = (Inr (), (deeper t, x))"
  by (simp add: enter_py_def on_tracker_def enter_def usat_add_def room_def deeper_def Let_def)

lemma sthen_run: "m s = (Inr u, s') \<Longrightarrow> sthen m k s = k s'"
  by (simp add: sthen_def sbind_eval_Inr)

lemma level_run:
  assumes "room t w (Suc h)" "body (deeper t, x) = (Inr v, (spent (deeper t) n, x'))"
  shows "level body (t, x) = (Inr v, (spent t n, x'))"
proof -
  have "enter_py (t, x) = (Inr (), (deeper t, x))" by (rule enter_run [OF assms(1)])
  then show ?thesis using assms(2) by (simp add: level_def sthen_run)
qed

section \<open>Plain values and their renderings\<close>

text \<open>
  Plain values: no set, date or stream, no object that carries a tag; a \<open>BigInt\<close> only where an
  \<open>Int\<close> would not do (Python has one integer type).
\<close>

fun plain :: "js_value \<Rightarrow> bool" where
  "plain (JInt i) = in_i64 i"
| "plain (JBigInt i) = (\<not> in_i64 i)"
| "plain (JArray vs) = list_all plain vs"
| "plain (JObject m) = (im_inv m \<and> \<not> carries_tag m \<and> list_all (\<lambda>(k, v). plain v) m)"
| "plain (JSet _) = False"
| "plain (JDate _) = False"
| "plain (JJsStream _) = False"
| "plain (JPyStream _) = False"
| "plain _ = True"

inductive rep :: "py_heap \<Rightarrow> nat \<Rightarrow> py_val \<Rightarrow> js_value \<Rightarrow> bool" for H where
  undef: "rep H lo PUndefined JUndefined"
| null: "rep H lo PNone JNull"
| bool: "rep H lo (PBool b) (JBool b)"
| int: "in_i64 i \<Longrightarrow> rep H lo (PInt i) (JInt i)"
| big: "\<not> in_i64 i \<Longrightarrow> rep H lo (PInt i) (JBigInt i)"
| float: "rep H lo (PFloat f) (JFloat f)"
| str: "rep H lo (PStr s) (JString s)"
| bytes: "rep H lo (PBytesObj bs) (JBytes bs)"
| func: "rep H lo (PJsFunction \<lparr>jf_id = i, jf_closed = False, jf_has_handle = True\<rparr>) (JFunction i)"
| array: "lo \<le> a \<Longrightarrow> H a = Some (PListO xs) \<Longrightarrow> list_all2 (rep H (Suc a)) xs vs
    \<Longrightarrow> rep H lo (PRef a) (JArray vs)"
| obj: "lo \<le> a \<Longrightarrow> H a = Some (PDictO es) \<Longrightarrow> im_inv m
    \<Longrightarrow> map fst es = map (PStr \<circ> fst) m
    \<Longrightarrow> list_all2 (rep H (Suc a)) (map snd es) (map snd m)
    \<Longrightarrow> rep H lo (PRef a) (JObject m)"

lemma rep_mono:
  assumes "rep H lo p v" "H \<subseteq>\<^sub>m H'" "lo' \<le> lo"
  shows "rep H' lo' p v"
  using assms
proof (induction arbitrary: lo' rule: rep.induct)
  case (array lo a xs vs)
  have "list_all2 (rep H' (Suc a)) xs vs"
    using array.IH array.prems(1) by (elim list_all2_mono) blast
  moreover have "H' a = Some (PListO xs)"
    using array.hyps array.prems(1) by (force simp: map_le_def dom_def)
  ultimately show ?case using array by (intro rep.array [of _ a]) auto
next
  case (obj lo a es m)
  have "list_all2 (rep H' (Suc a)) (map snd es) (map snd m)"
    using obj.IH obj.prems(1) by (elim list_all2_mono) blast
  moreover have "H' a = Some (PDictO es)"
    using obj.hyps obj.prems(1) by (force simp: map_le_def dom_def)
  ultimately show ?case using obj by (intro rep.obj [of _ a _ es]) auto
qed (auto intro: rep.intros)

section \<open>JavaScript to Python is complete on plain values\<close>

definition store_ok :: "py_store \<Rightarrow> bool" where
  "store_ok st \<longleftrightarrow> (\<forall>a \<in> dom (py_heap_of st). a < py_next st)"

definition grows :: "py_store \<Rightarrow> py_store \<Rightarrow> bool" where
  "grows st st' \<longleftrightarrow> store_ok st' \<and> py_next st \<le> py_next st'
     \<and> (\<forall>a < py_next st. py_heap_of st' a = py_heap_of st a)"

lemma grows_refl [simp]: "store_ok st \<Longrightarrow> grows st st"
  by (simp add: grows_def)

lemma grows_trans: "grows a b \<Longrightarrow> grows b c \<Longrightarrow> grows a c"
  by (auto simp: grows_def)

lemma grows_heap: "store_ok st \<Longrightarrow> grows st st' \<Longrightarrow> py_heap_of st \<subseteq>\<^sub>m py_heap_of st'"
  by (force simp: grows_def store_ok_def map_le_def)

lemma grows_ok: "grows st st' \<Longrightarrow> store_ok st'"
  by (simp add: grows_def)

text \<open>A list of children, each of which renders its value.\<close>

lemma smap_render:
  assumes "\<And>v t st. v \<in> set vs \<Longrightarrow> room t (w v) h \<Longrightarrow> store_ok st
      \<Longrightarrow> \<exists>p st'. f v (t, st) = (Inr p, (spent t (w v), st')) \<and> grows st st'
            \<and> R (py_heap_of st') (py_next st) p v"
    and "\<And>H H' lo lo' p v. R H lo p v \<Longrightarrow> H \<subseteq>\<^sub>m H' \<Longrightarrow> lo' \<le> lo \<Longrightarrow> R H' lo' p v"
    and "room t (sum_list (map w vs)) h" "store_ok st"
  shows "\<exists>ps st'. smap f vs (t, st) = (Inr ps, (spent t (sum_list (map w vs)), st')) \<and> grows st st'
      \<and> list_all2 (R (py_heap_of st') (py_next st)) ps vs"
  using assms(1,3,4)
proof (induction vs arbitrary: t st)
  case Nil
  then show ?case by simp
next
  case (Cons v vs)
  have "room t (w v) h" using Cons.prems(2) room_less by fastforce
  then obtain p st1 where v: "f v (t, st) = (Inr p, (spent t (w v), st1))" "grows st st1"
      "R (py_heap_of st1) (py_next st) p v"
    using Cons.prems(1) [of v t st] Cons.prems(3) by auto
  have "room (spent t (w v)) (sum_list (map w vs)) h"
    using Cons.prems(2) by (simp add: room_spent)
  then obtain ps st2 where vs: "smap f vs (spent t (w v), st1)
      = (Inr ps, (spent t (w v + sum_list (map w vs)), st2))" "grows st1 st2"
      "list_all2 (R (py_heap_of st2) (py_next st1)) ps vs"
    using Cons.IH [of "spent t (w v)" st1] Cons.prems(1) v(2) by (auto simp: grows_def)
  have "list_all2 (R (py_heap_of st2) (py_next st)) ps vs"
    using vs(3) by (rule list_all2_mono) (use assms(2) v(2) in \<open>auto simp: grows_def\<close>)
  moreover have "R (py_heap_of st2) (py_next st) p v"
    using assms(2) [OF v(3)] grows_heap [OF grows_ok [OF v(2)] vs(2)] by blast
  ultimately show ?case
    using v(1) vs(1) grows_trans [OF v(2) vs(2)] by (simp add: sbind_def)
qed

abbreviation (input) "reserve st \<equiv> st\<lparr>py_next := Suc (py_next st)\<rparr>"

abbreviation (input) "filled st a c \<equiv> st\<lparr>py_heap_of := (py_heap_of st)(a \<mapsto> c)\<rparr>"

text \<open>The cell reserved for a container is still empty when its children are done.\<close>

lemma grows_fill:
  assumes "store_ok st" "grows (reserve st) st'"
  shows "grows st (filled st' (py_next st) c)" "py_heap_of st' \<subseteq>\<^sub>m py_heap_of (filled st' (py_next st) c)"
proof -
  have "py_heap_of st (py_next st) = None"
    using assms(1) by (force simp: store_ok_def dom_def)
  then have "py_heap_of st' (py_next st) = None"
    using assms(2) by (simp add: grows_def)
  then show "py_heap_of st' \<subseteq>\<^sub>m py_heap_of (filled st' (py_next st) c)"
    by (auto simp: map_le_def)
  show "grows st (filled st' (py_next st) c)"
    using assms by (auto simp: grows_def store_ok_def)
qed

lemma store_ok_reserve: "store_ok st \<Longrightarrow> store_ok (reserve st)"
  by (auto simp: store_ok_def less_Suc_eq)

lemma level_eval:
  "room t w (Suc h) \<Longrightarrow> body (deeper t, x) = (r, (spent (deeper t) n, x'))
    \<Longrightarrow> level body (t, x) = (r, (spent t n, x'))"
  using enter_run [of t w h x] by (simp add: level_def sthen_run)

lemma sthen_charge: "room t n h \<Longrightarrow> sthen (charge n) k (t, x) = k (spent t n, x)"
  by (simp add: sthen_run charge_run)

text \<open>The two opening charges of a container.\<close>

lemma container_run:
  assumes "room t (a + n * b + w) (Suc h)"
    and "k (spent (deeper t) (a + n * b), x) = (r, (spent (deeper t) (a + n * b + w), x'))"
  shows "level (sthen (charge a) (sthen (charge (usat_mul n b)) k)) (t, x) = (r, (spent t (a + n * b + w), x'))"
proof -
  have "room (deeper t) (a + n * b + w) h" using assms(1) by (rule room_deeper)
  then have r: "room (deeper t) a h" "room (spent (deeper t) a) (n * b) h"
    by (auto intro: room_after room_less)
  show ?thesis
    by (rule level_eval [OF assms(1)])
      (simp add: sthen_charge [OF r(1)] usat_mul_fits [OF r(2)] sthen_charge [OF r(2)] assms(2))
qed


lemma alloc_eval: "sbind alloc f (t, st) = f (py_next st) (t, reserve st)"
  by (simp add: sbind_def alloc_def)

lemma store_eval: "sthen (store_cont p c) k (t, st) = k (t, filled st p c)"
  by (simp add: sthen_def sbind_def store_cont_def)

lemma leaf_run:
  assumes "room t n (Suc 0)"
  shows "level (sthen (charge n) (sret v)) (t, x) = (Inr v, (spent t n, x))"
  by (rule level_eval [OF assms]) (simp add: sthen_charge [OF room_deeper [OF assms]])

text \<open>A value that converts whenever there is room for it, into objects that render it.\<close>

definition renders :: "py_env \<Rightarrow> bool \<Rightarrow> js_value \<Rightarrow> bool" where
  "renders env d v \<longleftrightarrow> (\<forall>t st. room t (js_weight d (big_len env) v) (js_height d v) \<longrightarrow> store_ok st \<longrightarrow>
     (\<exists>p st'. js_to_py env True v (t, st) = (Inr p, (spent t (js_weight d (big_len env) v), st'))
        \<and> grows st st' \<and> rep (py_heap_of st') (py_next st) p v))"

lemma rendersD:
  assumes "renders env d v" "room t (js_weight d (big_len env) v) h" "js_height d v \<le> h" "store_ok st"
  obtains p st' where "js_to_py env True v (t, st) = (Inr p, (spent t (js_weight d (big_len env) v), st'))"
    "grows st st'" "rep (py_heap_of st') (py_next st) p v"
  using assms room_less [OF assms(2) order.refl assms(3)] unfolding renders_def by blast

lemma renders_array:
  assumes "\<And>v. v \<in> set vs \<Longrightarrow> renders env d v"
  shows "renders env d (JArray vs)"
  unfolding renders_def
proof (intro allI impI)
  fix t st assume prems: "room t (js_weight d (big_len env) (JArray vs)) (js_height d (JArray vs))" "store_ok st"
  let ?w = "js_weight d (big_len env)" and ?h = "fold max (map (js_height d) vs) 0"
  let ?t = "spent (deeper t) (16 + length vs * 8)"
  have room: "room t (16 + length vs * 8 + sum_list (map ?w vs)) (Suc ?h)"
    using prems(1) by (simp add: algebra_simps)
  have rt: "room ?t (sum_list (map ?w vs)) ?h"
    using room_deeper [OF room] by (rule room_after) simp
  have child: "\<exists>p st'. js_to_py env True v (t, st) = (Inr p, (spent t (?w v), st'))
      \<and> grows st st' \<and> rep (py_heap_of st') (py_next st) p v"
    if "v \<in> set vs" "room t (?w v) ?h" "store_ok st" for v t st
  proof -
    have "js_height d v \<le> ?h" by (rule fold_max_ge) (use that(1) in simp)
    then show ?thesis using rendersD [OF assms [OF that(1)] that(2) _ that(3)] by metis
  qed
  obtain ps st' where run: "smap (js_to_py env True) vs (?t, reserve st)
      = (Inr ps, (spent ?t (sum_list (map ?w vs)), st'))"
    and g: "grows (reserve st) st'" and r: "list_all2 (rep (py_heap_of st') (Suc (py_next st))) ps vs"
    using smap_render [of vs ?w ?h "js_to_py env True" rep ?t "reserve st"]
      child rt store_ok_reserve [OF prems(2)] rep_mono by auto
  let ?st = "filled st' (py_next st) (PListO ps)"
  have "js_to_py env True (JArray vs) (t, st) = (Inr (PRef (py_next st)),
      (spent t (16 + length vs * 8 + sum_list (map ?w vs)), ?st))"
    unfolding js_to_py.simps
    by (rule container_run [OF room])
      (simp add: alloc_eval store_eval sbind_eval_Inr [where m = "smap _ _", OF run] del: spent_spent, simp add: add.assoc)
  moreover have "rep (py_heap_of ?st) (py_next st) (PRef (py_next st)) (JArray vs)"
    by (rule rep.array [of _ "py_next st" _ ps])
      (use r grows_fill(2) [OF prems(2) g] in \<open>auto elim!: list_all2_mono intro: rep_mono\<close>)
  ultimately show "\<exists>p st'. js_to_py env True (JArray vs) (t, st) = (Inr p, (spent t (?w (JArray vs)), st'))
      \<and> grows st st' \<and> rep (py_heap_of st') (py_next st) p (JArray vs)"
    using grows_fill(1) [OF prems(2) g] by (auto simp: algebra_simps)
qed

lemma renders_entry:
  assumes "renders env d v" "room t (length k + 8 + js_weight d (big_len env) v) h" "js_height d v \<le> h" "store_ok st"
  shows "\<exists>p st'. put_entry env True (k, v) (t, st) = (Inr (PStr k, p), (spent t (length k + 8 + js_weight d (big_len env) v), st'))
    \<and> grows st st' \<and> rep (py_heap_of st') (py_next st) p v"
proof -
  have r: "room t (length k) h" "room (spent t (length k)) 8 h"
      "room (spent t (length k + 8)) (js_weight d (big_len env) v) h"
    using assms(2) by (auto intro: room_after room_less)
  obtain p st' where
    "js_to_py env True v (spent t (length k + 8), st)
      = (Inr p, (spent t (length k + 8 + js_weight d (big_len env) v), st'))"
    "grows st st'" "rep (py_heap_of st') (py_next st) p v"
    using rendersD [OF assms(1) r(3) assms(3,4)] by auto
  then show ?thesis
    by (auto simp: sthen_charge [OF r(1)] sthen_charge [OF r(2)] sbind_def)
qed

lemma renders_entries:
  assumes "\<And>kv. kv \<in> set m \<Longrightarrow> renders env d (snd kv)" "store_ok st"
    and "room t (sum_list (map (\<lambda>(k, v). length k + 8 + js_weight d (big_len env) v) m))
      (fold max (map (\<lambda>(k, v). js_height d v) m) 0)"
  obtains es st' where "smap (put_entry env True) m (t, st)
      = (Inr es, (spent t (sum_list (map (\<lambda>(k, v). length k + 8 + js_weight d (big_len env) v) m)), st'))"
    "grows st st'" "map fst es = map (PStr \<circ> fst) m"
    "list_all2 (rep (py_heap_of st') (py_next st)) (map snd es) (map snd m)"
proof -
  let ?e = "\<lambda>(k, v). length k + 8 + js_weight d (big_len env) v" and ?d = "\<lambda>(k, v). js_height d v"
  let ?R = "\<lambda>H lo p kv. fst p = PStr (fst kv) \<and> rep H lo (snd p) (snd kv)"
  have child: "\<exists>p st'. put_entry env True kv (t, st) = (Inr p, (spent t (?e kv), st'))
      \<and> grows st st' \<and> ?R (py_heap_of st') (py_next st) p kv"
    if "kv \<in> set m" "room t (?e kv) (fold max (map ?d m) 0)" "store_ok st" for kv t st
  proof -
    obtain k v where kv: "kv = (k, v)" by force
    have "js_height d v \<le> fold max (map ?d m) 0"
      by (rule fold_max_ge) (use that(1) kv in force)
    then show ?thesis
      using renders_entry [of env d v t k _ st] assms(1) [OF that(1)] that(2,3) kv by fastforce
  qed
  have "\<exists>es st'. smap (put_entry env True) m (t, st) = (Inr es, (spent t (sum_list (map ?e m)), st'))
      \<and> grows st st' \<and> list_all2 (?R (py_heap_of st') (py_next st)) es m"
    by (rule smap_render [where h = "fold max (map ?d m) 0"]) (blast intro: child rep_mono assms(2,3))+
  then obtain es st' where es: "smap (put_entry env True) m (t, st) = (Inr es, (spent t (sum_list (map ?e m)), st'))"
      "grows st st'" "list_all2 (?R (py_heap_of st') (py_next st)) es m"
    by blast
  then show thesis
    by (intro that [of es st'])
      (auto simp: list_all2_map1 list_all2_map2 list_all2_conv_all_nth intro: nth_equalityI)
qed

lemma renders_object:
  assumes "\<And>kv. kv \<in> set m \<Longrightarrow> renders env d (snd kv)" "im_inv m" "\<not> carries_tag m"
  shows "renders env d (JObject m)"
  unfolding renders_def
proof (intro allI impI)
  fix t st assume prems: "room t (js_weight d (big_len env) (JObject m)) (js_height d (JObject m))" "store_ok st"
  let ?w = "js_weight d (big_len env)"
  let ?e = "\<lambda>(k, v). length k + 8 + ?w v" and ?h = "fold max (map (\<lambda>(k, v). js_height d v) m) 0"
  let ?t = "spent (deeper t) (24 + length m * 16)"
  have room: "room t (24 + length m * 16 + sum_list (map ?e m)) (Suc ?h)"
    using prems(1) assms(3) by (simp add: algebra_simps)
  have rt: "room ?t (sum_list (map ?e m)) ?h"
    using room_deeper [OF room] by (rule room_after) simp
  obtain es st' where run: "smap (put_entry env True) m (?t, reserve st)
      = (Inr es, (spent ?t (sum_list (map ?e m)), st'))"
    and g: "grows (reserve st) st'" and keys: "map fst es = map (PStr \<circ> fst) m"
    and r: "list_all2 (rep (py_heap_of st') (Suc (py_next st))) (map snd es) (map snd m)"
    using renders_entries [where m = m and env = env and d = d, OF assms(1) store_ok_reserve [OF prems(2)] rt] by auto
  let ?st = "filled st' (py_next st) (PDictO (im_from_entries es))"
  have "distinct (map (PStr \<circ> fst) m)"
    using assms(2) by (simp add: im_inv_def distinct_map inj_on_def)
  then have es: "im_from_entries es = es" using keys im_from_entries_distinct by (metis im_inv_def)
  have "tag_of m = None" using assms(3) by (simp add: tag_of_carries)
  then have "js_to_py env True (JObject m) (t, st) = (Inr (PRef (py_next st)),
      (spent t (24 + length m * 16 + sum_list (map ?e m)), ?st))"
    unfolding js_to_py.simps
    by (intro container_run [OF room])
      (simp add: alloc_eval store_eval sbind_eval_Inr [where m = "smap _ _", OF run] Let_def del: spent_spent, simp add: add.assoc)
  moreover have "rep (py_heap_of ?st) (py_next st) (PRef (py_next st)) (JObject m)"
    by (rule rep.obj [of _ "py_next st" _ es])
      (use r es keys assms(2) grows_fill(2) [OF prems(2) g] in \<open>auto elim!: list_all2_mono intro: rep_mono\<close>)
  ultimately show "\<exists>p st'. js_to_py env True (JObject m) (t, st) = (Inr p, (spent t (?w (JObject m)), st'))
      \<and> grows st st' \<and> rep (py_heap_of st') (py_next st) p (JObject m)"
    using grows_fill(1) [OF prems(2) g] assms(3) by (auto simp: algebra_simps)
qed

lemma renders_leaf:
  "renders env d JUndefined" "renders env d (JString s)" "renders env d (JFunction i)"
proof -
  show "renders env d JUndefined"
    unfolding renders_def js_to_py.simps by (intro allI impI exI conjI, rule level_eval) (auto intro: rep.undef)
  have "js_to_py env True (JString s) (t, st) = (Inr (PStr s), (spent t (length s + 16), st))"
    if "room t (length s + 16) (Suc 0)" for t st
  proof -
    have r: "room (deeper t) (length s) 0" "room (spent (deeper t) (length s)) 16 0"
      using room_deeper [OF that] by (auto simp: room_spent intro: room_less)
    show ?thesis
      using that by (auto intro!: level_eval simp: sthen_charge [OF r(1)] sthen_charge [OF r(2)])
  qed
  then show "renders env d (JString s)"
    by (auto simp: renders_def intro: rep.str)
  have "js_to_py env True (JFunction i) (t, st) = (Inr (PJsFunction \<lparr>jf_id = i, jf_closed = False, jf_has_handle = True\<rparr>),
      (spent t 8, st\<lparr>tracked_fns := insert i (tracked_fns st)\<rparr>))" if "room t 8 (Suc 0)" for t st
    unfolding js_to_py.simps using that
    by (intro level_eval [where h = 0])
      (auto simp: sthen_charge [OF room_deeper [OF that]] sbind_def new_js_function_def sret_def)
  then show "renders env d (JFunction i)"
    by (auto simp: renders_def grows_def store_ok_def intro: rep.func)
qed

lemma plain_renders: "plain v \<Longrightarrow> renders env d v"
proof (induction v)
  case (JArray vs)
  then show ?case by (intro renders_array) (auto simp: list_all_iff)
next
  case (JObject m)
  have "renders env d (snd kv)" if "kv \<in> set m" for kv
    using JObject that by (cases kv) (auto simp: list_all_iff)
  then show ?case using JObject.prems by (intro renders_object) auto
qed (auto simp: renders_leaf, auto simp: renders_def leaf_run intro: rep.intros)

lemma js_to_py_run:
  assumes "plain v" "room t (js_weight d (big_len env) v) (js_height d v)" "store_ok st"
  shows "\<exists>p st'. js_to_py env True v (t, st) = (Inr p, (spent t (js_weight d (big_len env) v), st'))
    \<and> grows st st' \<and> rep (py_heap_of st') (py_next st) p v"
  using plain_renders [OF assms(1)] assms(2,3) unfolding renders_def by blast

section \<open>Python to JavaScript is complete on renderings\<close>

lemma smap_exact:
  assumes "list_all2 (\<lambda>x y. \<forall>t. room t (w y) h \<longrightarrow> f x (t, s) = (Inr y, (spent t (w y), s))) xs ys"
    and "room t (sum_list (map w ys)) h"
  shows "smap f xs (t, s) = (Inr ys, (spent t (sum_list (map w ys)), s))"
  using assms
proof (induction arbitrary: t rule: list_all2_induct)
  case (Cons x xs y ys)
  have "room t (w y) h" "room (spent t (w y)) (sum_list (map w ys)) h"
    using Cons.prems by (auto intro: room_less room_after)
  then show ?case using Cons.hyps Cons.IH by (simp add: sbind_def)
qed simp

lemma unmark_eval: "sthen (unmark a) k (t, x) = k (t, x - {a})"
  by (simp add: sthen_def sbind_def unmark_def)

lemma finish_run: "finish (Inr v) (t, x) = (Inr v, (exit_level t, x))"
  by (simp add: finish_def sthen_def sbind_def leave_def slift_def)

lemma py_leaf_run:
  assumes "room t n (Suc 0)"
  shows "sthen enter_py (sthen (charge n) (finish (Inr v))) (t, x) = (Inr v, (spent t n, x))"
proof -
  have "enter_py (t, x) = (Inr (), (deeper t, x))" by (rule enter_run [OF assms])
  then show ?thesis
    by (simp add: sthen_run sthen_charge [OF room_deeper [OF assms]] finish_run)
qed

lemma py_container_run:
  assumes room: "room t (c + length xs * b + sum_list (map w ys)) (Suc h)" and a: "a \<notin> seen"
    and kids: "list_all2 (\<lambda>x y. \<forall>t. room t (w y) h
      \<longrightarrow> f x (t, insert a seen) = (Inr y, (spent t (w y), insert a seen))) xs ys"
  shows "sthen enter_py (sthen (mark a what) (sthen (charge c) (sthen (charge (usat_mul (length xs) b))
      (sbind (smap f xs) (\<lambda>ys. sthen (unmark a) (finish (Inr (g ys)))))))) (t, seen)
    = (Inr (g ys), (spent t (c + length xs * b + sum_list (map w ys)), seen))"
proof -
  have e: "enter_py (t, seen) = (Inr (), (deeper t, seen))" by (rule enter_run [OF room])
  have m: "mark a what (deeper t, seen) = (Inr (), (deeper t, insert a seen))"
    using a by (simp add: mark_def)
  have r: "room (deeper t) c h" "room (spent (deeper t) c) (length xs * b) h"
    "room (spent (deeper t) (c + length xs * b)) (sum_list (map w ys)) h"
    using room_deeper [OF room] by (auto intro: room_after room_less)
  note run = smap_exact [OF kids r(3)]
  have "insert a seen - {a} = seen" using a by blast
  then show ?thesis
    by (simp add: sthen_run [where m = enter_py, OF e] sthen_run [where m = "mark _ _", OF m]
        sthen_charge [OF r(1)] usat_mul_fits [OF r(2)] sthen_charge [OF r(2)]
        sbind_eval_Inr [where m = "smap _ _", OF run] unmark_eval finish_run)
qed

lemma py_string_run:
  assumes "room t (length s + 16) (Suc 0)"
  shows "sthen enter_py (string_to_js s) (t, x) = (Inr (JString s), (spent t (length s + 16), x))"
proof -
  have e: "enter_py (t, x) = (Inr (), (deeper t, x))" by (rule enter_run [OF assms])
  have r: "room (deeper t) (length s) 0" "room (spent (deeper t) (length s)) 16 0"
    using room_deeper [OF assms] by (auto intro: room_after room_less)
  then have "\<not> max_bytes (deeper t) < length s" by (simp add: room_def)
  then show ?thesis
    by (simp add: sthen_run [where m = enter_py, OF e] string_to_js_def sthen_charge [OF r(1)]
        sthen_charge [OF r(2)] finish_run)
qed

lemma slift_eval: "sbind (slift (Inr a)) f = f a"
  by (simp add: sbind_def slift_def fun_eq_iff)

text \<open>An object that is read back as its value, whatever containers above it are being converted.\<close>

definition reads :: "py_env \<Rightarrow> py_heap \<Rightarrow> nat \<Rightarrow> py_val \<Rightarrow> js_value \<Rightarrow> bool" where
  "reads env H lo p v \<longleftrightarrow> (\<forall>t seen n. seen \<subseteq> {..<lo} \<longrightarrow> room t (js_weight True (big_len env) v) (js_height True v)
     \<longrightarrow> js_height True v \<le> n
     \<longrightarrow> py_to_js env H n p (t, seen) = (Inr v, (spent t (js_weight True (big_len env) v), seen)))"

lemma readsD:
  assumes "reads env H lo p v" "seen \<subseteq> {..<lo}" "room t (js_weight True (big_len env) v) h"
    and "js_height True v \<le> h" "h \<le> n"
  shows "py_to_js env H n p (t, seen) = (Inr v, (spent t (js_weight True (big_len env) v), seen))"
  using assms room_less [OF assms(3) order.refl assms(4)] unfolding reads_def by auto

lemma reads_array:
  assumes "lo \<le> a" "H a = Some (PListO xs)" "list_all2 (reads env H (Suc a)) xs vs"
  shows "reads env H lo (PRef a) (JArray vs)"
  unfolding reads_def
proof (intro allI impI)
  fix t seen n assume prems: "seen \<subseteq> {..<lo}" "room t (js_weight True (big_len env) (JArray vs)) (js_height True (JArray vs))"
    "js_height True (JArray vs) \<le> n"
  let ?w = "js_weight True (big_len env)" and ?h = "fold max (map (js_height True) vs) 0"
  obtain k where n: "n = Suc k" "?h \<le> k" using prems(3) by (cases n) auto
  have len: "length xs = length vs" using assms(3) by (rule list_all2_lengthD)
  have room: "room t (16 + length xs * 8 + sum_list (map ?w vs)) (Suc ?h)"
    using prems(2) len by (simp add: algebra_simps)
  have seen: "a \<notin> seen" "insert a seen \<subseteq> {..<Suc a}"
    using prems(1) assms(1) by auto
  have "list_all2 (\<lambda>x v. reads env H (Suc a) x v \<and> js_height True v \<le> ?h) xs vs"
    using assms(3) by (auto simp: list_all2_conv_all_nth intro!: fold_max_ge)
  then have kids: "list_all2 (\<lambda>x v. \<forall>t. room t (?w v) ?h
      \<longrightarrow> py_to_js env H k x (t, insert a seen) = (Inr v, (spent t (?w v), insert a seen))) xs vs"
    by (rule list_all2_mono) (use readsD seen(2) n(2) in blast)
  show "py_to_js env H n (PRef a) (t, seen) = (Inr (JArray vs), (spent t (?w (JArray vs)), seen))"
    using py_container_run [OF room seen(1) kids, of "''list''" JArray] n(1) assms(2) len
    by (simp add: algebra_simps)
qed

lemma reads_entry:
  assumes "reads env H lo x v" "seen \<subseteq> {..<lo}" "room t (length j + 8 + js_weight True (big_len env) v) h"
    and "js_height True v \<le> h" "h \<le> n"
  shows "sbind (slift (extract_string env (PStr j))) (\<lambda>ks. sthen (charge (length ks)) (sthen (charge 8)
      (sbind (py_to_js env H n x) (\<lambda>y. sret (ks, y))))) (t, seen)
    = (Inr (j, v), (spent t (length j + 8 + js_weight True (big_len env) v), seen))"
proof -
  have r: "room t (length j) h" "room (spent t (length j)) 8 h"
      "room (spent t (length j + 8)) (js_weight True (big_len env) v) h"
    using assms(3) by (auto intro: room_less room_after)
  show ?thesis
    using readsD [OF assms(1,2) r(3) assms(4,5)]
    by (simp add: extract_string_def slift_eval sthen_charge [OF r(1)] sthen_charge [OF r(2)]
        sbind_eval_Inr [where m = "py_to_js _ _ _ _"])
qed

lemma reads_object:
  assumes "lo \<le> a" "H a = Some (PDictO es)" "im_inv m" "map fst es = map (PStr \<circ> fst) m"
    and "list_all2 (reads env H (Suc a)) (map snd es) (map snd m)"
  shows "reads env H lo (PRef a) (JObject m)"
  unfolding reads_def
proof (intro allI impI)
  fix t seen n assume prems: "seen \<subseteq> {..<lo}" "room t (js_weight True (big_len env) (JObject m)) (js_height True (JObject m))"
    "js_height True (JObject m) \<le> n"
  let ?w = "js_weight True (big_len env)"
  let ?e = "\<lambda>(k, v). length k + 8 + ?w v" and ?h = "fold max (map (\<lambda>(k, v). js_height True v) m) 0"
  let ?f = "\<lambda>k (key, v). sbind (slift (extract_string env key)) (\<lambda>ks.
     sthen (charge (length ks)) (sthen (charge 8) (sbind (py_to_js env H k v) (\<lambda>j. sret (ks, j)))))"
  obtain k where n: "n = Suc k" "?h \<le> k" using prems(3) by (cases n) auto
  have len: "length es = length m" using assms(5) by (auto dest: list_all2_lengthD)
  have room: "room t (24 + length es * 16 + sum_list (map ?e m)) (Suc ?h)"
    using prems(2) len by (simp add: algebra_simps)
  have seen: "a \<notin> seen" "insert a seen \<subseteq> {..<Suc a}"
    using prems(1) assms(1) by auto
  have "fst (es ! i) = PStr (fst (m ! i)) \<and> reads env H (Suc a) (snd (es ! i)) (snd (m ! i))
      \<and> js_height True (snd (m ! i)) \<le> ?h" if "i < length es" for i
  proof (intro conjI)
    have "map fst es ! i = map (PStr \<circ> fst) m ! i" by (simp only: assms(4))
    with that len show "fst (es ! i) = PStr (fst (m ! i))" by simp
    show "reads env H (Suc a) (snd (es ! i)) (snd (m ! i))"
      using list_all2_nthD [OF assms(5), of i] that len by simp
    have "m ! i \<in> set m" using that len by simp
    then have "(\<lambda>(k, v). js_height True v) (m ! i) \<in> set (map (\<lambda>(k, v). js_height True v) m)"
      unfolding set_map by (rule imageI)
    then have "js_height True (snd (m ! i)) \<in> set (map (\<lambda>(k, v). js_height True v) m)"
      by (simp add: case_prod_beta)
    then show "js_height True (snd (m ! i)) \<le> ?h" by (rule fold_max_ge)
  qed
  then have "list_all2 (\<lambda>x kv. fst x = PStr (fst kv) \<and> reads env H (Suc a) (snd x) (snd kv)
      \<and> js_height True (snd kv) \<le> ?h) es m"
    using len by (simp add: list_all2_conv_all_nth)
  then have kids: "list_all2 (\<lambda>x kv. \<forall>t. room t (?e kv) ?h
      \<longrightarrow> ?f k x (t, insert a seen) = (Inr kv, (spent t (?e kv), insert a seen))) es m"
    by (rule list_all2_mono) (auto intro!: reads_entry [OF _ seen(2) _ _ n(2)])
  have "im_from_entries m = m" using assms(3) by (simp add: im_from_entries_distinct)
  then show "py_to_js env H n (PRef a) (t, seen) = (Inr (JObject m), (spent t (?w (JObject m)), seen))"
    using py_container_run [OF room seen(1) kids, of "''dict''" "\<lambda>es. JObject (im_from_entries es)"]
      n(1) assms(2) len by (simp add: algebra_simps)
qed

lemma rep_reads:
  assumes "rep H lo p v" "\<not> runtime_is_shutdown env"
  shows "reads env H lo p v"
  using assms(1)
proof (induction rule: rep.induct)
  case (array lo a xs vs)
  then show ?case by (intro reads_array) (auto elim: list_all2_mono)
next
  case (obj lo a es m)
  then show ?case by (intro reads_object) (auto elim: list_all2_mono)
qed (use assms(2) in \<open>auto simp: reads_def py_leaf_run gr0_conv_Suc Suc_le_eq function_id_for_transfer_def
    py_string_run slift_eval\<close>)

lemma py_to_js_run:
  assumes "rep H lo p v" "\<not> runtime_is_shutdown env" "seen \<subseteq> {..<lo}"
    and "room t (js_weight True (big_len env) v) (js_height True v)" "js_height True v \<le> n"
  shows "py_to_js env H n p (t, seen) = (Inr v, (spent t (js_weight True (big_len env) v), seen))"
  using rep_reads [OF assms(1,2)] assms(3-5) unfolding reads_def by blast

section \<open>The round trip, and exactness of the limits\<close>

lemma js_height_pos: "0 < js_height d v"
  by (cases v) auto

lemma js_python_roundtrip:
  assumes "plain v" "store_ok st" "\<not> runtime_is_shutdown env"
    and "js_weight True (big_len env) v \<le> lim_bytes limits" "js_height True v \<le> lim_depth limits"
    and "lim_bytes limits \<le> usize_max" "lim_depth limits \<le> usize_max"
  shows "\<exists>p st'. js_value_to_python env True v st = (Inr p, st')
    \<and> python_to_js_value env (py_heap_of st') limits p = Inr v"
proof -
  have "room (tracker_new usize_max usize_max) (js_weight True (big_len env) v) (js_height True v)"
    using assms(4-7) by (simp add: room_def tracker_new_def)
  then obtain p st' where run: "js_to_py env True v (tracker_new usize_max usize_max, st)
      = (Inr p, (spent (tracker_new usize_max usize_max) (js_weight True (big_len env) v), st'))"
    and r: "rep (py_heap_of st') (py_next st) p v"
    using js_to_py_run [OF assms(1) _ assms(2)] by blast
  have "py_to_js env (py_heap_of st') (Suc (lim_depth limits)) p
      (tracker_new (lim_depth limits) (lim_bytes limits), {}) =
      (Inr v, (spent (tracker_new (lim_depth limits) (lim_bytes limits)) (js_weight True (big_len env) v), {}))"
    using assms(4-7) by (intro py_to_js_run [OF r assms(3)]) (simp_all add: room_def tracker_new_def)
  then have "python_to_js_value env (py_heap_of st') limits p = Inr v"
    by (simp add: python_to_js_value_def python_to_js_value_tracked_def tracker_new_def)
  then show ?thesis using run by (auto simp: js_value_to_python_def)
qed

lemma js_to_py_exact:
  assumes "plain v" "tracker_wf t" "store_ok st"
  shows "(\<exists>p s'. js_to_py env True v (t, st) = (Inr p, s')) \<longleftrightarrow>
    current_bytes t + js_weight False (big_len env) v \<le> max_bytes t
    \<and> current_depth t + js_height False v \<le> max_depth t"
proof
  assume "\<exists>p s'. js_to_py env True v (t, st) = (Inr p, s')"
  then obtain p t' st' where "js_to_py env True v (t, st) = (Inr p, (t', st'))" by auto
  from js_to_py_fits [OF assms(2) this]
  show "current_bytes t + js_weight False (big_len env) v \<le> max_bytes t
      \<and> current_depth t + js_height False v \<le> max_depth t"
    by (auto simp: fits_def charges_def meters_def)
next
  assume "current_bytes t + js_weight False (big_len env) v \<le> max_bytes t
      \<and> current_depth t + js_height False v \<le> max_depth t"
  then have "room t (js_weight False (big_len env) v) (js_height False v)"
    using assms(2) by (simp add: room_def tracker_wf_def)
  then show "\<exists>p s'. js_to_py env True v (t, st) = (Inr p, s')"
    using js_to_py_run [OF assms(1) _ assms(3)] by blast
qed

text \<open>
  A cycle never converts: whatever the fuel and the limits, a container that is on the current
  path is refused.
\<close>

lemma py_to_js_cycle:
  assumes "heap p = Some c" "p \<in> seen"
  shows "\<exists>e s'. py_to_js env heap n (PRef p) (t, seen) = (Inl e, s')"
proof (cases n)
  case 0
  then show ?thesis by (auto simp: sthen_def sbind_def sfail_def split: prod.splits sum.splits)
next
  case (Suc k)
  obtain r s1 where e: "enter_py (t, seen) = (r, s1)" by (cases "enter_py (t, seen)")
  then have "r = Inr u \<Longrightarrow> snd s1 = seen" for u
    by (auto simp: enter_py_def on_tracker_def split: prod.splits sum.splits)
  then show ?thesis
    using e assms Suc by (cases r; cases c) (auto simp: sthen_def sbind_def mark_def)
qed

section \<open>The fuel is enough\<close>

lemma sbind_cong_run:
  "(\<And>a s'. m s = (Inr a, s') \<Longrightarrow> k a s' = k' a s') \<Longrightarrow> sbind m k s = sbind m k' s"
  by (auto simp: sbind_def split: prod.splits sum.splits)

lemma sthen_cong_run:
  "(\<And>u s'. m s = (Inr u, s') \<Longrightarrow> k s' = k' s') \<Longrightarrow> sthen m k s = sthen m k' s"
  unfolding sthen_def by (rule sbind_cong_run)

text \<open>Two converters that agree at one level of nesting agree on a list of children.\<close>

lemma smap_cong_level:
  assumes eq: "\<And>x t seen. P t \<Longrightarrow> f x (t, seen) = g x (t, seen)"
    and keep: "\<And>x t seen y t' seen'. P t \<Longrightarrow> g x (t, seen) = (Inr y, (t', seen')) \<Longrightarrow> P t'"
    and "P t"
  shows "smap f xs (t, seen) = smap g xs (t, seen)"
  using \<open>P t\<close>
proof (induction xs arbitrary: t seen)
  case (Cons x xs)
  have "sbind (smap f xs) (\<lambda>ys. sret (y # ys)) (t', seen') = sbind (smap g xs) (\<lambda>ys. sret (y # ys)) (t', seen')"
    if "g x (t, seen) = (Inr y, (t', seen'))" for y t' seen'
    using Cons.IH [OF keep [OF Cons.prems that]] by (simp add: sbind_def)
  then show ?case
    using eq [OF Cons.prems] by (auto simp: sbind_def split: prod.splits sum.splits)
qed simp

definition at_level :: "nat \<Rightarrow> nat \<Rightarrow> limit_tracker \<Rightarrow> bool" where
  "at_level mx d t \<longleftrightarrow> tracker_wf t \<and> max_depth t = mx \<and> current_depth t = d"

lemma at_level_charges: "charges n t t' \<Longrightarrow> at_level mx d t \<Longrightarrow> at_level mx d t'"
  by (auto simp: at_level_def charges_def meters_def tracker_wf_def)

lemma at_level_charge:
  "charge n (t, x) = (Inr u, (t', x')) \<Longrightarrow> at_level mx d t \<Longrightarrow> at_level mx d t'"
  unfolding charge_Inr by (elim conjE, rule at_level_charges, rule add_bytes_charges) (simp_all add: at_level_def)

lemma py_container_cong:
  assumes "at_level mx d t"
    and eq: "\<And>x t seen. at_level mx d t \<Longrightarrow> f x (t, seen) = g x (t, seen)"
    and keep: "\<And>x t seen y t' seen'. at_level mx d t \<Longrightarrow> g x (t, seen) = (Inr y, (t', seen')) \<Longrightarrow> at_level mx d t'"
  shows "sthen (mark a what) (sthen (charge c) (sthen (charge n) (sbind (smap f xs) k))) (t, seen)
    = sthen (mark a what) (sthen (charge c) (sthen (charge n) (sbind (smap g xs) k))) (t, seen)"
proof (rule sthen_cong_run, clarify)
  fix t1 seen1 assume "mark a what (t, seen) = (Inr (), (t1, seen1))"
  then have t1: "at_level mx d t1" using assms(1) by (simp add: mark_Inr)
  show "sthen (charge c) (sthen (charge n) (sbind (smap f xs) k)) (t1, seen1)
    = sthen (charge c) (sthen (charge n) (sbind (smap g xs) k)) (t1, seen1)"
  proof (rule sthen_cong_run, clarify, rule sthen_cong_run, clarify)
    fix t2 seen2 t3 seen3
    assume "charge c (t1, seen1) = (Inr (), (t2, seen2))" "charge n (t2, seen2) = (Inr (), (t3, seen3))"
    then have "at_level mx d t3" using t1 by (metis at_level_charge)
    then show "sbind (smap f xs) k (t3, seen3) = sbind (smap g xs) k (t3, seen3)"
      using smap_cong_level [where P = "at_level mx d" and f = f and g = g] eq keep
      by (simp add: sbind_def)
  qed
qed

text \<open>The entry of a dict, at two amounts of fuel.\<close>

abbreviation (input) "py_entry env heap k \<equiv> \<lambda>(key, v). sbind (slift (extract_string env key)) (\<lambda>ks.
  sthen (charge (length ks)) (sthen (charge 8) (sbind (py_to_js env heap k v) (\<lambda>j. sret (ks, j)))))"

lemma py_entry_cong:
  assumes eq: "\<And>x t seen. at_level mx d t \<Longrightarrow> py_to_js env heap k x (t, seen) = py_to_js env heap n x (t, seen)"
    and "at_level mx d t"
  shows "py_entry env heap k x (t, seen) = py_entry env heap n x (t, seen)"
proof -
  obtain key v where x: "x = (key, v)" by (cases x)
  show ?thesis unfolding x prod.case
  proof (rule sbind_cong_run, clarify, rule sthen_cong_run, clarify, rule sthen_cong_run, clarify)
    fix ks t1 s1 t2 s2 t3 s3
    assume "slift (extract_string env key) (t, seen) = (Inr ks, (t1, s1))"
      and c: "charge (length ks) (t1, s1) = (Inr (), (t2, s2))" "charge 8 (t2, s2) = (Inr (), (t3, s3))"
    then have "t1 = t" by simp
    then have "at_level mx d t3" using c assms(2) by (metis at_level_charge)
    then show "sbind (py_to_js env heap k v) (\<lambda>j. sret (ks, j)) (t3, s3)
        = sbind (py_to_js env heap n v) (\<lambda>j. sret (ks, j)) (t3, s3)"
      by (simp add: sbind_def eq)
  qed
qed

lemma py_to_js_level:
  assumes "at_level mx d t" "py_to_js env heap n x (t, seen) = (Inr y, (t', seen'))"
  shows "at_level mx d t'"
proof -
  have "charges (js_weight True (big_len env) y) t t'"
    using py_to_js_fits [OF _ assms(2)] assms(1) by (simp add: at_level_def fits_def)
  then show ?thesis using assms(1) by (rule at_level_charges)
qed

lemma py_entry_level:
  assumes "at_level mx d t" "py_entry env heap n x (t, seen) = (Inr y, (t', seen'))"
  shows "at_level mx d t'"
proof -
  obtain key v where x: "x = (key, v)" by (cases x)
  with assms(2) obtain ks :: string and t2 t3 s2 s3 j where "charge (length ks) (t, seen) = (Inr (), (t2, s2))"
    "charge 8 (t2, s2) = (Inr (), (t3, s3))" "py_to_js env heap n v (t3, s3) = (Inr j, (t', seen'))"
    by (clarsimp simp: sbind_Inr sthen_Inr)
  with assms(1) show ?thesis by (metis at_level_charge py_to_js_level)
qed

lemma py_to_js_fuel:
  assumes "tracker_wf t" "max_depth t - current_depth t < n" "n \<le> m"
  shows "py_to_js env heap m obj (t, seen) = py_to_js env heap n obj (t, seen)"
  using assms
proof (induction n arbitrary: m obj t seen)
  case 0
  then show ?case by simp
next
  case (Suc n)
  from Suc.prems(3) obtain k where m: "m = Suc k" "n \<le> k" by (cases m) auto
  show ?case
  proof (cases obj)
    case (PRef p)
    show ?thesis unfolding m(1) py_to_js.simps PRef py_val.case
    proof (rule sthen_cong_run, clarify)
      fix t1 seen1 assume "enter_py (t, seen) = (Inr (), (t1, seen1))"
      then have e: "enter t = (Inr (), t1)" by (simp add: enter_py_Inr)
      let ?P = "at_level (max_depth t1) (current_depth t1)"
      have t1: "?P t1" using enter_wf [OF Suc.prems(1) e] by (simp add: at_level_def)
      have lt: "max_depth t1 - current_depth t1 < n"
        using enter_Inr(1,2) [OF Suc.prems(1) e] Suc.prems(2) by auto
      have eq: "py_to_js env heap k x (t, seen) = py_to_js env heap n x (t, seen)" if "?P t" for x t seen
        by (rule Suc.IH [OF _ _ m(2)]) (use that lt in \<open>auto simp: at_level_def\<close>)
      note cc = py_container_cong [OF t1, where f = "py_to_js env heap k" and g = "py_to_js env heap n", OF eq py_to_js_level]
        py_container_cong [OF t1, where f = "py_entry env heap k" and g = "py_entry env heap n",
          OF py_entry_cong [OF eq] py_entry_level]
      let ?B = "\<lambda>k. case heap p of
             Some (PListO xs) \<Rightarrow>
               sthen (mark p ''list'') (sthen (charge 16) (sthen (charge (usat_mul (length xs) 8))
              (sbind (smap (py_to_js env heap k) xs) (\<lambda>items.
               sthen (unmark p) (finish (Inr (JArray items)))))))
           | Some (PDictO es) \<Rightarrow>
               sthen (mark p ''dict'') (sthen (charge 24) (sthen (charge (usat_mul (length es) 16))
              (sbind (smap (py_entry env heap k) es) (\<lambda>entries.
               sthen (unmark p) (finish (Inr (JObject (im_from_entries entries))))))))
           | Some (PSetO xs) \<Rightarrow>
               sthen (mark p ''set'') (sthen (charge 24) (sthen (charge (usat_mul (length xs) 8))
              (sbind (smap (py_to_js env heap k) xs) (\<lambda>items.
               sthen (unmark p) (finish (Inr (JSet items)))))))
           | Some (PFrozenSetO xs) \<Rightarrow>
               sthen (mark p ''frozenset'') (sthen (charge 24) (sthen (charge (usat_mul (length xs) 8))
              (sbind (smap (py_to_js env heap k) xs) (\<lambda>items.
               sthen (unmark p) (finish (Inr (JSet items)))))))
           | None \<Rightarrow> finish (Inl (PyRuntimeError ''Unsupported Python type for JSValue conversion''))"
      show "?B k (t1, seen1) = ?B n (t1, seen1)"
        by (simp add: cc split: option.split py_cont.split)
    qed
  qed (simp_all add: m(1))
qed

section \<open>Properties\<close>

text \<open>
  C9  A plain value that fits the limits survives the trip to Python and back: what
  \<open>js_value_to_python\<close> builds, \<open>python_to_js_value\<close> reads as the same value.
\<close>

theorem js_python_round_trip:
  assumes "plain v" "store_ok st" "\<not> runtime_is_shutdown env"
    and "js_weight True (big_len env) v \<le> lim_bytes limits" "js_height True v \<le> lim_depth limits"
    and "lim_bytes limits \<le> usize_max" "lim_depth limits \<le> usize_max"
  shows "\<exists>p st'. js_value_to_python env True v st = (Inr p, st')
    \<and> python_to_js_value env (py_heap_of st') limits p = Inr v"
  by (rule js_python_roundtrip [OF assms])

theorem js_python_round_trip_witness:
  "\<exists>p st'. js_value_to_python sample_env True
       (JObject [(''a'', JArray [JInt 1, JUndefined]), (''b'', JString ''x'')]) empty_store = (Inr p, st')
     \<and> python_to_js_value sample_env (py_heap_of st') default_limits p
       = Inr (JObject [(''a'', JArray [JInt 1, JUndefined]), (''b'', JString ''x'')])"
  by (rule js_python_round_trip)
    (simp_all add: im_inv_def carries_tag_def in_i64_def i64_min_def i64_max_def store_ok_def empty_store_def
      sample_env_def default_limits_def MAX_JS_DEPTH_def MAX_JS_BYTES_def usize_max_def)

text \<open>
  C3  On a plain value the inbound converter succeeds exactly when the value's bytes and its
  nesting fit what the tracker has left: the limits neither leak nor over-reject.
\<close>

theorem inbound_limits_exact:
  assumes "plain v" "tracker_wf t" "store_ok st"
  shows "(\<exists>p s'. js_to_py env True v (t, st) = (Inr p, s')) \<longleftrightarrow>
    current_bytes t + js_weight False (big_len env) v \<le> max_bytes t
    \<and> current_depth t + js_height False v \<le> max_depth t"
  by (rule js_to_py_exact [OF assms])

theorem inbound_limits_exact_witness:
  "(\<exists>p s'. js_to_py sample_env True (JArray [JInt 1]) (tracker_new 2 32, empty_store) = (Inr p, s'))
   \<and> \<not> (\<exists>p s'. js_to_py sample_env True (JArray [JInt 1]) (tracker_new 2 31, empty_store) = (Inr p, s'))"
  using inbound_limits_exact [of "JArray [JInt 1]" "tracker_new 2 32" empty_store sample_env]
    inbound_limits_exact [of "JArray [JInt 1]" "tracker_new 2 31" empty_store sample_env]
  by (simp add: in_i64_def i64_min_def i64_max_def tracker_wf_def tracker_new_def usize_max_def
      store_ok_def empty_store_def)

text \<open>
  What \<open>python_to_js_value\<close> returns is within the configured limits, whatever graph of
  Python objects it was given: its weight is at most \<open>max_bytes\<close>, its nesting at most \<open>max_depth\<close>.
\<close>

theorem outbound_within_limits:
  assumes "python_to_js_value env heap limits obj = Inr v"
    and "lim_depth limits < usize_max" "lim_bytes limits < usize_max"
  shows "js_weight True (big_len env) v \<le> lim_bytes limits \<and> js_depth v \<le> lim_depth limits"
  by (rule python_to_js_bounds [OF assms])

theorem outbound_within_limits_witness:
  "python_to_js_value sample_env [7 \<mapsto> PListO [PInt 1, PNone]] default_limits (PRef 7) = Inr (JArray [JInt 1, JNull])
   \<and> js_weight True (big_len sample_env) (JArray [JInt 1, JNull]) \<le> lim_bytes default_limits"
proof -
  have run: "python_to_js_value sample_env [7 \<mapsto> PListO [PInt 1, PNone]] default_limits (PRef 7)
      = Inr (JArray [JInt 1, JNull])"
  proof -
    let ?H = "[7 \<mapsto> PListO [PInt 1, PNone]]"
    have r: "rep ?H 0 (PRef 7) (JArray [JInt 1, JNull])"
      by (rule rep.array) (auto intro: rep.intros simp: in_i64_def i64_min_def i64_max_def)
    show ?thesis
      unfolding python_to_js_value_def python_to_js_value_tracked_def
      by (subst py_to_js_run [OF r])
        (simp_all add: sample_env_def room_def tracker_new_def default_limits_def MAX_JS_DEPTH_def
          MAX_JS_BYTES_def usize_max_def)
  qed
  then show ?thesis
    using outbound_within_limits [OF run] by (simp add: default_limits_def MAX_JS_DEPTH_def MAX_JS_BYTES_def usize_max_def)
qed

text \<open>
  C5  A container reached again on its own path is refused, whatever the budget: cyclic Python
  structures never convert.
\<close>

theorem cycles_refused:
  assumes "heap p = Some c" "p \<in> seen"
  shows "\<exists>e s'. py_to_js env heap n (PRef p) (t, seen) = (Inl e, s')"
  using assms by (rule py_to_js_cycle)

theorem cycles_refused_witness:
  "\<exists>e s'. py_to_js sample_env [3 \<mapsto> PListO [PRef 3]] 9 (PRef 3) (tracker_new 5 100, {3}) = (Inl e, s')"
  by (rule cycles_refused [of _ 3 "PListO [PRef 3]"]) simp_all

text \<open>
  C6  The recursion over the object graph is bounded by the depth limit: more fuel than
  \<open>python_to_js_value_tracked\<close> starts with never changes the result or the state.
\<close>

theorem outbound_fuel_enough:
  assumes "tracker_wf t" "Suc (max_depth t - current_depth t) \<le> n"
  shows "py_to_js env heap n obj (t, seen)
    = py_to_js env heap (Suc (max_depth t - current_depth t)) obj (t, seen)"
  by (rule py_to_js_fuel [OF assms(1) lessI assms(2)])

theorem outbound_fuel_enough_witness:
  "py_to_js sample_env [3 \<mapsto> PListO [PNone]] 50 (PRef 3) (tracker_new 5 100, {})
    = py_to_js sample_env [3 \<mapsto> PListO [PNone]] 6 (PRef 3) (tracker_new 5 100, {})"
proof -
  have t: "tracker_wf (tracker_new 5 100)" "Suc (max_depth (tracker_new 5 100) - current_depth (tracker_new 5 100)) = 6"
    by (simp_all add: tracker_wf_def tracker_new_def usize_max_def)
  show ?thesis
    by (rule outbound_fuel_enough [OF t(1), unfolded t(2)]) simp
qed

end
