(* ===== verification/Peno_Streams.thy ===== *)
theory Peno_Streams
  imports Peno_Conversion
begin

text \<open>
  \<open>src/runtime/stream.rs\<close>: the usage snapshot, the chunk envelope and its decoding, and the two
  registries that give a \<open>ReadableStream\<close> (JavaScript side) or an async iterable (Python side) an
  id on the other side.  V8 objects and Python iterators are opaque handles; what reading a
  property, calling a function or awaiting \<open>__anext__\<close> does is a parameter that threads an opaque
  world.
\<close>

section \<open>Usage snapshots\<close>

record stream_stats =
  active_js_streams :: u64
  active_py_streams :: u64
  total_js_streams :: u64
  total_py_streams :: u64
  bytes_js_to_py :: u64
  bytes_py_to_js :: u64

definition stream_stats_default :: stream_stats where
  "stream_stats_default = \<lparr>active_js_streams = 0, active_py_streams = 0, total_js_streams = 0,
     total_py_streams = 0, bytes_js_to_py = 0, bytes_py_to_js = 0\<rparr>"

definition merge :: "stream_stats \<Rightarrow> stream_stats \<Rightarrow> stream_stats" where
  "merge s other =
     \<lparr>active_js_streams = wsat_add (active_js_streams s) (active_js_streams other),
      active_py_streams = wsat_add (active_py_streams s) (active_py_streams other),
      total_js_streams = wsat_add (total_js_streams s) (total_js_streams other),
      total_py_streams = wsat_add (total_py_streams s) (total_py_streams other),
      bytes_js_to_py = wsat_add (bytes_js_to_py s) (bytes_js_to_py other),
      bytes_py_to_js = wsat_add (bytes_py_to_js s) (bytes_py_to_js other)\<rparr>"

section \<open>Chunks\<close>

record stream_chunk =
  chunk_done :: bool
  chunk_value :: "js_value option"

abbreviation "STREAM_CHUNK_TYPE \<equiv> ''StreamChunk''"
abbreviation "STREAM_CHUNK_DONE_KEY \<equiv> ''done''"
abbreviation "STREAM_CHUNK_VALUE_KEY \<equiv> ''value''"

definition to_js_value :: "stream_chunk \<Rightarrow> js_value" where
  "to_js_value c =
     (let m0 = AList.update TYPE_TAG (JString STREAM_CHUNK_TYPE) [];
          m1 = AList.update STREAM_CHUNK_DONE_KEY (JBool (chunk_done c)) m0;
          m2 = (case chunk_value c of
                  Some v \<Rightarrow> AList.update STREAM_CHUNK_VALUE_KEY v m1 | None \<Rightarrow> m1)
      in JObject m2)"

text \<open>\<open>dbg\<close> is the derived \<open>Debug\<close> rendering that the error messages quote.\<close>

definition from_js_value :: "(js_value option \<Rightarrow> string) \<Rightarrow> js_value \<Rightarrow> runtime_error + stream_chunk" where
  "from_js_value dbg payload =
     (case payload of
        JObject m \<Rightarrow>
          (let tag = (case map_of m TYPE_TAG of Some (JString s) \<Rightarrow> s | _ \<Rightarrow> '''');
               m1 = AList.delete TYPE_TAG m;
               d = map_of m1 STREAM_CHUNK_DONE_KEY;
               m2 = AList.delete STREAM_CHUNK_DONE_KEY m1;
               v = map_of m2 STREAM_CHUNK_VALUE_KEY
           in if tag = STREAM_CHUNK_TYPE then
                (case d of
                   Some (JBool flag) \<Rightarrow> Inr \<lparr>chunk_done = flag, chunk_value = v\<rparr>
                 | other \<Rightarrow> Inl (Internal (''Stream chunk missing done flag: '' @ dbg other)))
              else
                (case d of
                   Some (JBool flag) \<Rightarrow> Inr \<lparr>chunk_done = flag, chunk_value = v\<rparr>
                 | Some (JString text) \<Rightarrow>
                     if text = ''true'' then Inr \<lparr>chunk_done = True, chunk_value = v\<rparr>
                     else if text = ''false'' then Inr \<lparr>chunk_done = False, chunk_value = v\<rparr>
                     else Inl (Internal (''Invalid done field for stream chunk: '' @ dbg d))
                 | Some other \<Rightarrow> Inl (Internal (''Invalid done field for stream chunk: '' @ dbg d))
                 | None \<Rightarrow> Inl (Internal ''Stream chunk missing done field'')))
      | other \<Rightarrow> Inl (Internal (''Unexpected chunk payload: '' @ dbg (Some other))))"

lemma chunk_roundtrip: "from_js_value dbg (to_js_value c) = Inr c"
  by (cases c; cases "chunk_value c")
    (simp_all add: from_js_value_def to_js_value_def Let_def split: option.split)

section \<open>The interface of an id registry\<close>

text \<open>
  Both registries, and the function registry of the runtime thread, hand out ids from a counter
  and forget them on release.  \<open>spare\<close> says that the counter has not run out.
\<close>

locale id_registry =
  fixes ids :: "'r \<Rightarrow> u32 set"
    and live :: "'r \<Rightarrow> u64"
    and add :: "'a \<Rightarrow> 'r \<Rightarrow> u32 \<times> 'r"
    and drop_id :: "u32 \<Rightarrow> 'r \<Rightarrow> 'r"
    and ok :: "'r \<Rightarrow> bool"
    and spare :: "'r \<Rightarrow> bool"
  assumes ok_add: "ok r \<Longrightarrow> spare r \<Longrightarrow> ok (snd (add a r))"
    and ok_drop: "ok r \<Longrightarrow> ok (drop_id i r)"
    and add_fresh: "ok r \<Longrightarrow> spare r \<Longrightarrow> fst (add a r) \<notin> ids r"
    and add_ids: "ok r \<Longrightarrow> spare r \<Longrightarrow> ids (snd (add a r)) = insert (fst (add a r)) (ids r)"
    and drop_ids: "ok r \<Longrightarrow> ids (drop_id i r) = ids r - {i}"
    and live_card: "ok r \<Longrightarrow> finite (ids r) \<and> unat (live r) = card (ids r)"
begin

lemma live_add: "ok r \<Longrightarrow> spare r \<Longrightarrow> unat (live (snd (add a r))) = Suc (unat (live r))"
  using live_card [of r] live_card [of "snd (add a r)"] ok_add [of r] add_ids [of r] add_fresh [of r]
  by simp

lemma live_drop:
  "ok r \<Longrightarrow> unat (live (drop_id i r)) = (if i \<in> ids r then unat (live r) - 1 else unat (live r))"
  using live_card [of r] live_card [of "drop_id i r"] ok_drop [of r] drop_ids [of r] by simp

lemma drop_twice: "ok r \<Longrightarrow> live (drop_id i (drop_id i r)) = live (drop_id i r)"
  using live_drop [of "drop_id i r" i] ok_drop [of r] drop_ids [of r] by (simp add: word_unat_eq_iff)

lemma add_then_drop:
  "ok r \<Longrightarrow> spare r \<Longrightarrow> live (drop_id (fst (add a r)) (snd (add a r))) = live r"
  using live_drop [of "snd (add a r)" "fst (add a r)"] ok_add [of r] add_ids [of r] live_add [of r]
  by (simp add: word_unat_eq_iff)

end

section \<open>Streams of the guest\<close>

record 'h js_stream_entry =
  jse_stream :: 'h
  jse_reader :: "'h option"
  jse_chunks :: u64
  jse_transferred :: u64

record js_stream_stats =
  jss_active :: u64
  jss_total :: u64
  jss_bytes :: u64

record 'h js_stream_registry =
  jsr_entries :: "u32 \<rightharpoonup> 'h js_stream_entry"
  jsr_next_id :: u32
  jsr_stats :: js_stream_stats

definition js_stream_entry_new :: "'h \<Rightarrow> 'h js_stream_entry" where
  "js_stream_entry_new v = \<lparr>jse_stream = v, jse_reader = None, jse_chunks = 0, jse_transferred = 0\<rparr>"

definition js_stream_registry_new :: "'h js_stream_registry" where
  "js_stream_registry_new =
     \<lparr>jsr_entries = Map.empty, jsr_next_id = 0, jsr_stats = \<lparr>jss_active = 0, jss_total = 0, jss_bytes = 0\<rparr>\<rparr>"

definition register_stream :: "'h \<Rightarrow> 'h js_stream_registry \<Rightarrow> u32 \<times> 'h js_stream_registry" where
  "register_stream v r =
     (let id = jsr_next_id r; st = jsr_stats r
      in (id, \<lparr>jsr_entries = (jsr_entries r)(id \<mapsto> js_stream_entry_new v),
               jsr_next_id = id + 1,
               jsr_stats = st\<lparr>jss_active := wsat_add (jss_active st) 1, jss_total := wsat_add (jss_total st) 1\<rparr>\<rparr>))"

definition js_stream_release :: "u32 \<Rightarrow> 'h js_stream_registry \<Rightarrow> 'h js_stream_registry" where
  "js_stream_release i r =
     (if jsr_entries r i = None then r
      else let st = jsr_stats r
           in r\<lparr>jsr_entries := (jsr_entries r)(i := None),
                jsr_stats := st\<lparr>jss_active := wsat_sub (jss_active st) 1\<rparr>\<rparr>)"

definition js_stats_snapshot :: "'h js_stream_registry \<Rightarrow> stream_stats" where
  "js_stats_snapshot r = stream_stats_default\<lparr>active_js_streams := jss_active (jsr_stats r),
     total_js_streams := jss_total (jsr_stats r), bytes_js_to_py := jss_bytes (jsr_stats r)\<rparr>"

definition update_stats_after_chunk ::
  "u32 \<Rightarrow> stream_chunk \<Rightarrow> 'h js_stream_registry \<Rightarrow> 'h js_stream_registry" where
  "update_stats_after_chunk i chunk r =
     (case jsr_entries r i of
        None \<Rightarrow> r
      | Some e \<Rightarrow>
          (let e1 = e\<lparr>jse_chunks := wsat_add (jse_chunks e) 1\<rparr>
           in case chunk_value chunk of
                Some (JBytes bs) \<Rightarrow>
                  (let n = word_of_nat (length bs); st = jsr_stats r
                   in r\<lparr>jsr_entries := (jsr_entries r)(i \<mapsto> e1\<lparr>jse_transferred := wsat_add (jse_transferred e1) n\<rparr>),
                        jsr_stats := st\<lparr>jss_bytes := wsat_add (jss_bytes st) n\<rparr>\<rparr>)
              | _ \<Rightarrow> r\<lparr>jsr_entries := (jsr_entries r)(i \<mapsto> e1)\<rparr>))"

text \<open>
  What V8 does for \<open>ensure_reader\<close> and \<open>start_read\<close>: every one of these calls may run guest code,
  so each threads the world \<open>'w\<close>.
\<close>

record ('h, 'w) v8_calls =
  v8_to_object :: "'h \<Rightarrow> 'h option"
  v8_get :: "'h \<Rightarrow> string \<Rightarrow> 'w \<Rightarrow> 'h option \<times> 'w"
  v8_is_function :: "'h \<Rightarrow> bool"
  v8_is_promise :: "'h \<Rightarrow> bool"
  v8_call :: "'h \<Rightarrow> 'h \<Rightarrow> 'w \<Rightarrow> 'h option \<times> 'w"

definition opt_or :: "string \<Rightarrow> 'a option \<Rightarrow> ('s, runtime_error, 'a) comp" where
  "opt_or msg x s = (case x of Some a \<Rightarrow> (Inr a, s) | None \<Rightarrow> (Inl (Internal msg), s))"

definition in_world :: "('w \<Rightarrow> 'a \<times> 'w) \<Rightarrow> ('r \<times> 'w, 'e, 'a) comp" where
  "in_world f s = (case f (snd s) of (a, w) \<Rightarrow> (Inr a, (fst s, w)))"

definition ensure_reader ::
  "('h, 'w) v8_calls \<Rightarrow> u32 \<Rightarrow> ('h js_stream_registry \<times> 'w, runtime_error, 'h) comp" where
  "ensure_reader v8 i s =
     (case jsr_entries (fst s) i of
        None \<Rightarrow> (Inl (Internal ''Unknown stream id''), s)
      | Some e \<Rightarrow>
          (case jse_reader e of
             Some existing \<Rightarrow> (Inr existing, s)
           | None \<Rightarrow>
               sbind (opt_or ''ReadableStream is not an object'' (v8_to_object v8 (jse_stream e))) (\<lambda>obj.
               sbind (in_world (v8_get v8 obj ''getReader'')) (\<lambda>g.
               sbind (opt_or ''ReadableStream.getReader missing'' g) (\<lambda>getter.
               sthen (slift (if v8_is_function v8 getter then Inr ()
                             else Inl (Internal ''getReader is not a function'')))
              (sbind (in_world (v8_call v8 getter obj)) (\<lambda>r.
               sbind (opt_or ''getReader threw'' r) (\<lambda>rv.
               sbind (opt_or ''getReader did not return object'' (v8_to_object v8 rv)) (\<lambda>reader s'.
                 (Inr reader, ((fst s')\<lparr>jsr_entries :=
                    (jsr_entries (fst s'))(i \<mapsto> e\<lparr>jse_reader := Some reader\<rparr>)\<rparr>, snd s'))))))))) s))"

definition start_read ::
  "('h, 'w) v8_calls \<Rightarrow> u32 \<Rightarrow> ('h js_stream_registry \<times> 'w, runtime_error, 'h) comp" where
  "start_read v8 i =
     sbind (ensure_reader v8 i) (\<lambda>reader.
     sbind (in_world (v8_get v8 reader ''read'')) (\<lambda>g.
     sbind (opt_or ''Reader.read missing'' g) (\<lambda>read_fn.
     sthen (slift (if v8_is_function v8 read_fn then Inr ()
                   else Inl (Internal ''Reader.read is not callable'')))
    (sbind (in_world (v8_call v8 read_fn reader)) (\<lambda>p.
     sbind (opt_or ''Reader.read threw'' p) (\<lambda>promise.
     slift (if v8_is_promise v8 promise then Inr promise
            else Inl (Internal ''Reader.read must return a promise''))))))))"

text \<open>Ids come from a counter that has not wrapped while fewer than \<open>2 ^ 32\<close> streams were made.\<close>

definition jsr_ok :: "'h js_stream_registry \<Rightarrow> bool" where
  "jsr_ok r \<longleftrightarrow> unat (jsr_next_id r) = unat (jss_total (jsr_stats r))
     \<and> (\<forall>i \<in> dom (jsr_entries r). i < jsr_next_id r)
     \<and> unat (jss_active (jsr_stats r)) = card (dom (jsr_entries r))"

definition jsr_spare :: "'h js_stream_registry \<Rightarrow> bool" where
  "jsr_spare r \<longleftrightarrow> jsr_next_id r \<noteq> - 1"

lemma jsr_new_ok: "jsr_ok js_stream_registry_new"
  by (simp add: jsr_ok_def js_stream_registry_new_def)

interpretation jsr: id_registry "\<lambda>r. dom (jsr_entries r)" "\<lambda>r. jss_active (jsr_stats r)"
  register_stream js_stream_release jsr_ok jsr_spare
proof unfold_locales
  fix r :: "'h js_stream_registry" and a :: 'h and i :: u32
  assume ok: "jsr_ok r"
  have fin: "finite (dom (jsr_entries r))" by simp
  have act: "unat (jss_active (jsr_stats r)) \<le> 2 ^ 32"
    using ok card_u32 [of "dom (jsr_entries r)"] by (simp add: jsr_ok_def)
  show "finite (dom (jsr_entries r)) \<and> unat (jss_active (jsr_stats r)) = card (dom (jsr_entries r))"
    using ok fin by (simp add: jsr_ok_def)
  show "dom (jsr_entries (js_stream_release i r)) = dom (jsr_entries r) - {i}"
    by (auto simp: js_stream_release_def Let_def)
  show "jsr_ok (js_stream_release i r)"
  proof (cases "jsr_entries r i")
    case None
    with ok show ?thesis by (simp add: js_stream_release_def)
  next
    case (Some e)
    then have "i \<in> dom (jsr_entries r)" by blast
    with Some ok fin show ?thesis
      by (simp add: jsr_ok_def js_stream_release_def Let_def unat_wsat_sub card_Diff_singleton)
  qed
  assume spare: "jsr_spare r"
  show fresh: "fst (register_stream a r) \<notin> dom (jsr_entries r)"
    using ok by (auto simp: register_stream_def jsr_ok_def Let_def)
  show "dom (jsr_entries (snd (register_stream a r))) = insert (fst (register_stream a r)) (dom (jsr_entries r))"
    by (simp add: register_stream_def Let_def)
  have "unat (jss_total (jsr_stats r)) < 2 ^ 64 - 1"
    using ok unat_u32_less [of "jsr_next_id r"] by (simp add: jsr_ok_def)
  then show "jsr_ok (snd (register_stream a r))"
    using ok spare act fresh fin
    by (auto simp: jsr_ok_def jsr_spare_def register_stream_def Let_def wsat_add_1 unat_Suc_word
        unat_word_less less_imp_le)
qed

section \<open>Streams of the host\<close>

text \<open>
  A \<open>PyStreamEntry\<close> is shared (\<open>Arc\<close>): \<open>pull_next\<close> goes on using the one it looked up after another
  task removed it from the map, so entries live in an arena and the map holds addresses.
\<close>

record py_stream_entry =
  pse_iterable :: nat
  pse_iterator :: "nat option"
  pse_closed :: bool

record py_stream_registry =
  psr_entries :: "u32 \<rightharpoonup> nat"
  psr_arena :: "py_stream_entry list"
  psr_next_id :: u32
  psr_active :: u64
  psr_total :: u64
  psr_bytes :: u64
  psr_listeners :: "nat list"
  psr_notified :: "(nat \<times> u32) list"
  psr_limits :: serialization_limits

definition py_stream_registry_new :: "serialization_limits \<Rightarrow> py_stream_registry" where
  "py_stream_registry_new limits =
     \<lparr>psr_entries = Map.empty, psr_arena = [], psr_next_id = 1, psr_active = 0, psr_total = 0,
      psr_bytes = 0, psr_listeners = [], psr_notified = [], psr_limits = limits\<rparr>"

definition add_release_listener :: "nat \<Rightarrow> py_stream_registry \<Rightarrow> py_stream_registry" where
  "add_release_listener l r = r\<lparr>psr_listeners := psr_listeners r @ [l]\<rparr>"

text \<open>The listeners are called in the order they were added; the log records the calls.\<close>

definition notify_release_listeners :: "u32 \<Rightarrow> py_stream_registry \<Rightarrow> py_stream_registry" where
  "notify_release_listeners i r =
     r\<lparr>psr_notified := psr_notified r @ map (\<lambda>l. (l, i)) (psr_listeners r)\<rparr>"

definition register_iterable :: "nat \<Rightarrow> py_stream_registry \<Rightarrow> u32 \<times> py_stream_registry" where
  "register_iterable iterable r =
     (psr_next_id r,
      r\<lparr>psr_next_id := psr_next_id r + 1,
        psr_arena := psr_arena r @ [\<lparr>pse_iterable = iterable, pse_iterator = None, pse_closed = False\<rparr>],
        psr_entries := (psr_entries r)(psr_next_id r \<mapsto> length (psr_arena r)),
        psr_active := psr_active r + 1,
        psr_total := psr_total r + 1\<rparr>)"

definition remove_entry :: "u32 \<Rightarrow> py_stream_registry \<Rightarrow> nat option \<times> py_stream_registry" where
  "remove_entry i r =
     (case psr_entries r i of
        None \<Rightarrow> (None, r)
      | Some a \<Rightarrow> (Some a, notify_release_listeners i
          (r\<lparr>psr_entries := (psr_entries r)(i := None), psr_active := psr_active r - 1\<rparr>)))"

definition py_stream_release :: "u32 \<Rightarrow> py_stream_registry \<Rightarrow> py_stream_registry" where
  "py_stream_release i r = snd (remove_entry i r)"

definition py_stats_snapshot :: "py_stream_registry \<Rightarrow> stream_stats" where
  "py_stats_snapshot r = stream_stats_default\<lparr>active_py_streams := psr_active r,
     total_py_streams := psr_total r, bytes_py_to_js := psr_bytes r\<rparr>"

text \<open>What calling and awaiting Python does; \<open>exc_text\<close> is the exception's \<open>Display\<close>.\<close>

record 'w py_calls =
  pc_aiter :: "nat \<Rightarrow> 'w \<Rightarrow> (py_exc + nat) \<times> 'w"
  pc_anext :: "nat \<Rightarrow> 'w \<Rightarrow> (py_exc + nat) \<times> 'w"
  pc_into_future :: "nat \<Rightarrow> py_exc + nat"
  pc_await :: "nat \<Rightarrow> 'w \<Rightarrow> (py_exc + py_val) \<times> 'w"
  pc_aclose :: "nat \<Rightarrow> nat option"
  pc_call0 :: "nat \<Rightarrow> 'w \<Rightarrow> (py_exc + nat) \<times> 'w"
  pc_exc_text :: "py_exc \<Rightarrow> string"
  pc_heap :: "'w \<Rightarrow> py_heap"
  pc_env :: py_env

type_synonym ('w, 'a) pull = "(py_stream_registry \<times> 'w, runtime_error, 'a) comp"

definition failing :: "('w py_calls) \<Rightarrow> string \<Rightarrow> py_exc + 'a \<Rightarrow> runtime_error + 'a" where
  "failing pc what r = (case r of Inl e \<Rightarrow> Inl (Internal (what @ pc_exc_text pc e)) | Inr a \<Rightarrow> Inr a)"

fun is_stop_async_iteration :: "py_exc \<Rightarrow> bool" where
  "is_stop_async_iteration (PyStopAsyncIteration _) = True"
| "is_stop_async_iteration _ = False"

definition ensure_iterator :: "'w py_calls \<Rightarrow> nat \<Rightarrow> ('w, nat) pull" where
  "ensure_iterator pc a s =
     (case pse_iterator (psr_arena (fst s) ! a) of
        Some it \<Rightarrow> (Inr it, s)
      | None \<Rightarrow>
          sbind (in_world (pc_aiter pc (pse_iterable (psr_arena (fst s) ! a)))) (\<lambda>r.
          sbind (slift (failing pc ''Failed to get __aiter__: '' r)) (\<lambda>it s'.
            (Inr it, ((fst s')\<lparr>psr_arena := (psr_arena (fst s'))
               [a := (psr_arena (fst s') ! a)\<lparr>pse_iterator := Some it\<rparr>]\<rparr>, snd s')))) s)"

definition next_chunk :: "'w py_calls \<Rightarrow> nat \<Rightarrow> ('w, stream_chunk) pull" where
  "next_chunk pc a =
     sbind (ensure_iterator pc a) (\<lambda>it.
     sbind (in_world (pc_anext pc it)) (\<lambda>r.
     sbind (slift (failing pc ''__anext__ failed: '' r)) (\<lambda>aw.
     sbind (slift (failing pc ''Failed to await __anext__: '' (pc_into_future pc aw))) (\<lambda>fut.
     sbind (in_world (pc_await pc fut)) (\<lambda>res s.
       (case res of
          Inr value \<Rightarrow>
            (case python_to_js_value (pc_env pc) (pc_heap pc (snd s)) (psr_limits (fst s)) value of
               Inr v \<Rightarrow> (Inr \<lparr>chunk_done = False, chunk_value = Some v\<rparr>, s)
             | Inl e \<Rightarrow> (Inl (Internal (''Chunk conversion failed: '' @ pc_exc_text pc e)), s))
        | Inl e \<Rightarrow>
            if is_stop_async_iteration e then (Inr \<lparr>chunk_done = True, chunk_value = None\<rparr>, s)
            else (Inl (Internal (''Python stream errored: '' @ pc_exc_text pc e)), s)))))))"

definition count_chunk :: "stream_chunk \<Rightarrow> py_stream_registry \<Rightarrow> py_stream_registry" where
  "count_chunk c r =
     (case chunk_value c of
        Some (JBytes bs) \<Rightarrow> r\<lparr>psr_bytes := psr_bytes r + word_of_nat (length bs)\<rparr>
      | _ \<Rightarrow> r)"

definition pull_next :: "'w py_calls \<Rightarrow> u32 \<Rightarrow> ('w, stream_chunk) pull" where
  "pull_next pc i s =
     (case psr_entries (fst s) i of
        None \<Rightarrow> (Inl (Internal ''Unknown Python stream id''), s)
      | Some a \<Rightarrow>
          sbind (next_chunk pc a) (\<lambda>chunk s'.
            (let r = count_chunk chunk (fst s');
                 r' = (if chunk_done chunk then py_stream_release i r else r)
             in (Inr chunk, (r', snd s')))) s)"

definition cancel_entry :: "'w py_calls \<Rightarrow> nat \<Rightarrow> ('w, unit) pull" where
  "cancel_entry pc a s =
     (let e = psr_arena (fst s) ! a;
          s1 = ((fst s)\<lparr>psr_arena := (psr_arena (fst s))[a := e\<lparr>pse_closed := True\<rparr>]\<rparr>, snd s)
      in if pse_closed e then (Inr (), s1)
         else case pse_iterator e of
                None \<Rightarrow> (Inr (), s1)
              | Some it \<Rightarrow>
                  (case pc_aclose pc it of
                     None \<Rightarrow> (Inr (), s1)
                   | Some f \<Rightarrow>
                       sbind (in_world (pc_call0 pc f)) (\<lambda>r.
                       sbind (slift (failing pc ''aclose() failed: '' r)) (\<lambda>aw.
                       sbind (slift (failing pc ''Failed to await aclose(): '' (pc_into_future pc aw))) (\<lambda>fut.
                       sbind (in_world (pc_await pc fut)) (\<lambda>res.
                       slift (case res of
                                Inr _ \<Rightarrow> Inr ()
                              | Inl e \<Rightarrow> if is_stop_async_iteration e then Inr ()
                                  else Inl (Internal (''aclose() errored: '' @ pc_exc_text pc e))))))) s1))"

definition cancel :: "'w py_calls \<Rightarrow> u32 \<Rightarrow> ('w, unit) pull" where
  "cancel pc i s =
     (case remove_entry i (fst s) of
        (None, r) \<Rightarrow> (Inr (), (r, snd s))
      | (Some a, r) \<Rightarrow> cancel_entry pc a (r, snd s))"

definition psr_ok :: "py_stream_registry \<Rightarrow> bool" where
  "psr_ok r \<longleftrightarrow> unat (psr_next_id r) = Suc (unat (psr_total r))
     \<and> (\<forall>i \<in> dom (psr_entries r). i < psr_next_id r)
     \<and> unat (psr_active r) = card (dom (psr_entries r))
     \<and> (\<forall>a \<in> ran (psr_entries r). a < length (psr_arena r))
     \<and> (\<forall>(l, i) \<in> set (psr_notified r). i < psr_next_id r \<and> i \<notin> dom (psr_entries r))
     \<and> distinct (psr_notified r) \<and> distinct (psr_listeners r)"

definition psr_spare :: "py_stream_registry \<Rightarrow> bool" where
  "psr_spare r \<longleftrightarrow> psr_next_id r \<noteq> - 1"

lemma psr_new_ok: "psr_ok (py_stream_registry_new limits)"
  by (simp add: psr_ok_def py_stream_registry_new_def)

lemma remove_entry_ok: "psr_ok r \<Longrightarrow> psr_ok (snd (remove_entry i r))"
proof (cases "psr_entries r i")
  case None
  assume "psr_ok r"
  with None show ?thesis by (simp add: remove_entry_def)
next
  case (Some a)
  assume ok: "psr_ok r"
  from Some have i: "i \<in> dom (psr_entries r)" by blast
  then have "0 < card (dom (psr_entries r))" by (simp add: card_gt_0_iff dom_def) blast
  then have act: "1 \<le> psr_active r"
    using ok by (simp add: psr_ok_def word_le_nat_alt Suc_le_eq)
  have "ran ((psr_entries r)(i := None)) \<subseteq> ran (psr_entries r)"
    by (auto simp: ran_def)
  moreover have "(l, i) \<notin> set (psr_notified r)" for l
    using ok i by (auto simp: psr_ok_def)
  ultimately show ?thesis
    using ok i act Some
    by (auto simp: psr_ok_def remove_entry_def notify_release_listeners_def unat_sub
        card_Diff_singleton distinct_map inj_on_def)
qed

lemma not_last_u64: "unat x < 2 ^ 64 - 1 \<Longrightarrow> (x :: u64) \<noteq> - 1"
  by (auto simp: unsigned_minus_1_eq_mask mask_eq_exp_minus_1)

lemma register_iterable_ok:
  assumes ok: "psr_ok r" and spare: "psr_spare r"
  shows "psr_ok (snd (register_iterable a r))"
  unfolding psr_ok_def
proof (intro conjI)
  have t: "psr_total r \<noteq> - 1" and l: "psr_active r \<noteq> - 1"
    by (rule not_last_u64, use ok unat_u32_less [of "psr_next_id r"] card_u32 [of "dom (psr_entries r)"] in
        \<open>simp add: psr_ok_def\<close>)+
  have n: "psr_next_id r \<noteq> - 1" using spare by (simp add: psr_spare_def)
  have fresh: "fst (register_iterable a r) \<notin> dom (psr_entries r)"
    using ok by (auto simp: register_iterable_def psr_ok_def)
  have less: "i \<le> psr_next_id r" if "i < psr_next_id r" for i using that by simp
  show "\<forall>i \<in> dom (psr_entries (snd (register_iterable a r))). i < psr_next_id (snd (register_iterable a r))"
    using ok less by (auto simp: psr_ok_def register_iterable_def unat_word_less [OF n])
  show "unat (psr_active (snd (register_iterable a r))) = card (dom (psr_entries (snd (register_iterable a r))))"
    using ok fresh by (simp add: psr_ok_def register_iterable_def unat_Suc_word [OF l])
  show "\<forall>a' \<in> ran (psr_entries (snd (register_iterable a r))). a' < length (psr_arena (snd (register_iterable a r)))"
  proof
    fix a' assume "a' \<in> ran (psr_entries (snd (register_iterable a r)))"
    then have "a' = length (psr_arena r) \<or> a' \<in> ran (psr_entries r)"
      by (auto simp: register_iterable_def ran_def split: if_splits)
    then show "a' < length (psr_arena (snd (register_iterable a r)))"
      using ok by (auto simp: psr_ok_def register_iterable_def)
  qed
  show "\<forall>(l, i) \<in> set (psr_notified (snd (register_iterable a r))). i < psr_next_id (snd (register_iterable a r))
      \<and> i \<notin> dom (psr_entries (snd (register_iterable a r)))"
  proof clarify
    fix l i assume "(l, i) \<in> set (psr_notified (snd (register_iterable a r)))"
    then have "i < psr_next_id r" "i \<notin> dom (psr_entries r)"
      using ok by (auto simp: psr_ok_def register_iterable_def)
    then show "i < psr_next_id (snd (register_iterable a r)) \<and> i \<notin> dom (psr_entries (snd (register_iterable a r)))"
      by (auto simp: register_iterable_def unat_word_less [OF n])
  qed
  show "unat (psr_next_id (snd (register_iterable a r))) = Suc (unat (psr_total (snd (register_iterable a r))))"
    using ok by (simp add: psr_ok_def register_iterable_def unat_Suc_word [OF t] unat_Suc_word [OF n])
qed (use ok in \<open>simp_all add: psr_ok_def register_iterable_def\<close>)

interpretation psr: id_registry "\<lambda>r. dom (psr_entries r)" psr_active register_iterable
  py_stream_release psr_ok psr_spare
proof unfold_locales
  fix r :: py_stream_registry and a :: nat and i :: u32
  assume ok: "psr_ok r"
  show "finite (dom (psr_entries r)) \<and> unat (psr_active r) = card (dom (psr_entries r))"
    using ok by (simp add: psr_ok_def)
  show "dom (psr_entries (py_stream_release i r)) = dom (psr_entries r) - {i}"
    by (auto simp: py_stream_release_def remove_entry_def notify_release_listeners_def split: option.split)
  show "psr_ok (py_stream_release i r)"
    using remove_entry_ok [OF ok] by (simp add: py_stream_release_def)
  assume spare: "psr_spare r"
  then show "psr_ok (snd (register_iterable a r))"
    by (rule register_iterable_ok [OF ok])
  show "fst (register_iterable a r) \<notin> dom (psr_entries r)"
    using ok by (auto simp: register_iterable_def psr_ok_def)
  show "dom (psr_entries (snd (register_iterable a r)))
      = insert (fst (register_iterable a r)) (dom (psr_entries r))"
    by (simp add: register_iterable_def)
qed

section \<open>Every operation keeps the registry\<close>

abbreviation "pull_ok \<equiv> \<lambda>s. psr_ok (fst s)"

lemma keeps_in_world [keeps_intros]: "(\<And>s w. P s \<Longrightarrow> P (fst s, w)) \<Longrightarrow> keeps P (in_world f)"
  by (auto simp: keeps_def in_world_def split: prod.split)

lemma psr_ok_arena: "psr_ok r \<Longrightarrow> psr_ok (r\<lparr>psr_arena := (psr_arena r)[a := e]\<rparr>)"
  by (simp add: psr_ok_def)

lemma psr_ok_count: "psr_ok r \<Longrightarrow> psr_ok (count_chunk c r)"
  by (auto simp: count_chunk_def psr_ok_def split: option.split js_value.split)

lemma psr_ok_release: "psr_ok r \<Longrightarrow> psr_ok (py_stream_release i r)"
  by (simp add: py_stream_release_def remove_entry_ok)

lemma keeps_ensure_iterator [keeps_intros]: "keeps pull_ok (ensure_iterator pc a)"
proof -
  have "keeps pull_ok (sbind (in_world (pc_aiter pc x)) (\<lambda>r.
          sbind (slift (failing pc ''Failed to get __aiter__: '' r)) (\<lambda>it s'.
            (Inr it, ((fst s')\<lparr>psr_arena := (psr_arena (fst s'))
               [a := (psr_arena (fst s') ! a)\<lparr>pse_iterator := Some it\<rparr>]\<rparr>, snd s')))))" for x
    by (intro keeps_intros) (auto simp: keeps_def psr_ok_arena)
  then show ?thesis
    by (auto simp: keeps_def ensure_iterator_def split: option.split)
qed

lemma keeps_next_chunk [keeps_intros]: "keeps pull_ok (next_chunk pc a)"
  unfolding next_chunk_def
  by (intro keeps_intros) (auto simp: keeps_def split: sum.split)

lemma keeps_pull_next [keeps_intros]: "keeps pull_ok (pull_next pc i)"
proof -
  have "keeps pull_ok (sbind (next_chunk pc a) (\<lambda>chunk s'.
            (let r = count_chunk chunk (fst s');
                 r' = (if chunk_done chunk then py_stream_release i r else r)
             in (Inr chunk, (r', snd s')))))" for a
    by (intro keeps_intros) (auto simp: keeps_def psr_ok_count psr_ok_release Let_def)
  then show ?thesis
    by (auto simp: keeps_def pull_next_def split: option.split)
qed

lemma keeps_cancel_entry [keeps_intros]: "keeps pull_ok (cancel_entry pc a)"
proof -
  have "keeps pull_ok (sbind (in_world (pc_call0 pc f)) (\<lambda>r.
      sbind (slift (failing pc ''aclose() failed: '' r)) (\<lambda>aw.
      sbind (slift (failing pc ''Failed to await aclose(): '' (pc_into_future pc aw))) (\<lambda>fut.
      sbind (in_world (pc_await pc fut)) (\<lambda>res.
      slift (case res of Inr _ \<Rightarrow> Inr ()
        | Inl e \<Rightarrow> if is_stop_async_iteration e then Inr ()
            else Inl (Internal (''aclose() errored: '' @ pc_exc_text pc e))))))))" for f
    by (intro keeps_intros) simp_all
  then show ?thesis
    by (auto simp: keeps_def cancel_entry_def Let_def psr_ok_arena split: option.split)
qed

lemma keeps_cancel [keeps_intros]: "keeps pull_ok (cancel pc i)"
proof -
  have "pull_ok (snd (cancel_entry pc a (snd (remove_entry i r), w)))" if "psr_ok r" for a r w
    by (rule keeps_app [OF keeps_cancel_entry]) (simp add: remove_entry_ok [OF that])
  moreover have "psr_ok (snd (remove_entry i r))" if "psr_ok r" for r
    using remove_entry_ok [OF that] .
  ultimately show ?thesis
    by (auto simp: keeps_def cancel_def split: prod.split option.split)
      (metis snd_conv)+
qed

section \<open>Interleaved use\<close>

text \<open>
  The registry is shared by the runtime thread and the op futures.  A pull holds the lock only to
  look its entry up and to settle the account, so its three parts are steps of their own and
  others may come between them.
\<close>

definition settle_pull :: "u32 \<Rightarrow> stream_chunk \<Rightarrow> py_stream_registry \<Rightarrow> py_stream_registry" where
  "settle_pull i chunk r =
     (let r' = count_chunk chunk r in if chunk_done chunk then py_stream_release i r' else r')"

inductive registry_step :: "'w py_calls \<Rightarrow> py_stream_registry \<times> 'w \<Rightarrow> py_stream_registry \<times> 'w \<Rightarrow> bool"
  for pc where
  register: "psr_spare r \<Longrightarrow> registry_step pc (r, w) (snd (register_iterable it r), w)"
| listen: "l \<notin> set (psr_listeners r) \<Longrightarrow> registry_step pc (r, w) (add_release_listener l r, w)"
| read: "registry_step pc s (snd (next_chunk pc a s))"
| settle: "registry_step pc (r, w) (settle_pull i c r, w)"
| close: "registry_step pc s (snd (cancel pc i s))"
| release: "registry_step pc (r, w) (py_stream_release i r, w)"

lemma registry_step_ok: "registry_step pc s s' \<Longrightarrow> psr_ok (fst s) \<Longrightarrow> psr_ok (fst s')"
proof (induction rule: registry_step.induct)
  case (register r w it)
  then show ?case using psr.ok_add [of r it] by simp
next
  case (listen l r w)
  then show ?case by (simp add: psr_ok_def add_release_listener_def)
next
  case (read s a)
  then show ?case using keeps_app [OF keeps_next_chunk] by blast
next
  case (settle r w i c)
  then show ?case by (simp add: settle_pull_def Let_def psr_ok_count psr_ok_release)
next
  case (close s i)
  then show ?case using keeps_app [OF keeps_cancel] by blast
next
  case (release r w i)
  then show ?case by (simp add: psr_ok_release)
qed

lemma registry_reach_ok:
  "(registry_step pc)\<^sup>*\<^sup>* (py_stream_registry_new limits, w) s \<Longrightarrow> psr_ok (fst s)"
  by (induction rule: rtranclp_induct) (auto simp: psr_new_ok dest: registry_step_ok)

lemma pull_next_parts:
  "pull_next pc i s = (case psr_entries (fst s) i of
      None \<Rightarrow> (Inl (Internal ''Unknown Python stream id''), s)
    | Some a \<Rightarrow> (case next_chunk pc a s of
        (Inl e, s') \<Rightarrow> (Inl e, s')
      | (Inr c, s') \<Rightarrow> (Inr c, (settle_pull i c (fst s'), snd s'))))"
  by (auto simp: pull_next_def sbind_def settle_pull_def Let_def split: option.split prod.split sum.split)

section \<open>Properties\<close>

text \<open>
  C7  Decoding the envelope of a chunk gives the chunk back, end-of-stream flag and payload alike.
\<close>

theorem stream_chunk_round_trip: "from_js_value dbg (to_js_value c) = Inr c"
  by (rule chunk_roundtrip)

text \<open>
  However registrations, pulls, cancellations and releases interleave, the count of active
  Python streams is the number of live entries, a live id has not been reported as released, and
  no listener is told of the same id twice.
\<close>

theorem py_streams_accounted:
  assumes "(registry_step pc)\<^sup>*\<^sup>* (py_stream_registry_new limits, w) s"
  shows "unat (active_py_streams (py_stats_snapshot (fst s))) = card (dom (psr_entries (fst s)))
    \<and> (\<forall>(l, i) \<in> set (psr_notified (fst s)). i \<notin> dom (psr_entries (fst s)))
    \<and> distinct (psr_notified (fst s))"
  using registry_reach_ok [OF assms] by (auto simp: psr_ok_def py_stats_snapshot_def)

definition silent_python :: "unit py_calls" where
  "silent_python = \<lparr>pc_aiter = (\<lambda>ob w. (Inr 0, w)), pc_anext = (\<lambda>i w. (Inr 0, w)), pc_into_future = Inr,
     pc_await = (\<lambda>f w. (Inl (PyStopAsyncIteration ''''), w)), pc_aclose = (\<lambda>_. None),
     pc_call0 = (\<lambda>f w. (Inr 0, w)), pc_exc_text = (\<lambda>_. ''''), pc_heap = (\<lambda>_. Map.empty), pc_env = sample_env\<rparr>"

theorem py_streams_accounted_witness:
  "unat (active_py_streams (py_stats_snapshot
      (snd (register_iterable 5 (py_stream_registry_new default_limits))))) = 1"
proof -
  have "registry_step silent_python (py_stream_registry_new default_limits, ())
      (snd (register_iterable 5 (py_stream_registry_new default_limits)), ())"
    by (rule registry_step.register) (simp add: psr_spare_def py_stream_registry_new_def)
  from py_streams_accounted [OF r_into_rtranclp, OF this] show ?thesis
    by (simp add: register_iterable_def py_stream_registry_new_def)
qed

text \<open>
  C9  A stream that reported its end is gone: its entry is removed, and the next pull fails.
\<close>

theorem finished_stream_is_released:
  assumes "psr_ok r" "pull_next pc i (r, w) = (Inr c, (r', w'))" "chunk_done c"
  shows "i \<notin> dom (psr_entries r')
    \<and> pull_next pc i (r', w') = (Inl (Internal ''Unknown Python stream id''), (r', w'))"
proof -
  obtain a where a: "psr_entries r i = Some a"
    using assms(2) by (auto simp: pull_next_parts split: option.splits)
  obtain s1 where n: "next_chunk pc a (r, w) = (Inr c, s1)" and r': "r' = settle_pull i c (fst s1)"
    using assms(2) by (auto simp: pull_next_parts a split: prod.splits sum.splits)
  have "psr_ok (fst s1)" using keepsD [OF keeps_next_chunk _ n] assms(1) by simp
  then have "dom (psr_entries r') = dom (psr_entries (count_chunk c (fst s1))) - {i}"
    using psr.drop_ids [OF psr_ok_count] assms(3) by (simp add: r' settle_pull_def Let_def)
  then have "i \<notin> dom (psr_entries r')" by simp
  then show ?thesis by (auto simp: pull_next_parts split: option.split)
qed

theorem finished_stream_is_released_witness:
  "\<exists>r' w'. pull_next silent_python 1 (snd (register_iterable 5 (py_stream_registry_new default_limits)), ())
      = (Inr \<lparr>chunk_done = True, chunk_value = None\<rparr>, (r', w')) \<and> 1 \<notin> dom (psr_entries r')"
proof -
  let ?r = "snd (register_iterable 5 (py_stream_registry_new default_limits))"
  have ok: "psr_ok ?r"
    using psr.ok_add [OF psr_new_ok] by (simp add: psr_spare_def py_stream_registry_new_def)
  have run: "pull_next silent_python 1 (?r, ()) = (Inr \<lparr>chunk_done = True, chunk_value = None\<rparr>,
      snd (pull_next silent_python 1 (?r, ())))"
    by (simp add: pull_next_def next_chunk_def ensure_iterator_def register_iterable_def
        py_stream_registry_new_def silent_python_def sbind_def in_world_def failing_def slift_def Let_def)
  obtain r' w' where s: "snd (pull_next silent_python 1 (?r, ())) = (r', w')" by (rule prod.exhaust)
  from finished_stream_is_released [OF ok run [unfolded s]] run s show ?thesis by auto
qed

end
