(* ===== verification/Peno_Ops.thy ===== *)
theory Peno_Ops
  imports Peno_Streams Peno_ConvLaws
begin

text \<open>
  \<open>src/runtime/ops.rs\<close>: the registry of Python handlers behind capability tokens, and the ops that
  guest code calls through it.  The random source is an infinite stream of 64-bit draws, a Python
  handler is an opaque callable, and the exception's class name and text are parameters.
\<close>

section \<open>Tokens\<close>

datatype python_op_mode = SyncOp | AsyncOp

type_synonym op_token = u64

definition MAX_OP_TOKEN :: op_token where
  "MAX_OP_TOKEN = 2 ^ 53 - 1"

text \<open>One pass of the loop of \<open>random_op_token\<close> per draw; the position in the stream is threaded.\<close>

partial_function (option) random_op_token :: "(nat \<Rightarrow> u64) \<Rightarrow> nat \<Rightarrow> (op_token \<times> nat) option" where
  "random_op_token rng k =
     (let token = Bit_Operations.and (rng k) MAX_OP_TOKEN
      in if token \<noteq> 0 then Some (token, Suc k) else random_op_token rng (Suc k))"

definition OPAQUE_INTERNAL_ERROR :: string where
  "OPAQUE_INTERNAL_ERROR = ''Host call failed: internal runtime error''"

definition UNKNOWN_OP_ERROR :: string where
  "UNKNOWN_OP_ERROR = ''Unknown host op''"

definition opaque_internal_error :: "string \<Rightarrow> js_error_box" where
  "opaque_internal_error detail = type_error OPAQUE_INTERNAL_ERROR"

definition unknown_op_error :: js_error_box where
  "unknown_op_error = type_error UNKNOWN_OP_ERROR"

definition token_from_js :: "f64 \<Rightarrow> js_error_box + op_token" where
  "token_from_js raw =
     (if \<not> f64_is_finite raw \<or> \<not> f64_fract_zero raw \<or> f64_less raw 1
         \<or> f64_greater raw (of_int (uint MAX_OP_TOKEN))
      then Inl unknown_op_error
      else Inr (f64_as_u64 raw))"

section \<open>The registry\<close>

record python_op_entry =
  op_id :: op_token
  op_name :: string
  op_mode :: python_op_mode
  op_handler :: nat

record python_op_registry =
  handlers :: "op_token \<rightharpoonup> python_op_entry"
  exposed :: "op_token set"

definition python_op_registry_new :: python_op_registry where
  "python_op_registry_new = \<lparr>handlers = Map.empty, exposed = {}\<rparr>"

text \<open>The draw is repeated while it hits a registered token.\<close>

partial_function (option) unused_token ::
  "(nat \<Rightarrow> u64) \<Rightarrow> (op_token \<rightharpoonup> python_op_entry) \<Rightarrow> nat \<Rightarrow> (op_token \<times> nat) option" where
  "unused_token rng hs k =
     (case random_op_token rng k of
        None \<Rightarrow> None
      | Some (tok, k') \<Rightarrow> if tok \<in> dom hs then unused_token rng hs k' else Some (tok, k'))"

definition register ::
  "(nat \<Rightarrow> u64) \<Rightarrow> nat \<Rightarrow> string \<Rightarrow> python_op_mode \<Rightarrow> nat \<Rightarrow> python_op_registry
    \<Rightarrow> (op_token \<times> nat \<times> python_op_registry) option" where
  "register rng k name mode handler r =
     (case unused_token rng (handlers r) k of
        None \<Rightarrow> None
      | Some (tok, k') \<Rightarrow>
          Some (tok, k', r\<lparr>handlers := (handlers r)(tok \<mapsto>
            \<lparr>op_id = tok, op_name = name, op_mode = mode, op_handler = handler\<rparr>)\<rparr>))"

text \<open>
  \<open>handlers\<close> and \<open>exposed\<close> have a lock each, taken one after the other; the single-lock parts are
  definitions of their own, so that the interleavings can be stated over them.
\<close>

definition is_registered :: "op_token \<Rightarrow> python_op_registry \<Rightarrow> bool" where
  "is_registered tok r \<longleftrightarrow> handlers r tok \<noteq> None"

definition insert_exposed :: "op_token \<Rightarrow> python_op_registry \<Rightarrow> python_op_registry" where
  "insert_exposed tok r = r\<lparr>exposed := insert tok (exposed r)\<rparr>"

definition expose :: "op_token \<Rightarrow> python_op_registry \<Rightarrow> bool \<times> python_op_registry" where
  "expose tok r = (if \<not> is_registered tok r then (False, r) else (True, insert_exposed tok r))"

definition remove_exposed :: "op_token \<Rightarrow> python_op_registry \<Rightarrow> python_op_registry" where
  "remove_exposed tok r = r\<lparr>exposed := exposed r - {tok}\<rparr>"

definition remove_handler :: "op_token \<Rightarrow> python_op_registry \<Rightarrow> bool \<times> python_op_registry" where
  "remove_handler tok r = (handlers r tok \<noteq> None, r\<lparr>handlers := (handlers r)(tok := None)\<rparr>)"

definition revoke :: "op_token \<Rightarrow> python_op_registry \<Rightarrow> bool \<times> python_op_registry" where
  "revoke tok r = remove_handler tok (remove_exposed tok r)"

definition is_exposed :: "op_token \<Rightarrow> python_op_registry \<Rightarrow> bool" where
  "is_exposed tok r \<longleftrightarrow> tok \<in> exposed r"

definition get_exposed :: "op_token \<Rightarrow> python_op_registry \<Rightarrow> python_op_entry option" where
  "get_exposed tok r = (if \<not> is_exposed tok r then None else handlers r tok)"

section \<open>The ops\<close>

record op_state =
  os_registry :: "python_op_registry option"
  os_streams :: "py_stream_registry option"
  os_task_locals :: "nat option option"
  os_limits :: "serialization_limits option"

definition ok_or :: "'e \<Rightarrow> 'a option \<Rightarrow> 'e + 'a" where
  "ok_or e x = (case x of Some a \<Rightarrow> Inr a | None \<Rightarrow> Inl e)"

definition lookup_entry :: "op_state \<Rightarrow> f64 \<Rightarrow> js_error_box + python_op_entry" where
  "lookup_entry st raw =
     rbind (ok_or (opaque_internal_error ''PythonOpRegistry missing from OpState'') (os_registry st)) (\<lambda>r.
     rbind (token_from_js raw) (\<lambda>token.
     ok_or unknown_op_error (get_exposed token r)))"

text \<open>
  Python as the ops see it: the class name (\<open>None\<close> when it cannot be read) and text of an
  exception, a call, and the two halves of awaiting a coroutine.
\<close>

record op_python =
  opp_env :: py_env
  opp_class :: "py_exc \<Rightarrow> string option"
  opp_text :: "py_exc \<Rightarrow> string"
  opp_call :: "nat \<Rightarrow> py_val list \<Rightarrow> py_store \<Rightarrow> (py_exc + py_val) \<times> py_store"
  opp_into_future :: "nat \<Rightarrow> py_val \<Rightarrow> py_exc + nat"
  opp_await :: "nat \<Rightarrow> py_store \<Rightarrow> (py_exc + py_val) \<times> py_store"

abbreviation "HOST_ERROR_MARKER \<equiv> CHR 0x01"

definition map_pyerr :: "op_python \<Rightarrow> py_exc \<Rightarrow> js_error_box" where
  "map_pyerr py err =
     (let class = (case opp_class py err of Some c \<Rightarrow> c | None \<Rightarrow> ''Error'')
      in type_error (HOST_ERROR_MARKER # class @ '': '' @ opp_text py err))"

definition map_err :: "('e \<Rightarrow> 'f) \<Rightarrow> 'e + 'a \<Rightarrow> 'f + 'a" where
  "map_err f r = (case r of Inl e \<Rightarrow> Inl (f e) | Inr a \<Rightarrow> Inr a)"

definition convert_args ::
  "op_python \<Rightarrow> js_value list \<Rightarrow> serialization_limits \<Rightarrow> (py_store, js_error_box, py_val list) comp" where
  "convert_args py args limits st =
     (case smap (\<lambda>arg s. case js_to_py (opp_env py) False arg s of (r, s') \<Rightarrow> (map_err (map_pyerr py) r, s'))
         args (tracker_new (lim_depth limits) (lim_bytes limits), st) of
        (r, (_, st')) \<Rightarrow> (r, st'))"

definition result_to_js :: "op_python \<Rightarrow> serialization_limits \<Rightarrow> py_val \<Rightarrow> (py_store, js_error_box, js_value) comp" where
  "result_to_js py limits result st =
     (map_err (map_pyerr py) (python_to_js_value (opp_env py) (py_heap_of st) limits result), st)"

definition call_handler ::
  "op_python \<Rightarrow> nat \<Rightarrow> py_val list \<Rightarrow> (py_store, js_error_box, py_val) comp" where
  "call_handler py h args st = (case opp_call py h args st of (r, st') \<Rightarrow> (map_err (map_pyerr py) r, st'))"

definition op_peno_call_python_sync ::
  "op_python \<Rightarrow> op_state \<Rightarrow> f64 \<Rightarrow> js_value list \<Rightarrow> (py_store, js_error_box, js_value) comp" where
  "op_peno_call_python_sync py st op args =
     sbind (slift (lookup_entry st op)) (\<lambda>entry.
     if op_mode entry \<noteq> SyncOp then sfail (type_error ''Host op is not synchronous'')
     else
       sbind (slift (ok_or (opaque_internal_error ''SerializationLimits missing from OpState'') (os_limits st))) (\<lambda>limits.
       sbind (convert_args py args limits) (\<lambda>py_args.
       sbind (call_handler py (op_handler entry) py_args) (\<lambda>result.
       result_to_js py limits result))))"

text \<open>
  The async op returns a future: the coroutine, the task locals it is awaited with and the limits
  its result is converted against.
\<close>

definition op_peno_call_python_async ::
  "op_python \<Rightarrow> op_state \<Rightarrow> f64 \<Rightarrow> js_value list
    \<Rightarrow> (py_store, js_error_box, py_val \<times> nat \<times> serialization_limits) comp" where
  "op_peno_call_python_async py st op args =
     sbind (slift (lookup_entry st op)) (\<lambda>entry.
     if op_mode entry \<noteq> AsyncOp then sfail (type_error ''Host op is not asynchronous'')
     else
       sbind (slift (ok_or (opaque_internal_error ''GlobalTaskLocals missing from OpState'') (os_task_locals st))) (\<lambda>locals.
       sbind (slift (ok_or (opaque_internal_error ''SerializationLimits missing from OpState'') (os_limits st))) (\<lambda>limits.
       sbind (convert_args py args limits) (\<lambda>py_args.
       sbind (call_handler py (op_handler entry) py_args) (\<lambda>awaitable.
       sbind (slift (ok_or (type_error
          ''Async op requires asyncio context. Call eval_async() first to establish context.'') locals)) (\<lambda>tls.
       sret (awaitable, tls, limits)))))))"

definition resume_async ::
  "op_python \<Rightarrow> py_val \<times> nat \<times> serialization_limits \<Rightarrow> (py_store, js_error_box, js_value) comp" where
  "resume_async py fut =
     (case fut of (coroutine, tls, limits) \<Rightarrow>
        sbind (slift (map_err (\<lambda>e. opaque_internal_error (''Python coroutine setup failed: '' @ opp_text py e))
          (opp_into_future py tls coroutine))) (\<lambda>f.
        sbind (\<lambda>s. case opp_await py f s of (r, s') \<Rightarrow> (map_err (map_pyerr py) r, s')) (\<lambda>result.
        result_to_js py limits result)))"

definition op_peno_stream_pull_py ::
  "'w py_calls \<Rightarrow> u32 \<Rightarrow> (py_stream_registry option \<times> 'w, js_error_box, js_value) comp" where
  "op_peno_stream_pull_py pc i s =
     (case fst s of
        None \<Rightarrow> (Inl (opaque_internal_error ''PyStreamRegistry missing from OpState''), s)
      | Some r \<Rightarrow>
          (case pull_next pc i (r, snd s) of
             (Inr chunk, (r', w)) \<Rightarrow> (Inr (to_js_value chunk), (Some r', w))
           | (Inl e, (r', w)) \<Rightarrow> (Inl (type_error (display_error e)), (Some r', w))))"

definition op_peno_stream_cancel_py ::
  "'w py_calls \<Rightarrow> u32 \<Rightarrow> (py_stream_registry option \<times> 'w, js_error_box, unit) comp" where
  "op_peno_stream_cancel_py pc i s =
     (case fst s of
        None \<Rightarrow> (Inl (opaque_internal_error ''PyStreamRegistry missing from OpState''), s)
      | Some r \<Rightarrow>
          (case cancel pc i (r, snd s) of
             (Inr u, (r', w)) \<Rightarrow> (Inr u, (Some r', w))
           | (Inl e, (r', w)) \<Rightarrow> (Inl (type_error (display_error e)), (Some r', w))))"

end
