(* ===== verification/Peno_OpsLaws.thy ===== *)
theory Peno_OpsLaws
  imports Peno_Ops
begin

text \<open>
  What the op boundary promises: tokens are in range and never zero, drawing one ends, a token that
  is not a live capability fails in one uniform way whatever else the registry holds, no
  interleaving of \<open>register\<close>, \<open>expose\<close>, \<open>revoke\<close> and dispatch reaches a handler whose capability was
  never exposed or was revoked, and both directions of a call are metered.
\<close>

section \<open>Tokens\<close>

definition token_ok :: "op_token \<Rightarrow> bool" where
  "token_ok t \<longleftrightarrow> t \<noteq> 0 \<and> t \<le> MAX_OP_TOKEN"

lemma random_op_token_range:
  assumes "random_op_token rng k = Some y"
  shows "token_ok (fst y)"
proof (rule random_op_token.raw_induct [where P = "\<lambda>_ _ y. token_ok (fst y)", OF _ assms])
  fix f :: "(nat \<Rightarrow> u64) \<Rightarrow> nat \<Rightarrow> (op_token \<times> nat) option" and rng k y
  assume "\<And>rng k y. f rng k = Some y \<Longrightarrow> token_ok (fst y)"
    and "(let token = Bit_Operations.and (rng k) MAX_OP_TOKEN
          in if token \<noteq> 0 then Some (token, Suc k) else f rng (Suc k)) = Some y"
  then show "token_ok (fst y)"
    by (auto simp: token_ok_def Let_def word_and_le1 split: if_splits)
qed

lemma random_op_token_ends:
  assumes "Bit_Operations.and (rng (k + n)) MAX_OP_TOKEN \<noteq> 0"
  shows "\<exists>m \<le> n. random_op_token rng k = Some (Bit_Operations.and (rng (k + m)) MAX_OP_TOKEN, Suc (k + m))"
  using assms
proof (induction n arbitrary: k)
  case 0
  then show ?case by (simp add: random_op_token.simps)
next
  case (Suc n)
  show ?case
  proof (cases "Bit_Operations.and (rng k) MAX_OP_TOKEN = 0")
    case True
    have "Bit_Operations.and (rng (Suc k + n)) MAX_OP_TOKEN \<noteq> 0" using Suc.prems by simp
    from Suc.IH [OF this] obtain m where "m \<le> n"
      "random_op_token rng (Suc k) = Some (Bit_Operations.and (rng (Suc k + m)) MAX_OP_TOKEN, Suc (Suc k + m))"
      by blast
    with True show ?thesis
      by (intro exI [of _ "Suc m"]) (simp add: random_op_token.simps [of rng k])
  next
    case False
    then show ?thesis
      by (intro exI [of _ 0]) (simp add: random_op_token.simps [of rng k] Let_def)
  qed
qed

lemma unused_token_range:
  assumes "unused_token rng hs k = Some y"
  shows "token_ok (fst y) \<and> fst y \<notin> dom hs"
proof (rule unused_token.raw_induct [where P = "\<lambda>_ hs _ y. token_ok (fst y) \<and> fst y \<notin> dom hs", OF _ assms])
  fix f :: "(nat \<Rightarrow> u64) \<Rightarrow> (op_token \<rightharpoonup> python_op_entry) \<Rightarrow> nat \<Rightarrow> (op_token \<times> nat) option" and rng hs k y
  assume IH: "\<And>rng hs k y. f rng hs k = Some y \<Longrightarrow> token_ok (fst y) \<and> fst y \<notin> dom hs"
    and run: "(case random_op_token rng k of None \<Rightarrow> None
      | Some (tok, k') \<Rightarrow> if tok \<in> dom hs then f rng hs k' else Some (tok, k')) = Some y"
  then obtain tok k' where t: "random_op_token rng k = Some (tok, k')"
    by (auto split: option.splits)
  show "token_ok (fst y) \<and> fst y \<notin> dom hs"
    using run IH [of rng hs k' y] random_op_token_range [OF t] by (auto simp: t split: if_splits)
qed

lemma unused_token_ends:
  assumes "Bit_Operations.and (rng (k + n)) MAX_OP_TOKEN \<noteq> 0"
    and "Bit_Operations.and (rng (k + n)) MAX_OP_TOKEN \<notin> dom hs"
  shows "\<exists>t k'. unused_token rng hs k = Some (t, k')"
  using assms
proof (induction n arbitrary: k rule: less_induct)
  case (less n)
  from random_op_token_ends [where rng = rng, OF less.prems(1)] obtain m where m: "m \<le> n"
    and run: "random_op_token rng k = Some (Bit_Operations.and (rng (k + m)) MAX_OP_TOKEN, Suc (k + m))"
    by blast
  show ?case
  proof (cases "Bit_Operations.and (rng (k + m)) MAX_OP_TOKEN \<in> dom hs")
    case False
    then show ?thesis using run by (simp add: unused_token.simps [of rng hs k])
  next
    case True
    with less.prems(2) m have lt: "m < n" by (metis le_neq_implies_less)
    then have n: "Suc (k + m) + (n - Suc m) = k + n" by simp
    from lt have "n - Suc m < n" by simp
    from less.IH [OF this, of "Suc (k + m)", unfolded n, OF less.prems]
    obtain t k' where "unused_token rng hs (Suc (k + m)) = Some (t, k')" by blast
    then show ?thesis using run True by (subst unused_token.simps) simp
  qed
qed

lemma token_of_f64:
  assumes "token_from_js raw = Inr t"
  shows "token_ok t" "raw = Fin (of_int (uint t))"
proof -
  obtain q where q: "raw = Fin q" and i: "of_int \<lfloor>q\<rfloor> = q" "1 \<le> q" "q \<le> of_int (uint MAX_OP_TOKEN)"
    and t: "t = f64_as_u64 raw"
    using assms by (cases raw) (auto simp: token_from_js_def split: if_splits)
  define n where "n = \<lfloor>q\<rfloor>"
  have n: "q = of_int n" "1 \<le> n" "n \<le> 2 ^ 53 - 1"
    using i by (auto simp: n_def MAX_OP_TOKEN_def le_floor_iff floor_le_iff)
  have "t = word_of_int n"
    using n by (simp add: t q f64_as_u64_def trunc_rat_def clamp_int_def)
  moreover have u: "uint (word_of_int n :: u64) = n"
    using n by (simp add: uint_word_of_int)
  ultimately show "raw = Fin (of_int (uint t))" using q n(1) by simp
  show "token_ok t"
    using n u \<open>t = word_of_int n\<close> by (auto simp: token_ok_def MAX_OP_TOKEN_def word_le_def)
qed

lemma token_crosses: "token_ok t \<Longrightarrow> token_from_js (f64_of_int (uint t)) = Inr t"
proof -
  assume ok: "token_ok t"
  then have b: "1 \<le> uint t" "uint t \<le> 2 ^ 53 - 1"
  proof -
    have "uint t \<noteq> 0" using ok by (simp add: token_ok_def uint_0_iff)
    then show "1 \<le> uint t" using uint_ge_0 [of t] by linarith
    show "uint t \<le> 2 ^ 53 - 1" using ok by (simp add: token_ok_def MAX_OP_TOKEN_def word_le_def)
  qed
  obtain n where n: "uint t = n" by blast
  then have t: "t = word_of_int n" by (metis word_of_int_uint)
  have "f64_of_int n = Fin (of_int n)"
    using b n by (intro f64_of_int_small) auto
  with b show ?thesis
    unfolding n by (simp add: t token_from_js_def f64_as_u64_def trunc_rat_def clamp_int_def MAX_OP_TOKEN_def)
qed

section \<open>Interleavings\<close>

text \<open>
  Threads share the registry; each step takes one lock.  \<open>checked\<close> holds the tokens an \<open>expose\<close>
  has found registered and not inserted yet, \<open>unexposed\<close> those a \<open>revoke\<close> has taken out of \<open>exposed\<close>
  and whose handler it has still to drop, \<open>granted\<close> those a dispatch has found exposed.  The ghosts
  \<open>issued\<close>, \<open>asked\<close> and \<open>revoked\<close> record the tokens ever registered, ever passed to \<open>expose\<close>, and those
  for which a \<open>revoke\<close> has returned.  Tokens are unguessable, so none is drawn twice.
\<close>

record cap_state =
  reg :: python_op_registry
  checked :: "op_token set"
  unexposed :: "op_token set"
  granted :: "op_token set"
  issued :: "op_token set"
  asked :: "op_token set"
  revoked :: "op_token set"

definition cap_init :: cap_state where
  "cap_init = \<lparr>reg = python_op_registry_new, checked = {}, unexposed = {}, granted = {},
     issued = {}, asked = {}, revoked = {}\<rparr>"

inductive cap_step :: "cap_state \<Rightarrow> cap_state \<Rightarrow> bool" where
  reg: "register rng k name mode h (reg s) = Some (t, k', r) \<Longrightarrow> t \<notin> issued s
    \<Longrightarrow> cap_step s (s\<lparr>reg := r, issued := insert t (issued s)\<rparr>)"
| expose_check: "is_registered t (reg s)
    \<Longrightarrow> cap_step s (s\<lparr>checked := insert t (checked s), asked := insert t (asked s)\<rparr>)"
| expose_insert: "t \<in> checked s
    \<Longrightarrow> cap_step s (s\<lparr>reg := insert_exposed t (reg s), checked := checked s - {t}\<rparr>)"
| revoke_exposed: "cap_step s (s\<lparr>reg := remove_exposed t (reg s), unexposed := insert t (unexposed s)\<rparr>)"
| revoke_handler: "t \<in> unexposed s
    \<Longrightarrow> cap_step s (s\<lparr>reg := snd (remove_handler t (reg s)), unexposed := unexposed s - {t},
          revoked := revoked s \<union> ({t} \<inter> issued s)\<rparr>)"
| dispatch_check: "is_exposed t (reg s) \<Longrightarrow> cap_step s (s\<lparr>granted := insert t (granted s)\<rparr>)"
| dispatch_done: "cap_step s (s\<lparr>granted := granted s - {t}\<rparr>)"

text \<open>A dispatch of \<open>t\<close> that now reads \<open>handlers\<close> gets the entry \<open>e\<close>.\<close>

definition dispatches :: "cap_state \<Rightarrow> op_token \<Rightarrow> python_op_entry \<Rightarrow> bool" where
  "dispatches s t e \<longleftrightarrow> t \<in> granted s \<and> handlers (reg s) t = Some e"

definition cap_inv :: "cap_state \<Rightarrow> bool" where
  "cap_inv s \<longleftrightarrow> exposed (reg s) \<union> checked s \<union> granted s \<subseteq> asked s
     \<and> (\<forall>t e. handlers (reg s) t = Some e \<longrightarrow> t \<in> issued s \<and> t \<notin> revoked s \<and> op_id e = t \<and> token_ok t)
     \<and> revoked s \<subseteq> issued s"

lemma cap_init_inv: "cap_inv cap_init"
  by (simp add: cap_inv_def cap_init_def python_op_registry_new_def)

lemma register_Some:
  assumes "register rng k name mode h r = Some (t, k', r')"
  shows "r' = r\<lparr>handlers := (handlers r)(t \<mapsto> \<lparr>op_id = t, op_name = name, op_mode = mode, op_handler = h\<rparr>)\<rparr>"
    "token_ok t" "t \<notin> dom (handlers r)"
  using assms unused_token_range [of rng "handlers r" k "(t, k')"]
  by (auto simp: register_def split: option.splits)

lemma cap_step_inv: "cap_step s s' \<Longrightarrow> cap_inv s \<Longrightarrow> cap_inv s'"
proof (induction rule: cap_step.induct)
  case (reg rng k name mode h s t k' r)
  note r = register_Some [OF reg.hyps(1)]
  show ?case
    using reg.prems reg.hyps(2) r(2) by (auto simp: cap_inv_def r(1))
qed (auto simp: cap_inv_def insert_exposed_def remove_exposed_def remove_handler_def is_exposed_def
    split: if_splits)

lemma cap_reach_inv: "cap_step\<^sup>*\<^sup>* cap_init s \<Longrightarrow> cap_inv s"
  by (induction rule: rtranclp_induct) (auto simp: cap_init_inv dest: cap_step_inv)

text \<open>Run without interference, the steps are the operations.\<close>

lemma expose_steps: "is_registered t (reg s) \<Longrightarrow> cap_step\<^sup>*\<^sup>* s
    (s\<lparr>reg := snd (expose t (reg s)), checked := checked s - {t}, asked := insert t (asked s)\<rparr>)"
proof -
  assume r: "is_registered t (reg s)"
  let ?s1 = "s\<lparr>checked := insert t (checked s), asked := insert t (asked s)\<rparr>"
  let ?s2 = "?s1\<lparr>reg := insert_exposed t (reg ?s1), checked := checked ?s1 - {t}\<rparr>"
  have a: "cap_step s ?s1" using r by (rule cap_step.expose_check)
  have b: "cap_step ?s1 ?s2" by (rule cap_step.expose_insert) simp
  have "cap_step\<^sup>*\<^sup>* s ?s2"
    by (rule converse_rtranclp_into_rtranclp [where r = cap_step, OF a r_into_rtranclp [where r = cap_step, OF b]])
  moreover have "?s2 = s\<lparr>reg := snd (expose t (reg s)), checked := checked s - {t}, asked := insert t (asked s)\<rparr>"
    using r by (cases s) (simp add: expose_def)
  ultimately show ?thesis by (simp only:)
qed

section \<open>Uniform failure\<close>

definition live_capability :: "op_state \<Rightarrow> f64 \<Rightarrow> python_op_entry option" where
  "live_capability st raw =
     (case (os_registry st, token_from_js raw) of
        (Some r, Inr t) \<Rightarrow> get_exposed t r | _ \<Rightarrow> None)"

lemma lookup_entry_cases:
  "os_registry st = Some r \<Longrightarrow> lookup_entry st raw =
     (case live_capability st raw of Some e \<Rightarrow> Inr e | None \<Rightarrow> Inl unknown_op_error)"
  by (auto simp: lookup_entry_def live_capability_def ok_or_def rbind_def token_from_js_def
      split: sum.split option.split)

lemma no_capability_sync:
  "os_registry st = Some r \<Longrightarrow> live_capability st raw = None
    \<Longrightarrow> op_peno_call_python_sync py st raw args s = (Inl unknown_op_error, s)"
  by (simp add: op_peno_call_python_sync_def lookup_entry_cases sbind_def slift_def)

lemma no_capability_async:
  "os_registry st = Some r \<Longrightarrow> live_capability st raw = None
    \<Longrightarrow> op_peno_call_python_async py st raw args s = (Inl unknown_op_error, s)"
  by (simp add: op_peno_call_python_async_def lookup_entry_cases sbind_def slift_def)

section \<open>Metering of a call\<close>

lemma map_err_Inr: "map_err f r = Inr a \<longleftrightarrow> r = Inr a"
  by (auto simp: map_err_def split: sum.splits)

interpretation arg: metered_conv
  "\<lambda>v s. case js_to_py (opp_env py) False v s of (r, s') \<Rightarrow> (map_err (map_pyerr py) r, s')"
  "\<lambda>v _. js_weight False (big_len (opp_env py)) v" "\<lambda>v _. js_height False v" for py
  by unfold_locales
    (auto split: prod.splits simp: map_err_Inr intro: j2p.conv_charges j2p.conv_height)

lemma convert_args_budget:
  assumes "convert_args py args limits st = (Inr xs, st')"
    and "lim_depth limits < usize_max" "lim_bytes limits < usize_max"
  shows "sum_list (map (js_weight False (big_len (opp_env py))) args) \<le> lim_bytes limits"
    "\<forall>v \<in> set args. js_height False v \<le> lim_depth limits" "length xs = length args"
proof -
  obtain t' st2 where run: "smap (\<lambda>arg s. case js_to_py (opp_env py) False arg s of (r, s') \<Rightarrow> (map_err (map_pyerr py) r, s'))
      args (tracker_new (lim_depth limits) (lim_bytes limits), st) = (Inr xs, (t', st2))"
    using assms(1) by (auto simp: convert_args_def split: prod.splits)
  show len: "length xs = length args" using run by (rule smap_length)
  have "map2 (\<lambda>v _. js_weight False (big_len (opp_env py)) v) args xs
      = map (js_weight False (big_len (opp_env py))) args"
    using len by (auto intro: nth_equalityI)
  then show "sum_list (map (js_weight False (big_len (opp_env py))) args) \<le> lim_bytes limits"
    using arg.aggregate_budget(1) [OF run assms(2,3)] by simp
  show "\<forall>v \<in> set args. js_height False v \<le> lim_depth limits"
    using arg.aggregate_budget(2) [OF run assms(2,3)] len
    by (metis list_all2_conv_all_nth in_set_conv_nth)
qed

lemma sync_call_budget:
  assumes "op_peno_call_python_sync py st raw args s = (Inr v, s')" "os_limits st = Some limits"
    and lim: "lim_depth limits < usize_max" "lim_bytes limits < usize_max"
  shows "sum_list (map (js_weight False (big_len (opp_env py))) args) \<le> lim_bytes limits"
    "\<forall>a \<in> set args. js_height False a \<le> lim_depth limits"
    "js_weight True (big_len (opp_env py)) v \<le> lim_bytes limits" "js_depth v \<le> lim_depth limits"
proof -
  obtain xs st1 st2 res where c: "convert_args py args limits s = (Inr xs, st1)"
    and r: "result_to_js py limits res st2 = (Inr v, s')"
    using assms(1,2) by (auto simp: op_peno_call_python_sync_def sbind_Inr ok_or_def split: if_splits)
  show "sum_list (map (js_weight False (big_len (opp_env py))) args) \<le> lim_bytes limits"
    and "\<forall>a \<in> set args. js_height False a \<le> lim_depth limits"
    using convert_args_budget [OF c lim] by simp_all
  have "python_to_js_value (opp_env py) (py_heap_of st2) limits res = Inr v"
    using r by (auto simp: result_to_js_def map_err_Inr)
  from python_to_js_bounds [OF this lim]
  show "js_weight True (big_len (opp_env py)) v \<le> lim_bytes limits" "js_depth v \<le> lim_depth limits"
    by simp_all
qed

section \<open>The life of a capability, without interference\<close>

definition reg_inv :: "python_op_registry \<Rightarrow> bool" where
  "reg_inv r \<longleftrightarrow> exposed r \<subseteq> dom (handlers r)"

lemma reg_inv_steps:
  "reg_inv python_op_registry_new"
  "reg_inv r \<Longrightarrow> register rng k name mode h r = Some (t, k', r') \<Longrightarrow> reg_inv r'"
  "reg_inv r \<Longrightarrow> reg_inv (snd (expose t r))"
  "reg_inv r \<Longrightarrow> reg_inv (snd (revoke t r))"
proof -
  assume "reg_inv r" and r: "register rng k name mode h r = Some (t, k', r')"
  then show "reg_inv r'" by (auto simp: reg_inv_def register_Some(1) [OF r])
qed (auto simp: reg_inv_def python_op_registry_new_def expose_def insert_exposed_def is_registered_def
      revoke_def remove_handler_def remove_exposed_def)

lemma capability_life:
  assumes "reg_inv r" "register rng k name mode h r = Some (t, k', r')"
  shows "get_exposed t r' = None"
    "get_exposed t (snd (expose t r')) = Some \<lparr>op_id = t, op_name = name, op_mode = mode, op_handler = h\<rparr>"
    "get_exposed t (snd (revoke t (snd (expose t r')))) = None"
    "u \<noteq> t \<Longrightarrow> get_exposed u (snd (revoke t (snd (expose t r')))) = get_exposed u r"
    "token_from_js (f64_of_int (uint t)) = Inr t"
  using assms(1) register_Some [OF assms(2)] token_crosses [of t]
  by (auto simp: reg_inv_def get_exposed_def is_exposed_def expose_def is_registered_def insert_exposed_def
      revoke_def remove_handler_def remove_exposed_def)

section \<open>Properties\<close>

text \<open>
  C10  Whatever the interleaving of registrations, exposures, revocations and calls, a handler is
  only ever reached through the token it was registered under, after \<open>expose\<close> was called on it and
  never after a \<open>revoke\<close> of it returned; and no such token is 0 or above \<open>2 ^ 53 - 1\<close>.
\<close>

theorem capability_safety:
  assumes "cap_step\<^sup>*\<^sup>* cap_init s" "dispatches s t e"
  shows "t \<in> asked s \<and> t \<notin> revoked s \<and> op_id e = t \<and> t \<noteq> 0 \<and> t \<le> MAX_OP_TOKEN"
  using cap_reach_inv [OF assms(1)] assms(2) by (auto simp: cap_inv_def dispatches_def token_ok_def)

definition sample_entry :: python_op_entry where
  "sample_entry = \<lparr>op_id = 7, op_name = ''add'', op_mode = SyncOp, op_handler = 3\<rparr>"

lemma register_seven:
  "register (\<lambda>_. 7) 0 ''add'' SyncOp 3 python_op_registry_new
    = Some (7, 1, \<lparr>handlers = [7 \<mapsto> sample_entry], exposed = {}\<rparr>)"
  by (simp add: register_def unused_token.simps random_op_token.simps python_op_registry_new_def
      MAX_OP_TOKEN_def sample_entry_def)

theorem capability_safety_witness:
  "\<exists>s. cap_step\<^sup>*\<^sup>* cap_init s \<and> dispatches s 7 sample_entry \<and> 7 \<in> asked s \<and> 7 \<notin> revoked s"
proof -
  let ?s1 = "cap_init\<lparr>reg := \<lparr>handlers = [7 \<mapsto> sample_entry], exposed = {}\<rparr>, issued := insert 7 (issued cap_init)\<rparr>"
  let ?s2 = "?s1\<lparr>checked := insert 7 (checked ?s1), asked := insert 7 (asked ?s1)\<rparr>"
  let ?s3 = "?s2\<lparr>reg := insert_exposed 7 (reg ?s2), checked := checked ?s2 - {7}\<rparr>"
  let ?s4 = "?s3\<lparr>granted := insert 7 (granted ?s3)\<rparr>"
  have a: "cap_step cap_init ?s1"
    by (rule cap_step.reg [of "\<lambda>_. 7" 0 "''add''" SyncOp 3 _ 7 1])
      (simp_all add: cap_init_def register_seven)
  have b: "cap_step ?s1 ?s2" by (rule cap_step.expose_check) (simp add: is_registered_def)
  have c: "cap_step ?s2 ?s3" by (rule cap_step.expose_insert) simp
  have d: "cap_step ?s3 ?s4" by (rule cap_step.dispatch_check) (simp add: is_exposed_def insert_exposed_def)
  have "cap_step\<^sup>*\<^sup>* cap_init ?s1" using a by (rule r_into_rtranclp)
  then have "cap_step\<^sup>*\<^sup>* cap_init ?s2" using b by (rule rtranclp.rtrancl_into_rtrancl)
  then have "cap_step\<^sup>*\<^sup>* cap_init ?s3" using c by (rule rtranclp.rtrancl_into_rtrancl)
  then have r: "cap_step\<^sup>*\<^sup>* cap_init ?s4" using d by (rule rtranclp.rtrancl_into_rtrancl)
  have disp: "dispatches ?s4 7 sample_entry"
    by (simp add: dispatches_def insert_exposed_def)
  from capability_safety [OF r disp] r disp show ?thesis by blast
qed

text \<open>
  C11  A number that is not a live, exposed token, whether malformed, never issued, never exposed
  or revoked, gets one and the same answer from both call ops, with no Python code run and
  nothing of the registry in it.
\<close>

theorem uniform_refusal:
  assumes "os_registry st = Some r" "live_capability st raw = None"
  shows "op_peno_call_python_sync py st raw args s = (Inl (type_error ''Unknown host op''), s)
    \<and> op_peno_call_python_async py st raw args s = (Inl (type_error ''Unknown host op''), s)"
  using no_capability_sync [OF assms] no_capability_async [OF assms]
  by (simp add: unknown_op_error_def UNKNOWN_OP_ERROR_def)

definition sample_op_state :: op_state where
  "sample_op_state = \<lparr>os_registry = Some \<lparr>handlers = [7 \<mapsto> sample_entry], exposed = {7}\<rparr>, os_streams = None,
     os_task_locals = Some None, os_limits = Some default_limits\<rparr>"

definition sample_python :: op_python where
  "sample_python = \<lparr>opp_env = sample_env, opp_class = (\<lambda>_. Some ''ValueError''), opp_text = (\<lambda>_. ''bad''),
     opp_call = (\<lambda>h xs s. (Inr (PInt (int (length xs))), s)), opp_into_future = (\<lambda>l c. Inr 0),
     opp_await = (\<lambda>f s. (Inr PNone, s))\<rparr>"

theorem uniform_refusal_witness:
  "op_peno_call_python_sync sample_python sample_op_state (Fin 0) [JNull] empty_store
     = (Inl (type_error ''Unknown host op''), empty_store)
   \<and> op_peno_call_python_sync sample_python sample_op_state (Fin 8) [JNull] empty_store
     = (Inl (type_error ''Unknown host op''), empty_store)"
proof -
  have "live_capability sample_op_state (Fin 0) = None" "live_capability sample_op_state (Fin 8) = None"
    by (simp_all add: live_capability_def sample_op_state_def token_from_js_def MAX_OP_TOKEN_def
        f64_as_u64_def trunc_rat_def clamp_int_def get_exposed_def is_exposed_def)
  then show ?thesis
    using uniform_refusal [of sample_op_state] by (simp add: sample_op_state_def)
qed

text \<open>
  C12  A registered op cannot be called until it is exposed; exposed, its token resolves to exactly
  the handler registered under it; revoked, it resolves to nothing, and no other op is touched.
  The token survives the trip through a JavaScript number.
\<close>

theorem capability_lifecycle:
  assumes "reg_inv r" "register rng k name mode h r = Some (t, k', r')"
  shows "get_exposed t r' = None
    \<and> get_exposed t (snd (expose t r')) = Some \<lparr>op_id = t, op_name = name, op_mode = mode, op_handler = h\<rparr>
    \<and> get_exposed t (snd (revoke t (snd (expose t r')))) = None
    \<and> (\<forall>u. u \<noteq> t \<longrightarrow> get_exposed u (snd (revoke t (snd (expose t r')))) = get_exposed u r)
    \<and> token_from_js (f64_of_int (uint t)) = Inr t"
  using capability_life [OF assms] by blast

theorem capability_lifecycle_witness:
  "\<exists>t k' r'. register (\<lambda>_. 7) 0 ''add'' SyncOp 3 python_op_registry_new = Some (t, k', r')
     \<and> get_exposed t r' = None \<and> get_exposed t (snd (expose t r')) = Some sample_entry"
  using capability_lifecycle [OF reg_inv_steps(1) register_seven] register_seven
  by (simp add: sample_entry_def)

text \<open>
  C13  Registration returns as soon as the random source has yielded one value that is neither 0
  in its low 53 bits nor a token in use.
\<close>

theorem registration_terminates:
  assumes "Bit_Operations.and (rng (k + n)) MAX_OP_TOKEN \<noteq> 0"
    and "Bit_Operations.and (rng (k + n)) MAX_OP_TOKEN \<notin> dom (handlers r)"
  shows "\<exists>t k' r'. register rng k name mode h r = Some (t, k', r')"
  using unused_token_ends [where rng = rng, OF assms] by (auto simp: register_def)

theorem registration_terminates_witness:
  "\<exists>t k' r'. register (\<lambda>i. if i < 2 then 0 else 9) 0 ''f'' SyncOp 1 python_op_registry_new = Some (t, k', r')"
  by (rule registration_terminates [of _ _ 2]) (simp_all add: MAX_OP_TOKEN_def python_op_registry_new_def)

text \<open>
  C14  A host call that succeeds stayed within the limits in both directions: all the arguments
  together weighed at most \<open>max_bytes\<close>, none was nested deeper than \<open>max_depth\<close>, and the same holds
  of the value it returned.
\<close>

theorem host_call_is_metered:
  assumes "op_peno_call_python_sync py st raw args s = (Inr v, s')" "os_limits st = Some limits"
    and "lim_depth limits < usize_max" "lim_bytes limits < usize_max"
  shows "sum_list (map (js_weight False (big_len (opp_env py))) args) \<le> lim_bytes limits
    \<and> (\<forall>a \<in> set args. js_height False a \<le> lim_depth limits)
    \<and> js_weight True (big_len (opp_env py)) v \<le> lim_bytes limits \<and> js_depth v \<le> lim_depth limits"
  using sync_call_budget [OF assms] by blast

end
