(* ===== verification/Peno_Termination.thy ===== *)
theory Peno_Termination
  imports Peno_Error
begin

text \<open>
  \<open>TerminationController\<close>, \<open>SyncWatchdog\<close> and the near-heap-limit callback of
  \<open>src/runtime/runner.rs\<close>: the shared termination record that every thread of a runtime writes
  through the controller's methods, and the watchdog thread as a step relation that interleaves
  with its owner, with the clock and with other writers.
\<close>

section \<open>The controller\<close>

definition TERMINATION_STATUS_RUNNING :: u8 where "TERMINATION_STATUS_RUNNING = 0"
definition TERMINATION_STATUS_REQUESTED :: u8 where "TERMINATION_STATUS_REQUESTED = 1"
definition TERMINATION_STATUS_TERMINATED :: u8 where "TERMINATION_STATUS_TERMINATED = 2"

lemmas status_defs = TERMINATION_STATUS_RUNNING_def TERMINATION_STATUS_REQUESTED_def
  TERMINATION_STATUS_TERMINATED_def

text \<open>
  \<open>wake\<close> is the permit of the dispatcher's \<open>Notify\<close>, \<open>v8_terminating\<close> the isolate's own flag that
  \<open>IsolateHandle::terminate_execution\<close> raises.
\<close>

record termination_state =
  status :: u8
  reason :: "string option"
  wake :: bool
  v8_terminating :: bool

definition termination_new :: termination_state where
  "termination_new = \<lparr>status = TERMINATION_STATUS_RUNNING, reason = None, wake = False, v8_terminating = False\<rparr>"

definition request :: "termination_state \<Rightarrow> bool \<times> termination_state" where
  "request t =
     (if status t = TERMINATION_STATUS_RUNNING
      then (True, t\<lparr>status := TERMINATION_STATUS_REQUESTED, wake := True\<rparr>)
      else (False, t\<lparr>wake := True\<rparr>))"

definition terminate_execution :: "termination_state \<Rightarrow> termination_state" where
  "terminate_execution t = t\<lparr>v8_terminating := True\<rparr>"

definition cancel_terminate_execution :: "termination_state \<Rightarrow> termination_state" where
  "cancel_terminate_execution t = t\<lparr>v8_terminating := False\<rparr>"

definition ensure_reason :: "string \<Rightarrow> termination_state \<Rightarrow> termination_state" where
  "ensure_reason r t = (if reason t = None then t\<lparr>reason := Some r\<rparr> else t)"

definition terminated_error :: "termination_state \<Rightarrow> runtime_error" where
  "terminated_error t = (case reason t of Some r \<Rightarrow> Terminated (Some r) | None \<Rightarrow> Terminated None)"

definition is_requested :: "termination_state \<Rightarrow> bool" where
  "is_requested t \<longleftrightarrow> status t = TERMINATION_STATUS_REQUESTED \<or> status t = TERMINATION_STATUS_TERMINATED"

definition is_terminated :: "termination_state \<Rightarrow> bool" where
  "is_terminated t \<longleftrightarrow> status t = TERMINATION_STATUS_TERMINATED"

definition mark_terminated :: "termination_state \<Rightarrow> bool \<times> termination_state" where
  "mark_terminated t = (status t \<noteq> TERMINATION_STATUS_TERMINATED, t\<lparr>status := TERMINATION_STATUS_TERMINATED\<rparr>)"

definition force_mark_terminated :: "termination_state \<Rightarrow> termination_state" where
  "force_mark_terminated t = snd (mark_terminated t)"

text \<open>What any thread may do to the shared record.\<close>

inductive term_step :: "termination_state \<Rightarrow> termination_state \<Rightarrow> bool" where
  request: "term_step t (snd (request t))"
| terminate: "term_step t (terminate_execution t)"
| cancel: "term_step t (cancel_terminate_execution t)"
| reason: "term_step t (ensure_reason r t)"
| mark: "term_step t (snd (mark_terminated t))"
| woken: "term_step t (t\<lparr>wake := False\<rparr>)"

text \<open>The order in which the record evolves: the status never goes back, a reason never changes.\<close>

definition term_le :: "termination_state \<Rightarrow> termination_state \<Rightarrow> bool" where
  "term_le t t' \<longleftrightarrow> (is_requested t \<longrightarrow> is_requested t') \<and> (is_terminated t \<longrightarrow> is_terminated t')
     \<and> (status t = TERMINATION_STATUS_REQUESTED \<longrightarrow> status t' \<noteq> TERMINATION_STATUS_RUNNING)
     \<and> (\<forall>r. reason t = Some r \<longrightarrow> reason t' = Some r)"

lemma term_le_refl [simp]: "term_le t t"
  by (auto simp: term_le_def status_defs)

lemma term_le_trans: "term_le a b \<Longrightarrow> term_le b c \<Longrightarrow> term_le a c"
  by (auto simp: term_le_def is_requested_def is_terminated_def status_defs)

lemma term_step_le: "term_step t t' \<Longrightarrow> term_le t t'"
  by (induction rule: term_step.induct)
    (auto simp: term_le_def request_def terminate_execution_def cancel_terminate_execution_def
      ensure_reason_def mark_terminated_def is_requested_def is_terminated_def status_defs)

lemma term_steps_le: "term_step\<^sup>*\<^sup>* t t' \<Longrightarrow> term_le t t'"
  by (induction rule: rtranclp_induct) (auto intro: term_le_trans term_step_le)

lemma term_le_ops [simp]:
  "term_le t (snd (request t))" "term_le t (terminate_execution t)" "term_le t (cancel_terminate_execution t)"
  "term_le t (ensure_reason r t)" "term_le t (snd (mark_terminated t))" "term_le t (force_mark_terminated t)"
  "term_le t (t\<lparr>wake := b\<rparr>)"
  by (auto simp: term_step_le term_step.intros force_mark_terminated_def)
    (auto simp: term_le_def is_requested_def is_terminated_def status_defs)

lemma request_requested: "is_requested (snd (request t)) \<or> status t \<notin> {0, 1, 2}"
  by (auto simp: request_def is_requested_def status_defs)

lemma request_first_only: "is_requested t \<Longrightarrow> \<not> fst (request t)"
  by (auto simp: request_def is_requested_def status_defs)

lemma ensure_reason_set: "reason (ensure_reason r t) = Some (case reason t of Some r' \<Rightarrow> r' | None \<Rightarrow> r)"
  by (auto simp: ensure_reason_def split: option.split)

section \<open>The watchdog\<close>

text \<open>
  The thread's program counter: before it has computed its deadline, at the top of its loop with
  the lock held, past its deadline with
  \<open>fired\<close> stored and the lock dropped, after recording the reason, and returned.
\<close>

datatype wd_pc = WdStart | WdLoop | WdReason | WdKill | WdExit

record watchdog =
  wd_pc :: wd_pc
  wd_cancelled :: bool
  wd_fired :: bool
  wd_duration :: nat
  wd_deadline :: nat
  wd_reason :: string
  wd_now :: nat
  wd_term :: termination_state

definition watchdog_spawn :: "nat \<Rightarrow> nat \<Rightarrow> string \<Rightarrow> termination_state \<Rightarrow> watchdog" where
  "watchdog_spawn now duration r t =
     \<lparr>wd_pc = WdStart, wd_cancelled = False, wd_fired = False, wd_duration = duration, wd_deadline = 0,
      wd_reason = r, wd_now = now, wd_term = t\<rparr>"

definition watchdog_cancel :: "watchdog \<Rightarrow> watchdog" where
  "watchdog_cancel w = w\<lparr>wd_cancelled := True\<rparr>"

text \<open>One step of the thread; in \<open>WdLoop\<close> it may also go back to waiting on the condvar.\<close>

definition watchdog_thread :: "watchdog \<Rightarrow> watchdog" where
  "watchdog_thread w =
     (case wd_pc w of
        WdStart \<Rightarrow> w\<lparr>wd_deadline := wd_now w + wd_duration w, wd_pc := WdLoop\<rparr>
      | WdLoop \<Rightarrow>
          if wd_cancelled w then w\<lparr>wd_pc := WdExit\<rparr>
          else if wd_deadline w \<le> wd_now w then w\<lparr>wd_fired := True, wd_pc := WdReason\<rparr>
          else w
      | WdReason \<Rightarrow> w\<lparr>wd_term := ensure_reason (wd_reason w) (wd_term w), wd_pc := WdKill\<rparr>
      | WdKill \<Rightarrow> w\<lparr>wd_term := terminate_execution (wd_term w), wd_pc := WdExit\<rparr>
      | WdExit \<Rightarrow> w)"

inductive wd_step :: "watchdog \<Rightarrow> watchdog \<Rightarrow> bool" where
  thread: "wd_step w (watchdog_thread w)"
| cancel: "wd_step w (watchdog_cancel w)"
| clock: "wd_now w \<le> n \<Longrightarrow> wd_step w (w\<lparr>wd_now := n\<rparr>)"
| other: "term_step (wd_term w) t \<Longrightarrow> wd_step w (w\<lparr>wd_term := t\<rparr>)"

definition wd_inv :: "nat \<Rightarrow> watchdog \<Rightarrow> bool" where
  "wd_inv start w \<longleftrightarrow>
     start \<le> wd_now w \<and> (wd_pc w \<noteq> WdStart \<longrightarrow> start + wd_duration w \<le> wd_deadline w)
     \<and> (wd_fired w \<longrightarrow> wd_deadline w \<le> wd_now w)
     \<and> (wd_pc w = WdStart \<or> wd_pc w = WdLoop \<longrightarrow> \<not> wd_fired w)
     \<and> (wd_pc w = WdReason \<or> wd_pc w = WdKill \<longrightarrow> wd_fired w)
     \<and> (wd_pc w = WdKill \<or> wd_pc w = WdExit \<and> wd_fired w \<longrightarrow> reason (wd_term w) \<noteq> None)
     \<and> (wd_pc w = WdExit \<and> \<not> wd_fired w \<longrightarrow> wd_cancelled w)"

lemma wd_spawn_inv: "wd_inv now (watchdog_spawn now d r t)"
  by (simp add: wd_inv_def watchdog_spawn_def)

lemma wd_step_inv: "wd_step w w' \<Longrightarrow> wd_inv start w \<Longrightarrow> wd_inv start w'"
proof (induction rule: wd_step.induct)
  case (thread w)
  then show ?case
    by (cases "wd_pc w")
      (auto simp: wd_inv_def watchdog_thread_def ensure_reason_set terminate_execution_def)
next
  case (other w t)
  have "reason (wd_term w) \<noteq> None \<Longrightarrow> reason t \<noteq> None"
    using term_step_le [OF other.hyps] by (auto simp: term_le_def)
  with other.prems show ?case by (auto simp: wd_inv_def)
qed (auto simp: wd_inv_def watchdog_cancel_def)

lemma wd_reach_inv: "wd_step\<^sup>*\<^sup>* (watchdog_spawn now d r t) w \<Longrightarrow> wd_inv now w"
  by (induction rule: rtranclp_induct) (auto simp: wd_spawn_inv dest: wd_step_inv)

lemma wd_duration_const: "wd_step\<^sup>*\<^sup>* w w' \<Longrightarrow> wd_duration w' = wd_duration w"
proof (induction rule: rtranclp_induct)
  case (step y z)
  from step.hyps(2) have "wd_duration z = wd_duration y"
    by (induction rule: wd_step.induct)
      (auto simp: watchdog_thread_def watchdog_cancel_def split: wd_pc.split)
  with step.IH show ?case by simp
qed simp

text \<open>Once cancelled, four steps of the thread are enough: the \<open>join\<close> does not wait for the deadline.\<close>

lemma cancelled_exits: "wd_cancelled w \<Longrightarrow> wd_pc ((watchdog_thread ^^ 4) w) = WdExit"
  by (cases "wd_pc w") (simp_all add: eval_nat_numeral watchdog_thread_def)

text \<open>Left alone past its deadline, the thread has asked V8 to stop after three steps.\<close>

lemma expired_kills:
  assumes "wd_pc w = WdLoop" "\<not> wd_cancelled w" "wd_deadline w \<le> wd_now w"
  shows "wd_fired ((watchdog_thread ^^ 3) w) \<and> v8_terminating (wd_term ((watchdog_thread ^^ 3) w))
    \<and> wd_pc ((watchdog_thread ^^ 3) w) = WdExit"
  using assms by (simp add: eval_nat_numeral watchdog_thread_def terminate_execution_def)

section \<open>What a fired watchdog makes of a result\<close>

text \<open>\<open>duration.as_millis()\<close> of a duration in nanoseconds.\<close>

definition as_millis :: "nat \<Rightarrow> nat" where
  "as_millis ns = ns div 1000000"

definition watchdog_verdict :: "'a runtime_result \<Rightarrow> bool \<Rightarrow> nat \<Rightarrow> string \<Rightarrow> 'a runtime_result" where
  "watchdog_verdict result fired duration context =
     (if fired then
        (let message = context @ '' timed out after '' @ show_nat (as_millis duration) @ ''ms''
         in case result of
              Inl err \<Rightarrow> if runtime_error_indicates_termination err then Inl (Timeout message) else Inl err
            | Inr _ \<Rightarrow> Inl (Timeout message))
      else result)"

lemma verdict_fired: "fired \<Longrightarrow> \<exists>e. watchdog_verdict result fired d c = Inl e"
  by (auto simp: watchdog_verdict_def Let_def split: sum.split)

lemma verdict_never_terminated:
  "fired \<Longrightarrow> watchdog_verdict result fired d c \<noteq> Inl (Terminated r)"
  by (auto simp: watchdog_verdict_def Let_def split: sum.split)

section \<open>Near the heap limit\<close>

definition NEAR_HEAP_LIMIT_MIN_HEADROOM_BYTES :: nat where
  "NEAR_HEAP_LIMIT_MIN_HEADROOM_BYTES = 1024 * 1024"

definition near_heap_limit :: "nat \<Rightarrow> nat \<Rightarrow> nat \<Rightarrow> termination_state \<Rightarrow> nat \<times> termination_state" where
  "near_heap_limit heap_limit_bytes current_limit initial_limit t =
     (let t1 = ensure_reason ''Heap limit exceeded'' t;
          t2 = snd (request t1);
          t3 = terminate_execution t2;
          extra = max (max initial_limit (heap_limit_bytes div 8)) NEAR_HEAP_LIMIT_MIN_HEADROOM_BYTES
      in (usat_add current_limit extra, t3))"

lemma near_heap_limit_raises:
  assumes "current_limit < usize_max"
  shows "current_limit < fst (near_heap_limit h current_limit i t)"
    "current_limit + NEAR_HEAP_LIMIT_MIN_HEADROOM_BYTES \<le> usize_max
       \<Longrightarrow> current_limit + NEAR_HEAP_LIMIT_MIN_HEADROOM_BYTES \<le> fst (near_heap_limit h current_limit i t)"
  using assms
  by (auto simp: near_heap_limit_def Let_def usat_add_def NEAR_HEAP_LIMIT_MIN_HEADROOM_BYTES_def)

section \<open>Properties\<close>

text \<open>
  Whatever the threads of a runtime do through the controller, a termination that was requested
  stays requested, a terminated runtime stays terminated, the first recorded reason is kept, and
  exactly the first \<open>request\<close> reports that it was the first.
\<close>

theorem termination_is_monotone:
  assumes "term_step\<^sup>*\<^sup>* t t'"
  shows "(is_requested t \<longrightarrow> is_requested t' \<and> \<not> fst (request t')) \<and> (is_terminated t \<longrightarrow> is_terminated t')
    \<and> (\<forall>r. reason t = Some r \<longrightarrow> terminated_error t' = Terminated (Some r))"
  using term_steps_le [OF assms] request_first_only [of t']
  by (auto simp: term_le_def terminated_error_def)

theorem termination_is_monotone_witness:
  "terminated_error (snd (mark_terminated (ensure_reason ''b'' (ensure_reason ''a'' termination_new))))
     = Terminated (Some ''a'')"
proof -
  let ?t = "ensure_reason ''a'' termination_new"
  have "term_step ?t (ensure_reason ''b'' ?t)" by (rule term_step.reason)
  moreover have "term_step (ensure_reason ''b'' ?t) (snd (mark_terminated (ensure_reason ''b'' ?t)))"
    by (rule term_step.mark)
  ultimately have "term_step\<^sup>*\<^sup>* ?t (snd (mark_terminated (ensure_reason ''b'' ?t)))"
    by (meson r_into_rtranclp rtranclp.rtrancl_into_rtrancl)
  from termination_is_monotone [OF this] show ?thesis
    by (simp add: ensure_reason_def termination_new_def)
qed

text \<open>
  C27  When the watchdog thread has returned, however it was interleaved with its owner, the clock
  and other writers: if it fired, its deadline had passed and a reason is on record; if it did not,
  its owner had cancelled it.
\<close>

theorem watchdog_fires_only_late:
  assumes "wd_step\<^sup>*\<^sup>* (watchdog_spawn now duration r t) w" "wd_pc w = WdExit"
  shows "(wd_fired w \<longrightarrow> now + duration \<le> wd_now w \<and> reason (wd_term w) \<noteq> None)
    \<and> (\<not> wd_fired w \<longrightarrow> wd_cancelled w)"
proof -
  have "wd_duration w = duration"
    using wd_duration_const [OF assms(1)] by (simp add: watchdog_spawn_def)
  then show ?thesis
    using wd_reach_inv [OF assms(1)] assms(2) by (auto simp: wd_inv_def)
qed

theorem watchdog_fires_only_late_witness:
  "wd_fired ((watchdog_thread ^^ 4) (watchdog_spawn 5 0 ''late'' termination_new))
   \<and> reason (wd_term ((watchdog_thread ^^ 4) (watchdog_spawn 5 0 ''late'' termination_new))) = Some ''late''"
proof -
  let ?w = "watchdog_spawn 5 0 ''late'' termination_new"
  have run: "wd_step\<^sup>*\<^sup>* ?w ((watchdog_thread ^^ n) ?w)" for n
    by (induction n) (auto intro: rtranclp.rtrancl_into_rtrancl wd_step.thread)
  have "wd_pc ((watchdog_thread ^^ 4) ?w) = WdExit"
    by (simp add: eval_nat_numeral watchdog_thread_def watchdog_spawn_def)
  with watchdog_fires_only_late [OF run] show ?thesis
    by (simp add: eval_nat_numeral watchdog_thread_def watchdog_spawn_def ensure_reason_def
        termination_new_def terminate_execution_def)
qed

text \<open>
  C17  Each time V8 reports that it nears its heap limit, the callback records why, requests the
  termination, stops the running script, and returns a strictly larger limit (by at least a mebibyte
  where \<open>usize\<close> allows), so that V8 can unwind instead of aborting.
\<close>

theorem heap_limit_unwinds:
  assumes "current_limit + NEAR_HEAP_LIMIT_MIN_HEADROOM_BYTES \<le> usize_max"
    and "near_heap_limit heap_limit_bytes current_limit initial_limit t = (new_limit, t')"
  shows "current_limit + NEAR_HEAP_LIMIT_MIN_HEADROOM_BYTES \<le> new_limit
    \<and> status t' \<noteq> TERMINATION_STATUS_RUNNING \<and> v8_terminating t' \<and> reason t' \<noteq> None"
proof -
  have "current_limit < usize_max"
    using assms(1) by (simp add: NEAR_HEAP_LIMIT_MIN_HEADROOM_BYTES_def)
  from near_heap_limit_raises(2) [OF this assms(1), of heap_limit_bytes initial_limit t] assms(2)
  show ?thesis
    by (auto simp: near_heap_limit_def Let_def request_def terminate_execution_def ensure_reason_def
        status_defs split: if_splits)
qed

theorem heap_limit_unwinds_witness:
  "fst (near_heap_limit 67108864 67108864 67108864 termination_new) = 134217728
   \<and> v8_terminating (snd (near_heap_limit 67108864 67108864 67108864 termination_new))"
proof -
  have "67108864 + NEAR_HEAP_LIMIT_MIN_HEADROOM_BYTES \<le> usize_max"
    by (simp add: NEAR_HEAP_LIMIT_MIN_HEADROOM_BYTES_def usize_max_def)
  from heap_limit_unwinds [OF this surjective_pairing, of 67108864 67108864 termination_new]
  show ?thesis
    by (simp add: near_heap_limit_def Let_def NEAR_HEAP_LIMIT_MIN_HEADROOM_BYTES_def usat_add_def usize_max_def)
qed

end
