(* ===== verification/Peno_Stats.thy ===== *)
theory Peno_Stats
  imports Peno_Termination Peno_Streams
begin

text \<open>
  \<open>src/runtime/stats.rs\<close>: the execution counters of a runtime and the report assembled from them,
  from the heap figures, from deno_core's activity list and from the stream registries.  A
  \<open>Duration\<close> is a number of nanoseconds up to \<open>duration_max\<close>.
\<close>

section \<open>Durations\<close>

definition duration_max :: nat where
  "duration_max = (2 ^ 64 - 1) * 1000000000 + 999999999"

definition duration_saturating_add :: "nat \<Rightarrow> nat \<Rightarrow> nat" where
  "duration_saturating_add a b = min (a + b) duration_max"

definition duration_to_u64_ms :: "nat \<Rightarrow> u64" where
  "duration_to_u64_ms d = (let millis = as_millis d in if 2 ^ 64 - 1 < millis then - 1 else of_nat millis)"

lemma unat_duration_to_u64_ms: "unat (duration_to_u64_ms d) = min (d div 1000000) (2 ^ 64 - 1)"
  by (simp add: duration_to_u64_ms_def as_millis_def Let_def unsigned_minus_1_eq_mask
      mask_eq_exp_minus_1 unat_of_nat take_bit_nat_eq_self_iff)

lemma foldl_duration_saturating_add:
  "a \<le> duration_max \<Longrightarrow> foldl duration_saturating_add a es = min (a + sum_list es) duration_max"
proof (induction es arbitrary: a)
  case (Cons e es)
  have "duration_saturating_add a e \<le> duration_max" by (simp add: duration_saturating_add_def)
  from Cons.IH [OF this] show ?case by (simp add: duration_saturating_add_def)
qed simp

section \<open>Calls and counters\<close>

datatype runtime_call_kind = EvalSync | EvalAsync | EvalModuleSync | EvalModuleAsync
  | CallFunctionAsync | CallFunctionSync

fun as_str :: "runtime_call_kind \<Rightarrow> string" where
  "as_str EvalSync = ''eval_sync''"
| "as_str EvalAsync = ''eval_async''"
| "as_str EvalModuleSync = ''eval_module_sync''"
| "as_str EvalModuleAsync = ''eval_module_async''"
| "as_str CallFunctionAsync = ''call_function_async''"
| "as_str CallFunctionSync = ''call_function_sync''"

lemma as_str_inj: "as_str k = as_str k' \<longleftrightarrow> k = k'"
  by (cases k; cases k') simp_all

record execution_counters =
  eval_sync_count :: u64
  eval_async_count :: u64
  eval_module_sync_count :: u64
  eval_module_async_count :: u64
  call_function_async_count :: u64
  call_function_sync_count :: u64

definition counters_default :: execution_counters where
  "counters_default = \<lparr>eval_sync_count = 0, eval_async_count = 0, eval_module_sync_count = 0,
     eval_module_async_count = 0, call_function_async_count = 0, call_function_sync_count = 0\<rparr>"

fun increment :: "runtime_call_kind \<Rightarrow> execution_counters \<Rightarrow> execution_counters" where
  "increment EvalSync c = c\<lparr>eval_sync_count := wsat_add (eval_sync_count c) 1\<rparr>"
| "increment EvalAsync c = c\<lparr>eval_async_count := wsat_add (eval_async_count c) 1\<rparr>"
| "increment EvalModuleSync c = c\<lparr>eval_module_sync_count := wsat_add (eval_module_sync_count c) 1\<rparr>"
| "increment EvalModuleAsync c = c\<lparr>eval_module_async_count := wsat_add (eval_module_async_count c) 1\<rparr>"
| "increment CallFunctionAsync c =
     c\<lparr>call_function_async_count := wsat_add (call_function_async_count c) 1\<rparr>"
| "increment CallFunctionSync c =
     c\<lparr>call_function_sync_count := wsat_add (call_function_sync_count c) 1\<rparr>"

text \<open>The counter that a kind of call is counted in.\<close>

fun counter_of :: "runtime_call_kind \<Rightarrow> execution_counters \<Rightarrow> u64" where
  "counter_of EvalSync c = eval_sync_count c"
| "counter_of EvalAsync c = eval_async_count c"
| "counter_of EvalModuleSync c = eval_module_sync_count c"
| "counter_of EvalModuleAsync c = eval_module_async_count c"
| "counter_of CallFunctionAsync c = call_function_async_count c"
| "counter_of CallFunctionSync c = call_function_sync_count c"

lemma counter_of_increment:
  "counter_of k (increment k' c) = (if k = k' then wsat_add (counter_of k c) 1 else counter_of k c)"
  by (cases k; cases k') simp_all

record execution_snapshot =
  snap_total_execution :: nat
  snap_last_execution :: "nat option"
  snap_last_call_kind :: "runtime_call_kind option"
  snap_counters :: execution_counters

record runtime_stats_state =
  total_execution :: nat
  last_execution :: "nat option"
  last_call_kind :: "runtime_call_kind option"
  counters :: execution_counters

definition stats_state_default :: runtime_stats_state where
  "stats_state_default = \<lparr>total_execution = 0, last_execution = None, last_call_kind = None,
     counters = counters_default\<rparr>"

definition stats_record :: "runtime_call_kind \<Rightarrow> nat \<Rightarrow> runtime_stats_state \<Rightarrow> runtime_stats_state" where
  "stats_record kind elapsed s =
     s\<lparr>total_execution := duration_saturating_add (total_execution s) elapsed,
       last_execution := Some elapsed, last_call_kind := Some kind,
       counters := increment kind (counters s)\<rparr>"

definition stats_snapshot :: "runtime_stats_state \<Rightarrow> execution_snapshot" where
  "stats_snapshot s = \<lparr>snap_total_execution = total_execution s, snap_last_execution = last_execution s,
     snap_last_call_kind = last_call_kind s, snap_counters = counters s\<rparr>"

section \<open>Heap and activity\<close>

record heap_snapshot =
  hs_total_bytes :: u64
  hs_used_bytes :: u64
  hs_external_memory_bytes :: u64
  hs_physical_total_bytes :: u64

definition heap_snapshot_default :: heap_snapshot where
  "heap_snapshot_default = \<lparr>hs_total_bytes = 0, hs_used_bytes = 0, hs_external_memory_bytes = 0,
     hs_physical_total_bytes = 0\<rparr>"

text \<open>One entry of deno_core's activity snapshot; what the entry carries is not looked at.\<close>

datatype 'p runtime_activity = AsyncOp 'p | Resource 'p | Timer 'p | Interval 'p

record activity_summary =
  as_active_async_ops :: u64
  as_open_resources :: u64
  as_active_timers :: u64
  as_active_intervals :: u64

definition activity_summary_default :: activity_summary where
  "activity_summary_default = \<lparr>as_active_async_ops = 0, as_open_resources = 0, as_active_timers = 0,
     as_active_intervals = 0\<rparr>"

fun count_activity :: "activity_summary \<Rightarrow> 'p runtime_activity \<Rightarrow> activity_summary" where
  "count_activity s (AsyncOp p) = s\<lparr>as_active_async_ops := wsat_add (as_active_async_ops s) 1\<rparr>"
| "count_activity s (Resource p) = s\<lparr>as_open_resources := wsat_add (as_open_resources s) 1\<rparr>"
| "count_activity s (Timer p) = s\<lparr>as_active_timers := wsat_add (as_active_timers s) 1\<rparr>"
| "count_activity s (Interval p) = s\<lparr>as_active_intervals := wsat_add (as_active_intervals s) 1\<rparr>"

definition from_snapshot :: "'p runtime_activity list \<Rightarrow> activity_summary" where
  "from_snapshot activities = foldl count_activity activity_summary_default activities"

text \<open>A saturating count of the entries of a list that satisfy \<open>P\<close>.\<close>

definition sat_count :: "('a \<Rightarrow> bool) \<Rightarrow> 'a list \<Rightarrow> u64 \<Rightarrow> bool" where
  "sat_count P xs w \<longleftrightarrow> unat w = min (length (filter P xs)) (2 ^ 64 - 1)"

lemma sat_count_Nil [simp]: "sat_count P [] 0"
  by (simp add: sat_count_def)

lemma sat_count_snoc: "sat_count P xs w \<Longrightarrow> sat_count P (xs @ [x]) (if P x then wsat_add w 1 else w)"
  by (auto simp: sat_count_def unat_wsat_add)

definition is_async_op :: "'p runtime_activity \<Rightarrow> bool" where
  "is_async_op a \<longleftrightarrow> (case a of AsyncOp p \<Rightarrow> True | _ \<Rightarrow> False)"
definition is_resource :: "'p runtime_activity \<Rightarrow> bool" where
  "is_resource a \<longleftrightarrow> (case a of Resource p \<Rightarrow> True | _ \<Rightarrow> False)"
definition is_timer :: "'p runtime_activity \<Rightarrow> bool" where
  "is_timer a \<longleftrightarrow> (case a of Timer p \<Rightarrow> True | _ \<Rightarrow> False)"
definition is_interval :: "'p runtime_activity \<Rightarrow> bool" where
  "is_interval a \<longleftrightarrow> (case a of Interval p \<Rightarrow> True | _ \<Rightarrow> False)"

lemma from_snapshot_counts:
  "sat_count is_async_op xs (as_active_async_ops (from_snapshot xs))
   \<and> sat_count is_resource xs (as_open_resources (from_snapshot xs))
   \<and> sat_count is_timer xs (as_active_timers (from_snapshot xs))
   \<and> sat_count is_interval xs (as_active_intervals (from_snapshot xs))"
proof (induction xs rule: rev_induct)
  case Nil
  show ?case by (simp add: from_snapshot_def activity_summary_default_def)
next
  case (snoc x xs)
  then show ?case
    using sat_count_snoc [where x = x and xs = xs]
    by (cases x) (fastforce simp: from_snapshot_def is_async_op_def is_resource_def is_timer_def is_interval_def)+
qed

section \<open>The report\<close>

record stats_report =
  r_heap_total_bytes :: u64
  r_heap_used_bytes :: u64
  r_external_memory_bytes :: u64
  r_physical_total_bytes :: u64
  r_total_execution_time_ms :: u64
  r_last_execution_time_ms :: u64
  r_last_execution_kind :: "runtime_call_kind option"
  r_eval_sync_count :: u64
  r_eval_async_count :: u64
  r_eval_module_sync_count :: u64
  r_eval_module_async_count :: u64
  r_call_function_async_count :: u64
  r_call_function_sync_count :: u64
  r_active_async_ops :: u64
  r_open_resources :: u64
  r_active_timers :: u64
  r_active_intervals :: u64
  r_active_js_streams :: u64
  r_active_py_streams :: u64
  r_total_js_streams :: u64
  r_total_py_streams :: u64
  r_bytes_streamed_js_to_py :: u64
  r_bytes_streamed_py_to_js :: u64

definition stats_report_new ::
  "heap_snapshot \<Rightarrow> execution_snapshot \<Rightarrow> activity_summary \<Rightarrow> stream_stats \<Rightarrow> stats_report" where
  "stats_report_new heap execution activity streams =
     \<lparr>r_heap_total_bytes = hs_total_bytes heap,
      r_heap_used_bytes = hs_used_bytes heap,
      r_external_memory_bytes = hs_external_memory_bytes heap,
      r_physical_total_bytes = hs_physical_total_bytes heap,
      r_total_execution_time_ms = duration_to_u64_ms (snap_total_execution execution),
      r_last_execution_time_ms =
        (case snap_last_execution execution of Some d \<Rightarrow> duration_to_u64_ms d | None \<Rightarrow> 0),
      r_last_execution_kind = snap_last_call_kind execution,
      r_eval_sync_count = eval_sync_count (snap_counters execution),
      r_eval_async_count = eval_async_count (snap_counters execution),
      r_eval_module_sync_count = eval_module_sync_count (snap_counters execution),
      r_eval_module_async_count = eval_module_async_count (snap_counters execution),
      r_call_function_async_count = call_function_async_count (snap_counters execution),
      r_call_function_sync_count = call_function_sync_count (snap_counters execution),
      r_active_async_ops = as_active_async_ops activity,
      r_open_resources = as_open_resources activity,
      r_active_timers = as_active_timers activity,
      r_active_intervals = as_active_intervals activity,
      r_active_js_streams = active_js_streams streams,
      r_active_py_streams = active_py_streams streams,
      r_total_js_streams = total_js_streams streams,
      r_total_py_streams = total_py_streams streams,
      r_bytes_streamed_js_to_py = bytes_js_to_py streams,
      r_bytes_streamed_py_to_js = bytes_py_to_js streams\<rparr>"

section \<open>The counters against a history of calls\<close>

text \<open>A history lists the recorded calls, oldest first.\<close>

definition record_all :: "(runtime_call_kind \<times> nat) list \<Rightarrow> runtime_stats_state" where
  "record_all calls = foldl (\<lambda>s (k, e). stats_record k e s) stats_state_default calls"

definition report_after ::
  "(runtime_call_kind \<times> nat) list \<Rightarrow> heap_snapshot \<Rightarrow> activity_summary \<Rightarrow> stream_stats \<Rightarrow> stats_report" where
  "report_after cs h a s = stats_report_new h (stats_snapshot (record_all cs)) a s"

lemma record_all_Nil: "record_all [] = stats_state_default"
  by (simp add: record_all_def)

lemma record_all_snoc: "record_all (cs @ [(k, e)]) = stats_record k e (record_all cs)"
  by (simp add: record_all_def)

lemma record_all_counter: "sat_count (\<lambda>c. fst c = k) cs (counter_of k (counters (record_all cs)))"
proof (induction cs rule: rev_induct)
  case Nil
  show ?case by (cases k) (simp_all add: record_all_def stats_state_default_def counters_default_def)
next
  case (snoc c cs)
  obtain k' e where c: "c = (k', e)" by (cases c)
  from sat_count_snoc [OF snoc.IH, of "(k', e)"]
  show ?case by (auto simp: c record_all_snoc stats_record_def counter_of_increment split: if_splits)
qed

lemma record_all_total: "total_execution (record_all cs) = min (sum_list (map snd cs)) duration_max"
proof -
  have "total_execution (record_all cs) = foldl duration_saturating_add 0 (map snd cs)"
  proof (induction cs rule: rev_induct)
    case (snoc c cs)
    then show ?case by (cases c) (simp add: record_all_snoc stats_record_def)
  qed (simp add: record_all_def stats_state_default_def)
  then show ?thesis using foldl_duration_saturating_add [of 0 "map snd cs"] by simp
qed

lemma record_all_last:
  "cs \<noteq> [] \<Longrightarrow> last_execution (record_all cs) = Some (snd (last cs))
    \<and> last_call_kind (record_all cs) = Some (fst (last cs))"
  by (induction cs rule: rev_induct) (auto simp: record_all_snoc stats_record_def)

section \<open>Properties\<close>

text \<open>
  C18  The report of a runtime that has made the calls \<open>cs\<close> counts the calls of each kind (up to the
  largest \<open>u64\<close>), gives their total time in whole milliseconds, and names the last call.
\<close>

theorem report_counts_calls:
  "unat (r_eval_sync_count (report_after cs h a s)) = min (length (filter (\<lambda>c. fst c = EvalSync) cs)) (2 ^ 64 - 1)
    \<and> unat (r_call_function_async_count (report_after cs h a s))
        = min (length (filter (\<lambda>c. fst c = CallFunctionAsync) cs)) (2 ^ 64 - 1)
    \<and> unat (r_total_execution_time_ms (report_after cs h a s))
        = min (min (sum_list (map snd cs)) duration_max div 1000000) (2 ^ 64 - 1)
    \<and> r_last_execution_kind (report_after cs h a s) = (if cs = [] then None else Some (fst (last cs)))
    \<and> r_last_execution_time_ms (report_after cs h a s) = (if cs = [] then 0 else duration_to_u64_ms (snd (last cs)))"
  using record_all_counter [of EvalSync cs] record_all_counter [of CallFunctionAsync cs]
    record_all_last [of cs]
  by (cases "cs = []") (simp_all add: report_after_def stats_report_new_def stats_snapshot_def sat_count_def
      record_all_total unat_duration_to_u64_ms, simp add: record_all_Nil stats_state_default_def)

text \<open>
  C19  The activity part of the report counts each of deno_core's entries in exactly one of its four
  figures.
\<close>

theorem report_counts_activity:
  assumes "length xs < 2 ^ 64"
  shows "unat (as_active_async_ops (from_snapshot xs)) + unat (as_open_resources (from_snapshot xs))
    + unat (as_active_timers (from_snapshot xs)) + unat (as_active_intervals (from_snapshot xs)) = length xs"
proof -
  have split4: "length (filter is_async_op xs) + length (filter is_resource xs)
      + length (filter is_timer xs) + length (filter is_interval xs) = length xs" for xs :: "'a runtime_activity list"
    by (induction xs) (auto simp: is_async_op_def is_resource_def is_timer_def is_interval_def split: runtime_activity.splits)
  have le: "length (filter P xs) \<le> 2 ^ 64 - 1" for P
    using assms length_filter_le [of P xs] by linarith
  show ?thesis
    using from_snapshot_counts [of xs] le [of is_async_op] le [of is_resource] le [of is_timer]
      le [of is_interval] split4 [of xs]
    by (simp add: sat_count_def min_absorb1)
qed

theorem report_counts_activity_witness:
  "unat (as_active_timers (from_snapshot [Timer (), AsyncOp (), Timer ()])) = 2"
  using report_counts_activity [of "[Timer (), AsyncOp (), Timer ()]"]
  by (simp add: from_snapshot_def activity_summary_default_def wsat_add_def)

end
