(* ===== verification/Peno_V8Conv.thy ===== *)
theory Peno_V8Conv
  imports Peno_Streams Peno_ConvTrip
begin

text \<open>
  The two converters between \<open>JSValue\<close> and V8 values in \<open>src/runtime/runner.rs\<close>:
  \<open>value_to_js_value_internal\<close>, which walks a guest value under a \<open>LimitTracker\<close> and registers the
  functions and streams it meets, and \<open>js_value_to_v8\<close>, which builds one.  V8 itself is the record
  \<open>v8_engine\<close>: what a handle is, and every operation on it that may run guest code (a getter, a
  proxy trap, \<open>Symbol.hasInstance\<close>), which therefore threads the engine's world \<open>'w\<close>.  Nothing is
  assumed of it: the guest is the adversary.
\<close>

section \<open>The engine\<close>

text \<open>
  The outcome of the type tests in the order the converter makes them, with the primitive payload.
\<close>

datatype v8_kind =
    KUndefined
  | KNull
  | KBoolean bool
  | KNumber f64
  | KBigInt int
  | KString string
  | KFunction
  | KSymbol
  | KUint8Array bytes
  | KArrayBuffer bytes
  | KArray
  | KSet
  | KDate f64
  | KObject
  | KOther

text \<open>\<open>big_to_bytes_le\<close> and \<open>big_parse_10\<close> are num_bigint's.\<close>

record ('h, 'w) v8_engine = "('h, 'w) v8_calls" +
  v8_kind_of :: "'h \<Rightarrow> 'w \<Rightarrow> v8_kind"
  v8_identity_hash :: "'h \<Rightarrow> int"
  v8_array_length :: "'h \<Rightarrow> 'w \<Rightarrow> u32"
  v8_get_index :: "'h \<Rightarrow> u32 \<Rightarrow> 'w \<Rightarrow> 'h option \<times> 'w"
  v8_set_as_array :: "'h \<Rightarrow> 'w \<Rightarrow> 'h \<times> 'w"
  v8_own_property_names :: "'h \<Rightarrow> 'w \<Rightarrow> 'h option \<times> 'w"
  v8_get_key :: "'h \<Rightarrow> 'h \<Rightarrow> 'w \<Rightarrow> 'h option \<times> 'w"
  v8_string_of :: "'h \<Rightarrow> 'w \<Rightarrow> string option \<times> 'w"
  v8_global :: "'h"
  v8_instance_of :: "'h \<Rightarrow> 'h \<Rightarrow> 'w \<Rightarrow> bool option \<times> 'w"
  v8_call1 :: "'h \<Rightarrow> 'h \<Rightarrow> 'h \<Rightarrow> 'w \<Rightarrow> 'h option \<times> 'w"
  v8_undefined :: "'h"
  v8_null :: "'h"
  v8_boolean :: "bool \<Rightarrow> 'h"
  v8_new_number :: "f64 \<Rightarrow> 'w \<Rightarrow> 'h \<times> 'w"
  v8_new_bigint :: "bool \<Rightarrow> u64 list \<Rightarrow> 'w \<Rightarrow> 'h option \<times> 'w"
  v8_new_string :: "string \<Rightarrow> 'w \<Rightarrow> 'h option \<times> 'w"
  v8_new_uint8_array :: "bytes \<Rightarrow> 'w \<Rightarrow> 'h option \<times> 'w"
  v8_new_array :: "int \<Rightarrow> 'w \<Rightarrow> 'h \<times> 'w"
  v8_set_index :: "'h \<Rightarrow> u32 \<Rightarrow> 'h \<Rightarrow> 'w \<Rightarrow> bool option \<times> 'w"
  v8_new_set :: "'w \<Rightarrow> 'h \<times> 'w"
  v8_set_add :: "'h \<Rightarrow> 'h \<Rightarrow> 'w \<Rightarrow> 'h option \<times> 'w"
  v8_new_object :: "'w \<Rightarrow> 'h \<times> 'w"
  v8_set :: "'h \<Rightarrow> 'h \<Rightarrow> 'h \<Rightarrow> 'w \<Rightarrow> bool option \<times> 'w"
  v8_new_date :: "f64 \<Rightarrow> 'w \<Rightarrow> 'h option \<times> 'w"
  big_to_bytes_le :: "int \<Rightarrow> bool \<times> bytes"
  big_parse_10 :: "string \<Rightarrow> int option"

text \<open>A function kept alive for the host, with the object it is to be called on.\<close>

record 'h stored_function =
  sf_function :: 'h
  sf_receiver :: "'h option"

text \<open>
  What the converters share with the runtime core, and \<open>seen\<close>, the identity hashes on the current
  path.  \<open>next_fn_id\<close> is incremented with \<open>+=\<close>, which wraps in a release build.
\<close>

record ('h, 'w) v8_state =
  v8_seen :: "int set"
  v8_fns :: "u32 \<rightharpoonup> 'h stored_function"
  v8_next_fn :: u32
  v8_streams :: "'h js_stream_registry"
  v8_world :: 'w

type_synonym ('h, 'w, 'a) v8_conv = "(limit_tracker \<times> ('h, 'w) v8_state, runtime_error, 'a) comp"

section \<open>Steps of the converter\<close>

definition enter_v8 :: "('h, 'w, unit) v8_conv" where
  "enter_v8 = on_tracker (\<lambda>e. e) enter"

definition pay :: "nat \<Rightarrow> ('h, 'w, unit) v8_conv" where
  "pay n = on_tracker (\<lambda>e. e) (add_bytes n)"

definition run_v8 :: "('w \<Rightarrow> 'a \<times> 'w) \<Rightarrow> ('h, 'w, 'a) v8_conv" where
  "run_v8 f s = (case f (v8_world (snd s)) of (a, w) \<Rightarrow> (Inr a, (fst s, (snd s)\<lparr>v8_world := w\<rparr>)))"

definition look_v8 :: "('w \<Rightarrow> 'a) \<Rightarrow> ('h, 'w, 'a) v8_conv" where
  "look_v8 f s = (Inr (f (v8_world (snd s))), s)"

definition try_v8 :: "string \<Rightarrow> ('w \<Rightarrow> 'a option \<times> 'w) \<Rightarrow> ('h, 'w, 'a) v8_conv" where
  "try_v8 msg f = sbind (run_v8 f) (\<lambda>r. opt_or msg r)"

definition see :: "int \<Rightarrow> ('h, 'w, unit) v8_conv" where
  "see h s =
     (if h \<in> v8_seen (snd s) then (Inl (Internal ''Cannot serialize circular reference''), s)
      else (Inr (), (fst s, (snd s)\<lparr>v8_seen := insert h (v8_seen (snd s))\<rparr>)))"

definition unsee :: "int \<Rightarrow> ('h, 'w, unit) v8_conv" where
  "unsee h s = (Inr (), (fst s, (snd s)\<lparr>v8_seen := v8_seen (snd s) - {h}\<rparr>))"

definition register_function :: "'h \<Rightarrow> 'h option \<Rightarrow> ('h, 'w, u32) v8_conv" where
  "register_function f receiver s =
     (let c = snd s; i = v8_next_fn c
      in (Inr i, (fst s, c\<lparr>v8_next_fn := i + 1,
                           v8_fns := (v8_fns c)(i \<mapsto> \<lparr>sf_function = f, sf_receiver = receiver\<rparr>)\<rparr>)))"

definition register_js_stream :: "'h \<Rightarrow> ('h, 'w, u32) v8_conv" where
  "register_js_stream v s =
     (case register_stream v (v8_streams (snd s)) of
        (i, r) \<Rightarrow> (Inr i, (fst s, (snd s)\<lparr>v8_streams := r\<rparr>)))"

definition done_v8 :: "'a \<Rightarrow> ('h, 'w, 'a) v8_conv" where
  "done_v8 a = sthen leave (sret a)"

definition is_readable_stream :: "('h, 'w) v8_engine \<Rightarrow> 'h \<Rightarrow> ('h, 'w, bool) v8_conv" where
  "is_readable_stream v8 value =
     sbind (run_v8 (v8_get v8 (v8_global v8) ''ReadableStream'')) (\<lambda>ctor_value.
     case ctor_value of
       None \<Rightarrow> sret False
     | Some ctor \<Rightarrow>
         if v8_is_function v8 ctor
         then sbind (run_v8 (v8_instance_of v8 value ctor)) (\<lambda>r. sret (r = Some True))
         else sret False)"

definition number_to_js :: "f64 \<Rightarrow> nat \<times> js_value" where
  "number_to_js num_val =
     (if f64_is_nan num_val \<or> f64_is_infinite num_val then (24, JFloat num_val)
      else if f64_fract_zero num_val \<and> f64_is_finite num_val then
        let as_int = f64_as_i64 num_val
        in if f64_of_int as_int = num_val then (20, JInt as_int) else (24, JFloat num_val)
      else (24, JFloat num_val))"

definition bigint_to_js :: "('h, 'w) v8_engine \<Rightarrow> 'h \<Rightarrow> int \<Rightarrow> ('h, 'w, js_value) v8_conv" where
  "bigint_to_js v8 value i =
     (if in_i64 i then sthen (pay 20) (done_v8 (JInt i))
      else sbind (try_v8 ''Failed to stringify BigInt'' (v8_string_of v8 value)) (\<lambda>text.
           sbind (opt_or ''Failed to parse BigInt literal'' (big_parse_10 v8 text)) (\<lambda>parsed.
           sthen (pay (length text)) (done_v8 (JBigInt parsed)))))"

definition date_to_js :: "f64 \<Rightarrow> ('h, 'w, js_value) v8_conv" where
  "date_to_js epoch_ms =
     (if \<not> f64_is_finite epoch_ms \<or> f64_less epoch_ms (of_int (- (2 ^ 63)))
        \<or> f64_greater epoch_ms (of_int (2 ^ 63))
      then sfail (Internal ''Date value out of range'')
      else sthen (pay 16) (done_v8 (JDate (f64_round_as_i64 epoch_ms))))"

definition string_v8 :: "string \<Rightarrow> ('h, 'w, js_value) v8_conv" where
  "string_v8 s = sthen (pay (length s)) (done_v8 (JString s))"

text \<open>
  The containers, over the converter \<open>conv\<close> of their elements, which is \<open>v8_to_js\<close> one level down; its
  first argument is the receiver, captured for a property of an object whose value is a function.
\<close>

definition array_to_js ::
  "('h, 'w) v8_engine \<Rightarrow> ('h option \<Rightarrow> 'h \<Rightarrow> ('h, 'w, js_value) v8_conv) \<Rightarrow> 'h \<Rightarrow> ('h, 'w, js_value) v8_conv"
where
  "array_to_js v8 conv value =
     sthen (see (v8_identity_hash v8 value))
    (sbind (look_v8 (v8_array_length v8 value)) (\<lambda>len.
     sbind (smap (\<lambda>i.
         sbind (try_v8 (''Failed to get array index '' @ show_nat i)
           (v8_get_index v8 value (word_of_nat i))) (conv None)) [0..<unat len]) (\<lambda>items.
     sthen (unsee (v8_identity_hash v8 value)) (done_v8 (JArray items)))))"

definition set_to_js ::
  "('h, 'w) v8_engine \<Rightarrow> ('h option \<Rightarrow> 'h \<Rightarrow> ('h, 'w, js_value) v8_conv) \<Rightarrow> 'h \<Rightarrow> ('h, 'w, js_value) v8_conv"
where
  "set_to_js v8 conv value =
     sthen (see (v8_identity_hash v8 value))
    (sbind (run_v8 (v8_set_as_array v8 value)) (\<lambda>entries.
     sbind (look_v8 (v8_array_length v8 entries)) (\<lambda>len.
     sthen (pay 24)
    (sthen (pay (usat_mul (unat len) 8))
    (sbind (smap (\<lambda>i.
         sbind (try_v8 ''Failed to get Set entry'' (v8_get_index v8 entries (word_of_nat i)))
           (conv None)) [0..<unat len]) (\<lambda>values.
     sthen (unsee (v8_identity_hash v8 value)) (done_v8 (JSet values))))))))"

definition property_to_js ::
  "('h, 'w) v8_engine \<Rightarrow> ('h option \<Rightarrow> 'h \<Rightarrow> ('h, 'w, js_value) v8_conv) \<Rightarrow> 'h \<Rightarrow> 'h \<Rightarrow> nat
    \<Rightarrow> ('h, 'w, string \<times> js_value) v8_conv"
where
  "property_to_js v8 conv value prop_names i =
     sbind (try_v8 ''Failed to get property name'' (v8_get_index v8 prop_names (word_of_nat i))) (\<lambda>key.
     sbind (try_v8 ''Failed to convert key to string'' (v8_string_of v8 key)) (\<lambda>key_str.
     sbind (try_v8 (''Failed to get property '' @ [CHR 0x27] @ key_str @ [CHR 0x27])
       (v8_get_key v8 value key)) (\<lambda>val.
     sthen (pay (length key_str))
    (sbind (conv (if v8_is_function v8 val then Some value else None) val) (\<lambda>j.
     sret (key_str, j))))))"

definition object_to_js ::
  "('h, 'w) v8_engine \<Rightarrow> ('h option \<Rightarrow> 'h \<Rightarrow> ('h, 'w, js_value) v8_conv) \<Rightarrow> 'h \<Rightarrow> ('h, 'w, js_value) v8_conv"
where
  "object_to_js v8 conv value =
     sthen (see (v8_identity_hash v8 value))
    (sbind (try_v8 ''Failed to get property names'' (v8_own_property_names v8 value)) (\<lambda>prop_names.
     sbind (look_v8 (v8_array_length v8 prop_names)) (\<lambda>len.
     sbind (smap (property_to_js v8 conv value prop_names) [0..<unat len]) (\<lambda>entries.
     sthen (unsee (v8_identity_hash v8 value)) (done_v8 (JObject (im_from_entries entries)))))))"

definition function_to_js :: "'h option \<Rightarrow> 'h \<Rightarrow> ('h, 'w, js_value) v8_conv" where
  "function_to_js receiver value =
     sbind (register_function value receiver) (\<lambda>i. sthen (pay 8) (done_v8 (JFunction i)))"

definition stream_to_js :: "'h \<Rightarrow> ('h, 'w, js_value) v8_conv" where
  "stream_to_js value = sbind (register_js_stream value) (\<lambda>i. sthen (pay 4) (done_v8 (JJsStream i)))"

definition kind_to_js ::
  "('h, 'w) v8_engine \<Rightarrow> ('h option \<Rightarrow> 'h \<Rightarrow> ('h, 'w, js_value) v8_conv) \<Rightarrow> 'h option \<Rightarrow> 'h \<Rightarrow> v8_kind
    \<Rightarrow> ('h, 'w, js_value) v8_conv"
where
  "kind_to_js v8 conv receiver value kind =
     (case kind of
        KUndefined \<Rightarrow> sthen (pay 0) (done_v8 JUndefined)
      | KNull \<Rightarrow> sthen (pay 4) (done_v8 JNull)
      | KBoolean b \<Rightarrow> sthen (pay 5) (done_v8 (JBool b))
      | KNumber f \<Rightarrow> sthen (pay (fst (number_to_js f))) (done_v8 (snd (number_to_js f)))
      | KBigInt i \<Rightarrow> bigint_to_js v8 value i
      | KString s \<Rightarrow> string_v8 s
      | KFunction \<Rightarrow> function_to_js receiver value
      | KSymbol \<Rightarrow> sthen leave (sfail (Internal ''Cannot serialize V8 symbol''))
      | KUint8Array bs \<Rightarrow> sthen (pay (length bs)) (done_v8 (JBytes bs))
      | KArrayBuffer bs \<Rightarrow> sthen (pay (length bs)) (done_v8 (JBytes bs))
      | KArray \<Rightarrow> array_to_js v8 conv value
      | KSet \<Rightarrow> set_to_js v8 conv value
      | KDate f \<Rightarrow> date_to_js f
      | KObject \<Rightarrow>
          sbind (is_readable_stream v8 value) (\<lambda>is_stream.
          if is_stream then stream_to_js value else object_to_js v8 conv value)
      | KOther \<Rightarrow>
          sbind (try_v8 ''Failed to convert value to string'' (v8_string_of v8 value)) string_v8)"

text \<open>As for \<open>py_to_js\<close>, \<open>fuel\<close> counts the levels that the depth limit leaves.\<close>

fun v8_to_js :: "('h, 'w) v8_engine \<Rightarrow> nat \<Rightarrow> 'h option \<Rightarrow> 'h \<Rightarrow> ('h, 'w, js_value) v8_conv" where
  "v8_to_js v8 0 receiver value = sthen enter_v8 (sfail (Internal ''level limit''))"
| "v8_to_js v8 (Suc fuel) receiver value =
     sthen enter_v8 (sbind (look_v8 (v8_kind_of v8 value)) (kind_to_js v8 (v8_to_js v8 fuel) receiver value))"

text \<open>\<open>value_to_js_value\<close>: a fresh \<open>seen\<close> set and tracker.\<close>

definition value_to_js_value ::
  "('h, 'w) v8_engine \<Rightarrow> serialization_limits \<Rightarrow> 'h
    \<Rightarrow> (('h, 'w) v8_state, runtime_error, js_value) comp" where
  "value_to_js_value v8 limits value c =
     (case v8_to_js v8 (Suc (lim_depth limits)) None value
             (tracker_new (lim_depth limits) (lim_bytes limits), c\<lparr>v8_seen := {}\<rparr>) of
        (r, (_, c')) \<Rightarrow> (r, c'))"

section \<open>Building a V8 value\<close>

text \<open>\<open>bytes.chunks(8)\<close>, each padded with zeros and read by \<open>u64::from_le_bytes\<close>.\<close>

fun le_word :: "bytes \<Rightarrow> u64" where
  "le_word [] = 0"
| "le_word (b # bs) = ucast b + 256 * le_word bs"

function bigint_words :: "bytes \<Rightarrow> u64 list" where
  "bigint_words bs =
     (if bs = [] then [] else le_word (take 8 bs @ replicate (8 - length (take 8 bs)) 0) # bigint_words (drop 8 bs))"
  by pat_completeness auto
termination
  by (relation "measure length") auto

declare bigint_words.simps [simp del]

definition ask :: "('w \<Rightarrow> 'a \<times> 'w) \<Rightarrow> ('w, runtime_error, 'a) comp" where
  "ask f w = (case f w of (a, w') \<Rightarrow> (Inr a, w'))"

definition ask_or :: "string \<Rightarrow> ('w \<Rightarrow> 'a option \<times> 'w) \<Rightarrow> ('w, runtime_error, 'a) comp" where
  "ask_or msg f = sbind (ask f) (\<lambda>r. opt_or msg r)"

definition py_stream_to_v8 :: "('h, 'w) v8_engine \<Rightarrow> u32 \<Rightarrow> ('w, runtime_error, 'h) comp" where
  "py_stream_to_v8 v8 i =
     sbind (ask_or ''Missing __peno_from_py_stream helper''
       (v8_get v8 (v8_global v8) ''__peno_from_py_stream'')) (\<lambda>helper.
     sthen (slift (if v8_is_function v8 helper then Inr ()
                   else Inl (Internal ''__peno_from_py_stream is not callable'')))
    (sbind (ask (v8_new_number v8 (Fin (of_nat (unat i))))) (\<lambda>id_value.
     ask_or ''__peno_from_py_stream invocation failed'' (v8_call1 v8 helper (v8_global v8) id_value))))"

fun js_value_to_v8 ::
  "('h, 'w) v8_engine \<Rightarrow> (u32 \<rightharpoonup> 'h stored_function) \<Rightarrow> js_value \<Rightarrow> ('w, runtime_error, 'h) comp" where
  "js_value_to_v8 v8 registry JUndefined = sret (v8_undefined v8)"
| "js_value_to_v8 v8 registry JNull = sret (v8_null v8)"
| "js_value_to_v8 v8 registry (JBool b) = sret (v8_boolean v8 b)"
| "js_value_to_v8 v8 registry (JInt i) = ask (v8_new_number v8 (f64_of_int i))"
| "js_value_to_v8 v8 registry (JBigInt i) =
     (case big_to_bytes_le v8 i of
        (sign_bit, bs) \<Rightarrow> ask_or ''Failed to create BigInt'' (v8_new_bigint v8 sign_bit (bigint_words bs)))"
| "js_value_to_v8 v8 registry (JFloat f) = ask (v8_new_number v8 f)"
| "js_value_to_v8 v8 registry (JString s) = ask_or ''Failed to allocate string'' (v8_new_string v8 s)"
| "js_value_to_v8 v8 registry (JBytes bs) =
     ask_or ''Failed to create Uint8Array'' (v8_new_uint8_array v8 bs)"
| "js_value_to_v8 v8 registry (JArray items) =
     sbind (ask (v8_new_array v8 (sint (word_of_nat (length items) :: u32)))) (\<lambda>array.
     sthen (sfold (\<lambda>index item.
         sbind (js_value_to_v8 v8 registry item) (\<lambda>v.
         sthen (ask_or ''Failed to set array element'' (v8_set_index v8 array index v))
           (sret (index + 1)))) 0 items)
       (sret array))"
| "js_value_to_v8 v8 registry (JSet values) =
     sbind (ask (v8_new_set v8)) (\<lambda>set.
     sthen (sfold (\<lambda>_ item.
         sbind (js_value_to_v8 v8 registry item) (\<lambda>v.
         sthen (ask (v8_set_add v8 set v)) (sret ()))) () values)
       (sret set))"
| "js_value_to_v8 v8 registry (JObject m) =
     sbind (ask (v8_new_object v8)) (\<lambda>object.
     sthen (sfold (\<lambda>_ (key, val).
         sbind (ask_or (''Failed to allocate key '' @ [CHR 0x27] @ key @ [CHR 0x27])
           (v8_new_string v8 key)) (\<lambda>key_str.
         sbind (js_value_to_v8 v8 registry val) (\<lambda>v.
         sthen (ask_or (''Failed to set property '' @ [CHR 0x27] @ key @ [CHR 0x27])
           (v8_set v8 object key_str v)) (sret ())))) () m)
       (sret object))"
| "js_value_to_v8 v8 registry (JDate ms) = ask_or ''Failed to create Date'' (v8_new_date v8 (f64_of_int ms))"
| "js_value_to_v8 v8 registry (JFunction i) =
     (case registry i of
        Some stored \<Rightarrow> sret (sf_function stored)
      | None \<Rightarrow> sfail (Internal (''Function ID '' @ show_word i @ '' not found in args'')))"
| "js_value_to_v8 v8 registry (JPyStream i) = py_stream_to_v8 v8 i"
| "js_value_to_v8 v8 registry (JJsStream i) =
     sfail (Internal ''JsStream values cannot be sent back into JavaScript'')"

section \<open>What a conversion is charged\<close>

text \<open>
  The least a value of this direction costs.  An array costs nothing of its own, and \<open>undefined\<close>
  nothing at all.
\<close>

fun v8_weight :: "js_value \<Rightarrow> nat" where
  "v8_weight JUndefined = 0"
| "v8_weight JNull = 4"
| "v8_weight (JBool _) = 5"
| "v8_weight (JInt _) = 20"
| "v8_weight (JBigInt _) = 0"
| "v8_weight (JFloat _) = 24"
| "v8_weight (JString s) = length s"
| "v8_weight (JBytes bs) = length bs"
| "v8_weight (JArray vs) = sum_list (map v8_weight vs)"
| "v8_weight (JSet vs) = 24 + length vs * 8 + sum_list (map v8_weight vs)"
| "v8_weight (JObject m) = sum_list (map (\<lambda>(k, v). length k + v8_weight v) m)"
| "v8_weight (JDate _) = 16"
| "v8_weight (JFunction _) = 8"
| "v8_weight (JJsStream _) = 4"
| "v8_weight (JPyStream _) = 0"

lemma sbind_assoc: "sbind (sbind m f) g = sbind m (\<lambda>a. sbind (f a) g)"
  by (auto simp: sbind_def fun_eq_iff split: prod.splits sum.splits)

lemma enter_v8_Inr: "enter_v8 (t, x) = (Inr u, (t', x')) \<longleftrightarrow> enter t = (Inr u, t') \<and> x' = x"
  by (auto simp: enter_v8_def on_tracker_Inr)

lemma pay_Inr: "pay n (t, x) = (Inr u, (t', x')) \<longleftrightarrow> add_bytes n t = (Inr u, t') \<and> x' = x"
  by (auto simp: pay_def on_tracker_Inr)

lemma run_v8_Inr: "run_v8 f (t, x) = (r, (t', x')) \<longleftrightarrow>
    (\<exists>a w. f (v8_world x) = (a, w) \<and> r = Inr a \<and> t' = t \<and> x' = x\<lparr>v8_world := w\<rparr>)"
  by (auto simp: run_v8_def split: prod.splits)

lemma look_v8_Inr: "look_v8 f (t, x) = (r, (t', x')) \<longleftrightarrow> r = Inr (f (v8_world x)) \<and> t' = t \<and> x' = x"
  by (auto simp: look_v8_def)

lemma opt_or_Inr: "opt_or msg r s = (Inr a, s') \<longleftrightarrow> r = Some a \<and> s' = s"
  by (auto simp: opt_or_def split: option.splits)

lemma try_v8_Inr: "try_v8 msg f (t, x) = (Inr a, (t', x')) \<longleftrightarrow>
    (\<exists>w. f (v8_world x) = (Some a, w) \<and> t' = t \<and> x' = x\<lparr>v8_world := w\<rparr>)"
  by (auto simp: try_v8_def sbind_Inr run_v8_Inr opt_or_Inr)

lemma see_Inr: "see h (t, x) = (Inr u, (t', x')) \<longleftrightarrow>
    h \<notin> v8_seen x \<and> t' = t \<and> x' = x\<lparr>v8_seen := insert h (v8_seen x)\<rparr>"
  by (auto simp: see_def)

lemma unsee_Inr: "unsee h (t, x) = (r, (t', x')) \<longleftrightarrow>
    r = Inr () \<and> t' = t \<and> x' = x\<lparr>v8_seen := v8_seen x - {h}\<rparr>"
  by (auto simp: unsee_def)

lemma done_v8_Inr: "done_v8 a (t, x) = (Inr b, (t', x')) \<longleftrightarrow> b = a \<and> t' = exit_level t \<and> x' = x"
  by (auto simp: done_v8_def sthen_Inr)

lemma register_function_Inr: "register_function f rc (t, x) = (r, (t', x')) \<longleftrightarrow> r = Inr (v8_next_fn x) \<and> t' = t
    \<and> x' = x\<lparr>v8_next_fn := v8_next_fn x + 1,
             v8_fns := (v8_fns x)(v8_next_fn x \<mapsto> \<lparr>sf_function = f, sf_receiver = rc\<rparr>)\<rparr>"
  by (auto simp: register_function_def Let_def)

lemma register_js_stream_Inr: "register_js_stream v (t, x) = (r, (t', x')) \<longleftrightarrow>
    (\<exists>i g. register_stream v (v8_streams x) = (i, g) \<and> r = Inr i \<and> t' = t \<and> x' = x\<lparr>v8_streams := g\<rparr>)"
  by (auto simp: register_js_stream_def split: prod.splits)

lemmas v8_steps = sbind_Inr sthen_Inr enter_v8_Inr pay_Inr run_v8_Inr look_v8_Inr try_v8_Inr opt_or_Inr see_Inr
  unsee_Inr done_v8_Inr register_function_Inr register_js_stream_Inr

lemma is_readable_stream_Inr:
  assumes "is_readable_stream v8 v (t, x) = (r, (t', x'))"
  shows "t' = t \<and> (\<exists>w. x' = x\<lparr>v8_world := w\<rparr>) \<and> (\<exists>b. r = Inr b)"
proof -
  obtain c w where c: "v8_get v8 (v8_global v8) ''ReadableStream'' (v8_world x) = (c, w)" by fastforce
  show ?thesis
  proof (cases c)
    case None
    with assms c show ?thesis by (auto simp: is_readable_stream_def sbind_def run_v8_def)
  next
    case (Some k)
    obtain b w' where "v8_instance_of v8 v k w = (b, w')" by fastforce
    with assms c Some show ?thesis
      by (auto simp: is_readable_stream_def sbind_def run_v8_def split: if_splits)
  qed
qed

lemma pay_done:
  "\<lbrakk>sthen (pay n) (done_v8 a) (t, x) = (Inr r, (t', x')); tracker_wf t\<rbrakk>
    \<Longrightarrow> r = a \<and> x' = x \<and> (\<exists>t2. charges n t t2 \<and> t' = exit_level t2)"
  by (auto simp: v8_steps dest: add_bytes_charges)

text \<open>Children whose conversion may write the rest of the state.\<close>

lemma smap_fits_any:
  assumes "smap f xs (t, x) = (Inr ys, (t', x'))" "tracker_wf t"
    and "\<And>v t x y t' x'. v \<in> set xs \<Longrightarrow> tracker_wf t \<Longrightarrow> f v (t, x) = (Inr y, (t', x'))
          \<Longrightarrow> fits (w y) (h y) t t'"
  shows "charges (sum_list (map w ys)) t t'" "current_depth t + fold max (map h ys) 0 \<le> max_depth t"
proof -
  have "charges (sum_list (map w ys)) t t' \<and> (\<forall>y \<in> set ys. current_depth t + h y \<le> max_depth t)"
    using assms
  proof (induction xs arbitrary: t x ys)
    case (Cons u us)
    from Cons.prems(1) obtain y t1 x1 zs where
      f: "f u (t, x) = (Inr y, (t1, x1))" and r: "smap f us (t1, x1) = (Inr zs, (t', x'))"
      and ys: "ys = y # zs"
      by (auto simp: sbind_Inr)
    have m: "fits (w y) (h y) t t1" using Cons.prems(3) [OF _ Cons.prems(2) f] by simp
    then have wf: "tracker_wf t1" using Cons.prems(2) charges_wf by (auto simp: fits_def)
    have "charges (sum_list (map w zs)) t1 t' \<and> (\<forall>y \<in> set zs. current_depth t1 + h y \<le> max_depth t1)"
      using Cons.prems(3) by (intro Cons.IH [OF r wf]) (meson list.set_intros(2))
    with m ys show ?case
      using charges_trans by (auto simp: fits_def charges_def meters_def)
  qed simp
  then show "charges (sum_list (map w ys)) t t'" and "current_depth t + fold max (map h ys) 0 \<le> max_depth t"
    using assms(2) by (auto intro!: children_levels simp: tracker_wf_def)
qed

text \<open>What a successful body leaves, one level down: \<open>fits\<close> before the \<open>exit\<close>.\<close>

definition body_fits :: "js_value \<Rightarrow> limit_tracker \<Rightarrow> limit_tracker \<Rightarrow> bool" where
  "body_fits r t1 t' \<longleftrightarrow> (\<exists>t2 h. charges (v8_weight r) t1 t2 \<and> t' = exit_level t2
     \<and> js_depth r = Suc h \<and> current_depth t1 + h \<le> max_depth t1)"

lemma body_fits_leaf:
  "\<lbrakk>sthen (pay n) (done_v8 a) (t, x) = (Inr r, (t', x')); tracker_wf t; v8_weight a \<le> n; js_depth a = 1\<rbrakk>
    \<Longrightarrow> body_fits r t t'"
  using charges_weaken by (fastforce simp: body_fits_def tracker_wf_def dest!: pay_done)

lemma body_fits_level:
  "tracker_wf t \<Longrightarrow> enter t = (Inr (), t1) \<Longrightarrow> body_fits r t1 t' \<Longrightarrow> fits (v8_weight r) (js_depth r) t t'"
  unfolding body_fits_def using fits_level by metis

lemma bigint_body:
  "\<lbrakk>bigint_to_js v8 v i (t, x) = (Inr r, (t', x')); tracker_wf t\<rbrakk> \<Longrightarrow> body_fits r t t'"
  unfolding bigint_to_js_def
  by (auto simp: sbind_Inr try_v8_Inr opt_or_Inr split: if_splits) (erule body_fits_leaf, simp_all)+

lemma date_body:
  "\<lbrakk>date_to_js f (t, x) = (Inr r, (t', x')); tracker_wf t\<rbrakk> \<Longrightarrow> body_fits r t t'"
  unfolding date_to_js_def by (auto split: if_splits) (erule body_fits_leaf, simp_all)

lemma string_body:
  "\<lbrakk>string_v8 s (t, x) = (Inr r, (t', x')); tracker_wf t\<rbrakk> \<Longrightarrow> body_fits r t t'"
  unfolding string_v8_def by (erule body_fits_leaf) simp_all

lemma number_weight: "v8_weight (snd (number_to_js f)) = fst (number_to_js f)" "js_depth (snd (number_to_js f)) = 1"
  by (simp_all add: number_to_js_def Let_def)

text \<open>A container: some charges, its children, its own \<open>exit\<close>.\<close>

lemma body_fits_children:
  assumes "charges w t1 t2" "charges c t2 t3" "current_depth t2 + h \<le> max_depth t2"
    and "v8_weight r \<le> w + c" "js_depth r = Suc h"
  shows "body_fits r t1 (exit_level t3)"
proof -
  have "charges (v8_weight r) t1 t3"
    using charges_trans [OF assms(1,2)] assms(4) charges_weaken by blast
  moreover have "current_depth t1 + h \<le> max_depth t1"
    using assms(1,3) by (simp add: charges_def meters_def)
  ultimately show ?thesis using assms(5) by (auto simp: body_fits_def)
qed

definition fits_conv :: "('h option \<Rightarrow> 'h \<Rightarrow> ('h, 'w, js_value) v8_conv) \<Rightarrow> bool" where
  "fits_conv conv \<longleftrightarrow> (\<forall>rc v t x r t' x'. conv rc v (t, x) = (Inr r, (t', x')) \<longrightarrow> tracker_wf t
     \<longrightarrow> fits (v8_weight r) (js_depth r) t t')"

lemma fits_convD:
  "fits_conv conv \<Longrightarrow> conv rc v (t, x) = (Inr r, (t', x')) \<Longrightarrow> tracker_wf t \<Longrightarrow> fits (v8_weight r) (js_depth r) t t'"
  unfolding fits_conv_def by blast

lemma element_fits:
  assumes "tracker_wf t" "sbind (try_v8 msg get) (conv rc) (t, x) = (Inr y, (t', x'))" "fits_conv conv"
  shows "fits (v8_weight y) (js_depth y) t t'"
proof -
  from assms(2) obtain a w where "conv rc a (t, x\<lparr>v8_world := w\<rparr>) = (Inr y, (t', x'))"
    by (auto simp: sbind_Inr try_v8_Inr)
  from fits_convD [OF assms(3) this assms(1)] show ?thesis .
qed

lemma elements_fit:
  assumes "smap (\<lambda>i. sbind (try_v8 (msg i) (get i)) (conv rc)) [0..<n] (t, x) = (Inr items, (t', x'))"
    and "tracker_wf t" "fits_conv conv"
  shows "charges (sum_list (map v8_weight items)) t t'"
    "current_depth t + fold max (map js_depth items) 0 \<le> max_depth t"
proof -
  show "charges (sum_list (map v8_weight items)) t t'"
    by (rule smap_fits_any(1) [where h = js_depth, OF assms(1,2)]) (rule element_fits [OF _ _ assms(3)])
  show "current_depth t + fold max (map js_depth items) 0 \<le> max_depth t"
    by (rule smap_fits_any(2) [where w = v8_weight, OF assms(1,2)]) (rule element_fits [OF _ _ assms(3)])
qed

lemma property_fits:
  assumes "tracker_wf t" "property_to_js v8 conv value names i (t, x) = (Inr y, (t', x'))" "fits_conv conv"
  shows "fits ((\<lambda>(k, v). length k + v8_weight v) y) ((\<lambda>(k, v). js_depth v) y) t t'"
proof -
  from assms(2) obtain ks rc val j t1 x1 where c: "add_bytes (length ks) t = (Inr (), t1)"
    "conv rc val (t1, x1) = (Inr j, (t', x'))" and y: "y = (ks, j)"
    unfolding property_to_js_def by (auto simp: sbind_Inr sthen_Inr try_v8_Inr pay_Inr)
  have pre: "charges (length ks) t t1" using add_bytes_charges [OF assms(1) c(1)] .
  with assms(1) have "tracker_wf t1" using charges_wf by blast
  with c(2) have "fits (v8_weight j) (js_depth j) t1 t'" using fits_convD [OF assms(3)] by blast
  with pre y show ?thesis
    using charges_trans by (auto simp: fits_def charges_def meters_def)
qed

lemma array_body:
  assumes "array_to_js v8 conv v (t, x) = (Inr r, (t', x'))" "tracker_wf t" "fits_conv conv"
  shows "body_fits r t t'"
proof -
  from assms(1) obtain items t2 x2 x3 where
    it: "smap (\<lambda>i. sbind (try_v8 (''Failed to get array index '' @ show_nat i)
            (v8_get_index v8 v (word_of_nat i))) (conv None)) [0..<unat (v8_array_length v8 v (v8_world x))]
            (t, x2) = (Inr items, (t2, x3))"
    and r: "r = JArray items" "t' = exit_level t2"
    unfolding array_to_js_def by (auto simp: v8_steps)
  show ?thesis unfolding r
    by (rule body_fits_children [OF charges_0 [OF assms(2)] elements_fit [OF it assms(2,3)]]) simp_all
qed

lemma set_body:
  assumes "set_to_js v8 conv v (t, x) = (Inr r, (t', x'))" "tracker_wf t" "fits_conv conv"
  shows "body_fits r t t'"
proof -
  from assms(1) obtain n entries vals t2 t3 t4 x2 x3 where
    ch: "add_bytes 24 t = (Inr (), t2)" "add_bytes (usat_mul n 8) t2 = (Inr (), t3)"
    and it: "smap (\<lambda>i. sbind (try_v8 ''Failed to get Set entry''
            (v8_get_index v8 entries (word_of_nat i))) (conv None)) [0..<n] (t3, x2) = (Inr vals, (t4, x3))"
    and r: "r = JSet vals" "t' = exit_level t4"
    unfolding set_to_js_def by (auto simp: v8_steps)
  have pre: "charges (24 + n * 8) t t3"
    using charges_trans [OF add_bytes_charges [OF assms(2) ch(1)]
        add_bytes_mul [OF charges_wf [OF add_bytes_charges [OF assms(2) ch(1)] assms(2)] ch(2)]] .
  then have wf3: "tracker_wf t3" using assms(2) charges_wf by blast
  have len: "length vals = n" using smap_length [OF it] by simp
  show ?thesis unfolding r
    by (rule body_fits_children [OF pre elements_fit [OF it wf3 assms(3)]]) (simp_all add: len)
qed

lemma object_body:
  assumes "object_to_js v8 conv v (t, x) = (Inr r, (t', x'))" "tracker_wf t" "fits_conv conv"
  shows "body_fits r t t'"
proof -
  let ?w = "\<lambda>(k, v). length k + v8_weight v" and ?h = "\<lambda>(k :: string, v). js_depth v"
  from assms(1) obtain n names es t2 x2 x3 where
    it: "smap (property_to_js v8 conv v names) [0..<n] (t, x2) = (Inr es, (t2, x3))"
    and r: "r = JObject (im_from_entries es)" "t' = exit_level t2"
    unfolding object_to_js_def by (auto simp: v8_steps)
  have w: "charges (sum_list (map ?w es)) t t2"
    by (rule smap_fits_any(1) [where h = ?h, OF it assms(2)]) (rule property_fits [OF _ _ assms(3)])
  have h: "current_depth t + fold max (map ?h es) 0 \<le> max_depth t"
    by (rule smap_fits_any(2) [where w = ?w, OF it assms(2)]) (rule property_fits [OF _ _ assms(3)])
  have "fold max (map ?h (im_from_entries es)) 0 \<le> fold max (map ?h es) 0"
    unfolding fold_max_le using im_from_entries_bounds(3) [of es] by (force intro!: fold_max_ge)
  with h have h': "current_depth t + fold max (map ?h (im_from_entries es)) 0 \<le> max_depth t" by simp
  show ?thesis unfolding r
    by (rule body_fits_children [OF charges_0 [OF assms(2)] w h'])
      (use im_from_entries_bounds(1) [of ?w es] in simp_all)
qed

lemma object_kind_body:
  assumes "kind_to_js v8 conv rc v KObject (t, x) = (Inr r, (t', x'))" "tracker_wf t" "fits_conv conv"
  shows "body_fits r t t'"
proof -
  obtain rb tb x1 where st: "is_readable_stream v8 v (t, x) = (rb, (tb, x1))"
    by (cases "is_readable_stream v8 v (t, x)") auto
  from is_readable_stream_Inr [OF st] obtain b where "rb = Inr b" "tb = t" by blast
  with st assms(1) have "(if b then stream_to_js v else object_to_js v8 conv v) (t, x1) = (Inr r, (t', x'))"
    by (simp add: kind_to_js_def sbind_def)
  then show ?thesis
    using object_body [OF _ assms(2,3)] body_fits_leaf [OF _ assms(2)]
    by (fastforce simp: stream_to_js_def sbind_Inr register_js_stream_Inr split: if_splits)
qed

lemma kind_body:
  assumes "kind_to_js v8 conv rc v kind (t, x) = (Inr r, (t', x'))" "tracker_wf t" "fits_conv conv"
  shows "body_fits r t t'"
proof (cases "kind = KObject")
  case True
  with assms show ?thesis using object_kind_body by metis
next
  case False
  note leaf = body_fits_leaf [OF _ assms(2)]
  from False assms(1) show ?thesis
    by (cases kind)
      (auto simp: kind_to_js_def function_to_js_def sbind_Inr register_function_Inr try_v8_Inr
        sthen_Inr [of leave] number_weight
        intro: array_body [OF _ assms(2,3)] set_body [OF _ assms(2,3)] bigint_body [OF _ assms(2)]
          date_body [OF _ assms(2)] string_body [OF _ assms(2)]
        elim!: leaf)
qed

lemma v8_to_js_fits_conv: "fits_conv (v8_to_js v8 n)"
proof (induction n)
  case 0
  show ?case by (auto simp: fits_conv_def v8_steps)
next
  case (Suc n)
  show ?case unfolding fits_conv_def
  proof (intro allI impI)
    fix rc v t x r t' x'
    assume run: "v8_to_js v8 (Suc n) rc v (t, x) = (Inr r, (t', x'))" and wf: "tracker_wf t"
    then obtain t1 where en: "enter t = (Inr (), t1)"
      and b: "kind_to_js v8 (v8_to_js v8 n) rc v (v8_kind_of v8 v (v8_world x)) (t1, x) = (Inr r, (t', x'))"
      by (auto simp: v8_steps)
    show "fits (v8_weight r) (js_depth r) t t'"
      by (rule body_fits_level [OF wf en kind_body [OF b enter_wf [OF wf en] Suc.IH]])
  qed
qed

section \<open>Registered proxies\<close>

text \<open>The function and the stream ids that occur in a value.\<close>

fun js_functions :: "js_value \<Rightarrow> u32 set" where
  "js_functions (JArray vs) = \<Union> (set (map js_functions vs))"
| "js_functions (JSet vs) = \<Union> (set (map js_functions vs))"
| "js_functions (JObject m) = \<Union> (set (map (\<lambda>(k, v). js_functions v) m))"
| "js_functions (JFunction i) = {i}"
| "js_functions _ = {}"

fun js_stream_ids :: "js_value \<Rightarrow> u32 set" where
  "js_stream_ids (JArray vs) = \<Union> (set (map js_stream_ids vs))"
| "js_stream_ids (JSet vs) = \<Union> (set (map js_stream_ids vs))"
| "js_stream_ids (JObject m) = \<Union> (set (map (\<lambda>(k, v). js_stream_ids v) m))"
| "js_stream_ids (JJsStream i) = {i}"
| "js_stream_ids _ = {}"

definition live :: "('h, 'w) v8_state \<Rightarrow> js_value \<Rightarrow> bool" where
  "live c v \<longleftrightarrow> js_functions v \<subseteq> dom (v8_fns c) \<and> js_stream_ids v \<subseteq> dom (jsr_entries (v8_streams c))"

definition reg_grows :: "('h, 'w) v8_state \<Rightarrow> ('h, 'w) v8_state \<Rightarrow> bool" where
  "reg_grows c c' \<longleftrightarrow> dom (v8_fns c) \<subseteq> dom (v8_fns c')
     \<and> dom (jsr_entries (v8_streams c)) \<subseteq> dom (jsr_entries (v8_streams c'))"

lemma reg_grows_refl [simp]: "reg_grows c c"
  by (simp add: reg_grows_def)

lemma reg_grows_trans: "reg_grows a b \<Longrightarrow> reg_grows b c \<Longrightarrow> reg_grows a c"
  unfolding reg_grows_def by blast

lemma live_reg_grows: "live c v \<Longrightarrow> reg_grows c c' \<Longrightarrow> live c' v"
  unfolding live_def reg_grows_def by blast

text \<open>
  A triple: from a state in which the values \<open>A\<close> are live, whatever the outcome the registries only
  grow, and a result \<open>a\<close> is returned in a state in which the values \<open>F a\<close> are live.
\<close>

definition lives :: "('h, 'w) v8_state \<Rightarrow> js_value set \<Rightarrow> bool" where
  "lives c A \<longleftrightarrow> (\<forall>v \<in> A. live c v)"

definition triple :: "js_value set \<Rightarrow> ('h, 'w, 'a) v8_conv \<Rightarrow> ('a \<Rightarrow> js_value set) \<Rightarrow> bool" where
  "triple A m F \<longleftrightarrow> (\<forall>t x r t' x'. lives x A \<longrightarrow> m (t, x) = (r, (t', x')) \<longrightarrow>
     reg_grows x x' \<and> (\<forall>a. r = Inr a \<longrightarrow> lives x' (F a)))"

lemma tripleI:
  "(\<And>t x r t' x'. lives x A \<Longrightarrow> m (t, x) = (r, (t', x')) \<Longrightarrow> reg_grows x x' \<and> (\<forall>a. r = Inr a \<longrightarrow> lives x' (F a)))
    \<Longrightarrow> triple A m F"
  unfolding triple_def by blast

lemma tripleD:
  "triple A m F \<Longrightarrow> lives x A \<Longrightarrow> m (t, x) = (r, (t', x')) \<Longrightarrow> reg_grows x x' \<and> (\<forall>a. r = Inr a \<longrightarrow> lives x' (F a))"
  unfolding triple_def by blast

lemma triple_sbind:
  assumes "triple A m F" "\<And>a. triple (F a) (f a) G"
  shows "triple A (sbind m f) G"
proof (rule tripleI)
  fix t x r t' x'
  assume A: "lives x A" and run: "sbind m f (t, x) = (r, (t', x'))"
  obtain r1 t1 x1 where m: "m (t, x) = (r1, (t1, x1))" by (cases "m (t, x)") auto
  note g = tripleD [OF assms(1) A m]
  show "reg_grows x x' \<and> (\<forall>a. r = Inr a \<longrightarrow> lives x' (G a))"
  proof (cases r1)
    case (Inl e)
    with run m g show ?thesis by (auto simp: sbind_def)
  next
    case (Inr a)
    with run m have f: "f a (t1, x1) = (r, (t', x'))" by (simp add: sbind_def)
    from g Inr have "lives x1 (F a)" by simp
    from tripleD [OF assms(2) this f] g show ?thesis using reg_grows_trans by blast
  qed
qed

lemma triple_sthen: "triple A m (\<lambda>_. B) \<Longrightarrow> triple B k G \<Longrightarrow> triple A (sthen m k) G"
  unfolding sthen_def by (rule triple_sbind)

lemma triple_frame: "triple A m F \<Longrightarrow> triple (A \<union> B) m (\<lambda>a. F a \<union> B)"
  unfolding triple_def lives_def using live_reg_grows by blast

lemma triple_weaken: "triple A m F \<Longrightarrow> A \<subseteq> A' \<Longrightarrow> (\<And>a. F' a \<subseteq> F a) \<Longrightarrow> triple A' m F'"
  unfolding triple_def lives_def by blast

lemma triple_smap:
  assumes "\<And>x. triple {} (f x) G"
  shows "triple A (smap f xs) (\<lambda>ys. A \<union> \<Union> (G ` set ys))"
proof (induction xs arbitrary: A)
  case Nil
  show ?case by (auto intro: tripleI)
next
  case (Cons x xs)
  have 1: "triple A (f x) (\<lambda>y. G y \<union> A)" using triple_frame [OF assms, of A] by simp
  have 2: "triple (G y \<union> A) (sbind (smap f xs) (\<lambda>ys. sret (y # ys))) (\<lambda>ys. A \<union> \<Union> (G ` set ys))" for y
    by (rule triple_sbind [OF Cons.IH]) (rule tripleI, unfold lives_def, auto)
  show ?case using triple_sbind [OF 1 2] by simp
qed

text \<open>Steps that touch no registry.\<close>

definition quiet :: "('h, 'w, 'a) v8_conv \<Rightarrow> bool" where
  "quiet m \<longleftrightarrow> (\<forall>t x r t' x'. m (t, x) = (r, (t', x')) \<longrightarrow> v8_fns x' = v8_fns x \<and> v8_streams x' = v8_streams x)"

lemma triple_quiet: "quiet m \<Longrightarrow> triple A m (\<lambda>_. A)"
  unfolding quiet_def triple_def lives_def live_def reg_grows_def by force

lemma quiet_steps [simp]:
  "quiet (pay n)" "quiet enter_v8" "quiet (run_v8 f)" "quiet (look_v8 g)" "quiet (opt_or msg r)"
  "quiet (see h)" "quiet (unsee h)" "quiet leave" "quiet (sret a)" "quiet (sfail e)"
  by (auto simp: quiet_def pay_def enter_v8_def on_tracker_def run_v8_def look_v8_def opt_or_def see_def unsee_def
      split: prod.splits sum.splits option.splits if_splits)

lemma quiet_sbind [simp]:
  assumes "quiet m" "\<And>a. quiet (f a)"
  shows "quiet (sbind m f)"
  unfolding quiet_def
proof (intro allI impI)
  fix t x r t' x'
  assume run: "sbind m f (t, x) = (r, (t', x'))"
  obtain r1 t1 x1 where m: "m (t, x) = (r1, (t1, x1))" by (cases "m (t, x)") auto
  with assms(1) have q: "v8_fns x1 = v8_fns x \<and> v8_streams x1 = v8_streams x" unfolding quiet_def by blast
  show "v8_fns x' = v8_fns x \<and> v8_streams x' = v8_streams x"
  proof (cases r1)
    case (Inl e)
    with run m q show ?thesis by (auto simp: sbind_def)
  next
    case (Inr a)
    with run m have "f a (t1, x1) = (r, (t', x'))" by (simp add: sbind_def)
    with assms(2) have "v8_fns x' = v8_fns x1 \<and> v8_streams x' = v8_streams x1" unfolding quiet_def by blast
    with q show ?thesis by simp
  qed
qed

lemma quiet_sthen [simp]: "quiet m \<Longrightarrow> quiet k \<Longrightarrow> quiet (sthen m k)"
  by (simp add: sthen_def)

lemma quiet_try_v8 [simp]: "quiet (try_v8 msg f)"
  by (simp add: try_v8_def)

lemma quiet_is_readable_stream [simp]: "quiet (is_readable_stream v8 v)"
  by (auto simp: is_readable_stream_def intro!: quiet_sbind split: option.split)

text \<open>The last step of every branch.\<close>

lemma triple_done:
  assumes "\<And>c :: ('h, 'w) v8_state. lives c A \<Longrightarrow> live c a"
  shows "triple A (done_v8 a :: ('h, 'w, js_value) v8_conv) (\<lambda>j. {j})"
  using assms by (auto intro!: tripleI simp: done_v8_def sthen_def sbind_def leave_def sret_def lives_def)

lemma triple_leaf:
  "js_functions a = {} \<Longrightarrow> js_stream_ids a = {} \<Longrightarrow> triple A (sthen (pay n) (done_v8 a)) (\<lambda>j. {j})"
  by (rule triple_sthen [OF triple_quiet triple_done]) (simp_all add: live_def)

lemma triple_sfail: "triple A (sfail e) F"
  by (auto intro: tripleI)

lemma triple_string: "triple A (string_v8 s) (\<lambda>j. {j})"
  unfolding string_v8_def by (rule triple_leaf) simp_all

lemma triple_date: "triple A (date_to_js f) (\<lambda>j. {j})"
  unfolding date_to_js_def by (simp add: triple_leaf triple_sfail)

lemma triple_bigint: "triple A (bigint_to_js v8 v i) (\<lambda>j. {j})"
  unfolding bigint_to_js_def by (auto intro!: triple_leaf triple_sbind [OF triple_quiet])

lemma triple_function: "triple A (function_to_js rc v) (\<lambda>j. {j})"
  unfolding function_to_js_def
proof (rule triple_sbind)
  show "triple A (register_function v rc) (\<lambda>i. {JFunction i})"
    by (auto intro!: tripleI simp: register_function_Inr reg_grows_def lives_def live_def)
  show "triple {JFunction i} (sthen (pay 8) (done_v8 (JFunction i))) (\<lambda>j. {j})" for i
    by (rule triple_sthen [OF triple_quiet triple_done]) (simp_all add: lives_def)
qed

lemma triple_stream: "triple A (stream_to_js v) (\<lambda>j. {j})"
  unfolding stream_to_js_def
proof (rule triple_sbind)
  show "triple A (register_js_stream v) (\<lambda>i. {JJsStream i})"
    by (auto intro!: tripleI simp: register_js_stream_Inr register_stream_def Let_def reg_grows_def lives_def live_def)
  show "triple {JJsStream i} (sthen (pay 4) (done_v8 (JJsStream i))) (\<lambda>j. {j})" for i
    by (rule triple_sthen [OF triple_quiet triple_done]) (simp_all add: lives_def)
qed

lemma triple_elements:
  assumes "\<And>rc v. triple {} (conv rc v) (\<lambda>j. {j})"
  shows "triple A (smap (\<lambda>i. sbind (try_v8 (msg i) (get i)) (conv rc)) xs) (\<lambda>ys. set ys)"
proof -
  have "triple {} (sbind (try_v8 (msg i) (get i)) (conv rc)) (\<lambda>j. {j})" for i
    by (rule triple_sbind [OF triple_quiet assms]) simp
  from triple_smap [OF this] show ?thesis by (rule triple_weaken) auto
qed

lemma lives_container: "lives c (set vs) \<Longrightarrow> live c (JArray vs)" "lives c (set vs) \<Longrightarrow> live c (JSet vs)"
  by (auto simp: lives_def live_def)

lemma lives_object: "lives c (snd ` set es) \<Longrightarrow> live c (JObject (im_from_entries es))"
  using im_from_entries_bounds(3) [of es] by (fastforce simp: lives_def live_def)

lemma triple_array:
  assumes "\<And>rc v. triple {} (conv rc v) (\<lambda>j. {j})"
  shows "triple A (array_to_js v8 conv v) (\<lambda>j. {j})"
  unfolding array_to_js_def
  by (intro triple_sthen [OF triple_quiet] triple_sbind [OF triple_quiet] triple_sbind [OF triple_elements [OF assms]]
      triple_done lives_container quiet_steps)

lemma triple_set:
  assumes "\<And>rc v. triple {} (conv rc v) (\<lambda>j. {j})"
  shows "triple A (set_to_js v8 conv v) (\<lambda>j. {j})"
  unfolding set_to_js_def
  by (intro triple_sthen [OF triple_quiet] triple_sbind [OF triple_elements [OF assms]] triple_sbind [OF triple_quiet]
      triple_done lives_container quiet_steps)


lemma triple_object:
  assumes "\<And>rc v. triple {} (conv rc v) (\<lambda>j. {j})"
  shows "triple A (object_to_js v8 conv v) (\<lambda>j. {j})"
proof -
  have one: "triple {} (property_to_js v8 conv v names i) (\<lambda>p. {snd p})" for names i
    unfolding property_to_js_def
    by (intro triple_sbind [OF triple_quiet] triple_sthen [OF triple_quiet] triple_sbind [OF assms] quiet_try_v8
        quiet_steps) (auto intro!: tripleI)
  have all: "triple B (smap (property_to_js v8 conv v names) xs) (\<lambda>es. snd ` set es)" for B names xs
    using triple_smap [OF one] by (rule triple_weaken) auto
  show ?thesis unfolding object_to_js_def
    by (intro triple_sthen [OF triple_quiet] triple_sbind [OF all] triple_sbind [OF triple_quiet]
        triple_done lives_object quiet_steps quiet_try_v8)
qed

lemma triple_kind:
  assumes "\<And>rc v. triple {} (conv rc v) (\<lambda>j. {j})"
  shows "triple A (kind_to_js v8 conv rc v kind) (\<lambda>j. {j})"
proof (cases kind)
  case KObject
  then show ?thesis unfolding kind_to_js_def
    by (auto intro!: triple_sbind [OF triple_quiet] triple_stream triple_object [OF assms])
qed (simp_all add: kind_to_js_def triple_leaf triple_function triple_array [OF assms] triple_set [OF assms]
      triple_date triple_bigint triple_string number_to_js_def Let_def triple_sthen [OF triple_quiet triple_sfail]
      triple_sbind [OF triple_quiet triple_string])

lemma triple_v8_to_js: "triple A (v8_to_js v8 n rc v) (\<lambda>j. {j})"
proof (induction n arbitrary: A rc v)
  case 0
  show ?case by (auto intro: triple_sthen [OF triple_quiet triple_sfail])
next
  case (Suc n)
  show ?case
    by (auto intro!: triple_sthen [OF triple_quiet] triple_sbind [OF triple_quiet] triple_kind Suc.IH)
qed

section \<open>What a conversion registers\<close>

text \<open>The \<open>n\<close> ids from \<open>i\<close> on, as the counters hand them out.\<close>

definition ids_from :: "u32 \<Rightarrow> nat \<Rightarrow> u32 set" where
  "ids_from i n = (\<lambda>k. i + word_of_nat k) ` {..<n}"

lemma ids_from_0 [simp]: "ids_from i 0 = {}" "ids_from i (Suc 0) = {i}"
  by (simp_all add: ids_from_def lessThan_Suc)

lemma ids_from_add: "ids_from i (m + n) = ids_from i m \<union> ids_from (i + word_of_nat m) n"
proof
  show "ids_from i (m + n) \<subseteq> ids_from i m \<union> ids_from (i + word_of_nat m) n"
  proof
    fix j
    assume "j \<in> ids_from i (m + n)"
    then obtain k where k: "k < m + n" "j = i + word_of_nat k" by (auto simp: ids_from_def)
    show "j \<in> ids_from i m \<union> ids_from (i + word_of_nat m) n"
    proof (cases "k < m")
      case False
      then obtain l where "k = m + l" using le_iff_add by (metis not_less)
      with k show ?thesis by (auto simp: ids_from_def add.assoc)
    qed (use k in \<open>simp add: ids_from_def\<close>)
  qed
  show "ids_from i m \<union> ids_from (i + word_of_nat m) n \<subseteq> ids_from i (m + n)"
  proof -
    have "i + word_of_nat m + word_of_nat k \<in> ids_from i (m + n)" if "k < n" for k
      using that by (auto simp: ids_from_def add.assoc intro!: image_eqI [where x = "m + k"])
    then show ?thesis by (auto simp: ids_from_def)
  qed
qed

text \<open>A registry handed out \<open>n\<close> ids: they are taken now, and every other entry is as it was.\<close>

definition handed_out :: "nat \<Rightarrow> (u32 \<rightharpoonup> 'v) \<times> u32 \<Rightarrow> (u32 \<rightharpoonup> 'v) \<times> u32 \<Rightarrow> bool" where
  "handed_out n = (\<lambda>(m, i) (m', i'). i' = i + word_of_nat n \<and> dom m' = dom m \<union> ids_from i n
     \<and> (\<forall>j. j \<notin> ids_from i n \<longrightarrow> m' j = m j))"

lemma handed_out_0 [simp]: "handed_out 0 r r"
  by (simp add: handed_out_def case_prod_beta)

lemma handed_out_1: "handed_out (Suc 0) (m, i) (m(i \<mapsto> v), i + 1)"
  by (auto simp: handed_out_def)

lemma handed_out_add: "handed_out m a b \<Longrightarrow> handed_out n b c \<Longrightarrow> handed_out (m + n) a c"
  by (auto simp: handed_out_def ids_from_add case_prod_beta add.assoc)

definition fn_registry :: "('h, 'w) v8_state \<Rightarrow> (u32 \<rightharpoonup> 'h stored_function) \<times> u32" where
  "fn_registry c = (v8_fns c, v8_next_fn c)"

definition stream_registry :: "('h, 'w) v8_state \<Rightarrow> (u32 \<rightharpoonup> 'h js_stream_entry) \<times> u32" where
  "stream_registry c = (jsr_entries (v8_streams c), jsr_next_id (v8_streams c))"

text \<open>
  Every function costs eight bytes and every stream four, so the budget bounds what is registered; the
  one that bursts it has been registered already.
\<close>

definition paid :: "nat \<Rightarrow> bool \<Rightarrow> limit_tracker \<Rightarrow> limit_tracker \<Rightarrow> bool" where
  "paid b failed t t' \<longleftrightarrow> max_bytes t' = max_bytes t
     \<and> (max_bytes t < usize_max \<longrightarrow> current_bytes t \<le> max_bytes t \<longrightarrow>
          (if failed then current_bytes t + b \<le> max_bytes t + 8
           else current_bytes t + b \<le> current_bytes t' \<and> current_bytes t' \<le> max_bytes t))"

definition accounts :: "('h, 'w, 'a) v8_conv \<Rightarrow> bool" where
  "accounts m \<longleftrightarrow> (\<forall>t x r t' x'. m (t, x) = (r, (t', x')) \<longrightarrow>
     (\<exists>n k. handed_out n (fn_registry x) (fn_registry x') \<and> handed_out k (stream_registry x) (stream_registry x')
        \<and> paid (8 * n + 4 * k) (isl r) t t'))"

lemma accountsD: "accounts m \<Longrightarrow> m (t, x) = (r, (t', x')) \<Longrightarrow>
    \<exists>n k. handed_out n (fn_registry x) (fn_registry x') \<and> handed_out k (stream_registry x) (stream_registry x')
        \<and> paid (8 * n + 4 * k) (isl r) t t'"
  unfolding accounts_def by blast

lemma paid_add: "paid b False t t1 \<Longrightarrow> paid c failed t1 t' \<Longrightarrow> paid (b + c) failed t t'"
  by (cases failed) (auto simp: paid_def)

lemma accounts_sbind:
  assumes "accounts m" "\<And>a. accounts (f a)"
  shows "accounts (sbind m f)"
  unfolding accounts_def
proof (intro allI impI)
  fix t x r t' x'
  assume run: "sbind m f (t, x) = (r, (t', x'))"
  obtain r1 t1 x1 where m: "m (t, x) = (r1, (t1, x1))" by (cases "m (t, x)") auto
  obtain n k where 1: "handed_out n (fn_registry x) (fn_registry x1)" "handed_out k (stream_registry x) (stream_registry x1)"
    "paid (8 * n + 4 * k) (isl r1) t t1" using accountsD [OF assms(1) m] by blast
  show "\<exists>n k. handed_out n (fn_registry x) (fn_registry x') \<and> handed_out k (stream_registry x) (stream_registry x')
        \<and> paid (8 * n + 4 * k) (isl r) t t'"
  proof (cases r1)
    case (Inl e)
    with run m have "r = Inl e" "t' = t1" "x' = x1" by (simp_all add: sbind_def)
    with 1 Inl show ?thesis by auto
  next
    case (Inr a)
    with run m have f: "f a (t1, x1) = (r, (t', x'))" by (simp add: sbind_def)
    obtain n' k' where 2: "handed_out n' (fn_registry x1) (fn_registry x')"
      "handed_out k' (stream_registry x1) (stream_registry x')" "paid (8 * n' + 4 * k') (isl r) t1 t'"
      using accountsD [OF assms(2) f] by blast
    have "paid ((8 * n + 4 * k) + (8 * n' + 4 * k')) (isl r) t t'"
      using paid_add [OF _ 2(3)] 1(3) Inr by simp
    then have "paid (8 * (n + n') + 4 * (k + k')) (isl r) t t'" by (simp add: algebra_simps)
    with handed_out_add [OF 1(1) 2(1)] handed_out_add [OF 1(2) 2(2)] show ?thesis by blast
  qed
qed

lemma accounts_sthen: "accounts m \<Longrightarrow> accounts k \<Longrightarrow> accounts (sthen m k)"
  unfolding sthen_def by (rule accounts_sbind)

lemma accounts_quiet:
  assumes "\<And>t x r t' x'. m (t, x) = (r, (t', x')) \<Longrightarrow> fn_registry x' = fn_registry x \<and> stream_registry x' = stream_registry x
    \<and> paid 0 (isl r) t t'"
  shows "accounts m"
  unfolding accounts_def
proof (intro allI impI exI [of _ 0])
  fix t x r t' x'
  assume "m (t, x) = (r, (t', x'))"
  from assms [OF this] show "handed_out 0 (fn_registry x) (fn_registry x') \<and> handed_out 0 (stream_registry x) (stream_registry x')
      \<and> paid (8 * 0 + 4 * 0) (isl r) t t'" by simp
qed

lemma accounts_steps [simp]:
  "accounts (pay n)" "accounts enter_v8" "accounts (run_v8 f)" "accounts (look_v8 g)" "accounts (opt_or msg r)"
  "accounts (see h)" "accounts (unsee h)" "accounts leave" "accounts (sret a)" "accounts (sfail e)"
  by (rule accounts_quiet; auto simp: pay_def enter_v8_def run_v8_def look_v8_def opt_or_def see_def unsee_def
      fn_registry_def stream_registry_def paid_def on_tracker_def add_bytes_def enter_def Let_def usat_add_def
      exit_level_def split: prod.splits sum.splits option.splits if_splits)+

lemma accounts_smap: "(\<And>x. accounts (f x)) \<Longrightarrow> accounts (smap f xs)"
  by (induction xs) (auto intro!: accounts_sbind)

lemma accounts_done [simp]: "accounts (done_v8 a)"
  by (simp add: done_v8_def accounts_sthen)

lemma accounts_try [simp]: "accounts (try_v8 msg f)"
  by (simp add: try_v8_def accounts_sbind)

lemma accounts_is_readable_stream [simp]: "accounts (is_readable_stream v8 v)"
  by (auto simp: is_readable_stream_def intro!: accounts_sbind split: option.split)

lemma accounts_function [simp]: "accounts (function_to_js rc v)"
  unfolding accounts_def
proof (intro allI impI)
  fix t x r t' x'
  assume run: "function_to_js rc v (t, x) = (r, (t', x'))"
  have "handed_out 1 (fn_registry x) (fn_registry x') \<and> handed_out 0 (stream_registry x) (stream_registry x')
      \<and> paid (8 * 1 + 4 * 0) (isl r) t t'"
    using run handed_out_1 [of "v8_fns x" "v8_next_fn x" "\<lparr>sf_function = v, sf_receiver = rc\<rparr>"]
    by (auto simp: function_to_js_def register_function_def sbind_def sthen_def pay_def on_tracker_def add_bytes_def
        done_v8_def leave_def sret_def fn_registry_def stream_registry_def paid_def Let_def usat_add_def exit_level_def
        split: if_splits)
  then show "\<exists>n k. handed_out n (fn_registry x) (fn_registry x') \<and> handed_out k (stream_registry x) (stream_registry x')
      \<and> paid (8 * n + 4 * k) (isl r) t t'" by blast
qed

lemma accounts_stream [simp]: "accounts (stream_to_js v)"
  unfolding accounts_def
proof (intro allI impI)
  fix t x r t' x'
  assume run: "stream_to_js v (t, x) = (r, (t', x'))"
  have "handed_out 0 (fn_registry x) (fn_registry x') \<and> handed_out 1 (stream_registry x) (stream_registry x')
      \<and> paid (8 * 0 + 4 * 1) (isl r) t t'"
    using run handed_out_1 [of "jsr_entries (v8_streams x)" "jsr_next_id (v8_streams x)" "js_stream_entry_new v"]
    by (auto simp: stream_to_js_def register_js_stream_def register_stream_def sbind_def sthen_def pay_def on_tracker_def
        add_bytes_def done_v8_def leave_def sret_def fn_registry_def stream_registry_def paid_def Let_def usat_add_def
        exit_level_def split: if_splits)
  then show "\<exists>n k. handed_out n (fn_registry x) (fn_registry x') \<and> handed_out k (stream_registry x) (stream_registry x')
      \<and> paid (8 * n + 4 * k) (isl r) t t'" by blast
qed

lemma accounts_kind:
  assumes "\<And>rc v. accounts (conv rc v)"
  shows "accounts (kind_to_js v8 conv rc v kind)"
proof -
  have "accounts (property_to_js v8 conv v names i)" for names i
    unfolding property_to_js_def by (auto intro!: accounts_sbind accounts_sthen assms)
  then have "accounts (object_to_js v8 conv v)" "accounts (array_to_js v8 conv v)" "accounts (set_to_js v8 conv v)"
    unfolding object_to_js_def array_to_js_def set_to_js_def
    by (auto intro!: accounts_sbind accounts_sthen accounts_smap assms)
  then show ?thesis
    by (cases kind) (auto simp: kind_to_js_def bigint_to_js_def date_to_js_def string_v8_def intro!: accounts_sbind accounts_sthen)
qed

lemma accounts_v8_to_js: "accounts (v8_to_js v8 n rc v)"
  by (induction n arbitrary: rc v) (auto intro!: accounts_sbind accounts_sthen accounts_kind)

text \<open>A registry whose ids are all below its counter, and what is left of it when the counter moves on.\<close>

definition ids_fresh :: "(u32 \<rightharpoonup> 'v) \<times> u32 \<Rightarrow> bool" where
  "ids_fresh = (\<lambda>(m, i). dom m \<subseteq> {..<i})"

lemma handed_out_fresh:
  assumes "handed_out n (m, i) (m', i')" "ids_fresh (m, i)" "unat i + n < 2 ^ 32"
  shows "m \<subseteq>\<^sub>m m' \<and> ids_fresh (m', i') \<and> card (dom m') = card (dom m) + n"
proof -
  have val: "unat (i + word_of_nat k) = unat i + k" if "k \<le> n" for k
  proof -
    have "unat (word_of_nat k :: u32) = k" using that assms(3) by (simp add: unat_of_nat)
    then show ?thesis using that assms(3) by (simp add: unat_add_lem [THEN iffD1])
  qed
  have above: "i \<le> j" if "j \<in> ids_from i n" for j
    using that val by (auto simp: ids_from_def word_le_nat_alt)
  have "m j = m' j" if "j \<in> dom m" for j
  proof -
    have "j \<notin> ids_from i n" using above [of j] that assms(2) by (auto simp: ids_fresh_def)
    then show ?thesis using assms(1) by (simp add: handed_out_def)
  qed
  moreover have i': "i' = i + word_of_nat n" "dom m' = dom m \<union> ids_from i n"
    using assms(1) by (simp_all add: handed_out_def)
  have "j < i'" if "j \<in> dom m'" for j
  proof (cases "j \<in> dom m")
    case True
    then have "j < i" using assms(2) by (auto simp: ids_fresh_def)
    then show ?thesis using val [of n] by (simp add: i' word_less_nat_alt)
  next
    case False
    then have "j \<in> ids_from i n" using that i'(2) by blast
    then obtain k where "k < n" "j = i + word_of_nat k" by (auto simp: ids_from_def)
    then show ?thesis using val [of n] val [of k] by (simp add: i' word_less_nat_alt)
  qed
  then have "dom m' \<subseteq> {..<i'}" by auto
  moreover have "inj_on (\<lambda>k. i + word_of_nat k :: u32) {..<n}"
    by (rule inj_onI) (metis add_left_cancel less_imp_le_nat lessThan_iff val)
  then have "card (ids_from i n) = n" by (simp add: ids_from_def card_image)
  moreover have "dom m \<inter> ids_from i n = {}"
    using above assms(2) by (fastforce simp: ids_fresh_def)
  moreover have "finite (dom m)" by simp
  ultimately show ?thesis by (simp add: i' map_le_def ids_fresh_def card_Un_disjoint)
qed

section \<open>The fuel is enough\<close>

text \<open>
  Two computations that agree from every state whose tracker satisfies \<open>P\<close>, and computations that
  succeed only into such states.
\<close>

definition agree :: "(limit_tracker \<Rightarrow> bool) \<Rightarrow> ('h, 'w, 'a) v8_conv \<Rightarrow> ('h, 'w, 'a) v8_conv \<Rightarrow> bool" where
  "agree P f g \<longleftrightarrow> (\<forall>t x. P t \<longrightarrow> f (t, x) = g (t, x))"

definition stays :: "(limit_tracker \<Rightarrow> bool) \<Rightarrow> ('h, 'w, 'a) v8_conv \<Rightarrow> bool" where
  "stays P m \<longleftrightarrow> (\<forall>t x a t' x'. P t \<longrightarrow> m (t, x) = (Inr a, (t', x')) \<longrightarrow> P t')"

lemma agree_refl [simp]: "agree P f f"
  by (simp add: agree_def)

lemma staysD: "stays P m \<Longrightarrow> P t \<Longrightarrow> m (t, x) = (Inr a, (t', x')) \<Longrightarrow> P t'"
  unfolding stays_def by blast

lemma agree_sbind:
  assumes "agree P m m'" "stays P m'" "\<And>a. agree P (k a) (k' a)"
  shows "agree P (sbind m k) (sbind m' k')"
  unfolding agree_def
proof (intro allI impI)
  fix t x assume P: "P t"
  obtain r t1 x1 where m: "m' (t, x) = (r, (t1, x1))" by (cases "m' (t, x)") auto
  have eq: "m (t, x) = (r, (t1, x1))" using assms(1) P m unfolding agree_def by simp
  show "sbind m k (t, x) = sbind m' k' (t, x)"
  proof (cases r)
    case (Inr a)
    have "P t1" using staysD [OF assms(2) P m [unfolded Inr]] .
    then show ?thesis using assms(3) [of a] m eq Inr unfolding agree_def by (simp add: sbind_def)
  qed (simp add: sbind_def m eq)
qed

lemma agree_sthen: "agree P m m' \<Longrightarrow> stays P m' \<Longrightarrow> agree P k k' \<Longrightarrow> agree P (sthen m k) (sthen m' k')"
  unfolding sthen_def by (rule agree_sbind)

lemma sbind_pair_Inr: "sbind m k (t, x) = (Inr b, (t', x')) \<longleftrightarrow>
    (\<exists>a t1 x1. m (t, x) = (Inr a, (t1, x1)) \<and> k a (t1, x1) = (Inr b, (t', x')))"
  by (auto simp: sbind_Inr)

lemma stays_sbind: "stays P m \<Longrightarrow> (\<And>a. stays P (k a)) \<Longrightarrow> stays P (sbind m k)"
  unfolding stays_def sbind_pair_Inr by blast

lemma stays_sthen: "stays P m \<Longrightarrow> stays P k \<Longrightarrow> stays P (sthen m k)"
  unfolding sthen_def by (rule stays_sbind)

lemma stays_steps [simp]:
  "stays P (run_v8 f)" "stays P (look_v8 g)" "stays P (try_v8 msg h')" "stays P (see h)" "stays P (unsee h)" "stays P (sret a)"
  by (auto simp: stays_def v8_steps)

lemma at_level_wf: "at_level mx d t \<Longrightarrow> tracker_wf t"
  by (simp add: at_level_def)

lemma stays_pay [simp]: "stays (at_level mx d) (pay n)"
  unfolding stays_def pay_Inr using at_level_wf add_bytes_charges at_level_charges by blast

lemma stays_is_readable_stream [simp]: "stays P (is_readable_stream v8 v)"
  unfolding stays_def using is_readable_stream_Inr by metis

lemma stays_smap:
  assumes "\<And>x. stays P (f x)"
  shows "stays P (smap f xs)"
  by (induction xs) (auto intro!: stays_sbind assms)

lemma agree_smap:
  assumes "\<And>x. agree P (f x) (g x)" "\<And>x. stays P (g x)"
  shows "agree P (smap f xs) (smap g xs)"
  by (induction xs) (auto intro!: agree_sbind assms stays_smap)

lemma stays_conv: "stays (at_level mx d) (v8_to_js v8 n rc v)"
  unfolding stays_def
proof (intro allI impI)
  fix t x a t' x' assume l: "at_level mx d t" and run: "v8_to_js v8 n rc v (t, x) = (Inr a, (t', x'))"
  have "charges (v8_weight a) t t'"
    using fits_convD [OF v8_to_js_fits_conv run at_level_wf [OF l]] by (simp add: fits_def)
  then show "at_level mx d t'" using l by (rule at_level_charges)
qed

definition agree_conv :: "(limit_tracker \<Rightarrow> bool) \<Rightarrow> ('h option \<Rightarrow> 'h \<Rightarrow> ('h, 'w, js_value) v8_conv)
    \<Rightarrow> ('h option \<Rightarrow> 'h \<Rightarrow> ('h, 'w, js_value) v8_conv) \<Rightarrow> bool" where
  "agree_conv P f g \<longleftrightarrow> (\<forall>rc v. agree P (f rc v) (g rc v) \<and> stays P (g rc v))"

lemma agree_kind:
  assumes "agree_conv (at_level mx d) f g"
  shows "agree (at_level mx d) (kind_to_js v8 f rc v kind) (kind_to_js v8 g rc v kind)"
proof -
  note a = assms [unfolded agree_conv_def, rule_format, THEN conjunct1]
  note s = assms [unfolded agree_conv_def, rule_format, THEN conjunct2]
  have elem: "agree (at_level mx d) (sbind (try_v8 m h) (f rc)) (sbind (try_v8 m h) (g rc))"
    "stays (at_level mx d) (sbind (try_v8 m h) (g rc))" for m h rc
    by (auto intro!: agree_sbind stays_sbind a s)
  have p: "agree (at_level mx d) (property_to_js v8 f v names i) (property_to_js v8 g v names i)"
    "stays (at_level mx d) (property_to_js v8 g v names i)" for names i
    unfolding property_to_js_def by (auto intro!: agree_sbind agree_sthen stays_sbind stays_sthen a s)
  show ?thesis
  proof (cases kind)
    case KArray
    then show ?thesis
      by (auto simp: kind_to_js_def array_to_js_def intro!: agree_sthen agree_sbind agree_smap stays_smap elem)
  next
    case KSet
    then show ?thesis
      by (auto simp: kind_to_js_def set_to_js_def intro!: agree_sthen agree_sbind agree_smap stays_smap elem)
  next
    case KObject
    then show ?thesis
      by (auto simp: kind_to_js_def object_to_js_def intro!: agree_sthen agree_sbind agree_smap stays_smap p)
  qed (simp_all add: kind_to_js_def)
qed

lemma v8_to_js_fuel:
  assumes "tracker_wf t" "max_depth t - current_depth t < n" "n \<le> m"
  shows "v8_to_js v8 m rc v (t, x) = v8_to_js v8 n rc v (t, x)"
  using assms
proof (induction n arbitrary: m rc v t x)
  case 0
  then show ?case by simp
next
  case (Suc n)
  from Suc.prems(3) obtain k where m: "m = Suc k" "n \<le> k" by (cases m) auto
  show ?case unfolding m(1) v8_to_js.simps
  proof (rule sthen_cong_run, clarify)
    fix t1 x1 assume "enter_v8 (t, x) = (Inr (), (t1, x1))"
    then have e: "enter t = (Inr (), t1)" by (simp add: enter_v8_Inr)
    let ?P = "at_level (max_depth t1) (current_depth t1)"
    have t1: "?P t1" using enter_wf [OF Suc.prems(1) e] by (simp add: at_level_def)
    have lt: "max_depth t1 - current_depth t1 < n"
      using enter_Inr(1,2) [OF Suc.prems(1) e] Suc.prems(2) by auto
    have "agree_conv ?P (v8_to_js v8 k) (v8_to_js v8 n)"
      unfolding agree_conv_def agree_def
      by (auto intro!: Suc.IH m(2) stays_conv simp: at_level_def lt)
    then have "agree ?P (kind_to_js v8 (v8_to_js v8 k) rc v kd) (kind_to_js v8 (v8_to_js v8 n) rc v kd)" for kd
      by (rule agree_kind)
    then show "sbind (look_v8 (v8_kind_of v8 v)) (kind_to_js v8 (v8_to_js v8 k) rc v) (t1, x1)
        = sbind (look_v8 (v8_kind_of v8 v)) (kind_to_js v8 (v8_to_js v8 n) rc v) (t1, x1)"
      using t1 unfolding agree_def by (simp add: sbind_def look_v8_def)
  qed
qed

section \<open>The path is restored\<close>

text \<open>A conversion that succeeds leaves \<open>seen\<close> as it found it, so that a shared value is not a cycle.\<close>

definition restores :: "('h, 'w, 'a) v8_conv \<Rightarrow> bool" where
  "restores m \<longleftrightarrow> (\<forall>t x a t' x'. m (t, x) = (Inr a, (t', x')) \<longrightarrow> v8_seen x' = v8_seen x)"

lemma restoresD: "restores m \<Longrightarrow> m (t, x) = (Inr a, (t', x')) \<Longrightarrow> v8_seen x' = v8_seen x"
  unfolding restores_def by blast

lemma restores_sbind:
  assumes "restores m" "\<And>a. restores (k a)"
  shows "restores (sbind m k)"
  unfolding restores_def sbind_pair_Inr
  using restoresD [OF assms(1)] restoresD [OF assms(2)] by metis

lemma restores_sthen: "restores m \<Longrightarrow> restores k \<Longrightarrow> restores (sthen m k)"
  unfolding sthen_def by (rule restores_sbind)

lemma restores_steps [simp]:
  "restores (run_v8 f)" "restores (look_v8 g)" "restores (try_v8 msg h)" "restores (sret a)" "restores (sfail e)"
  "restores (pay n)" "restores enter_v8" "restores (done_v8 b)" "restores leave" "restores (register_function v rc)"
  "restores (register_js_stream v)" "restores (opt_or msg r)"
  by (auto simp: restores_def v8_steps)

lemma restores_is_readable_stream [simp]: "restores (is_readable_stream v8 v)"
  unfolding restores_def using is_readable_stream_Inr by fastforce

lemma restores_smap: "(\<And>x. restores (f x)) \<Longrightarrow> restores (smap f xs)"
  by (induction xs) (auto intro!: restores_sbind)

lemma restores_bracket:
  assumes "\<And>b. restores (done b)" "restores m"
  shows "restores (sthen (see h) (sbind m (\<lambda>a. sthen (unsee h) (done a))))"
  unfolding restores_def
proof (intro allI impI)
  fix t x a t' x'
  assume "sthen (see h) (sbind m (\<lambda>a. sthen (unsee h) (done a))) (t, x) = (Inr a, (t', x'))"
  then obtain b t2 x2 where h: "h \<notin> v8_seen x"
    and m: "m (t, x\<lparr>v8_seen := insert h (v8_seen x)\<rparr>) = (Inr b, (t2, x2))"
    and d: "done b (t2, x2\<lparr>v8_seen := v8_seen x2 - {h}\<rparr>) = (Inr a, (t', x'))"
    by (auto simp: v8_steps)
  from assms(2) m have "v8_seen x2 = insert h (v8_seen x)" unfolding restores_def by fastforce
  moreover from assms(1) d have "v8_seen x' = v8_seen x2 - {h}" unfolding restores_def by fastforce
  ultimately show "v8_seen x' = v8_seen x" using h by auto
qed

lemma restores_kind:
  assumes "\<And>rc v. restores (conv rc v)"
  shows "restores (kind_to_js v8 conv rc v kind)"
proof -
  have p: "restores (property_to_js v8 conv v names i)" for names i
    unfolding property_to_js_def by (auto intro!: restores_sbind restores_sthen assms)
  have o: "restores (object_to_js v8 conv v)"
  proof -
    have "object_to_js v8 conv v = sthen (see (v8_identity_hash v8 v))
      (sbind (sbind (try_v8 ''Failed to get property names'' (v8_own_property_names v8 v)) (\<lambda>names.
       sbind (look_v8 (v8_array_length v8 names)) (\<lambda>len. smap (property_to_js v8 conv v names) [0..<unat len])))
      (\<lambda>es. sthen (unsee (v8_identity_hash v8 v)) (done_v8 (JObject (im_from_entries es)))))"
      by (simp add: object_to_js_def sbind_assoc)
    then show ?thesis
      by simp (intro restores_bracket restores_sbind restores_smap restores_steps p)
  qed
  have a: "restores (array_to_js v8 conv v)"
  proof -
    have "array_to_js v8 conv v = sthen (see (v8_identity_hash v8 v))
      (sbind (sbind (look_v8 (v8_array_length v8 v)) (\<lambda>len. smap (\<lambda>i.
         sbind (try_v8 (''Failed to get array index '' @ show_nat i)
           (v8_get_index v8 v (word_of_nat i))) (conv None)) [0..<unat len]))
      (\<lambda>items. sthen (unsee (v8_identity_hash v8 v)) (done_v8 (JArray items))))"
      by (simp add: array_to_js_def sbind_assoc)
    then show ?thesis
      by simp (intro restores_bracket restores_sbind restores_smap restores_steps assms)
  qed
  have s: "restores (set_to_js v8 conv v)"
  proof -
    have "set_to_js v8 conv v = sthen (see (v8_identity_hash v8 v))
      (sbind (sbind (run_v8 (v8_set_as_array v8 v)) (\<lambda>entries. sbind (look_v8 (v8_array_length v8 entries)) (\<lambda>len.
         sthen (pay 24) (sthen (pay (usat_mul (unat len) 8)) (smap (\<lambda>i.
         sbind (try_v8 ''Failed to get Set entry'' (v8_get_index v8 entries (word_of_nat i)))
           (conv None)) [0..<unat len])))))
      (\<lambda>items. sthen (unsee (v8_identity_hash v8 v)) (done_v8 (JSet items))))"
      by (simp add: set_to_js_def sbind_assoc sthen_def)
    then show ?thesis
      by simp (intro restores_bracket restores_sbind restores_sthen restores_smap restores_steps assms)
  qed
  show ?thesis
    by (cases kind) (auto simp: kind_to_js_def a s o bigint_to_js_def date_to_js_def string_v8_def function_to_js_def
        stream_to_js_def intro!: restores_sbind restores_sthen)
qed

lemma restores_v8_to_js: "restores (v8_to_js v8 n rc v)"
  by (induction n arbitrary: rc v) (auto intro!: restores_sbind restores_sthen restores_kind)

section \<open>A small engine\<close>

text \<open>A heap of cells, to evaluate the converters on; handles 0 to 3 are the singletons.\<close>

datatype v8_cell = CPrim v8_kind | CArr "nat list" | CSet "nat list" | CObj "(string \<times> nat) list"

definition cell_at :: "nat \<Rightarrow> v8_cell list \<Rightarrow> v8_cell" where
  "cell_at h w = (if h < length w then w ! h else CPrim KUndefined)"

definition cell_kind :: "v8_cell \<Rightarrow> v8_kind" where
  "cell_kind c = (case c of CPrim k \<Rightarrow> k | CArr _ \<Rightarrow> KArray | CSet _ \<Rightarrow> KSet | CObj _ \<Rightarrow> KObject)"

definition cell_text :: "v8_cell \<Rightarrow> string option" where
  "cell_text c = (case c of CPrim (KString s) \<Rightarrow> Some s | _ \<Rightarrow> None)"

definition new_cell :: "v8_cell \<Rightarrow> v8_cell list \<Rightarrow> nat \<times> v8_cell list" where
  "new_cell c w = (length w, w @ [c])"

definition new_cell_opt :: "v8_cell \<Rightarrow> v8_cell list \<Rightarrow> nat option \<times> v8_cell list" where
  "new_cell_opt c w = (Some (length w), w @ [c])"

definition sample_heap :: "v8_cell list" where
  "sample_heap = [CPrim KUndefined, CPrim KNull, CPrim (KBoolean True), CPrim (KBoolean False),
     CPrim KFunction, CArr [0, 6, 6], CArr [1], CObj [(''f'', 4)], CArr [8]]"

definition cell_elems :: "v8_cell \<Rightarrow> nat list" where
  "cell_elems c = (case c of CArr xs \<Rightarrow> xs | CSet xs \<Rightarrow> xs | _ \<Rightarrow> [])"

definition names_of :: "nat \<Rightarrow> v8_cell list \<Rightarrow> nat option \<times> v8_cell list" where
  "names_of h w =
     (case cell_at h w of
        CObj es \<Rightarrow> (Some (length w + length es),
          w @ map (\<lambda>(k, v). CPrim (KString k)) es @ [CArr [length w..<length w + length es]])
      | _ \<Rightarrow> (None, w))"

definition sample_v8 :: "(nat, v8_cell list) v8_engine" where
  "sample_v8 = \<lparr>v8_to_object = Some, v8_get = (\<lambda>_ _ w. (None, w)), v8_is_function = (\<lambda>h. h = 4),
     v8_is_promise = (\<lambda>_. False), v8_call = (\<lambda>_ _ w. (None, w)),
     v8_kind_of = (\<lambda>h w. cell_kind (cell_at h w)),
     v8_identity_hash = int,
     v8_array_length = (\<lambda>h w. word_of_nat (length (cell_elems (cell_at h w)))),
     v8_get_index = (\<lambda>h i w. (Some (cell_elems (cell_at h w) ! unat i), w)),
     v8_set_as_array = (\<lambda>h. new_cell (CArr [])),
     v8_own_property_names = names_of,
     v8_get_key = (\<lambda>h k w. (case (cell_at h w, cell_text (cell_at k w)) of
        (CObj es, Some s) \<Rightarrow> map_of es s | _ \<Rightarrow> None, w)),
     v8_string_of = (\<lambda>h w. (cell_text (cell_at h w), w)),
     v8_global = 0,
     v8_instance_of = (\<lambda>_ _ w. (None, w)),
     v8_call1 = (\<lambda>_ _ _ w. (None, w)),
     v8_undefined = 0, v8_null = 1, v8_boolean = (\<lambda>b. if b then 2 else 3),
     v8_new_number = (\<lambda>f. new_cell (CPrim (KNumber f))),
     v8_new_bigint = (\<lambda>_ _ w. (None, w)),
     v8_new_string = (\<lambda>s. new_cell_opt (CPrim (KString s))),
     v8_new_uint8_array = (\<lambda>bs. new_cell_opt (CPrim (KUint8Array bs))),
     v8_new_array = (\<lambda>_. new_cell (CArr [])),
     v8_set_index = (\<lambda>a i v w. (Some True, w[a := CArr (cell_elems (cell_at a w) @ [v])])),
     v8_new_set = new_cell (CSet []),
     v8_set_add = (\<lambda>a v w. (Some a, w[a := CSet (cell_elems (cell_at a w) @ [v])])),
     v8_new_object = new_cell (CObj []),
     v8_set = (\<lambda>_ _ _ w. (None, w)),
     v8_new_date = (\<lambda>f. new_cell_opt (CPrim (KDate f))),
     big_to_bytes_le = (\<lambda>i. (i < 0, [])),
     big_parse_10 = (\<lambda>_. None)\<rparr>"

definition sample_v8_state :: "(nat, v8_cell list) v8_state" where
  "sample_v8_state = \<lparr>v8_seen = {}, v8_fns = Map.empty, v8_next_fn = 1,
     v8_streams = js_stream_registry_new, v8_world = sample_heap\<rparr>"

section \<open>Properties\<close>

text \<open>
  C14  Whatever the guest's getters, proxies and streams do while it is read, a value that
  \<open>value_to_js_value\<close> returns has cost at most the configured bytes and is nested at most as deep as
  configured.
\<close>

theorem v8_result_within_limits:
  assumes "value_to_js_value v8 limits value c = (Inr j, c')"
    and "lim_depth limits < usize_max" "lim_bytes limits < usize_max"
  shows "v8_weight j \<le> lim_bytes limits \<and> js_depth j \<le> lim_depth limits"
proof -
  let ?t = "tracker_new (lim_depth limits) (lim_bytes limits)"
  from assms(1) obtain t' where run:
    "v8_to_js v8 (Suc (lim_depth limits)) None value (?t, c\<lparr>v8_seen := {}\<rparr>) = (Inr j, (t', c'))"
    by (auto simp: value_to_js_value_def split: prod.splits)
  have "tracker_wf ?t" using assms(2,3) by (simp add: tracker_wf_def tracker_new_def)
  from fits_convD [OF v8_to_js_fits_conv run this] show ?thesis
    by (auto simp: fits_def charges_def meters_def tracker_new_def)
qed

lemmas v8_eval = value_to_js_value_def tracker_new_def sthen_def sbind_def enter_v8_def on_tracker_def enter_def
  look_v8_def kind_to_js_def function_to_js_def register_function_def pay_def add_bytes_def done_v8_def leave_def
  sret_def exit_level_def usat_add_def usize_max_def Let_def sample_v8_def sample_v8_state_def sample_heap_def
  cell_kind_def cell_at_def array_to_js_def see_def unsee_def try_v8_def run_v8_def opt_or_def cell_elems_def

lemma sample_array:
  "\<exists>c'. value_to_js_value sample_v8 \<lparr>lim_depth = 2, lim_bytes = 9\<rparr> 6 sample_v8_state = (Inr (JArray [JNull]), c')"
  by (simp add: v8_eval v8_to_js.simps(2) [where fuel = 2, simplified] v8_to_js.simps(2) [where fuel = 1, unfolded Suc_1])

lemma sample_function:
  "\<exists>c'. value_to_js_value sample_v8 \<lparr>lim_depth = 2, lim_bytes = 9\<rparr> 4 sample_v8_state = (Inr (JFunction 1), c')"
  by (simp add: v8_eval v8_to_js.simps(2) [where fuel = 2, simplified] v8_to_js.simps(2) [where fuel = 1, unfolded Suc_1])

theorem v8_result_within_limits_witness: "v8_weight (JArray [JNull]) \<le> 9 \<and> js_depth (JArray [JNull]) \<le> 2"
proof -
  from sample_array obtain c' where r: "value_to_js_value sample_v8 \<lparr>lim_depth = 2, lim_bytes = 9\<rparr> 6 sample_v8_state
      = (Inr (JArray [JNull]), c')" by blast
  from v8_result_within_limits [OF r] show ?thesis by (simp add: usize_max_def)
qed

text \<open>The counters last for one more conversion, whatever it registers.\<close>

definition ids_last :: "serialization_limits \<Rightarrow> ('h, 'w) v8_state \<Rightarrow> bool" where
  "ids_last limits c \<longleftrightarrow> lim_bytes limits < usize_max
     \<and> unat (v8_next_fn c) + lim_bytes limits div 8 + 1 < 2 ^ 32
     \<and> unat (jsr_next_id (v8_streams c)) + lim_bytes limits div 4 + 2 < 2 ^ 32"

text \<open>
  C13  Every function id and stream id in a value that crosses to the host is registered when the
  conversion returns, so no proxy dangles.  And as long as the 32-bit counters do not run out -- a
  conversion hands out at most one function id per eight bytes of its budget, one stream id per four,
  and the one that bursts it -- every registration made before is left as it was, success or error, and
  the ids handed out later are new again.
\<close>

theorem v8_proxies_registered:
  assumes "value_to_js_value v8 limits value c = (r, c')"
  shows "(\<forall>j. r = Inr j \<longrightarrow> js_functions j \<subseteq> dom (v8_fns c') \<and> js_stream_ids j \<subseteq> dom (jsr_entries (v8_streams c')))
    \<and> (ids_fresh (fn_registry c) \<and> ids_fresh (stream_registry c) \<and> ids_last limits c \<longrightarrow>
        v8_fns c \<subseteq>\<^sub>m v8_fns c' \<and> jsr_entries (v8_streams c) \<subseteq>\<^sub>m jsr_entries (v8_streams c')
        \<and> ids_fresh (fn_registry c') \<and> ids_fresh (stream_registry c'))"
proof -
  let ?t = "tracker_new (lim_depth limits) (lim_bytes limits)"
  from assms obtain t' where run: "v8_to_js v8 (Suc (lim_depth limits)) None value (?t, c\<lparr>v8_seen := {}\<rparr>) = (r, (t', c'))"
    by (auto simp: value_to_js_value_def split: prod.splits)
  obtain n k where nk: "handed_out n (fn_registry c) (fn_registry c')" "handed_out k (stream_registry c) (stream_registry c')"
    "paid (8 * n + 4 * k) (isl r) ?t t'"
    using accountsD [OF accounts_v8_to_js run] by (auto simp: fn_registry_def stream_registry_def)
  have "v8_fns c \<subseteq>\<^sub>m v8_fns c' \<and> jsr_entries (v8_streams c) \<subseteq>\<^sub>m jsr_entries (v8_streams c')
      \<and> ids_fresh (fn_registry c') \<and> ids_fresh (stream_registry c')"
    if fresh: "ids_fresh (fn_registry c)" "ids_fresh (stream_registry c)" and last: "ids_last limits c"
  proof -
    have "8 * n + 4 * k \<le> lim_bytes limits + 8"
      using nk(3) last by (auto simp: paid_def ids_last_def tracker_new_def split: if_splits)
    then have "n \<le> lim_bytes limits div 8 + 1" "k \<le> lim_bytes limits div 4 + 2" by linarith+
    then have "unat (v8_next_fn c) + n < 2 ^ 32" "unat (jsr_next_id (v8_streams c)) + k < 2 ^ 32"
      using last unfolding ids_last_def by linarith+
    with handed_out_fresh [OF nk(1) [unfolded fn_registry_def]] handed_out_fresh [OF nk(2) [unfolded stream_registry_def]] fresh
    show ?thesis unfolding fn_registry_def stream_registry_def by blast
  qed
  moreover have "lives (c\<lparr>v8_seen := {}\<rparr>) {}" by (simp add: lives_def)
  from tripleD [OF triple_v8_to_js this run]
  have "\<forall>j. r = Inr j \<longrightarrow> js_functions j \<subseteq> dom (v8_fns c') \<and> js_stream_ids j \<subseteq> dom (jsr_entries (v8_streams c'))"
    by (auto simp: lives_def live_def)
  ultimately show ?thesis by blast
qed

text \<open>The second conversion of the same function leaves the registration of the first as it is.\<close>

theorem v8_proxies_registered_witness:
  "\<exists>c1 c2. value_to_js_value sample_v8 \<lparr>lim_depth = 2, lim_bytes = 9\<rparr> 4 sample_v8_state = (Inr (JFunction 1), c1)
    \<and> value_to_js_value sample_v8 \<lparr>lim_depth = 2, lim_bytes = 9\<rparr> 4 c1 = (Inr (JFunction 2), c2)
    \<and> v8_fns c2 1 = Some \<lparr>sf_function = 4, sf_receiver = None\<rparr> \<and> {1, 2} \<subseteq> dom (v8_fns c2)"
proof -
  let ?l = "\<lparr>lim_depth = 2, lim_bytes = 9\<rparr>"
  obtain c1 where 1: "value_to_js_value sample_v8 ?l 4 sample_v8_state = (Inr (JFunction 1), c1)"
    "v8_fns c1 = [1 \<mapsto> \<lparr>sf_function = 4, sf_receiver = None\<rparr>]" "v8_next_fn c1 = 2" "v8_streams c1 = js_stream_registry_new"
    "v8_world c1 = sample_heap"
    by (simp add: v8_eval v8_to_js.simps(2) [where fuel = 2, simplified])
  obtain c2 where 2: "value_to_js_value sample_v8 ?l 4 c1 = (Inr (JFunction 2), c2)"
    using 1(3,5) by (simp add: v8_eval v8_to_js.simps(2) [where fuel = 2, simplified])
  have "ids_fresh (fn_registry c1)" "ids_fresh (stream_registry c1)" "ids_last ?l c1"
    by (simp_all add: ids_fresh_def fn_registry_def stream_registry_def ids_last_def 1(2-4) js_stream_registry_new_def usize_max_def)
  with v8_proxies_registered [OF 2] have "v8_fns c1 \<subseteq>\<^sub>m v8_fns c2" "2 \<in> dom (v8_fns c2)" by auto
  moreover have "v8_fns c2 1 = Some \<lparr>sf_function = 4, sf_receiver = None\<rparr>"
    using calculation(1) by (auto simp: 1(2) map_le_def split: if_splits)
  ultimately show ?thesis using 1(1) 2 by (intro exI [of _ c1] exI [of _ c2]) auto
qed

text \<open>
  C22  A container met again on its own path is refused, and a conversion that succeeds leaves the path
  as it found it, so a value that is merely shared is converted again.
\<close>

theorem v8_cycles_refused:
  assumes "v8_kind_of v8 value (v8_world c) = KArray \<or> v8_kind_of v8 value (v8_world c) = KSet"
  shows "(v8_identity_hash v8 value \<in> v8_seen c \<longrightarrow> (\<exists>e s. v8_to_js v8 n rcv value (t, c) = (Inl e, s)))
    \<and> (\<forall>j t' c'. v8_to_js v8 n rcv value (t, c) = (Inr j, (t', c')) \<longrightarrow> v8_seen c' = v8_seen c)"
proof (intro conjI impI allI)
  assume h: "v8_identity_hash v8 value \<in> v8_seen c"
  show "\<exists>e s. v8_to_js v8 n rcv value (t, c) = (Inl e, s)"
  proof -
    obtain r s where Pair: "v8_to_js v8 n rcv value (t, c) = (r, s)" by (rule prod.exhaust)
    have False if "r = Inr j" for j
      using Pair that h assms
      by (cases n; cases s) (auto simp: v8_steps kind_to_js_def array_to_js_def set_to_js_def)
    with Pair show ?thesis by (cases r) auto
  qed
next
  fix j t' c'
  assume "v8_to_js v8 n rcv value (t, c) = (Inr j, (t', c'))"
  then show "v8_seen c' = v8_seen c" by (rule restoresD [OF restores_v8_to_js])
qed

theorem v8_cycles_refused_witness:
  "(\<exists>e s. v8_to_js sample_v8 3 None 8 (tracker_new 3 9, sample_v8_state\<lparr>v8_seen := {8}\<rparr>) = (Inl e, s))"
  using v8_cycles_refused [of sample_v8 8 "sample_v8_state\<lparr>v8_seen := {8}\<rparr>"]
  by (simp add: sample_v8_def sample_v8_state_def sample_heap_def cell_kind_def cell_at_def)

text \<open>
  C23  The walk over a guest value ends: the depth limit bounds the recursion, and more levels of
  recursion than \<open>value_to_js_value\<close> allows for never change the outcome.
\<close>

theorem v8_fuel_enough:
  assumes "tracker_wf t" "Suc (max_depth t - current_depth t) \<le> n"
  shows "v8_to_js v8 n rcv value (t, c) = v8_to_js v8 (Suc (max_depth t - current_depth t)) rcv value (t, c)"
  by (rule v8_to_js_fuel [OF assms(1) lessI assms(2)])

theorem v8_fuel_enough_witness:
  "v8_to_js sample_v8 40 None 8 (tracker_new 5 100, sample_v8_state)
    = v8_to_js sample_v8 6 None 8 (tracker_new 5 100, sample_v8_state)"
proof -
  have t: "tracker_wf (tracker_new 5 100)" "Suc (max_depth (tracker_new 5 100) - current_depth (tracker_new 5 100)) = 6"
    by (simp_all add: tracker_wf_def tracker_new_def usize_max_def)
  show ?thesis by (rule v8_fuel_enough [OF t(1), unfolded t(2)]) simp
qed

lemma rat_fract_zero: "of_int \<lfloor>q\<rfloor> = q \<longleftrightarrow> (\<exists>i. q = of_int i)" for q :: rat
  by (metis floor_of_int)

text \<open>
  C24  No number changes its value on the way out of V8: it is passed on as it is, or as an integer
  that is the same number; and an integer below \<open>2 ^ 53\<close> that went in by \<open>js_value_to_v8\<close> comes back
  as that integer.
\<close>

theorem v8_numbers_exact:
  "(snd (number_to_js f) = JFloat f \<or> (\<exists>i. snd (number_to_js f) = JInt i \<and> in_i64 i \<and> f64_of_int i = f))
   \<and> (\<bar>i\<bar> < 2 ^ 53 \<longrightarrow> js_value_to_v8 v8 reg (JInt i) = ask (v8_new_number v8 (Fin (of_int i)))
        \<and> snd (number_to_js (Fin (of_int i))) = JInt i)"
proof (intro conjI impI)
  show "snd (number_to_js f) = JFloat f \<or> (\<exists>i. snd (number_to_js f) = JInt i \<and> in_i64 i \<and> f64_of_int i = f)"
    by (auto simp: number_to_js_def Let_def f64_as_i64_in_range)
next
  assume i: "\<bar>i\<bar> < 2 ^ 53"
  then show "js_value_to_v8 v8 reg (JInt i) = ask (v8_new_number v8 (Fin (of_int i)))"
    by (simp add: f64_of_int_small)
  have "f64_as_i64 (Fin (of_int i)) = i"
    using i by (auto simp: f64_as_i64_def trunc_rat_def clamp_int_def i64_min_def i64_max_def simp flip: of_int_minus)
  with i show "snd (number_to_js (Fin (of_int i))) = JInt i"
    by (simp add: number_to_js_def f64_of_int_small)
qed

theorem v8_numbers_exact_witness: "snd (number_to_js (Fin 7)) = JInt 7"
  using v8_numbers_exact [of NaN 7 sample_v8 Map.empty, THEN conjunct2] by simp

text \<open>The saturating cast: \<open>2 ^ 63\<close> becomes the integer \<open>2 ^ 63 - 1\<close>, which rounds back to it.\<close>

lemma number_2_63: "number_to_js (Fin (of_int (2 ^ 63))) = (20, JInt (2 ^ 63 - 1))"
proof -
  have "f64_of_int (2 ^ 63 - 1) = Fin (of_int (2 ^ 63))" by code_simp
  then show ?thesis
    by (simp add: number_to_js_def f64_as_i64_def trunc_rat_def clamp_int_def i64_min_def i64_max_def)
qed

text \<open>The words of a big integer spell the magnitude that its bytes spell.\<close>

fun le_value :: "nat \<Rightarrow> nat list \<Rightarrow> nat" where
  "le_value b [] = 0"
| "le_value b (x # xs) = x + b * le_value b xs"

lemma le_value_append: "le_value b (xs @ ys) = le_value b xs + b ^ length xs * le_value b ys"
  by (induction xs) (simp_all add: algebra_simps)

lemma le_value_zeros: "le_value b (replicate n 0) = 0"
  by (induction n) simp_all

lemma le_value_bound: "(\<forall>x \<in> set xs. x < b) \<Longrightarrow> le_value b xs < b ^ length xs"
proof (induction xs)
  case (Cons x xs)
  then have "x + b * le_value b xs < b + b * le_value b xs" "Suc (le_value b xs) \<le> b ^ length xs" by auto
  then have "x + b * le_value b xs < b * Suc (le_value b xs)" "b * Suc (le_value b xs) \<le> b * b ^ length xs"
    by (simp_all add: mult_le_mono2 del: mult_Suc_right) simp
  then show ?case by simp
qed simp

lemma le_word_value: "length bs \<le> 8 \<Longrightarrow> unat (le_word bs) = le_value 256 (map unat bs)"
proof (induction bs)
  case (Cons b bs)
  have byte: "unat c < 256" for c :: "8 word" using unsigned_less [of c] by simp
  have "le_value 256 (map unat (b # bs)) < 256 ^ length (map unat (b # bs))"
    by (rule le_value_bound) (auto simp: byte)
  also have "\<dots> \<le> 256 ^ 8" using Cons.prems by (intro power_increasing) simp_all
  finally have lt: "unat b + 256 * le_value 256 (map unat bs) < 2 ^ 64" by simp
  have b: "unat (ucast b :: u64) = unat b" by (simp add: unsigned_ucast_eq take_bit_nat_eq_self byte order_less_trans [OF byte])
  from Cons lt show ?case
    by (simp add: unat_word_ariths b)
qed simp

lemma bigint_words_value:
  "le_value (2 ^ 64) (map unat (bigint_words bs)) = le_value 256 (map unat bs)"
proof (induction bs rule: bigint_words.induct)
  case (1 bs)
  show ?case
  proof (cases "bs = []")
    case True
    then show ?thesis by (simp add: bigint_words.simps [of "[]"])
  next
    case False
    let ?c = "take 8 bs"
    have pad: "unat (le_word (?c @ replicate (8 - min (length bs) 8) 0)) = le_value 256 (map unat ?c)"
      by (subst le_word_value) (auto simp: le_value_append le_value_zeros)
    have tail: "256 ^ length ?c * le_value 256 (map unat (drop 8 bs)) = 2 ^ 64 * le_value 256 (map unat (drop 8 bs))"
      by (cases "length bs \<le> 8") simp_all
    have "le_value 256 (map unat bs) = le_value 256 (map unat (?c @ drop 8 bs))" by simp
    also have "\<dots> = le_value 256 (map unat ?c) + 2 ^ 64 * le_value 256 (map unat (drop 8 bs))"
      by (simp only: map_append le_value_append length_map tail)
    finally show ?thesis
      using 1 [OF False] False by (subst bigint_words.simps) (simp add: pad)
  qed
qed

end
