(* ===== verification/Peno_Loader.thy ===== *)
theory Peno_Loader
  imports Peno_Conversion
begin

text \<open>
  \<open>PythonModuleLoader\<close> (\<open>src/runtime/loader.rs\<close>): the static modules, the optional Python resolver
  and loader, and how an import specifier becomes a URL and a URL becomes source text.  The
  loader's own state is explicit; calling into Python threads a world \<open>'w\<close> and may fail.  What
  \<open>ModuleSpecifier::parse\<close> (the \<open>url\<close> crate) makes of a string is a parameter.
\<close>

section \<open>State\<close>

text \<open>\<open>Sync\<close> evaluation runs without task locals; a Python callable is an opaque handle \<open>'f\<close>.\<close>

record 'f module_loader =
  static_modules :: "string \<rightharpoonup> string"
  ml_resolver :: "'f option"
  ml_loader :: "'f option"
  ml_task_locals :: bool

definition module_loader_new :: "'f module_loader" where
  "module_loader_new = \<lparr>static_modules = Map.empty, ml_resolver = None, ml_loader = None, ml_task_locals = False\<rparr>"

definition set_resolver :: "'f \<Rightarrow> 'f module_loader \<Rightarrow> 'f module_loader" where
  "set_resolver f l = l\<lparr>ml_resolver := Some f\<rparr>"

definition set_loader :: "'f \<Rightarrow> 'f module_loader \<Rightarrow> 'f module_loader" where
  "set_loader f l = l\<lparr>ml_loader := Some f\<rparr>"

definition add_static_module :: "string \<Rightarrow> string \<Rightarrow> 'f module_loader \<Rightarrow> 'f module_loader" where
  "add_static_module name source l = l\<lparr>static_modules := (static_modules l)(name \<mapsto> source)\<rparr>"

definition set_task_locals :: "'f module_loader \<Rightarrow> 'f module_loader" where
  "set_task_locals l = l\<lparr>ml_task_locals := True\<rparr>"

definition clear_task_locals :: "'f module_loader \<Rightarrow> 'f module_loader" where
  "clear_task_locals l = l\<lparr>ml_task_locals := False\<rparr>"

abbreviation "STATIC_URL \<equiv> ''peno://static/''"
abbreviation "RUNTIME_URL \<equiv> ''peno://runtime/''"

definition resolve_static :: "'f module_loader \<Rightarrow> string \<Rightarrow> string option" where
  "resolve_static l specifier =
     (let bare = (case strip_prefix ''static:'' specifier of Some b \<Rightarrow> b | None \<Rightarrow> specifier)
      in if static_modules l bare \<noteq> None then Some (STATIC_URL @ bare) else None)"

text \<open>deno_core's \<open>RequestedModuleType\<close> and \<open>ModuleType\<close>, with the constructors the code names.\<close>

datatype requested_module_type = ReqNone | ReqJson | ReqText | ReqBytes | ReqOther string
datatype module_type = ModJavaScript | ModJson | ModText | ModBytes | ModOther string

fun module_type_from_request :: "requested_module_type \<Rightarrow> module_type" where
  "module_type_from_request ReqJson = ModJson"
| "module_type_from_request ReqText = ModText"
| "module_type_from_request ReqBytes = ModBytes"
| "module_type_from_request (ReqOther ty) = ModOther ty"
| "module_type_from_request ReqNone = ModJavaScript"

section \<open>Python and URLs\<close>

record ('f, 'w) loader_env =
  le_parse_url :: "string \<Rightarrow> string + string"
  le_call_resolver :: "'f \<Rightarrow> string \<Rightarrow> string \<Rightarrow> 'w \<Rightarrow> (py_exc + py_val) \<times> 'w"
  le_call_loader :: "'f \<Rightarrow> string \<Rightarrow> 'w \<Rightarrow> (py_exc + py_val) \<times> 'w"
  le_import_inspect :: "'w \<Rightarrow> (py_exc + unit) \<times> 'w"
  le_iscoroutine :: "py_val \<Rightarrow> 'w \<Rightarrow> (py_exc + py_val) \<times> 'w"
  le_into_future :: "py_val \<Rightarrow> 'w \<Rightarrow> (py_exc + nat) \<times> 'w"
  le_await :: "nat \<Rightarrow> 'w \<Rightarrow> (py_exc + py_val) \<times> 'w"
  le_close :: "py_val \<Rightarrow> 'w \<Rightarrow> 'w"
  le_exc_text :: "py_exc \<Rightarrow> string"
  le_extract_error :: "py_val \<Rightarrow> py_exc"

type_synonym ('w, 'a) loading = "('w, js_error_box, 'a) comp"

text \<open>\<open>?\<close> on a Python call, with \<open>map_err\<close> to the given class and message.\<close>

definition py_try :: "('f, 'w) loader_env \<Rightarrow> string \<Rightarrow> string \<Rightarrow> ('w \<Rightarrow> (py_exc + 'a) \<times> 'w) \<Rightarrow> ('w, 'a) loading" where
  "py_try env cls what f w =
     (case f w of (Inl e, w') \<Rightarrow> (Inl (JsErrorBox cls (what @ le_exc_text env e)), w') | (Inr a, w') \<Rightarrow> (Inr a, w'))"

definition extract_str :: "('f, 'w) loader_env \<Rightarrow> string \<Rightarrow> py_val \<Rightarrow> js_error_box + string" where
  "extract_str env what v =
     (case v of PStr s \<Rightarrow> Inr s
      | _ \<Rightarrow> Inl (JsErrorBox ''TypeError'' (what @ le_exc_text env (le_extract_error env v))))"

definition extract_flag :: "('f, 'w) loader_env \<Rightarrow> py_val \<Rightarrow> js_error_box + bool" where
  "extract_flag env v =
     (case v of PBool b \<Rightarrow> Inr b
      | _ \<Rightarrow> Inl (JsErrorBox ''Error'' (''Failed to extract boolean from iscoroutine check: ''
              @ le_exc_text env (le_extract_error env v))))"

definition parse_specifier :: "('f, 'w) loader_env \<Rightarrow> string \<Rightarrow> js_error_box + string" where
  "parse_specifier env s =
     (case le_parse_url env s of Inl e \<Rightarrow> Inl (JsErrorBox ''URIError'' e) | Inr u \<Rightarrow> Inr u)"

section \<open>Resolving\<close>

definition strip_runtime_base :: "string \<Rightarrow> string" where
  "strip_runtime_base specifier =
     (case strip_prefix RUNTIME_URL specifier of Some bare \<Rightarrow> bare | None \<Rightarrow> specifier)"

definition static_or_denied :: "('f, 'w) loader_env \<Rightarrow> 'f module_loader \<Rightarrow> string \<Rightarrow> string \<Rightarrow> js_error_box + string" where
  "static_or_denied env l actual reason =
     (case resolve_static l actual of
        Some u \<Rightarrow> parse_specifier env u
      | None \<Rightarrow> Inl (JsErrorBox ''Error'' (''Module resolution denied for '' @ actual @ ''. '' @ reason)))"

definition resolve :: "('f, 'w) loader_env \<Rightarrow> 'f module_loader \<Rightarrow> string \<Rightarrow> string \<Rightarrow> ('w, string) loading" where
  "resolve env l specifier referrer =
     (let actual = strip_runtime_base specifier
      in case ml_resolver l of
           Some f \<Rightarrow>
             sbind (py_try env ''Error'' (''Module resolution failed for '' @ actual @ '': '')
               (le_call_resolver env f actual referrer)) (\<lambda>result.
             if result = PNone
             then slift (static_or_denied env l actual ''Resolver returned None and no static module was found.'')
             else
               sbind (slift (extract_str env ''Module resolver must return a string or None: '' result)) (\<lambda>resolved.
               if resolved = []
               then slift (static_or_denied env l actual
                      ''Resolver returned empty string and no static module was found.'')
               else slift (parse_specifier env resolved)))
         | None \<Rightarrow> slift (static_or_denied env l actual ''Did you call add_static_module()?''))"

section \<open>Loading\<close>

record module_source =
  ms_type :: module_type
  ms_code :: string
  ms_url :: string

definition module_source_new :: "module_type \<Rightarrow> string \<Rightarrow> string \<Rightarrow> module_source" where
  "module_source_new ty code url = \<lparr>ms_type = ty, ms_code = code, ms_url = url\<rparr>"

text \<open>Call the loader and ask \<open>inspect.iscoroutine\<close> about what it returned.\<close>

definition call_loader :: "('f, 'w) loader_env \<Rightarrow> 'f \<Rightarrow> string \<Rightarrow> ('w, py_val \<times> bool) loading" where
  "call_loader env f specifier =
     sbind (py_try env ''Error'' ''Failed to call module loader: '' (le_call_loader env f specifier)) (\<lambda>result.
     sthen (py_try env ''Error'' ''Failed to import inspect module: '' (le_import_inspect env))
    (sbind (py_try env ''Error'' ''Failed to check if result is coroutine: '' (le_iscoroutine env result)) (\<lambda>flag.
     sbind (slift (extract_flag env flag)) (\<lambda>is_coroutine.
     sret (result, is_coroutine)))))"

definition load_async :: "('f, 'w) loader_env \<Rightarrow> 'f \<Rightarrow> string \<Rightarrow> ('w, py_val) loading" where
  "load_async env f specifier =
     sbind (call_loader env f specifier) (\<lambda>(result, is_coroutine).
     if is_coroutine
     then sbind (py_try env ''Error'' ''Failed to create async future: '' (le_into_future env result)) (\<lambda>fut.
          py_try env ''Error'' ''Module loader failed: '' (le_await env fut))
     else sret result)"

definition ASYNC_LOADER_IN_SYNC :: string where
  "ASYNC_LOADER_IN_SYNC = ''An async module loader cannot be used with a synchronous evaluation (eval_module). ''
     @ ''Use eval_module_async() instead.''"

definition load_sync :: "('f, 'w) loader_env \<Rightarrow> 'f \<Rightarrow> string \<Rightarrow> ('w, py_val) loading" where
  "load_sync env f specifier =
     sbind (call_loader env f specifier) (\<lambda>(result, is_coroutine) w.
     if is_coroutine then (Inl (JsErrorBox ''TypeError'' ASYNC_LOADER_IN_SYNC), le_close env result w)
     else (Inr result, w))"

definition load :: "('f, 'w) loader_env \<Rightarrow> 'f module_loader \<Rightarrow> string \<Rightarrow> requested_module_type
    \<Rightarrow> ('w, module_source) loading" where
  "load env l specifier requested =
     (let ty = module_type_from_request requested;
          static = (case strip_prefix STATIC_URL specifier of Some name \<Rightarrow> static_modules l name | None \<Rightarrow> None)
      in case static of
           Some source \<Rightarrow> sret (module_source_new ty source specifier)
         | None \<Rightarrow>
             (case ml_loader l of
                Some f \<Rightarrow>
                  sbind (if ml_task_locals l then load_async env f specifier else load_sync env f specifier) (\<lambda>obj.
                  sbind (slift (extract_str env ''Module loader must return a string: '' obj)) (\<lambda>source.
                  sret (module_source_new ty source specifier)))
              | None \<Rightarrow>
                  sfail (JsErrorBox ''Error'' (''Module loading denied for '' @ specifier
                    @ ''. Did you call set_module_loader()?''))))"

section \<open>Laws\<close>

text \<open>The specifiers that name the static module \<open>name\<close>.\<close>

definition names_static :: "string \<Rightarrow> string \<Rightarrow> bool" where
  "names_static specifier name \<longleftrightarrow>
     (case strip_prefix ''static:'' (strip_runtime_base specifier) of
        Some b \<Rightarrow> name = b | None \<Rightarrow> name = strip_runtime_base specifier)"

lemma resolve_static_Some:
  "resolve_static l (strip_runtime_base specifier) = Some u \<longleftrightarrow>
     (\<exists>name. names_static specifier name \<and> static_modules l name \<noteq> None \<and> u = STATIC_URL @ name)"
  by (auto simp: resolve_static_def names_static_def Let_def split: option.split)

lemma static_or_denied_Inr:
  "static_or_denied env l (strip_runtime_base specifier) why = Inr u \<Longrightarrow>
     \<exists>name. names_static specifier name \<and> static_modules l name \<noteq> None \<and> le_parse_url env (STATIC_URL @ name) = Inr u"
  by (auto simp: static_or_denied_def parse_specifier_def resolve_static_Some split: option.splits sum.splits)

lemma static_or_denied_no_world: "slift (static_or_denied env l actual why) w = (r, w') \<Longrightarrow> w' = w"
  by simp

section \<open>Properties\<close>

text \<open>A resolver that declines a specifier, by returning \<open>None\<close> or an empty string.\<close>

definition declines :: "('f, 'w) loader_env \<Rightarrow> 'f module_loader \<Rightarrow> string \<Rightarrow> string \<Rightarrow> 'w \<Rightarrow> bool" where
  "declines env l specifier referrer w \<longleftrightarrow>
     (case ml_resolver l of
        None \<Rightarrow> True
      | Some f \<Rightarrow> fst (le_call_resolver env f (strip_runtime_base specifier) referrer w) \<in> {Inr PNone, Inr (PStr [])})"

lemma resolve_declined:
  assumes "declines env l specifier referrer w"
  shows "\<exists>why. fst (resolve env l specifier referrer w) = static_or_denied env l (strip_runtime_base specifier) why"
proof (cases "ml_resolver l")
  case None
  then show ?thesis by (auto simp: resolve_def Let_def slift_def)
next
  case (Some f)
  obtain r w' where c: "le_call_resolver env f (strip_runtime_base specifier) referrer w = (r, w')" by fastforce
  with Some assms have "r = Inr PNone \<or> r = Inr (PStr [])" by (simp add: declines_def)
  with Some c show ?thesis
    by (auto simp: resolve_def Let_def py_try_def sbind_def slift_def extract_str_def)
qed

text \<open>
  C39  Without a resolver no Python runs in resolving, whether it succeeds or is denied, and nothing but a
  registered static module resolves; without a loader no Python runs in loading, whether it succeeds or
  is denied, and nothing but a registered static module loads.
\<close>

theorem modules_denied_by_default:
  "(ml_resolver l = None \<longrightarrow>
      snd (resolve env l specifier referrer w) = w
      \<and> (\<forall>u. fst (resolve env l specifier referrer w) = Inr u \<longrightarrow>
           (\<exists>name. names_static specifier name \<and> static_modules l name \<noteq> None \<and> le_parse_url env (STATIC_URL @ name) = Inr u)))
   \<and> (ml_loader l = None \<longrightarrow>
      snd (load env l url req w) = w
      \<and> (\<forall>m. fst (load env l url req w) = Inr m \<longrightarrow>
           (\<exists>name. url = STATIC_URL @ name \<and> static_modules l name = Some (ms_code m))))"
proof (intro conjI impI allI)
  assume "ml_resolver l = None"
  then have r: "resolve env l specifier referrer w
      = (static_or_denied env l (strip_runtime_base specifier) ''Did you call add_static_module()?'', w)"
    by (simp add: resolve_def Let_def slift_def)
  then show "snd (resolve env l specifier referrer w) = w" by simp
  show "\<exists>name. names_static specifier name \<and> static_modules l name \<noteq> None \<and> le_parse_url env (STATIC_URL @ name) = Inr u"
    if "fst (resolve env l specifier referrer w) = Inr u" for u
    using that static_or_denied_Inr by (simp add: r) blast
next
  assume "ml_loader l = None"
  then show "snd (load env l url req w) = w"
    by (simp add: load_def Let_def slift_def sret_def sfail_def split: option.split)
  show "\<exists>name. url = STATIC_URL @ name \<and> static_modules l name = Some (ms_code m)"
    if "fst (load env l url req w) = Inr m" for m
    using that \<open>ml_loader l = None\<close>
    by (auto simp: load_def Let_def strip_prefix_Some module_source_new_def sret_def sfail_def slift_def split: option.splits)
qed

definition sample_loader_env :: "(nat, nat) loader_env" where
  "sample_loader_env = \<lparr>le_parse_url = Inr, le_call_resolver = (\<lambda>_ _ _ w. (Inr PNone, Suc w)),
     le_call_loader = (\<lambda>_ _ w. (Inr (PStr ''code''), Suc w)), le_import_inspect = (\<lambda>w. (Inr (), w)),
     le_iscoroutine = (\<lambda>_ w. (Inr (PBool True), w)), le_into_future = (\<lambda>_ w. (Inr 0, w)),
     le_await = (\<lambda>_ w. (Inr (PStr ''awaited''), w)), le_close = (\<lambda>_ w. w + 100), le_exc_text = (\<lambda>_. []),
     le_extract_error = (\<lambda>_. PyRuntimeError [])\<rparr>"

text \<open>One static module: it resolves and loads, and another name and another URL are denied.\<close>

theorem modules_denied_by_default_witness:
  "let l = add_static_module ''a'' ''x'' (module_loader_new :: nat module_loader)
   in fst (resolve sample_loader_env l ''a'' ''main'' 0) = Inr (STATIC_URL @ ''a'')
    \<and> static_modules l ''a'' \<noteq> None \<and> isl (fst (resolve sample_loader_env l ''b'' ''main'' 0))
    \<and> snd (resolve sample_loader_env l ''b'' ''main'' 0) = 0
    \<and> (\<exists>m. fst (load sample_loader_env l (STATIC_URL @ ''a'') ReqNone 0) = Inr m \<and> ms_code m = ''x'')
    \<and> isl (fst (load sample_loader_env l ''app:b'' ReqNone 0)) \<and> snd (load sample_loader_env l ''app:b'' ReqNone 0) = 0"
proof -
  let ?l = "add_static_module ''a'' ''x'' (module_loader_new :: nat module_loader)"
  have none: "ml_resolver ?l = None" "ml_loader ?l = None"
    by (simp_all add: add_static_module_def module_loader_new_def)
  have ok: "fst (resolve sample_loader_env ?l ''a'' ''main'' 0) = Inr (STATIC_URL @ ''a'')"
    "\<exists>m. fst (load sample_loader_env ?l (STATIC_URL @ ''a'') ReqNone 0) = Inr m \<and> ms_code m = ''x''"
    by (simp_all add: add_static_module_def module_loader_new_def load_def resolve_def module_source_new_def sret_def Let_def
        strip_runtime_base_def static_or_denied_def resolve_static_def parse_specifier_def sample_loader_env_def slift_def)
  have den: "isl (fst (resolve sample_loader_env ?l ''b'' ''main'' 0))" "isl (fst (load sample_loader_env ?l ''app:b'' ReqNone 0))"
    by (simp_all add: add_static_module_def module_loader_new_def load_def resolve_def module_source_new_def sret_def Let_def
        strip_runtime_base_def static_or_denied_def resolve_static_def parse_specifier_def sample_loader_env_def slift_def
        sfail_def)
  from modules_denied_by_default [where l = ?l and env = sample_loader_env and specifier = "''b''" and referrer = "''main''"
      and w = 0 and url = "''app:b''" and req = ReqNone] none
  have same: "snd (resolve sample_loader_env ?l ''b'' ''main'' 0) = 0" "snd (load sample_loader_env ?l ''app:b'' ReqNone 0) = 0"
    by blast+
  have "static_modules ?l ''a'' \<noteq> None" by (simp add: add_static_module_def)
  with ok den same show ?thesis unfolding Let_def by blast
qed

text \<open>
  C26  A static module is found again: however it is spelled (bare, \<open>static:\<close>, or relative to
  \<open>peno://runtime/\<close>), with no resolver or with one that declines, it resolves to its URL, and that URL
  loads the source that was registered last, before any Python loader is asked.
\<close>

theorem static_module_round_trip:
  assumes "names_static specifier name"
    and "declines env (add_static_module name source l) specifier referrer w"
    and url: "le_parse_url env (STATIC_URL @ name) = Inr (STATIC_URL @ name)"
  shows "fst (resolve env (add_static_module name source l) specifier referrer w) = Inr (STATIC_URL @ name)
    \<and> load env (add_static_module name source l) (STATIC_URL @ name) req w'
        = (Inr (module_source_new (module_type_from_request req) source (STATIC_URL @ name)), w')"
proof -
  let ?l = "add_static_module name source l"
  have "resolve_static ?l (strip_runtime_base specifier) = Some (STATIC_URL @ name)"
    using assms(1) by (simp add: resolve_static_Some add_static_module_def)
  then have "static_or_denied env ?l (strip_runtime_base specifier) why = Inr (STATIC_URL @ name)" for why
    using url by (simp add: static_or_denied_def parse_specifier_def)
  moreover obtain why where "fst (resolve env ?l specifier referrer w)
      = static_or_denied env ?l (strip_runtime_base specifier) why"
    using resolve_declined [OF assms(2)] by blast
  ultimately show ?thesis
    by (simp add: load_def Let_def add_static_module_def sret_def)
qed

theorem static_module_round_trip_witness:
  "fst (resolve sample_loader_env (add_static_module ''m'' ''export 1'' (set_resolver 0 module_loader_new))
     ''peno://runtime/static:m'' ''main'' 0) = Inr ''peno://static/m''"
  using static_module_round_trip [of "''peno://runtime/static:m''" "''m''" sample_loader_env "''export 1''"
      "set_resolver 0 module_loader_new" "''main''" 0 ReqNone 0]
  by (simp add: names_static_def strip_runtime_base_def declines_def add_static_module_def set_resolver_def
      module_loader_new_def sample_loader_env_def)

text \<open>
  C27  A synchronous evaluation has no task locals: when its module loader returns a coroutine, the load
  fails with a \<open>TypeError\<close> and the coroutine is closed, never awaited.
\<close>

theorem async_loader_refused_in_sync:
  assumes "ml_loader l = Some f" "\<not> ml_task_locals l" "strip_prefix STATIC_URL url = None"
    and "call_loader env f url w = (Inr (coro, True), w')"
  shows "load env l url req w = (Inl (JsErrorBox ''TypeError'' ASYNC_LOADER_IN_SYNC), le_close env coro w')"
  using assms by (simp add: load_def Let_def load_sync_def sbind_def)

theorem async_loader_refused_in_sync_witness:
  "snd (load sample_loader_env (set_loader 0 (clear_task_locals module_loader_new)) ''app:a'' ReqNone 0) = 101"
proof -
  let ?l = "set_loader 0 (clear_task_locals module_loader_new)"
  have "call_loader sample_loader_env 0 ''app:a'' 0 = (Inr (PStr ''code'', True), 1)"
    by (simp add: call_loader_def sbind_def sthen_def py_try_def extract_flag_def slift_def sret_def sample_loader_env_def)
  from async_loader_refused_in_sync [OF _ _ _ this, of ?l ReqNone] show ?thesis
    by (simp add: set_loader_def clear_task_locals_def module_loader_new_def sample_loader_env_def)
qed

end
