(* ===== verification/Peno_Pool.thy ===== *)
theory Peno_Pool
  imports Peno_Conversion
begin

text \<open>
  \<open>IsolatePool\<close> (\<open>src/runtime/pool.rs\<close>) and its Python face (\<open>src/runtime/python/pool.rs\<close>): worker
  threads that own one isolate each and obey a channel of commands, the idle queue, and the
  checkouts.  A channel is the sequence of everything ever sent with a cursor for what the worker
  has taken, so that the order of delivery is part of the state.  V8 is the record \<open>isolate_ops\<close>.
\<close>

section \<open>Evaluation in a fresh context\<close>

record ('i, 'c, 'v) isolate_ops =
  io_new :: 'i
  io_context_new :: "'i \<Rightarrow> 'c \<times> 'i"
  io_string_new :: "'c \<Rightarrow> string \<Rightarrow> 'i \<Rightarrow> 'v option \<times> 'i"
  io_compile :: "'c \<Rightarrow> 'v \<Rightarrow> 'i \<Rightarrow> 'v option \<times> 'i"
  io_run :: "'c \<Rightarrow> 'v \<Rightarrow> 'i \<Rightarrow> 'v option \<times> 'i"
  io_from_v8 :: "'c \<Rightarrow> 'v \<Rightarrow> 'i \<Rightarrow> (string + js_value) \<times> 'i"
  io_message :: "'c \<Rightarrow> 'i \<Rightarrow> string option"
  io_exception :: "'c \<Rightarrow> 'i \<Rightarrow> string option"
  io_checkpoint :: "'c \<Rightarrow> 'i \<Rightarrow> 'i"
  io_low_memory :: "'i \<Rightarrow> 'i"

definition script_failure :: "('i, 'c, 'v) isolate_ops \<Rightarrow> 'c \<Rightarrow> 'i \<Rightarrow> runtime_error" where
  "script_failure io c i =
     Internal (case io_message io c i of Some m \<Rightarrow> m
       | None \<Rightarrow> (case io_exception io c i of Some e \<Rightarrow> e | None \<Rightarrow> ''Unknown JavaScript error''))"

definition eval_in_fresh_context ::
  "('i, 'c, 'v) isolate_ops \<Rightarrow> string \<Rightarrow> ('i, runtime_error, js_value) comp" where
  "eval_in_fresh_context io code i =
     (case io_context_new io i of (c, i1) \<Rightarrow>
     (case io_string_new io c code i1 of
        (None, i2) \<Rightarrow> (Inl (Internal ''Failed to allocate source string''), i2)
      | (Some source, i2) \<Rightarrow>
          (case (case io_compile io c source i2 of
                   (None, i3) \<Rightarrow> (None, i3) | (Some script, i3) \<Rightarrow> io_run io c script i3) of
             (None, i4) \<Rightarrow> (Inl (script_failure io c i4), i4)
           | (Some value, i4) \<Rightarrow>
               (case io_from_v8 io c value i4 of
                  (Inl err, i5) \<Rightarrow>
                    (Inl (Internal (''Result could not be converted (pooled eval only supports JSON-safe values): ''
                       @ err)), i5)
                | (Inr j, i5) \<Rightarrow> (Inr j, io_checkpoint io c i5)))))"

section \<open>Workers\<close>

datatype pool_command = PoolEval string | Reclaim | PoolShutdown

record 'i worker =
  w_sent :: "pool_command list"
  w_taken :: nat
  w_running :: bool
  w_isolate :: 'i

definition worker_spawn :: "('i, 'c, 'v) isolate_ops \<Rightarrow> 'i worker" where
  "worker_spawn io = \<lparr>w_sent = [], w_taken = 0, w_running = True, w_isolate = io_new io\<rparr>"

text \<open>Sending fails once the loop has ended and dropped the receiver.\<close>

definition worker_send :: "pool_command \<Rightarrow> 'i worker \<Rightarrow> 'i worker" where
  "worker_send cmd w = (if w_running w then w\<lparr>w_sent := w_sent w @ [cmd]\<rparr> else w)"

definition worker_reclaim :: "'i worker \<Rightarrow> 'i worker" where
  "worker_reclaim w = worker_send Reclaim w"

definition worker_shutdown :: "'i worker \<Rightarrow> 'i worker" where
  "worker_shutdown w = worker_send PoolShutdown w"

text \<open>One turn of \<open>worker_loop\<close>: \<open>None\<close> while it waits in \<open>recv\<close> or has ended.\<close>

definition worker_turn ::
  "('i, 'c, 'v) isolate_ops \<Rightarrow> 'i worker \<Rightarrow> (js_value runtime_result option \<times> 'i worker) option" where
  "worker_turn io w =
     (if w_running w \<and> w_taken w < length (w_sent w)
      then let w1 = w\<lparr>w_taken := Suc (w_taken w)\<rparr>
           in (case w_sent w ! w_taken w of
                 PoolEval code \<Rightarrow>
                   (case eval_in_fresh_context io code (w_isolate w) of
                      (r, i) \<Rightarrow> Some (Some r, w1\<lparr>w_isolate := i\<rparr>))
               | Reclaim \<Rightarrow> Some (None, w1\<lparr>w_isolate := io_low_memory io (w_isolate w)\<rparr>)
               | PoolShutdown \<Rightarrow> Some (None, w1\<lparr>w_running := False\<rparr>))
      else None)"

lemma worker_turn_progress:
  assumes "worker_turn io w = Some (r, w')"
  shows "w_taken w' = Suc (w_taken w)" "w_sent w' = w_sent w" "w_taken w < length (w_sent w)" "w_running w"
  using assms by (auto simp: worker_turn_def Let_def split: if_splits pool_command.splits prod.splits)

lemma worker_turn_decreases:
  "worker_turn io w = Some (r, w') \<Longrightarrow> length (w_sent w') - w_taken w' < length (w_sent w) - w_taken w"
  using worker_turn_progress [of io w r w'] by simp

text \<open>The loop until it has nothing left to take; the last reply is that of the last \<open>PoolEval\<close>.\<close>

function worker_run ::
  "('i, 'c, 'v) isolate_ops \<Rightarrow> js_value runtime_result option \<Rightarrow> 'i worker \<Rightarrow> js_value runtime_result option \<times> 'i worker"
where
  "worker_run io last_reply w =
     (case worker_turn io w of
        None \<Rightarrow> (last_reply, w)
      | Some (reply, w') \<Rightarrow> worker_run io (case reply of None \<Rightarrow> last_reply | Some r \<Rightarrow> Some r) w')"
  by pat_completeness auto

termination
  by (relation "measure (\<lambda>(io, r, w). length (w_sent w) - w_taken w)") (auto dest: worker_turn_decreases)

declare worker_run.simps [simp del]

text \<open>
  \<open>Worker::eval\<close>: send, then wait for the reply.  The command just sent is the last of the channel, so
  its reply is the last one, unless the loop ends before.
\<close>

definition worker_eval ::
  "('i, 'c, 'v) isolate_ops \<Rightarrow> string \<Rightarrow> 'i worker \<Rightarrow> js_value runtime_result \<times> 'i worker" where
  "worker_eval io code w =
     (if \<not> w_running w then (Inl (Internal ''Isolate pool worker is no longer running''), w)
      else case worker_run io None (worker_send (PoolEval code) w) of
             (reply, w') \<Rightarrow>
               (if w_running w'
                then (case reply of Some r \<Rightarrow> r | None \<Rightarrow> Inl (Internal ''Isolate pool worker died mid-eval''), w')
                else (Inl (Internal ''Isolate pool worker died mid-eval''), w')))"

section \<open>The pool\<close>

text \<open>
  Workers and checkouts are numbered in the order they are made; \<open>handle_worker h\<close> is the \<open>worker\<close>
  field of the checkout \<open>h\<close>.
\<close>

record 'i pool =
  idle :: "nat list"
  max_idle :: nat
  pool_workers :: "'i worker list"
  handle_worker :: "nat option list"

definition spawn_into :: "('i, 'c, 'v) isolate_ops \<Rightarrow> 'i pool \<Rightarrow> nat \<times> 'i pool" where
  "spawn_into io p = (length (pool_workers p), p\<lparr>pool_workers := pool_workers p @ [worker_spawn io]\<rparr>)"

definition on_worker :: "nat \<Rightarrow> ('i worker \<Rightarrow> 'i worker) \<Rightarrow> 'i pool \<Rightarrow> 'i pool" where
  "on_worker k f p = p\<lparr>pool_workers := (pool_workers p)[k := f (pool_workers p ! k)]\<rparr>"

fun pool_fill :: "('i, 'c, 'v) isolate_ops \<Rightarrow> nat \<Rightarrow> 'i pool \<Rightarrow> 'i pool" where
  "pool_fill io 0 p = p"
| "pool_fill io (Suc n) p =
     (case spawn_into io p of (k, p') \<Rightarrow> pool_fill io n (p'\<lparr>idle := idle p' @ [k]\<rparr>))"

definition pool_new :: "('i, 'c, 'v) isolate_ops \<Rightarrow> nat \<Rightarrow> 'i pool" where
  "pool_new io size0 =
     (let size = max size0 1
      in pool_fill io size \<lparr>idle = [], max_idle = size, pool_workers = [], handle_worker = []\<rparr>)"

definition idle_count :: "'i pool \<Rightarrow> nat" where
  "idle_count p = length (idle p)"

definition checkout :: "('i, 'c, 'v) isolate_ops \<Rightarrow> 'i pool \<Rightarrow> nat \<times> 'i pool" where
  "checkout io p =
     (case (case idle p of k # ks \<Rightarrow> (k, p\<lparr>idle := ks\<rparr>) | [] \<Rightarrow> spawn_into io p) of
        (k, p') \<Rightarrow> (length (handle_worker p'), p'\<lparr>handle_worker := handle_worker p' @ [Some k]\<rparr>))"

definition pool_close :: "'i pool \<Rightarrow> 'i pool" where
  "pool_close p = foldl (\<lambda>q k. on_worker k worker_shutdown q) (p\<lparr>idle := []\<rparr>) (idle p)"

definition pooled_eval ::
  "('i, 'c, 'v) isolate_ops \<Rightarrow> nat \<Rightarrow> string \<Rightarrow> ('i pool, runtime_error, js_value) comp" where
  "pooled_eval io h code p =
     (case handle_worker p ! h of
        None \<Rightarrow> (Inl (Internal ''PooledIsolate has already been released''), p)
      | Some k \<Rightarrow>
          (case worker_eval io code (pool_workers p ! k) of (r, w) \<Rightarrow> (r, on_worker k (\<lambda>_. w) p)))"

text \<open>\<open>release\<close>, which dropping the checkout runs too.\<close>

definition release :: "nat \<Rightarrow> 'i pool \<Rightarrow> 'i pool" where
  "release h p =
     (case handle_worker p ! h of
        None \<Rightarrow> p
      | Some k \<Rightarrow>
          (let p1 = p\<lparr>handle_worker := (handle_worker p)[h := None]\<rparr>
           in if length (idle p1) < max_idle p1
              then (on_worker k worker_reclaim p1)\<lparr>idle := idle p1 @ [k]\<rparr>
              else on_worker k worker_shutdown p1))"

text \<open>The Python method: a released checkout, or the pooled evaluation and the unlimited converter.\<close>

definition pooled_eval_py ::
  "('i, 'c, 'v) isolate_ops \<Rightarrow> py_env \<Rightarrow> nat option \<Rightarrow> string \<Rightarrow> py_store \<Rightarrow> 'i pool
    \<Rightarrow> (py_exc + py_val) \<times> py_store \<times> 'i pool" where
  "pooled_eval_py io env inner code st p =
     (case inner of
        None \<Rightarrow> (Inl (PyRuntimeError ''PooledIsolate has already been released''), st, p)
      | Some h \<Rightarrow>
          (case pooled_eval io h code p of
             (Inl e, p') \<Rightarrow> (Inl (runtime_error_with_context ''Pooled evaluation failed'' e), st, p')
           | (Inr j, p') \<Rightarrow> (case js_value_to_python env False j st of (r, st') \<Rightarrow> (r, st', p'))))"

section \<open>Laws of a worker\<close>

text \<open>A worker that has never been told to stop.\<close>

definition worker_ok :: "'i worker \<Rightarrow> bool" where
  "worker_ok w \<longleftrightarrow> w_running w \<and> PoolShutdown \<notin> set (w_sent w) \<and> w_taken w \<le> length (w_sent w)"

lemma worker_spawn_ok [simp]: "worker_ok (worker_spawn io)" "w_sent (worker_spawn io) = []"
  by (simp_all add: worker_ok_def worker_spawn_def)

lemma worker_send_ok: "worker_ok w \<Longrightarrow> c \<noteq> PoolShutdown \<Longrightarrow> worker_ok (worker_send c w) \<and> w_sent (worker_send c w) = w_sent w @ [c]"
  by (auto simp: worker_ok_def worker_send_def)

lemma worker_turn_ok:
  assumes "worker_turn io w = Some (r, w')" "worker_ok w"
  shows "worker_ok w'"
proof -
  have "w_sent w ! w_taken w \<noteq> PoolShutdown"
    using worker_turn_progress(3) [OF assms(1)] assms(2) by (metis nth_mem worker_ok_def)
  then show ?thesis
    using assms by (auto simp: worker_turn_def worker_ok_def Let_def split: if_splits pool_command.splits prod.splits)
qed

lemma worker_run_ok:
  "worker_run io lr w = (r, w') \<Longrightarrow> worker_ok w \<Longrightarrow>
     worker_ok w' \<and> w_sent w' = w_sent w \<and> w_taken w' = length (w_sent w)"
proof (induction io lr w arbitrary: r w' rule: worker_run.induct)
  case (1 io lr w)
  show ?case
  proof (cases "worker_turn io w")
    case None
    with "1.prems" show ?thesis
      by (auto simp: worker_run.simps [of io lr w] worker_turn_def worker_ok_def Let_def
          split: if_splits pool_command.splits prod.splits)
  next
    case (Some p)
    obtain q v where p: "p = (q, v)" by (cases p)
    have "worker_run io (case q of None \<Rightarrow> lr | Some x \<Rightarrow> Some x) v = (r, w')"
      using "1.prems"(1) Some p by (simp add: worker_run.simps [of io lr w])
    from "1.IH" [OF Some p [symmetric] this worker_turn_ok [OF Some [unfolded p] "1.prems"(2)]]
    show ?thesis using worker_turn_progress(2) [OF Some [unfolded p]] by simp
  qed
qed

text \<open>The command sent last is answered by an evaluation of its code on the worker's isolate.\<close>

lemma worker_run_reply:
  "worker_run io lr w = (r, w') \<Longrightarrow> worker_ok w \<Longrightarrow> w_taken w < length (w_sent w) \<Longrightarrow> last (w_sent w) = PoolEval code
     \<Longrightarrow> \<exists>i. r = Some (fst (eval_in_fresh_context io code i))"
proof (induction io lr w arbitrary: r w' rule: worker_run.induct)
  case (1 io lr w)
  have not_stop: "w_sent w ! w_taken w \<noteq> PoolShutdown"
    using "1.prems"(2,3) by (metis nth_mem worker_ok_def)
  obtain q v where t: "worker_turn io w = Some (q, v)"
  proof (cases "worker_turn io w")
    case None
    then show ?thesis
      using "1.prems"(2,3) not_stop
      by (auto simp: worker_turn_def worker_ok_def Let_def split: if_splits pool_command.splits prod.splits)
  qed auto
  note pr = worker_turn_progress [OF t]
  have run: "worker_run io (case q of None \<Rightarrow> lr | Some x \<Rightarrow> Some x) v = (r, w')"
    using "1.prems"(1) t by (simp add: worker_run.simps [of io lr w])
  show ?case
  proof (cases "w_taken v < length (w_sent v)")
    case True
    from "1.IH" [OF t refl run worker_turn_ok [OF t "1.prems"(2)] True] "1.prems"(4) pr(2)
    show ?thesis by simp
  next
    case False
    then have l: "w_sent w ! w_taken w = PoolEval code"
      using pr "1.prems"(3,4) by (metis diff_Suc_1 last_conv_nth length_greater_0_conv less_Suc_eq less_nat_zero_code not_less_eq)
    have "worker_turn io v = None" using False by (simp add: worker_turn_def)
    then have "r = (case q of None \<Rightarrow> lr | Some x \<Rightarrow> Some x)"
      using run by (simp add: worker_run.simps [of io _ v])
    moreover have "q = Some (fst (eval_in_fresh_context io code (w_isolate w)))"
      using t l pr(3,4) by (auto simp: worker_turn_def Let_def split: prod.splits)
    ultimately show ?thesis by auto
  qed
qed

lemma worker_eval_ok:
  assumes "worker_ok w"
  shows "worker_ok (snd (worker_eval io code w))"
    "w_sent (snd (worker_eval io code w)) = w_sent w @ [PoolEval code]"
    "\<exists>i. fst (worker_eval io code w) = fst (eval_in_fresh_context io code i)"
proof -
  let ?w = "worker_send (PoolEval code) w"
  obtain r w' where run: "worker_run io None ?w = (r, w')" by (cases "worker_run io None ?w")
  have s: "worker_ok ?w" "w_sent ?w = w_sent w @ [PoolEval code]" "w_taken ?w = w_taken w"
    using worker_send_ok [OF assms, of "PoolEval code"] by (auto simp: worker_send_def)
  have lt: "w_taken ?w < length (w_sent ?w)" using assms s by (simp add: worker_ok_def)
  note ok = worker_run_ok [OF run s(1)]
  from worker_run_reply [OF run s(1) lt] s(2) obtain i where i: "r = Some (fst (eval_in_fresh_context io code i))" by auto
  have "worker_eval io code w = (fst (eval_in_fresh_context io code i), w')"
    using assms run ok i by (simp add: worker_eval_def worker_ok_def)
  then show "worker_ok (snd (worker_eval io code w))"
    "w_sent (snd (worker_eval io code w)) = w_sent w @ [PoolEval code]"
    "\<exists>i. fst (worker_eval io code w) = fst (eval_in_fresh_context io code i)"
    using ok s(2) by auto
qed

section \<open>Laws of the pool\<close>

text \<open>
  No isolate is claimed twice: by two checkouts, or by a checkout and the idle queue.  A claimed worker
  has not been told to stop, and the last thing an idle worker was told, if it was told anything, is to
  reclaim.
\<close>

definition claimed :: "'i pool \<Rightarrow> nat \<Rightarrow> bool" where
  "claimed p k \<longleftrightarrow> k \<in> set (idle p) \<or> Some k \<in> set (handle_worker p)"

definition settled :: "'i worker \<Rightarrow> bool" where
  "settled w \<longleftrightarrow> w_sent w = [] \<or> last (w_sent w) = Reclaim"

definition pool_inv :: "'i pool \<Rightarrow> bool" where
  "pool_inv p \<longleftrightarrow> distinct (idle p) \<and> length (idle p) \<le> max_idle p
     \<and> (\<forall>h k. h < length (handle_worker p) \<longrightarrow> handle_worker p ! h = Some k \<longrightarrow> k \<notin> set (idle p))
     \<and> (\<forall>h h' k. h < length (handle_worker p) \<longrightarrow> h' < length (handle_worker p)
          \<longrightarrow> handle_worker p ! h = Some k \<longrightarrow> handle_worker p ! h' = Some k \<longrightarrow> h = h')
     \<and> (\<forall>k. claimed p k \<longrightarrow> k < length (pool_workers p) \<and> worker_ok (pool_workers p ! k))
     \<and> (\<forall>k \<in> set (idle p). settled (pool_workers p ! k))"

lemma pool_inv_parts:
  assumes "pool_inv p"
  shows "distinct (idle p)" "length (idle p) \<le> max_idle p"
    "h < length (handle_worker p) \<Longrightarrow> handle_worker p ! h = Some k \<Longrightarrow> k \<notin> set (idle p)"
    "h < length (handle_worker p) \<Longrightarrow> h' < length (handle_worker p) \<Longrightarrow> handle_worker p ! h = Some k
      \<Longrightarrow> handle_worker p ! h' = Some k \<Longrightarrow> h = h'"
    "claimed p k \<Longrightarrow> k < length (pool_workers p)" "claimed p k \<Longrightarrow> worker_ok (pool_workers p ! k)"
    "k \<in> set (idle p) \<Longrightarrow> settled (pool_workers p ! k)"
  using assms unfolding pool_inv_def by blast+

lemma claimed_handle: "h < length (handle_worker p) \<Longrightarrow> handle_worker p ! h = Some k \<Longrightarrow> claimed p k"
  by (metis claimed_def nth_mem)

lemma on_worker_simps [simp]:
  "idle (on_worker k f p) = idle p" "handle_worker (on_worker k f p) = handle_worker p"
  "max_idle (on_worker k f p) = max_idle p" "length (pool_workers (on_worker k f p)) = length (pool_workers p)"
  "claimed (on_worker k f p) = claimed p"
  by (auto simp: on_worker_def claimed_def fun_eq_iff)

lemma on_worker_nth:
  "k < length (pool_workers p) \<Longrightarrow>
     pool_workers (on_worker j f p) ! k = (if j = k then f (pool_workers p ! k) else pool_workers p ! k)"
  by (auto simp: on_worker_def)

text \<open>A worker that nobody or only a checkout claims may be driven as long as it is not stopped.\<close>

lemma pool_inv_on_worker:
  assumes "pool_inv p" "k < length (pool_workers p)"
    and "claimed p k \<Longrightarrow> worker_ok (f (pool_workers p ! k))"
    and "k \<in> set (idle p) \<Longrightarrow> settled (f (pool_workers p ! k))"
  shows "pool_inv (on_worker k f p)"
  using assms pool_inv_parts(5) [OF assms(1)] unfolding pool_inv_def
  by (auto simp: on_worker_nth claimed_def)

lemma spawn_inv:
  assumes "pool_inv p" "spawn_into io p = (k, p')"
  shows "pool_inv p'" "\<not> claimed p' k" "k < length (pool_workers p')" "worker_ok (pool_workers p' ! k)"
    "settled (pool_workers p' ! k)" "idle p' = idle p" "handle_worker p' = handle_worker p" "max_idle p' = max_idle p"
proof -
  have p': "p' = p\<lparr>pool_workers := pool_workers p @ [worker_spawn io]\<rparr>" "k = length (pool_workers p)"
    using assms(2) by (auto simp: spawn_into_def)
  have c: "claimed p' = claimed p" by (auto simp: p' claimed_def fun_eq_iff)
  have lt: "claimed p j \<Longrightarrow> j < length (pool_workers p)" for j using pool_inv_parts(5) [OF assms(1)] .
  show "pool_inv p'"
    using assms(1) lt unfolding pool_inv_def c
    by (auto simp: p' nth_append claimed_def less_SucI)
  show "\<not> claimed p' k" using lt [of k] c p'(2) by auto
qed (use assms(2) in \<open>auto simp: spawn_into_def settled_def\<close>)

lemma pool_inv_push_idle:
  assumes "pool_inv p" "\<not> claimed p k" "k < length (pool_workers p)" "worker_ok (pool_workers p ! k)"
    "settled (pool_workers p ! k)" "length (idle p) < max_idle p"
  shows "pool_inv (p\<lparr>idle := idle p @ [k]\<rparr>)"
proof -
  let ?q = "p\<lparr>idle := idle p @ [k]\<rparr>"
  note pp = pool_inv_parts [OF assms(1)]
  have c: "claimed ?q j \<longleftrightarrow> claimed p j \<or> j = k" for j by (auto simp: claimed_def)
  have n: "k \<notin> set (idle p)" using assms(2) by (simp add: claimed_def)
  have d: "distinct (idle ?q)" "length (idle ?q) \<le> max_idle ?q" using pp(1) n assms(6) by simp_all
  have "h < length (handle_worker p) \<Longrightarrow> handle_worker p ! h = Some j \<Longrightarrow> j \<notin> set (idle ?q)" for h j
    using pp(3) [of h j] claimed_handle [of h p j] assms(2) by auto
  moreover have "claimed ?q j \<Longrightarrow> j < length (pool_workers ?q) \<and> worker_ok (pool_workers ?q ! j)" for j
    using c pp(5,6) assms(3,4) by auto
  moreover have "j \<in> set (idle ?q) \<Longrightarrow> settled (pool_workers ?q ! j)" for j
    using pp(7) assms(5) by auto
  ultimately show ?thesis
    using d pp(4) unfolding pool_inv_def by simp
qed

lemma pool_fill_inv:
  "pool_inv p \<Longrightarrow> length (idle p) + n \<le> max_idle p \<Longrightarrow> pool_inv (pool_fill io n p)
     \<and> length (idle (pool_fill io n p)) = length (idle p) + n \<and> max_idle (pool_fill io n p) = max_idle p
     \<and> handle_worker (pool_fill io n p) = handle_worker p"
proof (induction n arbitrary: p)
  case (Suc n)
  obtain k p' where s: "spawn_into io p = (k, p')" by (cases "spawn_into io p")
  note sp = spawn_inv [OF Suc.prems(1) s]
  have "pool_inv (p'\<lparr>idle := idle p' @ [k]\<rparr>)"
    using pool_inv_push_idle [OF sp(1-5)] Suc.prems(2) sp(6,8) by simp
  from Suc.IH [OF this] Suc.prems(2) sp(6-8) s show ?case by simp
qed simp

lemma pool_new_inv: "pool_inv (pool_new io n)" "length (idle (pool_new io n)) = max n 1"
  "handle_worker (pool_new io n) = []"
proof -
  let ?p = "\<lparr>idle = [], max_idle = max n 1, pool_workers = [], handle_worker = []\<rparr>"
  have "pool_inv ?p" by (simp add: pool_inv_def claimed_def)
  from pool_fill_inv [OF this, of "max n 1" io]
  show "pool_inv (pool_new io n)" "length (idle (pool_new io n)) = max n 1" "handle_worker (pool_new io n) = []"
    by (simp_all add: pool_new_def Let_def)
qed

lemma pool_inv_hand_out:
  assumes "pool_inv p" "\<not> claimed p k" "k < length (pool_workers p)" "worker_ok (pool_workers p ! k)"
  shows "pool_inv (p\<lparr>handle_worker := handle_worker p @ [Some k]\<rparr>)"
proof -
  let ?q = "p\<lparr>handle_worker := handle_worker p @ [Some k]\<rparr>"
  note pp = pool_inv_parts [OF assms(1)]
  have c: "claimed ?q j \<longleftrightarrow> claimed p j \<or> j = k" for j by (auto simp: claimed_def)
  have n: "k \<notin> set (idle p)" "h < length (handle_worker p) \<Longrightarrow> handle_worker p ! h \<noteq> Some k" for h
    using assms(2) claimed_handle [of h p k] by (auto simp: claimed_def)
  have w: "handle_worker ?q ! h = Some j \<longleftrightarrow>
      (if h < length (handle_worker p) then handle_worker p ! h = Some j else j = k)"
    if "h < length (handle_worker ?q)" for h j
    using that by (auto simp: nth_append less_Suc_eq)
  have "h < length (handle_worker ?q) \<Longrightarrow> handle_worker ?q ! h = Some j \<Longrightarrow> j \<notin> set (idle p)" for h j
    using w [of h j] pp(3) [of h j] n(1) by (auto split: if_splits)
  moreover have "h < length (handle_worker ?q) \<Longrightarrow> h' < length (handle_worker ?q) \<Longrightarrow> handle_worker ?q ! h = Some j
      \<Longrightarrow> handle_worker ?q ! h' = Some j \<Longrightarrow> h = h'" for h h' j
    using w [of h j] w [of h' j] pp(4) [of h h' j] n(2) [of h] n(2) [of h'] by (auto split: if_splits)
  moreover have "claimed ?q j \<Longrightarrow> j < length (pool_workers ?q) \<and> worker_ok (pool_workers ?q ! j)" for j
    using c pp(5,6) assms(3,4) by auto
  ultimately show ?thesis
    using pp(1,2,7) unfolding pool_inv_def by simp
qed

lemma pool_inv_pop:
  assumes "pool_inv p" "idle p = k # ks"
  shows "pool_inv (p\<lparr>idle := ks\<rparr>)" "\<not> claimed (p\<lparr>idle := ks\<rparr>) k" "k < length (pool_workers p)"
    "worker_ok (pool_workers p ! k)" "settled (pool_workers p ! k)"
proof -
  show "pool_inv (p\<lparr>idle := ks\<rparr>)"
    using assms unfolding pool_inv_def claimed_def by auto
  have "claimed p k" using assms(2) by (simp add: claimed_def)
  then show "k < length (pool_workers p)" "worker_ok (pool_workers p ! k)"
    using pool_inv_parts(5,6) [OF assms(1)] by blast+
  show "settled (pool_workers p ! k)" using pool_inv_parts(7) [OF assms(1)] assms(2) by simp
  have "h < length (handle_worker p) \<Longrightarrow> handle_worker p ! h \<noteq> Some k" for h
    using pool_inv_parts(3) [OF assms(1), of h k] assms(2) by auto
  then show "\<not> claimed (p\<lparr>idle := ks\<rparr>) k"
    using pool_inv_parts(1) [OF assms(1)] assms(2) by (auto simp: claimed_def in_set_conv_nth)
qed

lemma checkout_inv:
  assumes "pool_inv p" "checkout io p = (h, p')"
  shows "pool_inv p'" "h = length (handle_worker p)"
    "\<exists>k. handle_worker p' = handle_worker p @ [Some k] \<and> settled (pool_workers p' ! k) \<and> worker_ok (pool_workers p' ! k)"
proof -
  have "pool_inv p' \<and> h = length (handle_worker p) \<and> (\<exists>k. handle_worker p' = handle_worker p @ [Some k]
      \<and> settled (pool_workers p' ! k) \<and> worker_ok (pool_workers p' ! k))"
  proof (cases "idle p")
    case Nil
    obtain k q where s: "spawn_into io p = (k, q)" by (cases "spawn_into io p")
    note sp = spawn_inv [OF assms(1) s]
    show ?thesis
      using assms(2) Nil s sp pool_inv_hand_out [OF sp(1-4)] by (auto simp: checkout_def)
  next
    case (Cons k ks)
    note po = pool_inv_pop [OF assms(1) Cons]
    show ?thesis
      using assms(2) Cons po pool_inv_hand_out [OF po(1,2)] by (auto simp: checkout_def)
  qed
  then show "pool_inv p'" "h = length (handle_worker p)"
    "\<exists>k. handle_worker p' = handle_worker p @ [Some k] \<and> settled (pool_workers p' ! k) \<and> worker_ok (pool_workers p' ! k)"
    by blast+
qed

lemma pooled_eval_inv:
  assumes "pool_inv p" "h < length (handle_worker p)"
  shows "pool_inv (snd (pooled_eval io h code p))"
proof (cases "handle_worker p ! h")
  case (Some k)
  have c: "claimed p k" using claimed_handle [OF assms(2) Some] .
  have "k \<notin> set (idle p)" using pool_inv_parts(3) [OF assms Some] .
  moreover have "worker_ok (snd (worker_eval io code (pool_workers p ! k)))"
    using worker_eval_ok(1) [OF pool_inv_parts(6) [OF assms(1) c]] .
  ultimately show ?thesis
    using Some pool_inv_on_worker [OF assms(1) pool_inv_parts(5) [OF assms(1) c]]
    by (auto simp: pooled_eval_def split: prod.split)
qed (simp add: pooled_eval_def assms)

lemma release_inv:
  assumes "pool_inv p" "h < length (handle_worker p)"
  shows "pool_inv (release h p)"
proof (cases "handle_worker p ! h")
  case (Some k)
  let ?p = "p\<lparr>handle_worker := (handle_worker p)[h := None]\<rparr>"
  have c: "claimed p k" using claimed_handle [OF assms(2) Some] .
  have idle: "k \<notin> set (idle p)" using pool_inv_parts(3) [OF assms Some] .
  have un: "\<not> claimed ?p k"
    using idle assms(2) pool_inv_parts(4) [OF assms(1) assms(2) _ Some]
    by (auto simp: claimed_def in_set_conv_nth nth_list_update split: if_splits)
  have p: "pool_inv ?p"
  proof -
    have cl: "claimed ?p j \<Longrightarrow> claimed p j" for j
      using set_update_subset_insert [of "handle_worker p" h None] by (auto simp: claimed_def)
    show ?thesis
      using assms cl unfolding pool_inv_def by (auto simp: nth_list_update split: if_splits)
  qed
  have lt: "k < length (pool_workers ?p)" using pool_inv_parts(5) [OF assms(1) c] by simp
  have ok: "worker_ok (pool_workers p ! k)" using pool_inv_parts(6) [OF assms(1) c] .
  have r: "worker_ok (worker_reclaim (pool_workers p ! k))" "settled (worker_reclaim (pool_workers p ! k))"
    using worker_send_ok [OF ok, of Reclaim] by (simp_all add: worker_reclaim_def settled_def)
  have ir: "pool_inv (on_worker k f ?p)" for f
    by (rule pool_inv_on_worker [OF p lt]) (use un idle in auto)
  have "pool_inv ((on_worker k worker_reclaim ?p)\<lparr>idle := idle (on_worker k worker_reclaim ?p) @ [k]\<rparr>)"
    if "length (idle p) < max_idle p"
    by (rule pool_inv_push_idle [OF ir]) (use un lt r that in \<open>simp_all add: on_worker_nth\<close>)
  then show ?thesis
    using Some ir by (auto simp: release_def Let_def)
qed (simp add: release_def assms)

lemma close_fold_inv:
  "pool_inv p \<Longrightarrow> (\<And>k. k \<in> set ks \<Longrightarrow> \<not> claimed p k \<and> k < length (pool_workers p)) \<Longrightarrow>
     pool_inv (foldl (\<lambda>q k. on_worker k worker_shutdown q) p ks)"
proof (induction ks arbitrary: p)
  case (Cons k ks)
  have "pool_inv (on_worker k worker_shutdown p)"
    using Cons.prems(2) [of k] pool_inv_on_worker [OF Cons.prems(1)] by (auto simp: claimed_def)
  then show ?case using Cons.IH Cons.prems(2) by simp
qed simp

lemma close_inv:
  assumes "pool_inv p"
  shows "pool_inv (pool_close p)"
  unfolding pool_close_def
proof (rule close_fold_inv)
  show "pool_inv (p\<lparr>idle := []\<rparr>)" using assms unfolding pool_inv_def claimed_def by auto
  show "\<not> claimed (p\<lparr>idle := []\<rparr>) k \<and> k < length (pool_workers (p\<lparr>idle := []\<rparr>))" if "k \<in> set (idle p)" for k
    using that pool_inv_parts(3,5) [OF assms] by (auto simp: claimed_def in_set_conv_nth)
qed

lemma turn_inv:
  assumes "pool_inv p" "k < length (pool_workers p)" "worker_turn io (pool_workers p ! k) = Some (r, w)"
  shows "pool_inv (on_worker k (\<lambda>_. w) p)"
  using pool_inv_parts(6,7) [OF assms(1)] worker_turn_ok [OF assms(3)] worker_turn_progress(2) [OF assms(3)]
  by (intro pool_inv_on_worker [OF assms(1,2)]) (auto simp: settled_def)

section \<open>Histories\<close>

text \<open>What any owner of the pool or of a checkout may do, and the workers in between.\<close>

inductive pool_step :: "('i, 'c, 'v) isolate_ops \<Rightarrow> 'i pool \<Rightarrow> 'i pool \<Rightarrow> bool" for io where
  checkout: "pool_step io p (snd (checkout io p))"
| eval: "h < length (handle_worker p) \<Longrightarrow> pool_step io p (snd (pooled_eval io h code p))"
| release: "h < length (handle_worker p) \<Longrightarrow> pool_step io p (release h p)"
| close: "pool_step io p (pool_close p)"
| turn: "k < length (pool_workers p) \<Longrightarrow> worker_turn io (pool_workers p ! k) = Some (r, w)
    \<Longrightarrow> pool_step io p (on_worker k (\<lambda>_. w) p)"

lemma pool_step_inv: "pool_step io p p' \<Longrightarrow> pool_inv p \<Longrightarrow> pool_inv p'"
proof (induction rule: pool_step.induct)
  case (checkout p)
  then show ?case using checkout_inv(1) by (metis prod.collapse)
qed (auto intro: pooled_eval_inv release_inv close_inv turn_inv)

lemma pool_reach_inv: "(pool_step io)\<^sup>*\<^sup>* (pool_new io n) p \<Longrightarrow> pool_inv p"
  by (induction rule: rtranclp_induct) (auto simp: pool_new_inv intro: pool_step_inv)

inductive_cases pool_stepE: "pool_step io p p'"

text \<open>A pool is never drained by its own steps: the capacity is fixed.\<close>

lemma on_workers_max_idle: "max_idle (foldl (\<lambda>q k. on_worker k f q) p ks) = max_idle p"
  by (induction ks arbitrary: p) simp_all

lemma pool_step_max_idle: "pool_step io p p' \<Longrightarrow> max_idle p' = max_idle p"
  by (erule pool_stepE)
    (auto simp: checkout_def spawn_into_def pooled_eval_def release_def pool_close_def Let_def on_workers_max_idle
      split: list.splits option.splits prod.splits)

lemma release_released: "h < length (handle_worker p) \<Longrightarrow> handle_worker (release h p) ! h = None"
  by (auto simp: release_def Let_def split: option.split)

lemma release_twice: "h < length (handle_worker p) \<Longrightarrow> release h (release h p) = release h p"
  by (subst release_def) (simp add: release_released)

text \<open>
  \<open>close\<close> leaves the capacity as it is, so an isolate that is released afterwards is queued again
  instead of being shut down.
\<close>

lemma release_after_close:
  assumes "pool_inv p" "h < length (handle_worker p)" "handle_worker p ! h = Some k" "0 < max_idle p"
  shows "idle (release h (pool_close p)) = [k]" "worker_ok (pool_workers (release h (pool_close p)) ! k)"
proof -
  have f: "idle (foldl (\<lambda>q k. on_worker k g q) q ks) = idle q"
    "handle_worker (foldl (\<lambda>q k. on_worker k g q) q ks) = handle_worker q" for g q ks
    by (induction ks arbitrary: q) simp_all
  have c: "idle (pool_close p) = []" "handle_worker (pool_close p) = handle_worker p" "max_idle (pool_close p) = max_idle p"
    by (simp_all add: pool_close_def f on_workers_max_idle)
  show i: "idle (release h (pool_close p)) = [k]"
    using assms(3,4) c by (simp add: release_def Let_def)
  have "h < length (handle_worker (pool_close p))" using assms(2) c(2) by simp
  from release_inv [OF close_inv [OF assms(1)] this] i
  show "worker_ok (pool_workers (release h (pool_close p)) ! k)"
    using pool_inv_parts(6) by (fastforce simp: claimed_def)
qed

section \<open>Properties\<close>

text \<open>
  C26  Whatever the order of checkouts, evaluations, releases, closes and worker turns, an isolate is
  never in two hands: no two checkouts hold the same worker, a held worker is not in the idle queue, the
  idle queue repeats none, and it never exceeds the capacity the pool was made with.
\<close>

theorem pool_isolates_exclusive:
  assumes "(pool_step io)\<^sup>*\<^sup>* (pool_new io n) p"
  shows "distinct (idle p) \<and> idle_count p \<le> max n 1
    \<and> (\<forall>h h' k. h < length (handle_worker p) \<longrightarrow> h' < length (handle_worker p) \<longrightarrow> handle_worker p ! h = Some k \<longrightarrow>
         k \<notin> set (idle p) \<and> (h \<noteq> h' \<longrightarrow> handle_worker p ! h' \<noteq> Some k))"
proof -
  note inv = pool_reach_inv [OF assms]
  have "max_idle p = max n 1"
    using assms
  proof (induction rule: rtranclp_induct)
    case base
    have "max_idle (pool_fill io m q) = max_idle q" for m and q :: "'a pool"
      by (induction m arbitrary: q) (auto simp: spawn_into_def)
    then show ?case by (simp add: pool_new_def Let_def)
  qed (simp add: pool_step_max_idle)
  with pool_inv_parts(1-4) [OF inv] show ?thesis by (auto simp: idle_count_def)
qed

definition echo_isolates :: "(nat, unit, string) isolate_ops" where
  "echo_isolates = \<lparr>io_new = 0, io_context_new = Pair (), io_string_new = (\<lambda>_ s i. (Some s, i)),
     io_compile = (\<lambda>_ s i. (Some s, i)), io_run = (\<lambda>_ s i. (Some s, Suc i)),
     io_from_v8 = (\<lambda>_ s i. (Inr (JString s), i)), io_message = (\<lambda>_ _. None), io_exception = (\<lambda>_ _. None),
     io_checkpoint = (\<lambda>_ i. i), io_low_memory = (\<lambda>_. 0)\<rparr>"

definition two_out :: "nat pool" where
  "two_out = snd (checkout echo_isolates (snd (checkout echo_isolates (pool_new echo_isolates 1))))"

lemma two_out_reached: "(pool_step echo_isolates)\<^sup>*\<^sup>* (pool_new echo_isolates 1) two_out"
  unfolding two_out_def by (meson pool_step.checkout r_into_rtranclp rtranclp.rtrancl_into_rtrancl)

lemma two_out_eval: "handle_worker two_out = [Some 0, Some 1]"
  by (simp add: two_out_def pool_new_def checkout_def spawn_into_def)

theorem pool_isolates_exclusive_witness:
  "handle_worker two_out ! 1 \<noteq> Some 0 \<and> 0 \<notin> set (idle two_out) \<and> idle_count two_out \<le> 1"
proof -
  have "0 < length (handle_worker two_out)" "1 < length (handle_worker two_out)" "handle_worker two_out ! 0 = Some 0"
    by (simp_all add: two_out_eval)
  with pool_isolates_exclusive [OF two_out_reached] show ?thesis by fastforce
qed

text \<open>
  C29  A checkout that has not been released always gets an answer: in every reachable state
  \<open>eval\<close> returns the outcome of running the code in a fresh context, never a dead worker; and after
  \<open>release\<close>, which is idempotent, it is refused.
\<close>

theorem pool_eval_answers:
  assumes "(pool_step io)\<^sup>*\<^sup>* (pool_new io n) p" "h < length (handle_worker p)"
  shows "(\<forall>k. handle_worker p ! h = Some k
            \<longrightarrow> (\<exists>i. fst (pooled_eval io h code p) = fst (eval_in_fresh_context io code i)))
    \<and> fst (pooled_eval io h code (release h p)) = Inl (Internal ''PooledIsolate has already been released'')
    \<and> release h (release h p) = release h p"
proof (intro conjI allI impI)
  fix k assume k: "handle_worker p ! h = Some k"
  have "worker_ok (pool_workers p ! k)"
    using pool_inv_parts(6) [OF pool_reach_inv [OF assms(1)] claimed_handle [OF assms(2) k]] .
  from worker_eval_ok(3) [OF this, of io code] k
  show "\<exists>i. fst (pooled_eval io h code p) = fst (eval_in_fresh_context io code i)"
    by (auto simp: pooled_eval_def split: prod.split)
next
  show "fst (pooled_eval io h code (release h p)) = Inl (Internal ''PooledIsolate has already been released'')"
    by (simp add: pooled_eval_def release_released [OF assms(2)])
  show "release h (release h p) = release h p" by (rule release_twice [OF assms(2)])
qed

theorem pool_eval_answers_witness:
  "\<exists>i. fst (pooled_eval echo_isolates 1 ''1 + 1'' two_out) = fst (eval_in_fresh_context echo_isolates ''1 + 1'' i)"
  using pool_eval_answers [OF two_out_reached, of 1 "''1 + 1''"] by (simp add: two_out_eval)

text \<open>
  C30  An isolate is collected before it is lent again: in every reachable state the worker that
  \<open>checkout\<close> hands out was either never used or was last told to reclaim, so the first evaluation of the
  new owner follows that command on the worker's channel.
\<close>

theorem pool_reclaims_before_reuse:
  assumes "(pool_step io)\<^sup>*\<^sup>* (pool_new io n) p" "checkout io p = (h, p')"
  shows "\<exists>k. handle_worker p' ! h = Some k
    \<and> (w_sent (pool_workers p' ! k) = [] \<or> last (w_sent (pool_workers p' ! k)) = Reclaim)
    \<and> w_sent (snd (worker_eval io code (pool_workers p' ! k))) = w_sent (pool_workers p' ! k) @ [PoolEval code]"
proof -
  from checkout_inv [OF pool_reach_inv [OF assms(1)] assms(2)] obtain k where
    "h = length (handle_worker p)" "handle_worker p' = handle_worker p @ [Some k]"
    "settled (pool_workers p' ! k)" "worker_ok (pool_workers p' ! k)" by blast
  with worker_eval_ok(2) show ?thesis by (auto simp: settled_def)
qed

theorem pool_reclaims_before_reuse_witness:
  "\<exists>k. handle_worker two_out ! 1 = Some k
    \<and> (w_sent (pool_workers two_out ! k) = [] \<or> last (w_sent (pool_workers two_out ! k)) = Reclaim)"
proof -
  let ?p = "snd (checkout echo_isolates (pool_new echo_isolates 1))"
  have r: "(pool_step echo_isolates)\<^sup>*\<^sup>* (pool_new echo_isolates 1) ?p"
    by (meson pool_step.checkout r_into_rtranclp)
  have c: "checkout echo_isolates ?p = (1, two_out)"
    by (simp add: two_out_def pool_new_def checkout_def spawn_into_def)
  from pool_reclaims_before_reuse [OF r c] show ?thesis by auto
qed

end
