(* ===== verification/Peno_Config.thy ===== *)
theory Peno_Config
  imports Peno_Stats Peno_Conversion
begin

text \<open>
  \<open>RuntimeConfig\<close> and \<open>InspectorConfig\<close> (\<open>src/runtime/config.rs\<close>) and the timeouts that Python
  passes (\<open>src/runtime/python/utils.rs\<close>).  What PyO3 extracts from a Python object is the record
  \<open>py_extract\<close>.  A Rust panic, which PyO3 raises as \<open>PanicException\<close>, is the value \<open>Panic\<close>.
\<close>

section \<open>Outcomes\<close>

datatype 'a py_outcome = Returns 'a | Raises py_exc | Panic

definition obind :: "'a py_outcome \<Rightarrow> ('a \<Rightarrow> 'b py_outcome) \<Rightarrow> 'b py_outcome" where
  "obind m f = (case m of Returns a \<Rightarrow> f a | Raises e \<Rightarrow> Raises e | Panic \<Rightarrow> Panic)"

definition of_result :: "py_exc + 'a \<Rightarrow> 'a py_outcome" where
  "of_result r = (case r of Inl e \<Rightarrow> Raises e | Inr a \<Rightarrow> Returns a)"

lemma obind_Returns: "obind m f = Returns b \<longleftrightarrow> (\<exists>a. m = Returns a \<and> f a = Returns b)"
  by (auto simp: obind_def split: py_outcome.split)

lemma obind_simps [simp]: "obind (Returns a) f = f a" "obind (Raises e) f = Raises e" "obind Panic f = Panic"
  by (simp_all add: obind_def)

section \<open>Timeouts\<close>

text \<open>What the extractions of a Python object yield; \<open>None\<close> is a failed \<open>extract\<close>.\<close>

record 'v py_extract =
  ext_f64 :: "'v \<Rightarrow> f64 option"
  ext_u64 :: "'v \<Rightarrow> u64 option"
  ext_i64 :: "'v \<Rightarrow> int option"
  timedelta_type :: "py_exc + unit"
  is_timedelta :: "'v \<Rightarrow> py_exc + bool"
  total_seconds :: "'v \<Rightarrow> py_exc + f64"
  ext_bytes :: "'v \<Rightarrow> py_exc + bytes"
  is_callable :: "'v \<Rightarrow> bool"

text \<open>\<open>Duration::from_secs_f64\<close> rounds to whole nanoseconds and panics on what does not fit.\<close>

fun duration_from_secs_f64 :: "f64 \<Rightarrow> nat py_outcome" where
  "duration_from_secs_f64 (Fin q) =
     (let ns = round_half_even (q * 1000000000)
      in if q < 0 \<or> int duration_max < ns then Panic else Returns (nat ns))"
| "duration_from_secs_f64 _ = Panic"

definition duration_from_secs :: "u64 \<Rightarrow> nat" where
  "duration_from_secs s = unat s * 1000000000"

text \<open>\<open>u64::MAX as f64\<close> is \<open>2 ^ 64\<close>.\<close>

definition validate_timeout_seconds :: "f64 \<Rightarrow> unit py_outcome" where
  "validate_timeout_seconds seconds =
     (if \<not> f64_is_finite seconds then Raises (PyValueError ''Timeout must be finite'')
      else if f64_less seconds 0 then Raises (PyValueError ''Timeout cannot be negative'')
      else if f64_eq_zero seconds then Raises (PyValueError ''Timeout cannot be zero'')
      else if f64_greater seconds (2 ^ 64) then Raises (PyValueError ''Timeout is too large'')
      else Returns ())"

definition duration_of_timeout :: "'v py_extract \<Rightarrow> string \<Rightarrow> 'v \<Rightarrow> nat py_outcome" where
  "duration_of_timeout px refusal v =
     (case ext_f64 px v of
        Some seconds \<Rightarrow> obind (validate_timeout_seconds seconds) (\<lambda>_. duration_from_secs_f64 seconds)
      | None \<Rightarrow>
     (case ext_u64 px v of
        Some seconds \<Rightarrow>
          obind (validate_timeout_seconds (f64_of_int (uint seconds))) (\<lambda>_. Returns (duration_from_secs seconds))
      | None \<Rightarrow>
     (case ext_i64 px v of
        Some seconds \<Rightarrow>
          obind (validate_timeout_seconds (f64_of_int seconds)) (\<lambda>_.
            Returns (duration_from_secs (word_of_int seconds)))
      | None \<Rightarrow>
          obind (of_result (timedelta_type px)) (\<lambda>_.
          obind (of_result (is_timedelta px v)) (\<lambda>yes.
          if yes
          then obind (of_result (total_seconds px v)) (\<lambda>seconds.
               obind (validate_timeout_seconds seconds) (\<lambda>_. duration_from_secs_f64 seconds))
          else Raises (PyValueError refusal))))))"

definition duration_from_py_timeout :: "'v py_extract \<Rightarrow> 'v \<Rightarrow> nat py_outcome" where
  "duration_from_py_timeout px v =
     duration_of_timeout px ''Timeout must be a number (seconds) or datetime.timedelta object'' v"

definition normalize_timeout_to_ms :: "'v py_extract \<Rightarrow> 'v option \<Rightarrow> u64 option py_outcome" where
  "normalize_timeout_to_ms px timeout =
     (case timeout of
        None \<Rightarrow> Returns None
      | Some v \<Rightarrow>
          obind (duration_of_timeout px ''Timeout must be a number (seconds), datetime.timedelta, or None'' v)
            (\<lambda>duration. Returns (Some (duration_to_u64_ms duration))))"

definition SUGGESTED_FORCE_KILL_GRACE :: nat where
  "SUGGESTED_FORCE_KILL_GRACE = 100 * 1000000"

section \<open>The inspector\<close>

text \<open>\<open>str::trim\<close> leaves nothing: every character has the \<open>White_Space\<close> property (in UTF-8).\<close>

fun blank :: "nat list \<Rightarrow> bool" where
  "blank [] = True"
| "blank (a # bs) =
     (if 9 \<le> a \<and> a \<le> 13 \<or> a = 32 then blank bs
      else case bs of
        b # cs \<Rightarrow>
          if a = 0xC2 \<and> (b = 0x85 \<or> b = 0xA0) then blank cs
          else (case cs of
            c # ds \<Rightarrow>
              if a = 0xE1 \<and> b = 0x9A \<and> c = 0x80
                 \<or> a = 0xE2 \<and> b = 0x80 \<and> (0x80 \<le> c \<and> c \<le> 0x8A \<or> c = 0xA8 \<or> c = 0xA9 \<or> c = 0xAF)
                 \<or> a = 0xE2 \<and> b = 0x81 \<and> c = 0x9F
                 \<or> a = 0xE3 \<and> b = 0x80 \<and> c = 0x80
              then blank ds else False
          | [] \<Rightarrow> False)
      | [] \<Rightarrow> False)"

definition trim_empty :: "string \<Rightarrow> bool" where
  "trim_empty s = blank (map of_char s)"

text \<open>\<open>parse\<close> is \<open>str::parse::<SocketAddr>\<close>.\<close>

definition parse_socket_addr :: "(string \<Rightarrow> string + 'a) \<Rightarrow> string \<Rightarrow> 16 word \<Rightarrow> 'a py_outcome" where
  "parse_socket_addr parse host port =
     (if trim_empty host then Raises (PyValueError ''Inspector host cannot be empty'')
      else if port = 0 then Raises (PyValueError ''Inspector port must be a positive integer'')
      else
        let candidate = (if contains '':'' host \<and> \<not> starts_with ''['' host
                         then ''['' @ host @ '']:'' @ show_word port else host @ '':'' @ show_word port)
        in case parse candidate of
             Inr a \<Rightarrow> Returns a
           | Inl err \<Rightarrow> Raises (PyValueError (''Invalid inspector address '' @ [CHR 0x27] @ candidate
               @ [CHR 0x27] @ '': '' @ err)))"

record 'a inspector_config =
  ins_address :: 'a
  ins_wait_for_connection :: bool
  ins_break_on_next_statement :: bool
  ins_target_url :: "string option"
  ins_display_name :: "string option"

definition inspector_config_new ::
  "(string \<Rightarrow> string + 'a) \<Rightarrow> string \<Rightarrow> 16 word \<Rightarrow> bool \<Rightarrow> bool \<Rightarrow> string option \<Rightarrow> string option
    \<Rightarrow> 'a inspector_config py_outcome" where
  "inspector_config_new parse host port wait brk url name =
     obind (parse_socket_addr parse host port) (\<lambda>address.
     Returns \<lparr>ins_address = address, ins_wait_for_connection = wait, ins_break_on_next_statement = brk,
       ins_target_url = url, ins_display_name = name\<rparr>)"

section \<open>The configuration\<close>

record ('v, 'a) runtime_config =
  max_heap_size :: "nat option"
  initial_heap_size :: "nat option"
  execution_timeout :: "nat option"
  bootstrap_script :: "string option"
  enable_console :: "bool option"
  on_console :: "'v option"
  inspector :: "'a inspector_config option"
  snapshot_bytes :: "bytes option"
  max_serialization_depth :: nat
  max_serialization_bytes :: nat
  force_kill_grace :: "nat option"

definition runtime_config_default :: "('v, 'a) runtime_config" where
  "runtime_config_default = \<lparr>max_heap_size = None, initial_heap_size = None, execution_timeout = None,
     bootstrap_script = None, enable_console = Some False, on_console = None, inspector = None,
     snapshot_bytes = None, max_serialization_depth = MAX_JS_DEPTH, max_serialization_bytes = MAX_JS_BYTES,
     force_kill_grace = None\<rparr>"

definition config_limits :: "('v, 'a) runtime_config \<Rightarrow> serialization_limits" where
  "config_limits c = \<lparr>lim_depth = max_serialization_depth c, lim_bytes = max_serialization_bytes c\<rparr>"

definition validate_serialization_depth :: "nat \<Rightarrow> unit py_outcome" where
  "validate_serialization_depth depth =
     (if depth = 0 then Raises (PyValueError ''max_serialization_depth must be a positive integer'') else Returns ())"

definition validate_serialization_bytes :: "nat \<Rightarrow> unit py_outcome" where
  "validate_serialization_bytes n =
     (if n = 0 then Raises (PyValueError ''max_serialization_bytes must be a positive integer'') else Returns ())"

definition check_callable :: "'v py_extract \<Rightarrow> 'v \<Rightarrow> unit py_outcome" where
  "check_callable px v =
     (if is_callable px v then Returns () else Raises (PyValueError ''on_console must be callable''))"

definition snapshot_from_py :: "'v py_extract \<Rightarrow> 'v \<Rightarrow> bytes py_outcome" where
  "snapshot_from_py px v =
     obind (of_result (ext_bytes px v)) (\<lambda>bs.
     if bs = [] then Raises (PyValueError ''Snapshot bytes cannot be empty'') else Returns bs)"

text \<open>One \<open>if let Some(x) = argument\<close> of the constructor.\<close>

definition given :: "'x option \<Rightarrow> ('x \<Rightarrow> 'c \<Rightarrow> 'c py_outcome) \<Rightarrow> 'c \<Rightarrow> 'c py_outcome" where
  "given arg f c = (case arg of None \<Rightarrow> Returns c | Some x \<Rightarrow> f x c)"

definition set_max_heap_size :: "nat \<Rightarrow> ('v, 'a) runtime_config \<Rightarrow> ('v, 'a) runtime_config py_outcome" where
  "set_max_heap_size n c = Returns (c\<lparr>max_heap_size := Some n\<rparr>)"

definition set_initial_heap_size :: "nat \<Rightarrow> ('v, 'a) runtime_config \<Rightarrow> ('v, 'a) runtime_config py_outcome" where
  "set_initial_heap_size n c = Returns (c\<lparr>initial_heap_size := Some n\<rparr>)"

definition set_bootstrap :: "string \<Rightarrow> ('v, 'a) runtime_config \<Rightarrow> ('v, 'a) runtime_config py_outcome" where
  "set_bootstrap source c =
     (if snapshot_bytes c \<noteq> None then Raises (PyValueError ''snapshot and bootstrap cannot be used together'')
      else Returns (c\<lparr>bootstrap_script := Some source\<rparr>))"

definition set_timeout :: "'v py_extract \<Rightarrow> 'v \<Rightarrow> ('v, 'a) runtime_config \<Rightarrow> ('v, 'a) runtime_config py_outcome" where
  "set_timeout px v c = obind (duration_from_py_timeout px v) (\<lambda>d. Returns (c\<lparr>execution_timeout := Some d\<rparr>))"

definition set_on_console ::
  "'v py_extract \<Rightarrow> 'v option \<Rightarrow> ('v, 'a) runtime_config \<Rightarrow> ('v, 'a) runtime_config py_outcome" where
  "set_on_console px callback c =
     obind (case callback of Some cb \<Rightarrow> check_callable px cb | None \<Rightarrow> Returns ()) (\<lambda>_.
     Returns (c\<lparr>on_console := callback\<rparr>))"

definition set_inspector ::
  "'a inspector_config option \<Rightarrow> ('v, 'a) runtime_config \<Rightarrow> ('v, 'a) runtime_config py_outcome" where
  "set_inspector i c = Returns (c\<lparr>inspector := i\<rparr>)"

definition set_snapshot ::
  "'v py_extract \<Rightarrow> 'v option \<Rightarrow> ('v, 'a) runtime_config \<Rightarrow> ('v, 'a) runtime_config py_outcome" where
  "set_snapshot px data c =
     (case data of
        None \<Rightarrow> Returns (c\<lparr>snapshot_bytes := None\<rparr>)
      | Some v \<Rightarrow>
          if bootstrap_script c \<noteq> None then Raises (PyValueError ''snapshot and bootstrap cannot be used together'')
          else obind (snapshot_from_py px v) (\<lambda>bs. Returns (c\<lparr>snapshot_bytes := Some bs\<rparr>)))"

definition set_max_serialization_depth :: "nat \<Rightarrow> ('v, 'a) runtime_config \<Rightarrow> ('v, 'a) runtime_config py_outcome" where
  "set_max_serialization_depth n c =
     obind (validate_serialization_depth n) (\<lambda>_. Returns (c\<lparr>max_serialization_depth := n\<rparr>))"

definition set_max_serialization_bytes :: "nat \<Rightarrow> ('v, 'a) runtime_config \<Rightarrow> ('v, 'a) runtime_config py_outcome" where
  "set_max_serialization_bytes n c =
     obind (validate_serialization_bytes n) (\<lambda>_. Returns (c\<lparr>max_serialization_bytes := n\<rparr>))"

definition set_force_kill_grace ::
  "'v py_extract \<Rightarrow> 'v option \<Rightarrow> ('v, 'a) runtime_config \<Rightarrow> ('v, 'a) runtime_config py_outcome" where
  "set_force_kill_grace px grace c =
     (case grace of
        Some v \<Rightarrow> obind (duration_from_py_timeout px v) (\<lambda>d. Returns (c\<lparr>force_kill_grace := Some d\<rparr>))
      | None \<Rightarrow> Returns (c\<lparr>force_kill_grace := None\<rparr>))"

record ('v, 'a) config_args =
  arg_max_heap_size :: "nat option"
  arg_initial_heap_size :: "nat option"
  arg_bootstrap :: "string option"
  arg_timeout :: "'v option"
  arg_enable_console :: "bool option"
  arg_on_console :: "'v option"
  arg_inspector :: "'a inspector_config option"
  arg_snapshot :: "'v option"
  arg_depth :: "nat option"
  arg_bytes :: "nat option"
  arg_grace :: "'v option"

definition runtime_config_new :: "'v py_extract \<Rightarrow> ('v, 'a) config_args \<Rightarrow> ('v, 'a) runtime_config py_outcome" where
  "runtime_config_new px a =
     (if arg_bootstrap a \<noteq> None \<and> arg_snapshot a \<noteq> None
      then Raises (PyValueError ''snapshot and bootstrap cannot be used together'')
      else
        obind (given (arg_max_heap_size a) set_max_heap_size
          (runtime_config_default\<lparr>inspector := arg_inspector a\<rparr>)) (\<lambda>c.
        obind (given (arg_initial_heap_size a) set_initial_heap_size c) (\<lambda>c.
        obind (given (arg_bootstrap a) (\<lambda>s c. Returns (c\<lparr>bootstrap_script := Some s\<rparr>)) c) (\<lambda>c.
        obind (given (arg_timeout a) (set_timeout px) c) (\<lambda>c.
        obind (given (arg_enable_console a) (\<lambda>b c. Returns (c\<lparr>enable_console := Some b\<rparr>)) c) (\<lambda>c.
        obind (given (arg_on_console a) (\<lambda>cb. set_on_console px (Some cb)) c) (\<lambda>c.
        obind (given (arg_snapshot a) (\<lambda>v c. obind (snapshot_from_py px v) (\<lambda>bs.
          Returns (c\<lparr>snapshot_bytes := Some bs\<rparr>))) c) (\<lambda>c.
        obind (given (arg_depth a) set_max_serialization_depth c) (\<lambda>c.
        obind (given (arg_bytes a) set_max_serialization_bytes c) (\<lambda>c.
        given (arg_grace a) (\<lambda>v. set_force_kill_grace px (Some v)) c))))))))))"

section \<open>Laws\<close>

definition config_ok :: "'v py_extract \<Rightarrow> ('v, 'a) runtime_config \<Rightarrow> bool" where
  "config_ok px c \<longleftrightarrow> (bootstrap_script c = None \<or> snapshot_bytes c = None)
     \<and> 0 < max_serialization_depth c \<and> 0 < max_serialization_bytes c
     \<and> snapshot_bytes c \<noteq> Some []
     \<and> (\<forall>cb. on_console c = Some cb \<longrightarrow> is_callable px cb)
     \<and> (\<forall>d. execution_timeout c = Some d \<longrightarrow> d \<le> duration_max)
     \<and> (\<forall>d. force_kill_grace c = Some d \<longrightarrow> d \<le> duration_max)"

lemma duration_from_secs_f64_le: "duration_from_secs_f64 f = Returns d \<Longrightarrow> d \<le> duration_max"
  by (cases f) (auto simp: Let_def duration_max_def split: if_splits)

lemma duration_from_secs_le: "duration_from_secs s \<le> duration_max"
proof -
  have "unat s < 2 ^ 64" using unsigned_less [of s] by simp
  then have "unat s \<le> 2 ^ 64 - 1" by linarith
  then have "unat s * 1000000000 \<le> (2 ^ 64 - 1) * 1000000000" by (rule mult_le_mono1)
  then show ?thesis unfolding duration_from_secs_def duration_max_def by linarith
qed

lemma duration_of_timeout_le: "duration_of_timeout px r v = Returns d \<Longrightarrow> d \<le> duration_max"
  unfolding duration_of_timeout_def
  by (auto simp: obind_Returns intro: duration_from_secs_f64_le duration_from_secs_le
      split: option.splits if_splits)

lemma default_ok: "config_ok px (runtime_config_default\<lparr>inspector := i\<rparr>)"
  by (simp add: config_ok_def runtime_config_default_def MAX_JS_DEPTH_def MAX_JS_BYTES_def)

text \<open>A step of the configuration that keeps it well formed whenever it returns.\<close>

definition config_keeps :: "'v py_extract \<Rightarrow> (('v, 'a) runtime_config \<Rightarrow> ('v, 'a) runtime_config py_outcome) \<Rightarrow> bool" where
  "config_keeps px f \<longleftrightarrow> (\<forall>c c'. config_ok px c \<longrightarrow> f c = Returns c' \<longrightarrow> config_ok px c')"

lemma setters_keep:
  "config_keeps px (set_max_heap_size n)" "config_keeps px (set_initial_heap_size n)"
  "config_keeps px (set_bootstrap s)" "config_keeps px (set_timeout px v)"
  "config_keeps px (set_on_console px cb)" "config_keeps px (set_inspector i)"
  "config_keeps px (set_snapshot px data)" "config_keeps px (set_max_serialization_depth n)"
  "config_keeps px (set_max_serialization_bytes n)" "config_keeps px (set_force_kill_grace px g)"
  by (auto simp: config_keeps_def config_ok_def set_max_heap_size_def set_initial_heap_size_def set_bootstrap_def
      set_timeout_def set_on_console_def set_inspector_def set_snapshot_def set_max_serialization_depth_def
      set_max_serialization_bytes_def set_force_kill_grace_def obind_Returns check_callable_def snapshot_from_py_def
      validate_serialization_depth_def validate_serialization_bytes_def duration_from_py_timeout_def
      dest: duration_of_timeout_le split: option.splits if_splits)

inductive config_step :: "'v py_extract \<Rightarrow> ('v, 'a) runtime_config \<Rightarrow> ('v, 'a) runtime_config \<Rightarrow> bool" for px where
  max_heap: "set_max_heap_size n c = Returns c' \<Longrightarrow> config_step px c c'"
| initial_heap: "set_initial_heap_size n c = Returns c' \<Longrightarrow> config_step px c c'"
| bootstrap: "set_bootstrap s c = Returns c' \<Longrightarrow> config_step px c c'"
| timeout: "set_timeout px v c = Returns c' \<Longrightarrow> config_step px c c'"
| console: "set_on_console px cb c = Returns c' \<Longrightarrow> config_step px c c'"
| inspector: "set_inspector i c = Returns c' \<Longrightarrow> config_step px c c'"
| snapshot: "set_snapshot px data c = Returns c' \<Longrightarrow> config_step px c c'"
| depth: "set_max_serialization_depth n c = Returns c' \<Longrightarrow> config_step px c c'"
| bytes: "set_max_serialization_bytes n c = Returns c' \<Longrightarrow> config_step px c c'"
| grace: "set_force_kill_grace px g c = Returns c' \<Longrightarrow> config_step px c c'"

lemma config_step_ok: "config_step px c c' \<Longrightarrow> config_ok px c \<Longrightarrow> config_ok px c'"
  by (induction rule: config_step.induct) (blast intro: setters_keep [unfolded config_keeps_def, rule_format])+

lemma given_Returns:
  "given arg f c = Returns c' \<longleftrightarrow> (arg = None \<and> c' = c) \<or> (\<exists>x. arg = Some x \<and> f x c = Returns c')"
  by (auto simp: given_def split: option.split)

lemma given_ok:
  assumes "given arg f c = Returns c'" "config_ok px c" "\<And>x. arg = Some x \<Longrightarrow> config_keeps px (f x)"
  shows "config_ok px c'"
  using assms unfolding given_Returns config_keeps_def by blast

lemma config_new_ok:
  assumes "runtime_config_new px a = Returns c"
  shows "config_ok px c"
proof -
  from assms obtain c1 c2 c3 c4 c5 c6 c7 c8 c9 where
    excl: "arg_bootstrap a = None \<or> arg_snapshot a = None"
    and s: "given (arg_max_heap_size a) set_max_heap_size (runtime_config_default\<lparr>inspector := arg_inspector a\<rparr>) = Returns c1"
      "given (arg_initial_heap_size a) set_initial_heap_size c1 = Returns c2"
      "given (arg_bootstrap a) (\<lambda>s c. Returns (c\<lparr>bootstrap_script := Some s\<rparr>)) c2 = Returns c3"
      "given (arg_timeout a) (set_timeout px) c3 = Returns c4"
      "given (arg_enable_console a) (\<lambda>b c. Returns (c\<lparr>enable_console := Some b\<rparr>)) c4 = Returns c5"
      "given (arg_on_console a) (\<lambda>cb. set_on_console px (Some cb)) c5 = Returns c6"
      "given (arg_snapshot a) (\<lambda>v c. obind (snapshot_from_py px v) (\<lambda>bs. Returns (c\<lparr>snapshot_bytes := Some bs\<rparr>))) c6 = Returns c7"
      "given (arg_depth a) set_max_serialization_depth c7 = Returns c8"
      "given (arg_bytes a) set_max_serialization_bytes c8 = Returns c9"
      "given (arg_grace a) (\<lambda>v. set_force_kill_grace px (Some v)) c9 = Returns c"
    unfolding runtime_config_new_def obind_Returns by (auto simp: obind_Returns split: if_splits)
  have sn: "snapshot_bytes c2 = None"
    using s(1,2) by (auto simp: given_Returns set_max_heap_size_def set_initial_heap_size_def runtime_config_default_def)
  have "config_ok px c2" by (rule given_ok [OF s(2) given_ok [OF s(1) default_ok]]) (rule setters_keep)+
  then have 3: "config_ok px c3" using s(3) sn by (auto simp: given_Returns config_ok_def)
  have b3: "arg_snapshot a = Some v \<Longrightarrow> bootstrap_script c3 = None" for v
    using s(1-3) excl by (auto simp: given_Returns set_max_heap_size_def set_initial_heap_size_def runtime_config_default_def)
  have 4: "config_ok px c4" by (rule given_ok [OF s(4) 3]) (rule setters_keep)
  have 5: "config_ok px c5" using s(5) 4 by (auto simp: given_Returns config_ok_def)
  have 6: "config_ok px c6" by (rule given_ok [OF s(6) 5]) (rule setters_keep)
  have "bootstrap_script c6 = bootstrap_script c3"
    using s(4-6) by (auto simp: given_Returns set_timeout_def set_on_console_def obind_Returns)
  then have 7: "config_ok px c7"
    using s(7) 6 b3 by (auto simp: given_Returns config_ok_def obind_Returns snapshot_from_py_def split: if_splits)
  have "config_ok px c9" by (rule given_ok [OF s(9) given_ok [OF s(8) 7]]) (rule setters_keep)+
  then show ?thesis using s(10) setters_keep(10) given_ok by metis
qed

section \<open>Properties\<close>

text \<open>
  C40  A configuration that the constructor returns, and every one that its setters make of it, has at
  most one of bootstrap script and snapshot, a snapshot that is not empty, positive serialization
  limits, a console callback that can be called, and durations in range.
\<close>

theorem config_always_ok:
  assumes "runtime_config_new px a = Returns c" "(config_step px)\<^sup>*\<^sup>* c c'"
  shows "config_ok px c'"
  using assms(2) by (induction rule: rtranclp_induct) (auto simp: config_new_ok [OF assms(1)] intro: config_step_ok)

definition sample_extract :: "f64 py_extract" where
  "sample_extract = \<lparr>ext_f64 = Some, ext_u64 = (\<lambda>_. None), ext_i64 = (\<lambda>_. None), timedelta_type = Inr (),
     is_timedelta = (\<lambda>_. Inr False), total_seconds = (\<lambda>_. Inr NaN), ext_bytes = (\<lambda>_. Inr [1]),
     is_callable = (\<lambda>_. False)\<rparr>"

definition no_args :: "(f64, string) config_args" where
  "no_args = \<lparr>arg_max_heap_size = None, arg_initial_heap_size = None, arg_bootstrap = Some ''x'', arg_timeout = None,
     arg_enable_console = None, arg_on_console = None, arg_inspector = None, arg_snapshot = None, arg_depth = Some 7,
     arg_bytes = None, arg_grace = None\<rparr>"

theorem config_always_ok_witness:
  "\<exists>c. runtime_config_new sample_extract no_args = Returns c \<and> max_serialization_depth c = 7 \<and> config_ok sample_extract c"
proof -
  obtain c where c: "runtime_config_new sample_extract no_args = Returns c" "max_serialization_depth c = 7"
    by (simp add: runtime_config_new_def no_args_def given_def set_max_serialization_depth_def
        validate_serialization_depth_def)
  with config_always_ok [OF c(1) rtranclp.rtrancl_refl] show ?thesis by blast
qed

lemma round_half_even_le: "x \<le> of_int n \<Longrightarrow> round_half_even x \<le> n"
proof -
  assume x: "x \<le> of_int n"
  then have f: "\<lfloor>x\<rfloor> \<le> n" by (meson floor_mono floor_of_int order_trans le_floor_iff of_int_le_iff of_int_floor_le)
  show ?thesis
  proof (cases "\<lfloor>x\<rfloor> = n")
    case True
    then have "x = of_int n" using x of_int_floor_le [of x] by linarith
    then show ?thesis by simp
  next
    case False
    with f show ?thesis by (simp add: round_half_even_def Let_def)
  qed
qed

lemma seconds_fit: "0 < q \<Longrightarrow> q \<le> 2 ^ 64 - 1 \<Longrightarrow>
  duration_from_secs_f64 (Fin q) = Returns (nat (round_half_even (q * 1000000000)))"
proof -
  assume q: "0 < q" "q \<le> 2 ^ 64 - 1"
  have "round_half_even (q * 1000000000) \<le> (2 ^ 64 - 1) * 1000000000"
    by (rule round_half_even_le) (use q(2) in simp)
  then have "\<not> int duration_max < round_half_even (q * 1000000000)" by (simp add: duration_max_def)
  with q(1) show ?thesis by (simp add: Let_def)
qed

text \<open>
  C32  A number of seconds above 0 and below the largest \<open>u64\<close> bounds the call by that time, rounded to
  nanoseconds and cut to whole milliseconds; NaN, an infinity, zero, a negative number and one above
  \<open>2 ^ 64\<close> are a \<open>ValueError\<close>.
\<close>

theorem timeout_normalized:
  assumes "ext_f64 px v = Some f"
  shows "(\<forall>q. f = Fin q \<and> 0 < q \<and> q \<le> 2 ^ 64 - 1 \<longrightarrow>
       (\<exists>ms. normalize_timeout_to_ms px (Some v) = Returns (Some ms)
          \<and> unat ms = min (nat (round_half_even (q * 1000000000)) div 1000000) (2 ^ 64 - 1)))
    \<and> (\<not> f64_is_finite f \<or> f64_less f 0 \<or> f64_eq_zero f \<or> f64_greater f (2 ^ 64)
         \<longrightarrow> (\<exists>m. normalize_timeout_to_ms px (Some v) = Raises (PyValueError m)))"
proof (intro conjI allI impI)
  fix q assume q: "f = Fin q \<and> 0 < q \<and> q \<le> 2 ^ 64 - 1"
  then have "validate_timeout_seconds f = Returns ()"
    by (auto simp: validate_timeout_seconds_def f64_eq_zero_def)
  with q assms show "\<exists>ms. normalize_timeout_to_ms px (Some v) = Returns (Some ms)
      \<and> unat ms = min (nat (round_half_even (q * 1000000000)) div 1000000) (2 ^ 64 - 1)"
    by (simp add: normalize_timeout_to_ms_def duration_of_timeout_def seconds_fit unat_duration_to_u64_ms
        del: duration_from_secs_f64.simps)
next
  assume "\<not> f64_is_finite f \<or> f64_less f 0 \<or> f64_eq_zero f \<or> f64_greater f (2 ^ 64)"
  then have "\<exists>m. validate_timeout_seconds f = Raises (PyValueError m)"
    by (auto simp: validate_timeout_seconds_def)
  with assms show "\<exists>m. normalize_timeout_to_ms px (Some v) = Raises (PyValueError m)"
    by (auto simp: normalize_timeout_to_ms_def duration_of_timeout_def)
qed

theorem timeout_normalized_witness:
  "\<exists>ms. normalize_timeout_to_ms sample_extract (Some (Fin 2)) = Returns (Some ms) \<and> unat ms = 2000"
proof -
  have "round_half_even (2 * 1000000000) = 2000000000"
    using round_half_even_of_int [of 2000000000] by simp
  with timeout_normalized [of sample_extract "Fin 2" "Fin 2", THEN conjunct1, rule_format, of 2]
  show ?thesis by (simp add: sample_extract_def)
qed

text \<open>
  Two boundary cases the checks let through: \<open>2 ^ 64\<close> seconds are not ``too large'' but do not fit a
  \<open>Duration\<close>, and a positive timeout below a millisecond becomes a timeout of zero.
\<close>

lemma timeout_2_64_panics:
  "ext_f64 px v = Some (Fin (2 ^ 64)) \<Longrightarrow> normalize_timeout_to_ms px (Some v) = Panic"
proof -
  have "round_half_even (2 ^ 64 * 1000000000) = 2 ^ 64 * 1000000000"
    using round_half_even_of_int [of "2 ^ 64 * 1000000000"] by simp
  then show "ext_f64 px v = Some (Fin (2 ^ 64)) \<Longrightarrow> ?thesis"
    by (simp add: normalize_timeout_to_ms_def duration_of_timeout_def validate_timeout_seconds_def f64_eq_zero_def
        duration_max_def)
qed

lemma timeout_below_ms_is_zero:
  "ext_f64 px v = Some (Fin (1 / 10000)) \<Longrightarrow> normalize_timeout_to_ms px (Some v) = Returns (Some 0)"
proof -
  have "round_half_even (1 / 10000 * 1000000000) = 100000"
    using round_half_even_of_int [of 100000] by simp
  then show "ext_f64 px v = Some (Fin (1 / 10000)) \<Longrightarrow> ?thesis"
    by (simp add: normalize_timeout_to_ms_def duration_of_timeout_def validate_timeout_seconds_def f64_eq_zero_def
        duration_max_def duration_to_u64_ms_def as_millis_def)
qed

end
