(* ===== verification/Peno_Core.thy ===== *)
theory Peno_Core
  imports Peno_V8Conv Peno_OpsLaws Peno_Stats Peno_Loader Peno_Config
begin

text \<open>
  \<open>RuntimeCoreState\<close> (\<open>src/runtime/runner.rs\<close>): the state that the runtime thread owns, and its
  operations up to and including the synchronous entry points.  \<open>deno_core\<close>'s \<open>JsRuntime\<close>, the
  watchdog threads, the clock and the inspector server are the record \<open>js_engine\<close>: every call threads
  the world \<open>'w\<close> and may run guest code.  After each such call \<open>js_others\<close> tells what the other
  threads did meanwhile to the two records they share with the core, the termination record and the
  registry of Python streams.  Nothing is assumed of an engine, so a world may be the list of the
  answers that a particular run got.
\<close>

section \<open>The engine\<close>

datatype promise_state = PromisePending | PromiseFulfilled | PromiseRejected

text \<open>
  \<open>Function::call\<close> under a \<open>TryCatch\<close>: the value, or the caught exception, or no value and no
  exception (as when V8 is terminating).
\<close>

datatype 'h call_outcome = CallReturned 'h | CallThrew 'h | CallFailed

text \<open>
  A watchdog thread is a handle; joining it tells whether it fired (\<open>None\<close>: it panicked).  \<open>js_debug\<close> is the derived
  \<open>Debug\<close> rendering.  Texts in \<open>Inl\<close> are the \<open>Display\<close> of the errors of \<open>url\<close>, \<open>std::thread\<close>, \<open>deno_core\<close> and the inspector.
\<close>

record ('h, 'w) js_engine =
  js_v8 :: "('h, 'w) v8_engine"
  js_now :: "'w \<Rightarrow> nat"
  js_others :: "'w \<Rightarrow> termination_state \<times> py_stream_registry \<Rightarrow> termination_state \<times> py_stream_registry"
  js_rng :: "nat \<Rightarrow> u64"
  js_debug :: "js_value option \<Rightarrow> string"
  js_execute_script :: "string \<Rightarrow> string \<Rightarrow> 'w \<Rightarrow> (js_error + 'h) \<times> 'w"
  js_poll_event_loop :: "'w \<Rightarrow> (core_error + unit) option \<times> 'w"
  js_run_event_loop :: "'w \<Rightarrow> (core_error + unit) \<times> 'w"
  js_parse_url :: "string \<Rightarrow> string + string"
  js_join_url :: "string \<Rightarrow> string \<Rightarrow> string + string"
  js_load_main_es_module :: "string \<Rightarrow> 'w \<Rightarrow> (string + nat) \<times> 'w"
  js_mod_evaluate :: "nat \<Rightarrow> 'w \<Rightarrow> nat \<times> 'w"
  js_poll_receiver :: "nat \<Rightarrow> 'w \<Rightarrow> (core_error + unit) option \<times> 'w"
  js_await_receiver :: "nat \<Rightarrow> 'w \<Rightarrow> (core_error + unit) \<times> 'w"
  js_module_namespace :: "nat \<Rightarrow> 'w \<Rightarrow> (string + 'h) \<times> 'w"
  js_call :: "'h \<Rightarrow> 'h \<Rightarrow> 'h list \<Rightarrow> 'w \<Rightarrow> 'h call_outcome \<times> 'w"
  js_microtask_checkpoint :: "'w \<Rightarrow> unit \<times> 'w"
  js_promise_state :: "'h \<Rightarrow> 'w \<Rightarrow> promise_state"
  js_promise_result :: "'h \<Rightarrow> 'w \<Rightarrow> 'h"
  js_new_resolver :: "'w \<Rightarrow> 'h option \<times> 'w"
  js_resolve :: "'h \<Rightarrow> 'h \<Rightarrow> 'w \<Rightarrow> unit \<times> 'w"
  js_get_promise :: "'h \<Rightarrow> 'w \<Rightarrow> 'h"
  js_from_v8_exception :: "'h \<Rightarrow> 'w \<Rightarrow> js_error \<times> 'w"
  js_wait_for_session :: "bool \<Rightarrow> 'w \<Rightarrow> unit \<times> 'w"
  js_new_runtime :: "(nat \<times> nat) option \<Rightarrow> bool \<Rightarrow> bytes option \<Rightarrow> 'w \<Rightarrow> unit \<times> 'w"
  js_inspector_bind :: "string \<Rightarrow> 'w \<Rightarrow> (string + unit) \<times> 'w"
  js_inspector_register :: "string option \<Rightarrow> string option \<Rightarrow> bool \<Rightarrow> 'w \<Rightarrow> (string + unit) \<times> 'w"
  js_heap_statistics :: "'w \<Rightarrow> heap_snapshot"
  js_activity :: "'w \<Rightarrow> unit runtime_activity list"
  js_watchdog_spawn :: "nat \<Rightarrow> string \<Rightarrow> 'w \<Rightarrow> (string + nat) \<times> 'w"
  js_watchdog_join :: "nat \<Rightarrow> 'w \<Rightarrow> bool option \<times> 'w"

section \<open>The state\<close>

text \<open>An \<open>Instant\<close> is the number of nanoseconds on the clock \<open>js_now\<close>.\<close>

record 'h pending_call =
  pc_promise :: 'h
  pc_start_time :: nat
  pc_deadline :: "nat option"
  pc_timeout_ms :: "u64 option"

datatype function_call_result = Immediate js_value | PendingCall u64

record sync_watchdog =
  sw_handle :: nat
  sw_duration :: nat

record inspector_runtime_state =
  irs_wait_for_connection :: bool
  irs_break_on_next_statement :: bool
  irs_has_waited :: bool

text \<open>
  \<open>core_v8\<close> holds \<open>fn_registry\<close>, \<open>next_fn_id\<close> and \<open>js_stream_registry\<close> beside the world;
  \<open>core_global_locals\<close> is the entry \<open>GlobalTaskLocals\<close> of \<open>OpState\<close> (\<open>None\<close>: never put).  Python's task
  locals are opaque.
\<close>

record ('h, 'w) core_state =
  core_v8 :: "('h, 'w) v8_state"
  core_registry :: python_op_registry
  core_rng :: nat
  core_loader :: "nat module_loader"
  core_task_locals :: "nat option"
  core_global_locals :: "nat option option"
  core_execution_timeout :: "nat option"
  core_pending_calls :: "u64 \<rightharpoonup> 'h pending_call"
  core_next_call :: u64
  core_stats :: runtime_stats_state
  core_term :: termination_state
  core_terminated :: bool
  core_inspector :: "inspector_runtime_state option"
  core_limits :: serialization_limits
  core_py_streams :: py_stream_registry

type_synonym ('h, 'w, 'a) core_op = "(('h, 'w) core_state, runtime_error, 'a) comp"

abbreviation core_fns :: "('h, 'w) core_state \<Rightarrow> (u32 \<rightharpoonup> 'h stored_function)" where
  "core_fns c \<equiv> v8_fns (core_v8 c)"

abbreviation core_world :: "('h, 'w) core_state \<Rightarrow> 'w" where
  "core_world c \<equiv> v8_world (core_v8 c)"

abbreviation core_now :: "('h, 'w) js_engine \<Rightarrow> ('h, 'w) core_state \<Rightarrow> nat" where
  "core_now js c \<equiv> js_now js (core_world c)"

section \<open>Calling the engine\<close>

definition absorb :: "('h, 'w) js_engine \<Rightarrow> ('h, 'w) core_state \<Rightarrow> ('h, 'w) core_state" where
  "absorb js c =
     (case js_others js (core_world c) (core_term c, core_py_streams c) of
        (t, p) \<Rightarrow> c\<lparr>core_term := t, core_py_streams := p\<rparr>)"

definition ask_js :: "('h, 'w) js_engine \<Rightarrow> ('w \<Rightarrow> 'a \<times> 'w) \<Rightarrow> ('h, 'w, 'a) core_op" where
  "ask_js js f c =
     (case f (core_world c) of
        (a, w) \<Rightarrow> (Inr a, absorb js (c\<lparr>core_v8 := (core_v8 c)\<lparr>v8_world := w\<rparr>\<rparr>)))"

definition look_js :: "('w \<Rightarrow> 'a) \<Rightarrow> ('h, 'w, 'a) core_op" where
  "look_js f c = (Inr (f (core_world c)), c)"

text \<open>A computation on the world alone, on the stream registry, or on all that a converter writes.\<close>

definition in_world_of ::
  "('h, 'w) js_engine \<Rightarrow> ('w, runtime_error, 'a) comp \<Rightarrow> ('h, 'w, 'a) core_op" where
  "in_world_of js m c =
     (case m (core_world c) of
        (r, w) \<Rightarrow> (r, absorb js (c\<lparr>core_v8 := (core_v8 c)\<lparr>v8_world := w\<rparr>\<rparr>)))"

definition in_streams_of ::
  "('h, 'w) js_engine \<Rightarrow> ('h js_stream_registry \<times> 'w, runtime_error, 'a) comp \<Rightarrow> ('h, 'w, 'a) core_op" where
  "in_streams_of js m c =
     (case m (v8_streams (core_v8 c), core_world c) of
        (r, (s, w)) \<Rightarrow> (r, absorb js (c\<lparr>core_v8 := (core_v8 c)\<lparr>v8_streams := s, v8_world := w\<rparr>\<rparr>)))"

definition in_v8_of ::
  "('h, 'w) js_engine \<Rightarrow> (('h, 'w) v8_state, runtime_error, 'a) comp \<Rightarrow> ('h, 'w, 'a) core_op" where
  "in_v8_of js m c = (case m (core_v8 c) of (r, v) \<Rightarrow> (r, absorb js (c\<lparr>core_v8 := v\<rparr>)))"

definition convert_out :: "('h, 'w) js_engine \<Rightarrow> 'h \<Rightarrow> ('h, 'w, js_value) core_op" where
  "convert_out js v c = in_v8_of js (value_to_js_value (js_v8 js) (core_limits c) v) c"

definition convert_in :: "('h, 'w) js_engine \<Rightarrow> js_value \<Rightarrow> ('h, 'w, 'h) core_op" where
  "convert_in js v c = in_world_of js (js_value_to_v8 (js_v8 js) (core_fns c) v) c"

section \<open>Termination\<close>

definition should_reject_new_work :: "('h, 'w) core_state \<Rightarrow> bool" where
  "should_reject_new_work c \<longleftrightarrow> core_terminated c \<or> is_requested (core_term c)"

definition core_terminated_error :: "('h, 'w) core_state \<Rightarrow> runtime_error" where
  "core_terminated_error c = terminated_error (core_term c)"

definition finalize_termination :: "('h, 'w) core_state \<Rightarrow> ('h, 'w) core_state" where
  "finalize_termination c =
     (if core_terminated c then c
      else c\<lparr>core_v8 := (core_v8 c)\<lparr>v8_fns := Map.empty\<rparr>,
             core_pending_calls := Map.empty,
             core_term := snd (mark_terminated (cancel_terminate_execution (core_term c))),
             core_terminated := True\<rparr>)"

definition translate_js_error :: "js_error \<Rightarrow> ('h, 'w) core_state \<Rightarrow> runtime_error \<times> ('h, 'w) core_state" where
  "translate_js_error err c =
     (let details = from_js_error err
      in if should_reject_new_work c \<and> js_error_indicates_termination details
         then (let c' = finalize_termination c in (core_terminated_error c', c'))
         else (JavaScript details, c))"

definition translate_core_error :: "core_error \<Rightarrow> ('h, 'w) core_state \<Rightarrow> runtime_error \<times> ('h, 'w) core_state" where
  "translate_core_error err c =
     (let error = from_core_error err
      in if should_reject_new_work c \<and> runtime_error_indicates_termination error
         then (let c' = finalize_termination c in (core_terminated_error c', c'))
         else (error, c))"

definition raise_js :: "js_error \<Rightarrow> ('h, 'w, 'a) core_op" where
  "raise_js err c = (case translate_js_error err c of (e, c') \<Rightarrow> (Inl e, c'))"

definition raise_core :: "core_error \<Rightarrow> ('h, 'w, 'a) core_op" where
  "raise_core err c = (case translate_core_error err c of (e, c') \<Rightarrow> (Inl e, c'))"

text \<open>\<open>map_err(|e| RuntimeError::internal(format!("{what}{e}")))\<close>\<close>

definition internally :: "string \<Rightarrow> string + 'a \<Rightarrow> runtime_error + 'a" where
  "internally what r = (case r of Inl e \<Rightarrow> Inl (Internal (what @ e)) | Inr a \<Rightarrow> Inr a)"

abbreviation quoted :: "string \<Rightarrow> string" where
  "quoted s \<equiv> [CHR 0x27] @ s @ [CHR 0x27]"

section \<open>Task locals, the inspector, timeouts\<close>

definition core_clear_task_locals :: "('h, 'w) core_state \<Rightarrow> ('h, 'w) core_state" where
  "core_clear_task_locals c =
     c\<lparr>core_task_locals := None, core_loader := clear_task_locals (core_loader c),
       core_global_locals := Some None\<rparr>"

definition ensure_inspector_ready :: "('h, 'w) js_engine \<Rightarrow> ('h, 'w, unit) core_op" where
  "ensure_inspector_ready js c =
     (case core_inspector c of
        None \<Rightarrow> (Inr (), c)
      | Some st \<Rightarrow>
          if irs_has_waited st then (Inr (), c)
          else sthen (if irs_wait_for_connection st \<or> irs_break_on_next_statement st
                      then ask_js js (js_wait_for_session js (irs_break_on_next_statement st))
                      else sret ())
                 (\<lambda>c'. (Inr (), c'\<lparr>core_inspector := Some (st\<lparr>irs_has_waited := True\<rparr>)\<rparr>)) c)"

definition effective_timeout_ms :: "('h, 'w) core_state \<Rightarrow> u64 option \<Rightarrow> u64 option" where
  "effective_timeout_ms c timeout_ms =
     (case timeout_ms of
        Some ms \<Rightarrow> Some ms
      | None \<Rightarrow> map_option duration_to_u64_ms (core_execution_timeout c))"

definition from_millis :: "u64 \<Rightarrow> nat" where
  "from_millis ms = unat ms * 1000000"

section \<open>Pending calls\<close>

definition store_pending_call ::
  "'h \<Rightarrow> nat \<Rightarrow> nat option \<Rightarrow> u64 option \<Rightarrow> ('h, 'w) core_state \<Rightarrow> u64 \<times> ('h, 'w) core_state" where
  "store_pending_call promise start deadline timeout_ms c =
     (let call_id = core_next_call c
      in (call_id, c\<lparr>core_next_call := call_id + 1,
            core_pending_calls := (core_pending_calls c)(call_id \<mapsto>
              \<lparr>pc_promise = promise, pc_start_time = start, pc_deadline = deadline, pc_timeout_ms = timeout_ms\<rparr>)\<rparr>))"

definition take_pending_call :: "u64 \<Rightarrow> ('h, 'w, 'h pending_call) core_op" where
  "take_pending_call call_id c =
     (case core_pending_calls c call_id of
        Some p \<Rightarrow> (Inr p, c\<lparr>core_pending_calls := (core_pending_calls c)(call_id := None)\<rparr>)
      | None \<Rightarrow> (Inl (Internal (''Pending function call '' @ show_word call_id @ '' not found'')), c))"

section \<open>Watchdogs\<close>

definition spawn_watchdog :: "('h, 'w) js_engine \<Rightarrow> nat \<Rightarrow> string \<Rightarrow> ('h, 'w, sync_watchdog) core_op" where
  "spawn_watchdog js duration r =
     sbind (ask_js js (js_watchdog_spawn js duration r)) (\<lambda>h.
     sbind (slift (internally ''Failed to spawn watchdog thread: '' h)) (\<lambda>handle.
     sret \<lparr>sw_handle = handle, sw_duration = duration\<rparr>))"

definition start_sync_watchdog :: "('h, 'w) js_engine \<Rightarrow> string \<Rightarrow> ('h, 'w, sync_watchdog option) core_op" where
  "start_sync_watchdog js r c =
     (case core_execution_timeout c of
        None \<Rightarrow> (Inr None, c)
      | Some duration \<Rightarrow> sbind (spawn_watchdog js duration r) (\<lambda>w. sret (Some w)) c)"

definition start_timeout_watchdog ::
  "('h, 'w) js_engine \<Rightarrow> u64 option \<Rightarrow> string \<Rightarrow> ('h, 'w, sync_watchdog option) core_op" where
  "start_timeout_watchdog js timeout_ms r =
     (case timeout_ms of
        None \<Rightarrow> sret None
      | Some ms \<Rightarrow> sbind (spawn_watchdog js (from_millis ms) r) (\<lambda>w. sret (Some w)))"

definition resolve_sync_watchdog ::
  "('h, 'w) js_engine \<Rightarrow> sync_watchdog \<Rightarrow> ('h, 'w, bool \<times> nat) core_op" where
  "resolve_sync_watchdog js w =
     sbind (ask_js js (js_watchdog_join js (sw_handle w))) (\<lambda>joined c.
     case joined of
       None \<Rightarrow> (Inl (Internal ''Watchdog thread panicked''), c)
     | Some fired \<Rightarrow>
         (Inr (fired, sw_duration w),
          if fired then c\<lparr>core_term := cancel_terminate_execution (core_term c)\<rparr> else c))"

definition apply_watchdog_result ::
  "('h, 'w) js_engine \<Rightarrow> 'a runtime_result \<Rightarrow> sync_watchdog option \<Rightarrow> string \<Rightarrow> ('h, 'w, 'a) core_op" where
  "apply_watchdog_result js result w context =
     (case w of
        None \<Rightarrow> slift result
      | Some w \<Rightarrow>
          sbind (resolve_sync_watchdog js w) (\<lambda>(fired, duration).
          slift (watchdog_verdict result fired duration context)))"


section \<open>Host ops\<close>

text \<open>\<open>None\<close>: the random source never yields an unused token.\<close>

definition register_python_op ::
  "('h, 'w) js_engine \<Rightarrow> string \<Rightarrow> python_op_mode \<Rightarrow> nat \<Rightarrow> ('h, 'w) core_state
    \<Rightarrow> (op_token \<times> ('h, 'w) core_state) option" where
  "register_python_op js name mode handler c =
     (case register (js_rng js) (core_rng c) name mode handler (core_registry c) of
        None \<Rightarrow> None
      | Some (tok, k, r) \<Rightarrow> Some (tok, c\<lparr>core_rng := k, core_registry := r\<rparr>))"

definition set_python_op_exposure ::
  "op_token \<Rightarrow> bool \<Rightarrow> ('h, 'w) core_state \<Rightarrow> bool \<times> ('h, 'w) core_state" where
  "set_python_op_exposure tok flag c =
     (case (if flag then expose tok (core_registry c) else revoke tok (core_registry c)) of
        (b, r) \<Rightarrow> (b, c\<lparr>core_registry := r\<rparr>))"

section \<open>Binding an object\<close>

datatype bound_property =
    BoundValue string js_value
  | BoundOp string op_token python_op_mode

fun bound_key :: "bound_property \<Rightarrow> string" where
  "bound_key (BoundValue key _) = key"
| "bound_key (BoundOp key _ _) = key"

fun bound_token :: "bound_property \<Rightarrow> op_token list" where
  "bound_token (BoundValue _ _) = []"
| "bound_token (BoundOp _ tok _) = [tok]"

fun mode_str :: "python_op_mode \<Rightarrow> string" where
  "mode_str python_op_mode.AsyncOp = ''async''"
| "mode_str python_op_mode.SyncOp = ''sync''"

definition v8_literal :: "('h, 'w) v8_engine \<Rightarrow> string \<Rightarrow> ('w, runtime_error, 'h) comp" where
  "v8_literal v8 s = ask_or (''Failed to allocate '' @ quoted s @ '' literal'') (v8_new_string v8 s)"

definition set_field ::
  "('h, 'w) v8_engine \<Rightarrow> 'h \<Rightarrow> 'h \<Rightarrow> 'h \<Rightarrow> string \<Rightarrow> ('w, runtime_error, unit) comp" where
  "set_field v8 obj key value refusal = sthen (ask_or refusal (v8_set v8 obj key value)) (sret ())"

definition bind_value ::
  "('h, 'w) v8_engine \<Rightarrow> (u32 \<rightharpoonup> 'h stored_function) \<Rightarrow> 'h \<Rightarrow> 'h \<Rightarrow> js_value \<Rightarrow> ('w, runtime_error, unit) comp" where
  "bind_value v8 fns obj kind value =
     sbind (ask_or ''Failed to allocate kind value'' (v8_new_string v8 ''value'')) (\<lambda>kind_value.
     sthen (set_field v8 obj kind kind_value ''Failed to set entry kind'')
    (sbind (v8_literal v8 ''value'') (\<lambda>lit.
     sbind (js_value_to_v8 v8 fns value) (\<lambda>v.
     set_field v8 obj lit v ''Failed to set entry value''))))"

definition bind_op ::
  "('h, 'w) v8_engine \<Rightarrow> 'h \<Rightarrow> 'h \<Rightarrow> op_token \<Rightarrow> python_op_mode \<Rightarrow> ('w, runtime_error, unit) comp" where
  "bind_op v8 obj kind tok mode =
     sbind (ask_or ''Failed to allocate kind value'' (v8_new_string v8 ''op'')) (\<lambda>kind_value.
     sthen (set_field v8 obj kind kind_value ''Failed to set entry kind'')
    (sbind (v8_literal v8 ''op_id'') (\<lambda>id_lit.
     sbind (ask (v8_new_number v8 (f64_of_int (uint tok)))) (\<lambda>id_value.
     sthen (set_field v8 obj id_lit id_value ''Failed to set op id'')
    (sbind (v8_literal v8 ''mode'') (\<lambda>mode_lit.
     sbind (ask_or ''Failed to allocate mode value'' (v8_new_string v8 (mode_str mode))) (\<lambda>mode_value.
     set_field v8 obj mode_lit mode_value ''Failed to set mode'')))))))"

definition bind_entry ::
  "('h, 'w) v8_engine \<Rightarrow> (u32 \<rightharpoonup> 'h stored_function) \<Rightarrow> 'h \<Rightarrow> u32 \<Rightarrow> bound_property
    \<Rightarrow> ('w, runtime_error, u32) comp" where
  "bind_entry v8 fns assignments index entry =
     sbind (ask (v8_new_object v8)) (\<lambda>obj.
     sbind (v8_literal v8 ''key'') (\<lambda>key_lit.
     sbind (ask_or ''Failed to allocate property name'' (v8_new_string v8 (bound_key entry))) (\<lambda>key_value.
     sthen (set_field v8 obj key_lit key_value ''Failed to set entry key'')
    (sbind (v8_literal v8 ''kind'') (\<lambda>kind_lit.
     sthen (case entry of
              BoundValue _ value \<Rightarrow> bind_value v8 fns obj kind_lit value
            | BoundOp _ tok mode \<Rightarrow> bind_op v8 obj kind_lit tok mode)
    (sthen (ask_or ''Failed to store assignment entry'' (v8_set_index v8 assignments index obj))
       (sret (index + 1))))))))"

text \<open>Everything up to the call of the helper; \<open>(helper, name, assignments)\<close>.\<close>

definition bind_prepare ::
  "('h, 'w) v8_engine \<Rightarrow> (u32 \<rightharpoonup> 'h stored_function) \<Rightarrow> string \<Rightarrow> bound_property list
    \<Rightarrow> ('w, runtime_error, 'h \<times> 'h \<times> 'h) comp" where
  "bind_prepare v8 fns name props =
     sbind (ask_or ''Missing __peno_bind_object helper''
       (v8_get v8 (v8_global v8) ''__peno_bind_object'')) (\<lambda>helper.
     sthen (slift (if v8_is_function v8 helper then Inr ()
                   else Inl (Internal ''__peno_bind_object is not callable'')))
    (sbind (ask_or ''Failed to allocate target name'' (v8_new_string v8 name)) (\<lambda>global_name.
     sbind (ask (v8_new_array v8 (sint (word_of_nat (length props) :: u32)))) (\<lambda>assignments.
     sthen (sfold (bind_entry v8 fns assignments) 0 props)
       (sret (helper, global_name, assignments))))))"

definition expose_all :: "op_token list \<Rightarrow> python_op_registry \<Rightarrow> python_op_registry" where
  "expose_all toks r = fold (\<lambda>tok r. snd (expose tok r)) toks r"

definition bind_object ::
  "('h, 'w) js_engine \<Rightarrow> string \<Rightarrow> bound_property list \<Rightarrow> ('h, 'w, unit) core_op" where
  "bind_object js name props c =
     sbind (in_world_of js (bind_prepare (js_v8 js) (core_fns c) name props)) (\<lambda>(helper, global_name, assignments).
     sbind (ask_js js (js_call js helper (v8_global (js_v8 js)) [global_name, assignments])) (\<lambda>outcome.
     case outcome of
       CallReturned _ \<Rightarrow>
         (\<lambda>c. (Inr (), c\<lparr>core_registry := expose_all (concat (map bound_token props)) (core_registry c)\<rparr>))
     | CallThrew exc \<Rightarrow>
         sbind (ask_js js (js_from_v8_exception js exc)) (\<lambda>e. sfail (JavaScript (from_js_error e)))
     | CallFailed \<Rightarrow> sfail (Internal ''__peno_bind_object invocation failed''))) c"

section \<open>Synchronous entry points\<close>

definition with_timing :: "('h, 'w) js_engine \<Rightarrow> runtime_call_kind \<Rightarrow> ('h, 'w, 'a) core_op \<Rightarrow> ('h, 'w, 'a) core_op" where
  "with_timing js kind f c =
     (let start = core_now js c
      in case f c of
           (result, c') \<Rightarrow>
             (result, c'\<lparr>core_stats := stats_record kind (core_now js c' - start) (core_stats c')\<rparr>))"

definition eval_sync :: "('h, 'w) js_engine \<Rightarrow> string \<Rightarrow> ('h, 'w, js_value) core_op" where
  "eval_sync js code =
     with_timing js EvalSync
       (sbind (ask_js js (js_execute_script js ''<eval>'' code)) (\<lambda>r.
        case r of Inl e \<Rightarrow> raise_js e | Inr v \<Rightarrow> convert_out js v))"

definition module_specifier :: "('h, 'w) js_engine \<Rightarrow> string \<Rightarrow> runtime_error + string" where
  "module_specifier js specifier =
     (if contains '':'' specifier \<or> starts_with ''/'' specifier
      then internally (''Invalid module specifier '' @ quoted specifier @ '': '') (js_parse_url js specifier)
      else (case internally ''Failed to create base URL: '' (js_parse_url js ''peno://runtime/'') of
              Inl e \<Rightarrow> Inl e
            | Inr base \<Rightarrow>
                internally (''Failed to resolve module specifier '' @ quoted specifier @ '': '')
                  (js_join_url js base specifier)))"

definition load_main_module :: "('h, 'w) js_engine \<Rightarrow> string \<Rightarrow> ('h, 'w, nat) core_op" where
  "load_main_module js specifier =
     sbind (slift (module_specifier js specifier)) (\<lambda>url.
     sbind (ask_js js (js_load_main_es_module js url)) (\<lambda>r.
     slift (internally (''Failed to load module '' @ quoted specifier @ '': '') r)))"

definition namespace_value :: "('h, 'w) js_engine \<Rightarrow> nat \<Rightarrow> ('h, 'w, js_value) core_op" where
  "namespace_value js module_id =
     sbind (ask_js js (js_module_namespace js module_id)) (\<lambda>r.
     sbind (slift (internally ''Failed to get module namespace: '' r)) (convert_out js))"

definition core_result :: "core_error + unit \<Rightarrow> ('h, 'w, unit) core_op" where
  "core_result r = (case r of Inl e \<Rightarrow> raise_core e | Inr u \<Rightarrow> sret u)"

definition eval_module_sync :: "('h, 'w) js_engine \<Rightarrow> string \<Rightarrow> ('h, 'w, js_value) core_op" where
  "eval_module_sync js specifier =
     with_timing js EvalModuleSync
       (sbind (load_main_module js specifier) (\<lambda>module_id.
        sbind (ask_js js (js_mod_evaluate js module_id)) (\<lambda>receiver.
        sthen (sbind (ask_js js (js_run_event_loop js)) core_result)
       (sthen (sbind (ask_js js (js_await_receiver js receiver)) core_result)
          (namespace_value js module_id)))))"

definition call_stored ::
  "('h, 'w) js_engine \<Rightarrow> 'h stored_function \<Rightarrow> js_value list \<Rightarrow> ('h, 'w, 'h call_outcome) core_op" where
  "call_stored js stored args =
     sbind (smap (convert_in js) args) (\<lambda>v8_args.
     ask_js js (js_call js (sf_function stored)
       (case sf_receiver stored of Some r \<Rightarrow> r | None \<Rightarrow> v8_global (js_v8 js)) v8_args))"

definition raise_exception :: "('h, 'w) js_engine \<Rightarrow> 'h \<Rightarrow> ('h, 'w, 'a) core_op" where
  "raise_exception js exc = sbind (ask_js js (js_from_v8_exception js exc)) raise_js"

definition settle_call ::
  "('h, 'w) js_engine \<Rightarrow> nat \<Rightarrow> u64 option \<Rightarrow> 'h \<Rightarrow> ('h, 'w, function_call_result) core_op" where
  "settle_call js start timeout_ms v =
     sthen (ask_js js (js_microtask_checkpoint js))
       (if v8_is_promise (js_v8 js) v then
          sbind (look_js (js_promise_state js v)) (\<lambda>st.
          case st of
            PromisePending \<Rightarrow> (\<lambda>c.
              case store_pending_call v start (map_option (\<lambda>ms. start + from_millis ms) timeout_ms) timeout_ms c of
                (i, c') \<Rightarrow> (Inr (PendingCall i), c'))
          | PromiseFulfilled \<Rightarrow>
              sbind (look_js (js_promise_result js v)) (\<lambda>r. sbind (convert_out js r) (\<lambda>j. sret (Immediate j)))
          | PromiseRejected \<Rightarrow> sbind (look_js (js_promise_result js v)) (raise_exception js))
        else sbind (convert_out js v) (\<lambda>j. sret (Immediate j)))"

definition invoke_function_sync ::
  "('h, 'w) js_engine \<Rightarrow> u32 \<Rightarrow> js_value list \<Rightarrow> u64 option \<Rightarrow> ('h, 'w, function_call_result) core_op" where
  "invoke_function_sync js fn_id args timeout_ms c =
     (case core_fns c fn_id of
        None \<Rightarrow> (Inl (Internal (''Function ID '' @ show_word fn_id @ '' not found'')), c)
      | Some stored \<Rightarrow>
          (let start = core_now js c; effective = effective_timeout_ms c timeout_ms
           in sbind (call_stored js stored args) (\<lambda>outcome.
              case outcome of
                CallReturned v \<Rightarrow> settle_call js start effective v
              | CallThrew exc \<Rightarrow> raise_exception js exc
              | CallFailed \<Rightarrow> sfail (Internal ''Function call failed with no exception'')) c))"

definition call_function_sync ::
  "('h, 'w) js_engine \<Rightarrow> u32 \<Rightarrow> js_value list \<Rightarrow> u64 option \<Rightarrow> ('h, 'w, function_call_result) core_op" where
  "call_function_sync js fn_id args timeout_ms =
     with_timing js CallFunctionSync (invoke_function_sync js fn_id args timeout_ms)"

definition release_function :: "u32 \<Rightarrow> ('h, 'w) core_state \<Rightarrow> ('h, 'w) core_state" where
  "release_function fn_id c = c\<lparr>core_v8 := (core_v8 c)\<lparr>v8_fns := (core_fns c)(fn_id := None)\<rparr>\<rparr>"

definition release_js_stream :: "u32 \<Rightarrow> ('h, 'w) core_state \<Rightarrow> ('h, 'w) core_state" where
  "release_js_stream i c =
     c\<lparr>core_v8 := (core_v8 c)\<lparr>v8_streams := js_stream_release i (v8_streams (core_v8 c))\<rparr>\<rparr>"

text \<open>Whatever the reader's \<open>cancel\<close> does is ignored; the stream is released in every case.\<close>

definition call_reader_cancel ::
  "('h, 'w) v8_calls \<Rightarrow> u32 \<Rightarrow> ('h js_stream_registry \<times> 'w, runtime_error, unit) comp" where
  "call_reader_cancel v8 i =
     sbind (ensure_reader v8 i) (\<lambda>reader.
     sbind (in_world (v8_get v8 reader ''cancel'')) (\<lambda>g.
     case g of
       Some f \<Rightarrow> if v8_is_function v8 f then sthen (in_world (v8_call v8 f reader)) (sret ()) else sret ()
     | None \<Rightarrow> sret ()))"

definition cancel_js_stream :: "('h, 'w) js_engine \<Rightarrow> u32 \<Rightarrow> ('h, 'w) core_state \<Rightarrow> ('h, 'w) core_state" where
  "cancel_js_stream js i c =
     release_js_stream i (snd (in_streams_of js (call_reader_cancel (v8_calls.truncate (js_v8 js)) i) c))"

definition collect_stats :: "('h, 'w) js_engine \<Rightarrow> ('h, 'w) core_state \<Rightarrow> stats_report" where
  "collect_stats js c =
     stats_report_new (js_heap_statistics js (core_world c)) (stats_snapshot (core_stats c))
       (from_snapshot (js_activity js (core_world c)))
       (merge (js_stats_snapshot (v8_streams (core_v8 c))) (py_stats_snapshot (core_py_streams c)))"


section \<open>Construction\<close>

text \<open>The two built-in scripts, verbatim; only the engine reads them.\<close>

definition disable_console_script :: string where
  \<open>disable_console_script = ''
                    (() => {
                        const noop = () => {};
                        const stub = new Proxy(Object.create(null), { get: () => noop });
                        const existing = globalThis.console;
                        if (typeof existing === "object" && existing !== null) {
                            for (const key of Reflect.ownKeys(existing)) {
                                try { existing[key] = noop; } catch (_) {} // ignore non-writable properties
                            }
                            return;
                        }
                        globalThis.console = stub;
                    })();
                    ''\<close>

definition console_capture_script :: "op_token \<Rightarrow> bool \<Rightarrow> string" where
  \<open>console_capture_script tok passthrough =
     ''
                    (() => {
                      const OP_ID = '' @ show_word tok @ '';
                      const PASSTHROUGH = '' @ show_bool passthrough
     @ '';
                      const forward = globalThis.__host_op_sync__;
                      const previous = globalThis.console;
                      const target = {};
                      for (const level of ["log", "info", "warn", "error", "debug", "trace"]) {
                        const prior =
                          PASSTHROUGH &&
                          previous !== null &&
                          typeof previous === "object" &&
                          typeof previous[level] === "function"
                            ? previous[level].bind(previous)
                            : null;
                        target[level] = (...args) => {
                          try {
                            forward(OP_ID, level, args);
                          } catch (_) {
                            // The argument list was not representable as a
                            // Python value (a function, a circular object, over
                            // the serialization limits). Degrade to strings
                            // rather than throwing into guest JS, which would
                            // turn a console.log into a program-visible error.
                            try {
                              forward(
                                OP_ID,
                                level,
                                args.map((a) => {
                                  try {
                                    return String(a);
                                  } catch (_) {
                                    return "[unrepresentable]";
                                  }
                                }),
                              );
                            } catch (_) {
                              // Give up: a console call must never break the
                              // script that made it.
                            }
                          }
                          if (prior !== null) {
                            prior(...args);
                          }
                        };
                      }
                      globalThis.console = target;
                    })();
                    ''\<close>

definition heap_limits_of :: "(nat, string) runtime_config \<Rightarrow> runtime_error + (nat \<times> nat) option" where
  "heap_limits_of cfg =
     (case (max_heap_size cfg, initial_heap_size cfg) of
        (None, Some _) \<Rightarrow> Inl (Internal ''initial_heap_size requires max_heap_size to be set as well'')
      | (Some mx, Some ini) \<Rightarrow>
          if mx < ini
          then Inl (Internal (''initial_heap_size ('' @ show_nat ini @ '') cannot exceed max_heap_size (''
                 @ show_nat mx @ '')''))
          else Inr (Some (ini, mx))
      | (Some mx, None) \<Rightarrow> Inr (Some (0, mx))
      | (None, None) \<Rightarrow> Inr None)"

definition core_blank :: "(nat, string) runtime_config \<Rightarrow> 'w \<Rightarrow> ('h, 'w) core_state" where
  "core_blank cfg w =
     \<lparr>core_v8 = \<lparr>v8_seen = {}, v8_fns = Map.empty, v8_next_fn = 0, v8_streams = js_stream_registry_new, v8_world = w\<rparr>,
      core_registry = python_op_registry_new, core_rng = 0, core_loader = module_loader_new,
      core_task_locals = None, core_global_locals = None, core_execution_timeout = execution_timeout cfg,
      core_pending_calls = Map.empty, core_next_call = 0, core_stats = stats_state_default,
      core_term = termination_new, core_terminated = False, core_inspector = None,
      core_limits = config_limits cfg, core_py_streams = py_stream_registry_new (config_limits cfg)\<rparr>"

definition run_setup_script :: "('h, 'w) js_engine \<Rightarrow> string \<Rightarrow> string \<Rightarrow> ('h, 'w, unit) core_op" where
  "run_setup_script js name code =
     sbind (ask_js js (js_execute_script js name code)) (\<lambda>r.
     case r of Inl e \<Rightarrow> sfail (JavaScript (from_js_error e)) | Inr _ \<Rightarrow> sret ())"

definition setup_console ::
  "('h, 'w) js_engine \<Rightarrow> (nat, string) runtime_config \<Rightarrow> ('h, 'w) core_state
    \<Rightarrow> ((runtime_error + unit) \<times> ('h, 'w) core_state) option" where
  "setup_console js cfg c =
     (case on_console cfg of
        None \<Rightarrow> Some (Inr (), c)
      | Some callback \<Rightarrow>
          (case register_python_op js ''__peno_console__'' python_op_mode.SyncOp callback c of
             None \<Rightarrow> None
           | Some (tok, c1) \<Rightarrow>
               Some (run_setup_script js ''<console_capture>''
                 (console_capture_script tok (enable_console cfg = Some True))
                 (snd (set_python_op_exposure tok True c1)))))"

definition start_inspector :: "('h, 'w) js_engine \<Rightarrow> (nat, string) runtime_config \<Rightarrow> ('h, 'w, unit) core_op" where
  "start_inspector js cfg =
     (case inspector cfg of
        None \<Rightarrow> sret ()
      | Some i \<Rightarrow>
          sbind (ask_js js (js_inspector_bind js (ins_address i))) (\<lambda>r.
          sthen (slift (internally ''Failed to start inspector server: '' r))
         (sbind (ask_js js (js_inspector_register js (ins_target_url i) (ins_display_name i)
            (ins_wait_for_connection i))) (\<lambda>r.
          sthen (slift (internally ''Failed to register inspector: '' r))
            (\<lambda>c. (Inr (), c\<lparr>core_inspector := Some \<lparr>irs_wait_for_connection = ins_wait_for_connection i,
               irs_break_on_next_statement = ins_break_on_next_statement i, irs_has_waited = False\<rparr>\<rparr>))))))"

definition create_runtime ::
  "('h, 'w) js_engine \<Rightarrow> (nat, string) runtime_config \<Rightarrow> (nat \<times> nat) option \<Rightarrow> ('h, 'w, unit) core_op" where
  "create_runtime js cfg limits =
     sthen (ask_js js (js_new_runtime js limits (inspector cfg \<noteq> None) (snapshot_bytes cfg)))
       (if enable_console cfg = Some False then run_setup_script js ''<disable_console>'' disable_console_script
        else sret ())"

definition run_bootstrap :: "('h, 'w) js_engine \<Rightarrow> (nat, string) runtime_config \<Rightarrow> ('h, 'w, unit) core_op" where
  "run_bootstrap js cfg =
     (case bootstrap_script cfg of
        Some script \<Rightarrow> run_setup_script js ''<bootstrap>'' script
      | None \<Rightarrow> sret ())"

text \<open>The termination controller comes into being after the bootstrap script.\<close>

definition core_new ::
  "('h, 'w) js_engine \<Rightarrow> (nat, string) runtime_config \<Rightarrow> 'w \<Rightarrow> (runtime_error + ('h, 'w) core_state) option" where
  "core_new js cfg w =
     (case heap_limits_of cfg of
        Inl e \<Rightarrow> Some (Inl e)
      | Inr limits \<Rightarrow>
     (case create_runtime js cfg limits (core_blank cfg w) of
        (Inl e, _) \<Rightarrow> Some (Inl e)
      | (Inr _, c1) \<Rightarrow>
     (case setup_console js cfg c1 of
        None \<Rightarrow> None
      | Some (Inl e, _) \<Rightarrow> Some (Inl e)
      | Some (Inr _, c2) \<Rightarrow>
     (case run_bootstrap js cfg c2 of
        (Inl e, _) \<Rightarrow> Some (Inl e)
      | (Inr _, c3) \<Rightarrow>
     (case start_inspector js cfg (c3\<lparr>core_term := termination_new\<rparr>) of
        (Inl e, _) \<Rightarrow> Some (Inl e)
      | (Inr _, c4) \<Rightarrow> Some (Inr c4))))))"

end
