(* ===== verification/Peno_CoreLaws.thy ===== *)
theory Peno_CoreLaws
  imports Peno_Core
begin

text \<open>
  What the operations of the core may change.  \<open>moves R m\<close> says that every run of \<open>m\<close>, successful or
  not, goes from a state to a state in the relation \<open>R\<close>; the locale \<open>effect_order\<close> gives the rules
  for sequences once, and is interpreted for the two relations used: \<open>calm\<close> (the engine and the
  other threads ran, the core itself recorded nothing) and \<open>evolves\<close> (the termination only advances
  and a terminated core holds no pending call).
\<close>

section \<open>Effects of sequences\<close>

definition moves :: "('s \<Rightarrow> 's \<Rightarrow> bool) \<Rightarrow> ('s, 'e, 'a) comp \<Rightarrow> bool" where
  "moves R m \<longleftrightarrow> (\<forall>s. R s (snd (m s)))"

lemma movesD: "moves R m \<Longrightarrow> m s = (r, s') \<Longrightarrow> R s s'"
  by (metis moves_def snd_conv)

lemma moves_app: "moves R m \<Longrightarrow> R s (snd (m s))"
  by (simp add: moves_def)

lemma moves_weaken: "moves R m \<Longrightarrow> (\<And>s s'. R s s' \<Longrightarrow> Q s s') \<Longrightarrow> moves Q m"
  by (simp add: moves_def)

locale effect_order =
  fixes le :: "'s \<Rightarrow> 's \<Rightarrow> bool"
  assumes le_refl: "le s s"
    and le_trans: "le a b \<Longrightarrow> le b c \<Longrightarrow> le a c"
begin

lemma sret: "moves le (sret a)"
  by (simp add: moves_def sret_def le_refl)

lemma sfail: "moves le (sfail e)"
  by (simp add: moves_def sfail_def le_refl)

lemma slift: "moves le (slift r)"
  by (simp add: moves_def slift_def le_refl)

lemma sbind: "moves le m \<Longrightarrow> (\<And>a. moves le (f a)) \<Longrightarrow> moves le (sbind m f)"
  unfolding moves_def
proof
  fix s assume m: "\<forall>s. le s (snd (m s))" and f: "\<And>a. \<forall>s. le s (snd (f a s))"
  from m have "le s (snd (m s))" by blast
  then show "le s (snd (sbind m f s))"
    using f by (auto simp: sbind_def intro: le_trans split: prod.split sum.split)
qed

lemma sthen: "moves le m \<Longrightarrow> moves le k \<Longrightarrow> moves le (sthen m k)"
  unfolding sthen_def by (rule sbind)

lemma smap: "(\<And>x. moves le (f x)) \<Longrightarrow> moves le (smap f xs)"
  by (induction xs) (auto intro: sret sbind)

lemmas intros = sret sfail slift sbind sthen smap

end

section \<open>Calm steps\<close>

definition calm :: "('h, 'w) core_state \<Rightarrow> ('h, 'w) core_state \<Rightarrow> bool" where
  "calm c c' \<longleftrightarrow> term_le (core_term c) (core_term c')
     \<and> (\<exists>v t p. c' = c\<lparr>core_v8 := v, core_term := t, core_py_streams := p\<rparr>)"

lemma calmI:
  "term_le (core_term c) t \<Longrightarrow> calm c (c\<lparr>core_v8 := v, core_term := t, core_py_streams := p\<rparr>)"
  unfolding calm_def by auto

lemma calm_same:
  "calm c c' \<Longrightarrow> core_registry c' = core_registry c \<and> core_pending_calls c' = core_pending_calls c
    \<and> core_next_call c' = core_next_call c \<and> core_terminated c' = core_terminated c
    \<and> core_limits c' = core_limits c \<and> core_execution_timeout c' = core_execution_timeout c
    \<and> core_loader c' = core_loader c \<and> core_stats c' = core_stats c \<and> core_inspector c' = core_inspector c
    \<and> core_task_locals c' = core_task_locals c \<and> core_rng c' = core_rng c"
  unfolding calm_def by auto

lemma calm_refl: "calm c c"
  using calmI [where c = c and t = "core_term c" and v = "core_v8 c" and p = "core_py_streams c"] by simp

lemma calm_trans:
  assumes "calm a b" "calm b c"
  shows "calm a c"
proof -
  from assms obtain v t p v' t' p' where
    b: "b = a\<lparr>core_v8 := v, core_term := t, core_py_streams := p\<rparr>" "term_le (core_term a) t"
    and c: "c = b\<lparr>core_v8 := v', core_term := t', core_py_streams := p'\<rparr>" "term_le t t'"
    unfolding calm_def by auto
  from calmI [OF term_le_trans [OF b(2) c(2)], where v = v' and p = p'] show ?thesis by (simp add: b c)
qed

interpretation calm: effect_order "calm :: ('h, 'w) core_state \<Rightarrow> ('h, 'w) core_state \<Rightarrow> bool"
  by unfold_locales (rule calm_refl, erule (1) calm_trans)

text \<open>The other threads write the termination record through the controller's methods only.\<close>

definition others_polite :: "('h, 'w) js_engine \<Rightarrow> bool" where
  "others_polite js \<longleftrightarrow> (\<forall>w t p. term_step\<^sup>*\<^sup>* t (fst (js_others js w (t, p))))"

lemma absorb_calm:
  assumes "others_polite js"
  shows "calm c (absorb js (c\<lparr>core_v8 := v\<rparr>))"
proof -
  obtain t p where o: "js_others js (v8_world v) (core_term c, core_py_streams c) = (t, p)" by fastforce
  with assms have "term_step\<^sup>*\<^sup>* (core_term c) t" unfolding others_polite_def by (metis fst_conv)
  then have "term_le (core_term c) t" by (rule term_steps_le)
  with o show ?thesis by (simp add: absorb_def calmI)
qed

lemma engine_calm:
  assumes "others_polite js"
  shows "moves calm (ask_js js f)" "moves calm (look_js g)" "moves calm (in_world_of js m)"
    "moves calm (in_streams_of js m')" "moves calm (in_v8_of js m'')"
  using absorb_calm [OF assms]
  by (auto simp: moves_def ask_js_def look_js_def in_world_of_def in_streams_of_def in_v8_of_def calm_refl
      split: prod.split)

lemma converters_calm:
  assumes "others_polite js"
  shows "moves calm (convert_out js v)" "moves calm (convert_in js j)"
  using engine_calm(5) [OF assms] engine_calm(3) [OF assms]
  by (auto simp: moves_def convert_out_def convert_in_def)

lemmas calm_rules = calm.intros engine_calm converters_calm

text \<open>Operations that only ask the engine.\<close>

lemma spawn_watchdog_calm: "others_polite js \<Longrightarrow> moves calm (spawn_watchdog js d r)"
  unfolding spawn_watchdog_def by (intro calm_rules)

lemma start_watchdog_calm:
  assumes "others_polite js"
  shows "moves calm (start_sync_watchdog js r)" "moves calm (start_timeout_watchdog js ms r)"
proof -
  have "moves calm (sbind (spawn_watchdog js d r) (\<lambda>w. sret (Some w)))" for d
    by (intro calm_rules spawn_watchdog_calm assms)
  then show "moves calm (start_sync_watchdog js r)" "moves calm (start_timeout_watchdog js ms r)"
    by (auto simp: start_sync_watchdog_def start_timeout_watchdog_def moves_def sret_def calm_refl
        split: option.split)
qed

lemma load_main_module_calm: "others_polite js \<Longrightarrow> moves calm (load_main_module js s)"
  unfolding load_main_module_def by (intro calm_rules)

lemma namespace_value_calm: "others_polite js \<Longrightarrow> moves calm (namespace_value js i)"
  unfolding namespace_value_def by (intro calm_rules)

lemma call_stored_calm: "others_polite js \<Longrightarrow> moves calm (call_stored js st args)"
  unfolding call_stored_def by (intro calm_rules)

section \<open>How a core evolves\<close>

definition core_ok :: "('h, 'w) core_state \<Rightarrow> bool" where
  "core_ok c \<longleftrightarrow> (core_terminated c \<longrightarrow> is_terminated (core_term c) \<and> core_pending_calls c = Map.empty)"

definition evolves :: "('h, 'w) core_state \<Rightarrow> ('h, 'w) core_state \<Rightarrow> bool" where
  "evolves c c' \<longleftrightarrow> term_le (core_term c) (core_term c') \<and> (core_terminated c \<longrightarrow> core_terminated c')
     \<and> (core_ok c \<longrightarrow> core_ok c')"

interpretation evolves: effect_order "evolves :: ('h, 'w) core_state \<Rightarrow> ('h, 'w) core_state \<Rightarrow> bool"
  by unfold_locales (auto simp: evolves_def intro: term_le_trans)

lemma calm_evolves: "calm c c' \<Longrightarrow> evolves c c'"
  using calm_same [of c c'] by (auto simp: evolves_def core_ok_def calm_def term_le_def)

lemma finalize_evolves: "evolves c (finalize_termination c)"
proof -
  have "term_le (core_term c) (snd (mark_terminated (cancel_terminate_execution (core_term c))))"
    by (rule term_le_trans [of _ "cancel_terminate_execution (core_term c)"]) simp_all
  then show ?thesis
    by (auto simp: evolves_def finalize_termination_def core_ok_def mark_terminated_def is_terminated_def)
qed

lemma finalize_terminated: "core_terminated (finalize_termination c)"
  by (simp add: finalize_termination_def)

lemma translate_evolves:
  "evolves c (snd (translate_js_error e c))" "evolves c (snd (translate_core_error e' c))"
  by (auto simp: translate_js_error_def translate_core_error_def Let_def finalize_evolves evolves.le_refl)

lemma raise_evolves: "moves evolves (raise_js e)" "moves evolves (raise_core e')"
  by (simp_all add: moves_def raise_js_def raise_core_def case_prod_beta translate_evolves)

lemma calm_moves: "moves calm m \<Longrightarrow> moves evolves m"
  using moves_weaken calm_evolves by blast

lemmas evolve_rules = evolves.intros raise_evolves

lemma calm_engine_evolves:
  assumes "others_polite js"
  shows "moves evolves (ask_js js f)" "moves evolves (look_js g)" "moves evolves (convert_out js v)"
    "moves evolves (load_main_module js s)" "moves evolves (namespace_value js i)"
    "moves evolves (in_streams_of js m)" "moves evolves (in_world_of js m')"
  using calm_moves [OF engine_calm(1) [OF assms]] calm_moves [OF engine_calm(2) [OF assms]]
    calm_moves [OF converters_calm(1) [OF assms]] calm_moves [OF load_main_module_calm [OF assms]]
    calm_moves [OF namespace_value_calm [OF assms]] calm_moves [OF engine_calm(4) [OF assms]]
    calm_moves [OF engine_calm(3) [OF assms]]
  by auto


lemma with_timing_evolves: "moves evolves f \<Longrightarrow> moves evolves (with_timing js k f)"
  by (auto simp: moves_def with_timing_def Let_def evolves_def core_ok_def case_prod_beta)

lemma timing_evolves: "evolves c (snd (f c)) \<Longrightarrow> evolves c (snd (with_timing js k f c))"
  by (auto simp: with_timing_def Let_def evolves_def core_ok_def case_prod_beta)

lemma sum_evolves:
  "(\<And>e. moves evolves (f e)) \<Longrightarrow> (\<And>a. moves evolves (g a)) \<Longrightarrow> moves evolves (case r of Inl e \<Rightarrow> f e | Inr a \<Rightarrow> g a)"
  by (cases r) simp_all

lemma core_result_evolves: "moves evolves (core_result r)"
  unfolding core_result_def by (intro sum_evolves evolve_rules)

lemma eval_sync_evolves: "others_polite js \<Longrightarrow> moves evolves (eval_sync js code)"
  unfolding eval_sync_def by (intro with_timing_evolves sum_evolves evolve_rules calm_engine_evolves)

lemma eval_module_sync_evolves: "others_polite js \<Longrightarrow> moves evolves (eval_module_sync js s)"
  unfolding eval_module_sync_def
  by (intro with_timing_evolves core_result_evolves evolve_rules calm_engine_evolves)

lemma raise_exception_evolves: "others_polite js \<Longrightarrow> moves evolves (raise_exception js e)"
  unfolding raise_exception_def by (intro evolve_rules calm_engine_evolves)

lemma calm_then:
  assumes "calm c c'" "evolves c' d"
  shows "evolves c d"
  using evolves.le_trans [OF calm_evolves [OF assms(1)] assms(2)] .

lemma bind_calm_evolves:
  assumes "moves calm m" "\<And>a c'. m c = (Inr a, c') \<Longrightarrow> calm c c' \<Longrightarrow> evolves c' (snd (f a c'))"
  shows "evolves c (snd (sbind m f c))"
proof -
  obtain r c' where m: "m c = (r, c')" by fastforce
  with assms(1) have "calm c c'" by (rule movesD)
  with m assms(2) show ?thesis
    by (cases r) (auto simp: sbind_def intro: calm_evolves calm_then)
qed

lemma store_evolves:
  "\<not> core_terminated c \<Longrightarrow> evolves c (snd (store_pending_call p start d ms c))"
  by (simp add: store_pending_call_def Let_def evolves_def core_ok_def)

lemma settle_call_evolves:
  assumes "others_polite js" "\<not> core_terminated c"
  shows "evolves c (snd (settle_call js start ms v c))"
  unfolding settle_call_def sthen_def
proof (rule bind_calm_evolves [OF engine_calm(1) [OF assms(1)]], goal_cases)
  case (1 a c1)
  have imm: "moves evolves (sbind (convert_out js x) (\<lambda>j. sret (Immediate j)))" for x
    by (intro evolve_rules calm_engine_evolves assms)
  from 1 assms(2) have live: "\<not> core_terminated c1" using calm_same by blast
  show ?case
  proof (cases "js_promise_state js v (core_world c1)")
    case PromisePending
    then show ?thesis
      using store_evolves [OF live] imm
      by (simp add: moves_def sbind_def look_js_def case_prod_beta)
  next
    case PromiseFulfilled
    then show ?thesis using imm by (simp add: moves_def sbind_def [of "look_js _"] look_js_def)
  next
    case PromiseRejected
    then show ?thesis
      using moves_app [OF imm]
      by (simp add: sbind_def [of "look_js _"] look_js_def moves_app [OF raise_exception_evolves] assms(1))
  qed
qed

lemma invoke_function_sync_evolves:
  assumes "others_polite js" "\<not> core_terminated c"
  shows "evolves c (snd (invoke_function_sync js i args ms c))"
proof (cases "core_fns c i")
  case None
  then show ?thesis by (simp add: invoke_function_sync_def evolves.le_refl)
next
  case (Some stored)
  have "evolves c (snd (sbind (call_stored js stored args) (\<lambda>outcome.
      case outcome of
        CallReturned v \<Rightarrow> settle_call js (core_now js c) (effective_timeout_ms c ms) v
      | CallThrew exc \<Rightarrow> raise_exception js exc
      | CallFailed \<Rightarrow> sfail (Internal ''Function call failed with no exception'')) c))"
  proof (rule bind_calm_evolves [OF call_stored_calm [OF assms(1)]], goal_cases)
    case (1 outcome c')
    then have "\<not> core_terminated c'" using assms(2) calm_same by blast
    then show ?case
      by (cases outcome)
        (simp_all add: settle_call_evolves assms(1) moves_app [OF raise_exception_evolves] moves_app [OF evolves.sfail])
  qed
  with Some show ?thesis by (simp add: invoke_function_sync_def Let_def)
qed

lemma call_function_sync_evolves:
  "others_polite js \<Longrightarrow> \<not> core_terminated c \<Longrightarrow> evolves c (snd (call_function_sync js i args ms c))"
  unfolding call_function_sync_def by (intro timing_evolves invoke_function_sync_evolves)

lemma ensure_inspector_evolves: "others_polite js \<Longrightarrow> moves evolves (ensure_inspector_ready js)"
  for js :: "('h, 'w) js_engine"
  unfolding moves_def
proof
  fix c :: "('h, 'w) core_state" assume p: "others_polite js"
  have waited: "evolves c (snd (sthen (if b then ask_js js f else sret ())
      (\<lambda>c'. (Inr (), c'\<lparr>core_inspector := i\<rparr>)) c))" for b f i
    unfolding sthen_def
    by (rule bind_calm_evolves) (auto intro: engine_calm(1) [OF p] calm.sret simp: evolves_def core_ok_def)
  show "evolves c (snd (ensure_inspector_ready js c))"
    using waited by (auto simp: ensure_inspector_ready_def evolves.le_refl split: option.split)
qed


section \<open>Binding exposes last\<close>

lemma engine_registry:
  "core_registry (snd (ask_js js f c)) = core_registry c"
  "core_registry (snd (in_world_of js m c)) = core_registry c"
  by (simp_all add: ask_js_def in_world_of_def absorb_def case_prod_beta)

lemma ask_js_eq:
  "ask_js js f c = (Inr (fst (f (core_world c))),
     absorb js (c\<lparr>core_v8 := (core_v8 c)\<lparr>v8_world := snd (f (core_world c))\<rparr>\<rparr>))"
  by (simp add: ask_js_def case_prod_beta)

lemma expose_all_handlers: "handlers (expose_all toks r) = handlers r"
  by (induction toks arbitrary: r) (simp_all add: expose_all_def expose_def insert_exposed_def)

lemma expose_all_exposed:
  "exposed (expose_all toks r) = exposed r \<union> {tok \<in> set toks. is_registered tok r}"
proof (induction toks arbitrary: r)
  case (Cons a toks)
  have "is_registered tok (snd (expose a r)) = is_registered tok r" for tok
    by (simp add: expose_def insert_exposed_def is_registered_def)
  with Cons.IH [of "snd (expose a r)"] show ?case
    by (auto simp: expose_all_def expose_def insert_exposed_def)
qed (simp add: expose_all_def)

lemma bind_object_cases:
  assumes "in_world_of js (bind_prepare (js_v8 js) (core_fns c) name props) c = (p, c1)"
  shows "bind_object js name props c =
    (case p of
       Inl e \<Rightarrow> (Inl e, c1)
     | Inr (helper, gn, arr) \<Rightarrow>
         (case ask_js js (js_call js helper (v8_global (js_v8 js)) [gn, arr]) c1 of
            (Inl e, c2) \<Rightarrow> (Inl e, c2)
          | (Inr (CallReturned v), c2) \<Rightarrow>
              (Inr (), c2\<lparr>core_registry := expose_all (concat (map bound_token props)) (core_registry c2)\<rparr>)
          | (Inr (CallThrew exc), c2) \<Rightarrow>
              sbind (ask_js js (js_from_v8_exception js exc)) (\<lambda>e. sfail (JavaScript (from_js_error e))) c2
          | (Inr CallFailed, c2) \<Rightarrow> (Inl (Internal ''__peno_bind_object invocation failed''), c2)))"
  using assms
  by (auto simp: bind_object_def sbind_def sfail_def split: sum.split prod.split call_outcome.split)

lemma bound_token_iff: "x \<in> set (bound_token b) \<longleftrightarrow> (\<exists>key mode. b = BoundOp key x mode)"
  by (cases b) auto

lemma bound_tokens:
  "set (concat (map bound_token props)) = {tok. \<exists>key mode. BoundOp key tok mode \<in> set props}"
  by (simp add: set_eq_iff bound_token_iff) blast

text \<open>
  C11  Binding an object exposes exactly the registered ops among its properties, and only once
  everything was built and the guest-side helper has returned; when anything fails before, or the
  helper throws, no capability changes.  No handler is added or lost.
\<close>

theorem bind_exposes_last:
  "case in_world_of js (bind_prepare (js_v8 js) (core_fns c) name props) c of (p, c1) \<Rightarrow>
   case bind_object js name props c of (r, c') \<Rightarrow>
     (r = Inr () \<longleftrightarrow> (\<exists>helper gn arr v. p = Inr (helper, gn, arr)
        \<and> fst (js_call js helper (v8_global (js_v8 js)) [gn, arr] (core_world c1)) = CallReturned v))
     \<and> handlers (core_registry c') = handlers (core_registry c)
     \<and> exposed (core_registry c') =
         (if r = Inr ()
          then exposed (core_registry c) \<union> {tok. \<exists>key mode. BoundOp key tok mode \<in> set props \<and> is_registered tok (core_registry c)}
          else exposed (core_registry c))"
proof -
  let ?prep = "in_world_of js (bind_prepare (js_v8 js) (core_fns c) name props) c"
  obtain p c1 where prep: "?prep = (p, c1)" by fastforce
  have reg: "core_registry c1 = core_registry c" using engine_registry(2) [of js _ c] prep by (metis snd_conv)
  note cases = bind_object_cases [OF prep]
  show ?thesis
  proof (cases p)
    case (Inl e)
    with cases prep reg show ?thesis by simp
  next
    case (Inr q)
    obtain helper gn arr where q: "q = (helper, gn, arr)" by (cases q) auto
    let ?f = "js_call js helper (v8_global (js_v8 js)) [gn, arr]"
    obtain c2 where call: "ask_js js ?f c1 = (Inr (fst (?f (core_world c1))), c2)"
      by (simp add: ask_js_eq)
    have reg2: "core_registry c2 = core_registry c"
      using engine_registry(1) [of js ?f c1] call reg by simp
    show ?thesis
    proof (cases "fst (?f (core_world c1))")
      case (CallReturned v)
      then show ?thesis
        using cases prep Inr q call reg2
        by (simp add: expose_all_handlers expose_all_exposed bound_tokens del: set_concat)
    next
      case (CallThrew exc)
      then show ?thesis
        using cases prep Inr q call reg2 engine_registry(1) [of js "js_from_v8_exception js exc" c2]
        by (simp add: sbind_def ask_js_eq sfail_def)
    next
      case CallFailed
      then show ?thesis using cases prep Inr q call reg2 by simp
    qed
  qed
qed


section \<open>Pending calls\<close>

lemma settle_call_pending:
  assumes "settle_call js start ms v c = (Inr (PendingCall k), c')"
  shows "core_pending_calls c' k = Some \<lparr>pc_promise = v, pc_start_time = start,
      pc_deadline = map_option (\<lambda>t. start + from_millis t) ms, pc_timeout_ms = ms\<rparr>
    \<and> js_promise_state js v (core_world c') = PromisePending"
proof -
  obtain c1 where m: "ask_js js (js_microtask_checkpoint js) c = (Inr (), c1)"
    by (simp add: ask_js_eq)
  show ?thesis
    using assms m
    by (cases "js_promise_state js v (core_world c1)")
      (auto simp: settle_call_def sthen_def sbind_def look_js_def store_pending_call_def Let_def raise_exception_def
        raise_js_def case_prod_beta split: if_splits sum.splits prod.splits)
qed

lemma invoke_pending:
  assumes "invoke_function_sync js i args ms c = (Inr (PendingCall k), c')"
  shows "\<exists>v. core_pending_calls c' k = Some \<lparr>pc_promise = v, pc_start_time = core_now js c,
      pc_deadline = map_option (\<lambda>t. core_now js c + from_millis t) (effective_timeout_ms c ms),
      pc_timeout_ms = effective_timeout_ms c ms\<rparr>
    \<and> js_promise_state js v (core_world c') = PromisePending"
proof -
  from assms obtain stored where "core_fns c i = Some stored"
    by (auto simp: invoke_function_sync_def split: option.splits)
  with assms obtain outcome c1 where
    "(case outcome of
        CallReturned v \<Rightarrow> settle_call js (core_now js c) (effective_timeout_ms c ms) v
      | CallThrew exc \<Rightarrow> raise_exception js exc
      | CallFailed \<Rightarrow> sfail (Internal ''Function call failed with no exception'')) c1 = (Inr (PendingCall k), c')"
    by (auto simp: invoke_function_sync_def Let_def sbind_Inr)
  then show ?thesis
    by (cases outcome)
      (auto simp: raise_exception_def raise_js_def sbind_Inr dest: settle_call_pending split: prod.splits)
qed

text \<open>
  A synchronous call that returns a promise that is still pending has stored it with the clock of the
  call: its start, its effective timeout and the deadline they give.
\<close>

lemma pending_call_stored:
  assumes "call_function_sync js fn_id args timeout_ms c = (Inr (PendingCall k), c')"
  shows "\<exists>v. js_promise_state js v (core_world c') = PromisePending \<and> core_pending_calls c' k
    = Some \<lparr>pc_promise = v, pc_start_time = core_now js c,
        pc_deadline = map_option (\<lambda>t. core_now js c + from_millis t) (effective_timeout_ms c timeout_ms),
        pc_timeout_ms = effective_timeout_ms c timeout_ms\<rparr>"
proof -
  obtain r c1 where inv: "invoke_function_sync js fn_id args timeout_ms c = (r, c1)" by fastforce
  with assms have r: "r = Inr (PendingCall k)" and same: "core_pending_calls c' = core_pending_calls c1"
    "core_v8 c' = core_v8 c1"
    by (auto simp: call_function_sync_def with_timing_def Let_def)
  from invoke_pending [OF inv [unfolded r]] obtain v where
    "core_pending_calls c1 k = Some \<lparr>pc_promise = v, pc_start_time = core_now js c,
      pc_deadline = map_option (\<lambda>t. core_now js c + from_millis t) (effective_timeout_ms c timeout_ms),
      pc_timeout_ms = effective_timeout_ms c timeout_ms\<rparr>"
    "js_promise_state js v (core_world c1) = PromisePending" by blast
  then show ?thesis by (simp add: same)
qed

section \<open>Construction\<close>

definition starts_clean :: "(nat, string) runtime_config \<Rightarrow> ('h, 'w) core_state \<Rightarrow> bool" where
  "starts_clean cfg c \<longleftrightarrow> \<not> core_terminated c \<and> core_fns c = Map.empty \<and> core_pending_calls c = Map.empty
     \<and> core_limits c = config_limits cfg \<and> core_execution_timeout c = execution_timeout cfg
     \<and> exposed (core_registry c) = dom (handlers (core_registry c))
     \<and> (\<lambda>e. (op_name e, op_mode e, op_handler e)) ` ran (handlers (core_registry c))
         = (\<lambda>cb. (''__peno_console__'', python_op_mode.SyncOp, cb)) ` set_option (on_console cfg)"

text \<open>Setup steps that touch nothing of this.\<close>

definition setup_le :: "('h, 'w) core_state \<Rightarrow> ('h, 'w) core_state \<Rightarrow> bool" where
  "setup_le c c' \<longleftrightarrow> core_registry c' = core_registry c \<and> core_fns c' = core_fns c
     \<and> core_pending_calls c' = core_pending_calls c \<and> core_limits c' = core_limits c
     \<and> core_execution_timeout c' = core_execution_timeout c \<and> core_terminated c' = core_terminated c"

interpretation starting: effect_order "setup_le :: ('h, 'w) core_state \<Rightarrow> ('h, 'w) core_state \<Rightarrow> bool"
  by unfold_locales (auto simp: setup_le_def)

lemma setup_ask: "moves setup_le (ask_js js f)"
  by (simp add: moves_def ask_js_eq setup_le_def absorb_def case_prod_beta)

lemma setup_script: "moves setup_le (run_setup_script js name code)"
  unfolding run_setup_script_def
  by (intro starting.intros setup_ask) (auto intro: starting.intros split: sum.split)

lemma setup_parts:
  "moves setup_le (create_runtime js cfg limits)" "moves setup_le (run_bootstrap js cfg)"
  "moves setup_le (start_inspector js cfg)"
proof -
  show "moves setup_le (create_runtime js cfg limits)" "moves setup_le (run_bootstrap js cfg)"
    by (auto simp: create_runtime_def run_bootstrap_def intro!: starting.intros setup_ask setup_script
        split: option.split)
  have "moves setup_le (\<lambda>c. (Inr (), c\<lparr>core_inspector := i\<rparr>) :: (runtime_error + unit) \<times> ('h, 'w) core_state)" for i
    by (simp add: moves_def setup_le_def)
  then show "moves setup_le (start_inspector js cfg)"
    by (auto simp: start_inspector_def intro!: starting.intros setup_ask split: option.split)
qed

lemma setup_le_clean: "setup_le c c' \<Longrightarrow> starts_clean cfg c \<Longrightarrow> starts_clean cfg c'"
  by (simp add: setup_le_def starts_clean_def)

lemma register_adds:
  "register rng k name mode h r = Some (tok, k', r') \<Longrightarrow>
    r' = r\<lparr>handlers := (handlers r)(tok \<mapsto> \<lparr>op_id = tok, op_name = name, op_mode = mode, op_handler = h\<rparr>)\<rparr>"
  by (auto simp: register_def split: option.splits)

lemma setup_console_clean:
  assumes "setup_console js cfg c = Some (r, c')" "setup_le (core_blank cfg w) c"
  shows "starts_clean cfg c'"
proof (cases "on_console cfg")
  case None
  with assms show ?thesis
    by (simp add: setup_console_def starts_clean_def setup_le_def core_blank_def python_op_registry_new_def)
next
  case (Some cb)
  with assms(1) obtain tok k reg where
    reg: "register (js_rng js) (core_rng c) ''__peno_console__'' python_op_mode.SyncOp cb (core_registry c)
      = Some (tok, k, reg)"
    and run: "run_setup_script js ''<console_capture>'' (console_capture_script tok (enable_console cfg = Some True))
      (snd (set_python_op_exposure tok True (c\<lparr>core_rng := k, core_registry := reg\<rparr>))) = (r, c')"
    by (auto simp: setup_console_def register_python_op_def split: option.splits)
  let ?c = "snd (set_python_op_exposure tok True (c\<lparr>core_rng := k, core_registry := reg\<rparr>))"
  have "starts_clean cfg ?c"
    using register_adds [OF reg] assms(2) Some
    by (simp add: starts_clean_def setup_le_def core_blank_def python_op_registry_new_def
        set_python_op_exposure_def expose_def is_registered_def insert_exposed_def)
  moreover have "setup_le ?c c'" by (rule movesD [OF setup_script run])
  ultimately show ?thesis by (metis setup_le_clean)
qed

section \<open>A sample engine\<close>

text \<open>
  An engine for the witnesses: the world is a clock that ticks a millisecond at every call, handle 7 is
  a promise that is fulfilled with handle 1 after 20 ticks, every other handle is \<open>null\<close>.
\<close>

definition tick :: "'a \<Rightarrow> nat \<Rightarrow> 'a \<times> nat" where
  "tick a w = (a, Suc w)"

definition tick_v8 :: "(nat, nat) v8_engine" where
  "tick_v8 = \<lparr>v8_to_object = Some, v8_get = (\<lambda>_ s. tick (if s = ''__peno_bind_object'' then Some 4 else None)),
     v8_is_function = (\<lambda>h. h = 4), v8_is_promise = (\<lambda>h. h = 7), v8_call = (\<lambda>_ _. tick None),
     v8_kind_of = (\<lambda>h w. KNull), v8_identity_hash = int, v8_array_length = (\<lambda>h w. 0),
     v8_get_index = (\<lambda>h i. tick None), v8_set_as_array = tick, v8_own_property_names = (\<lambda>_. tick None),
     v8_get_key = (\<lambda>h k. tick None), v8_string_of = (\<lambda>h. tick None), v8_global = 0,
     v8_instance_of = (\<lambda>_ _. tick None), v8_call1 = (\<lambda>_ _ _. tick None), v8_undefined = 0, v8_null = 1,
     v8_boolean = (\<lambda>b. 2), v8_new_number = (\<lambda>f. tick 5), v8_new_bigint = (\<lambda>_ _. tick None),
     v8_new_string = (\<lambda>s. tick (Some 6)), v8_new_uint8_array = (\<lambda>bs. tick None), v8_new_array = (\<lambda>_. tick 5),
     v8_set_index = (\<lambda>a i v. tick (Some True)), v8_new_set = tick 5, v8_set_add = (\<lambda>a v. tick (Some a)),
     v8_new_object = tick 5, v8_set = (\<lambda>_ _ _. tick (Some True)), v8_new_date = (\<lambda>f. tick None),
     big_to_bytes_le = (\<lambda>i. (i < 0, [])), big_parse_10 = (\<lambda>_. None)\<rparr>"

definition tick_js :: "(nat, nat) js_engine" where
  "tick_js = \<lparr>js_v8 = tick_v8, js_now = (\<lambda>w. w * 1000000), js_others = (\<lambda>w s. s), js_rng = (\<lambda>k. word_of_nat (k + 1)), js_debug = (\<lambda>_. []),
     js_execute_script = (\<lambda>_ code. tick (Inr (if code = ''promise'' then 7 else 1))),
     js_poll_event_loop = tick (Some (Inr ())), js_run_event_loop = tick (Inr ()),
     js_parse_url = (\<lambda>s. Inr s), js_join_url = (\<lambda>b s. Inr (b @ s)), js_load_main_es_module = (\<lambda>s. tick (Inr 3)),
     js_mod_evaluate = (\<lambda>i. tick i), js_poll_receiver = (\<lambda>_. tick (Some (Inr ()))),
     js_await_receiver = (\<lambda>_. tick (Inr ())), js_module_namespace = (\<lambda>i. tick (Inr 1)),
     js_call = (\<lambda>f r a. tick (CallReturned 7)), js_microtask_checkpoint = tick (),
     js_promise_state = (\<lambda>h w. if w < 20 then PromisePending else PromiseFulfilled),
     js_promise_result = (\<lambda>h w. 1), js_new_resolver = tick (Some 7), js_resolve = (\<lambda>_ _. tick ()),
     js_get_promise = (\<lambda>h w. 7),
     js_from_v8_exception = (\<lambda>h. tick \<lparr>je_name = None, je_message = None, je_stack = None,
       je_exception_message = [], je_frames = []\<rparr>),
     js_wait_for_session = (\<lambda>_. tick ()), js_new_runtime = (\<lambda>_ _ _. tick ()),
     js_inspector_bind = (\<lambda>_. tick (Inr ())), js_inspector_register = (\<lambda>_ _ _. tick (Inr ())),
     js_heap_statistics = (\<lambda>_. heap_snapshot_default), js_activity = (\<lambda>_. []),
     js_watchdog_spawn = (\<lambda>_ _. tick (Inr 0)), js_watchdog_join = (\<lambda>_. tick (Some False))\<rparr>"

lemma tick_polite: "others_polite tick_js"
  by (simp add: others_polite_def tick_js_def)

definition tick_config :: "(nat, string) runtime_config" where
  "tick_config = runtime_config_default\<lparr>enable_console := None, execution_timeout := Some 5000000\<rparr>"

definition tick_core :: "nat \<Rightarrow> (nat, nat) core_state" where
  "tick_core w = (core_blank tick_config w)\<lparr>core_v8 :=
     \<lparr>v8_seen = {}, v8_fns = [4 \<mapsto> \<lparr>sf_function = 4, sf_receiver = None\<rparr>], v8_next_fn = 5,
      v8_streams = js_stream_registry_new, v8_world = w\<rparr>\<rparr>"

lemmas tick_defs = tick_def tick_v8_def tick_js_def tick_core_def tick_config_def runtime_config_default_def
  core_blank_def

text \<open>
  C99  A core that comes up has a consistent heap configuration and starts clean: it is not terminated,
  no function and no pending call is registered, limits and timeout are the configured ones, and the
  only host op that guest code can reach is the console callback, when one was configured.
\<close>

theorem new_core_starts_clean:
  assumes "core_new js cfg w = Some (Inr c)"
  shows "starts_clean cfg c
    \<and> (\<forall>n. initial_heap_size cfg = Some n \<longrightarrow> (\<exists>m. max_heap_size cfg = Some m \<and> n \<le> m))"
proof -
  from assms obtain limits c1 c2 c3 where
    l: "heap_limits_of cfg = Inr limits" and c1: "create_runtime js cfg limits (core_blank cfg w) = (Inr (), c1)"
    and c2: "setup_console js cfg c1 = Some (Inr (), c2)" and c3: "run_bootstrap js cfg c2 = (Inr (), c3)"
    and c4: "start_inspector js cfg (c3\<lparr>core_term := termination_new\<rparr>) = (Inr (), c)"
    by (auto simp: core_new_def split: sum.splits prod.splits option.splits)
  from setup_console_clean [OF c2 movesD [OF setup_parts(1) c1]] have "starts_clean cfg c2" .
  then have "starts_clean cfg c3" by (rule setup_le_clean [OF movesD [OF setup_parts(2) c3]])
  then have "starts_clean cfg (c3\<lparr>core_term := termination_new\<rparr>)" by (simp add: starts_clean_def)
  then have "starts_clean cfg c" by (rule setup_le_clean [OF movesD [OF setup_parts(3) c4]])
  with l show ?thesis by (auto simp: heap_limits_of_def split: option.splits if_splits)
qed

theorem new_core_starts_clean_witness:
  "starts_clean tick_config (snd (ask_js tick_js (tick ()) (core_blank tick_config 0)))"
proof -
  let ?c = "snd (ask_js tick_js (tick ()) (core_blank tick_config 0))"
  have "core_new tick_js tick_config 0 = Some (Inr (?c\<lparr>core_term := termination_new\<rparr>))"
    by (simp add: core_new_def heap_limits_of_def create_runtime_def setup_console_def run_bootstrap_def
        start_inspector_def tick_defs sthen_def sbind_def ask_js_eq sret_def absorb_def)
  from new_core_starts_clean [OF this] show ?thesis by (simp add: starts_clean_def)
qed

lemma tick_call_pending: "\<exists>c'. call_function_sync tick_js 4 [] None (tick_core 3) = (Inr (PendingCall 0), c')"
proof -
  have "fst (call_function_sync tick_js 4 [] None (tick_core 3)) = Inr (PendingCall 0)"
    by (simp add: call_function_sync_def with_timing_def Let_def invoke_function_sync_def call_stored_def
        settle_call_def sthen_def sbind_def ask_js_eq absorb_def sret_def look_js_def store_pending_call_def
        tick_defs)
  then show ?thesis
    by (cases "call_function_sync tick_js 4 [] None (tick_core 3)") simp
qed

end
