(* ===== verification/Peno_Jobs.thy ===== *)
theory Peno_Jobs
  imports Peno_CoreLaws
begin

text \<open>
  The asynchronous jobs of \<open>src/runtime/runner.rs\<close>: what every job carries (\<open>JobCommon\<close>), the machine
  that starts something and waits for its promise (\<open>PromiseJob\<close>, with the closures that start it as the
  datatype \<open>promise_start\<close>), and the machine that evaluates a module (\<open>EvalModuleAsyncJob\<close>).  A poll
  returns \<open>None\<close> for \<open>Poll::Pending\<close>.
\<close>

section \<open>What every job carries\<close>

record timeout_wording =
  tw_reason :: string
  tw_error :: string
  tw_suffix :: string

definition WORDING_EVAL :: timeout_wording where
  "WORDING_EVAL = \<lparr>tw_reason = ''Asynchronous evaluation'', tw_error = ''Evaluation'',
     tw_suffix = '' (promise still pending)''\<rparr>"

definition WORDING_EVAL_MODULE :: timeout_wording where
  "WORDING_EVAL_MODULE = \<lparr>tw_reason = ''Asynchronous module evaluation'', tw_error = ''Module evaluation'',
     tw_suffix = ''''\<rparr>"

definition WORDING_CALL_FUNCTION :: timeout_wording where
  "WORDING_CALL_FUNCTION = \<lparr>tw_reason = ''Asynchronous function call'', tw_error = ''Function call'',
     tw_suffix = ''''\<rparr>"

definition WORDING_NONE :: timeout_wording where
  "WORDING_NONE = \<lparr>tw_reason = '''', tw_error = '''', tw_suffix = ''''\<rparr>"

text \<open>A responder channel is its number.\<close>

record job_common =
  jc_timeout_ms :: "u64 option"
  jc_task_locals :: "nat option"
  jc_responder :: nat
  jc_start_time :: nat
  jc_deadline :: "nat option"
  jc_watchdog :: "sync_watchdog option"
  jc_kind :: runtime_call_kind
  jc_wording :: timeout_wording
  jc_context :: string

definition job_common_new ::
  "nat \<Rightarrow> runtime_call_kind \<Rightarrow> timeout_wording \<Rightarrow> string \<Rightarrow> u64 option \<Rightarrow> nat option \<Rightarrow> nat
    \<Rightarrow> sync_watchdog option \<Rightarrow> job_common" where
  "job_common_new now kind wording context timeout_ms locals responder w =
     \<lparr>jc_timeout_ms = timeout_ms, jc_task_locals = locals, jc_responder = responder, jc_start_time = now,
      jc_deadline = map_option (\<lambda>ms. now + from_millis ms) timeout_ms, jc_watchdog = w, jc_kind = kind,
      jc_wording = wording, jc_context = context\<rparr>"

definition job_common_resumed ::
  "runtime_call_kind \<Rightarrow> timeout_wording \<Rightarrow> string \<Rightarrow> 'h pending_call \<Rightarrow> nat option \<Rightarrow> nat \<Rightarrow> job_common" where
  "job_common_resumed kind wording context pending locals responder =
     \<lparr>jc_timeout_ms = pc_timeout_ms pending, jc_task_locals = locals, jc_responder = responder,
      jc_start_time = pc_start_time pending, jc_deadline = pc_deadline pending, jc_watchdog = None,
      jc_kind = kind, jc_wording = wording, jc_context = context\<rparr>"

definition expired ::
  "('h, 'w) js_engine \<Rightarrow> job_common \<Rightarrow> ('h, 'w) core_state \<Rightarrow> runtime_error option \<times> ('h, 'w) core_state" where
  "expired js j c =
     (case jc_deadline j of
        None \<Rightarrow> (None, c)
      | Some deadline \<Rightarrow>
          if core_now js c < deadline then (None, c)
          else
            let ms = (case jc_timeout_ms j of Some t \<Rightarrow> t | None \<Rightarrow> 0);
                t1 = ensure_reason (tw_reason (jc_wording j) @ '' timed out after '' @ show_word ms @ ''ms'') (core_term c);
                t2 = terminate_execution t1
            in (Some (Timeout (tw_error (jc_wording j) @ '' timed out after '' @ show_word ms @ ''ms''
                  @ tw_suffix (jc_wording j))), c\<lparr>core_term := t2\<rparr>))"

definition install_task_locals :: "job_common \<Rightarrow> ('h, 'w) core_state \<Rightarrow> ('h, 'w) core_state" where
  "install_task_locals j c =
     (case jc_task_locals j of
        None \<Rightarrow> c
      | Some l \<Rightarrow> c\<lparr>core_task_locals := Some l, core_loader := set_task_locals (core_loader c),
                    core_global_locals := Some (Some l)\<rparr>)"

text \<open>What goes to the responder.\<close>

definition job_respond :: "('h, 'w) js_engine \<Rightarrow> job_common \<Rightarrow> js_value runtime_result \<Rightarrow> ('h, 'w, js_value) core_op" where
  "job_respond js j result = apply_watchdog_result js result (jc_watchdog j) (jc_context j)"

section \<open>Jobs that wait for a promise\<close>

datatype 'h promise_start =
    StartEval string
  | StartStreamRead u32
  | StartCall u32 "js_value list"
  | StartResumed 'h

definition as_promise :: "('h, 'w) js_engine \<Rightarrow> 'h \<Rightarrow> ('h, 'w, 'h) core_op" where
  "as_promise js v =
     (if v8_is_promise (js_v8 js) v then sret v
      else
        sbind (ask_js js (js_new_resolver js)) (\<lambda>r.
        sbind (opt_or ''Failed to create PromiseResolver'' r) (\<lambda>resolver.
        sthen (ask_js js (js_resolve js resolver v)) (look_js (js_get_promise js resolver)))))"

definition start_eval :: "('h, 'w) js_engine \<Rightarrow> string \<Rightarrow> ('h, 'w, 'h) core_op" where
  "start_eval js code =
     sbind (ask_js js (js_execute_script js ''<eval_async>'' code)) (\<lambda>r.
     case r of Inl e \<Rightarrow> raise_js e | Inr v \<Rightarrow> as_promise js v)"

definition start_stream_read :: "('h, 'w) js_engine \<Rightarrow> u32 \<Rightarrow> ('h, 'w, 'h) core_op" where
  "start_stream_read js i = in_streams_of js (start_read (v8_calls.truncate (js_v8 js)) i)"

definition start_call :: "('h, 'w) js_engine \<Rightarrow> u32 \<Rightarrow> js_value list \<Rightarrow> ('h, 'w, 'h) core_op" where
  "start_call js fn_id args c =
     (case core_fns c fn_id of
        None \<Rightarrow> (Inl (Internal (''Function ID '' @ show_word fn_id @ '' not found'')), c)
      | Some stored \<Rightarrow>
          sbind (call_stored js stored args) (\<lambda>outcome.
          case outcome of
            CallReturned v \<Rightarrow> as_promise js v
          | CallThrew exc \<Rightarrow> raise_exception js exc
          | CallFailed \<Rightarrow> sfail (Internal ''Function call failed with no exception'')) c)"

fun run_start :: "('h, 'w) js_engine \<Rightarrow> 'h promise_start \<Rightarrow> ('h, 'w, 'h) core_op" where
  "run_start js (StartEval code) = start_eval js code"
| "run_start js (StartStreamRead i) = start_stream_read js i"
| "run_start js (StartCall fn_id args) = start_call js fn_id args"
| "run_start js (StartResumed promise) = sret promise"

text \<open>The hook of a stream read.\<close>

definition stream_read_hook :: "('h, 'w) js_engine \<Rightarrow> u32 \<Rightarrow> js_value \<Rightarrow> ('h, 'w, js_value) core_op" where
  "stream_read_hook js i value c =
     (case from_js_value (js_debug js) value of
        Inl e \<Rightarrow> (Inl e, c)
      | Inr chunk \<Rightarrow>
          (let c1 = c\<lparr>core_v8 := (core_v8 c)\<lparr>v8_streams := update_stats_after_chunk i chunk (v8_streams (core_v8 c))\<rparr>\<rparr>;
               c2 = (if chunk_done chunk then release_js_stream i c1 else c1)
           in (Inr (to_js_value chunk), c2)))"

datatype 'h promise_job_state = PJInit | PJWaiting 'h | PJDone

record 'h promise_job =
  pj_common :: job_common
  pj_start :: "'h promise_start option"
  pj_hook :: "u32 option"
  pj_state :: "'h promise_job_state"

definition promise_job_new :: "job_common \<Rightarrow> 'h promise_start \<Rightarrow> 'h promise_job" where
  "promise_job_new common start = \<lparr>pj_common = common, pj_start = Some start, pj_hook = None, pj_state = PJInit\<rparr>"

definition with_fulfilled_hook :: "u32 \<Rightarrow> 'h promise_job \<Rightarrow> 'h promise_job" where
  "with_fulfilled_hook i j = j\<lparr>pj_hook := Some i\<rparr>"

text \<open>A value converted for a fulfilled promise, through the hook when there is one.\<close>

definition fulfilled_value :: "('h, 'w) js_engine \<Rightarrow> u32 option \<Rightarrow> 'h \<Rightarrow> ('h, 'w, js_value) core_op" where
  "fulfilled_value js hook promise =
     sbind (look_js (js_promise_result js promise)) (\<lambda>r.
     sbind (convert_out js r) (\<lambda>value.
     case hook of Some i \<Rightarrow> stream_read_hook js i value | None \<Rightarrow> sret value))"

type_synonym ('h, 'w, 'j) job_poll =
  "'j \<Rightarrow> ('h, 'w) core_state \<Rightarrow> js_value runtime_result option \<times> 'j \<times> ('h, 'w) core_state"

definition promise_step :: "('h, 'w) js_engine \<Rightarrow> ('h, 'w, 'h promise_job) job_poll" where
  "promise_step js j c =
     (case pj_state j of
        PJInit \<Rightarrow>
          (case pj_start j of
             None \<Rightarrow> (Some (Inl (Internal ''Job started more than once'')), j\<lparr>pj_state := PJDone\<rparr>,
                      install_task_locals (pj_common j) c)
           | Some start \<Rightarrow>
               (case run_start js start (install_task_locals (pj_common j) c) of
                  (Inr promise, c') \<Rightarrow> (None, j\<lparr>pj_start := None, pj_state := PJWaiting promise\<rparr>, c')
                | (Inl err, c') \<Rightarrow> (Some (Inl err), j\<lparr>pj_start := None, pj_state := PJDone\<rparr>, c')))
      | PJWaiting promise \<Rightarrow>
          (case js_promise_state js promise (core_world c) of
             PromisePending \<Rightarrow> (None, j, c)
           | PromiseFulfilled \<Rightarrow>
               (case fulfilled_value js (pj_hook j) promise c of
                  (r, c') \<Rightarrow> (Some r, j\<lparr>pj_hook := None, pj_state := PJDone\<rparr>, c'))
           | PromiseRejected \<Rightarrow>
               (case raise_exception js (js_promise_result js promise (core_world c)) c of
                  (r, c') \<Rightarrow> (Some r, j\<lparr>pj_state := PJDone\<rparr>, c')))
      | PJDone \<Rightarrow> (Some (Inl (Internal ''Job already completed'')), j, c))"

definition promise_poll :: "('h, 'w) js_engine \<Rightarrow> ('h, 'w, 'h promise_job) job_poll" where
  "promise_poll js j c =
     (case expired js (pj_common j) c of
        (Some err, c') \<Rightarrow> (Some (Inl err), j, c')
      | (None, c') \<Rightarrow> promise_step js j c')"

section \<open>Module evaluation\<close>

datatype module_job_state = MJInit | MJEvaluating nat nat | MJWaitingNamespace nat | MJDone

record module_job =
  mj_specifier :: string
  mj_common :: job_common
  mj_state :: module_job_state

text \<open>An early return by \<open>?\<close> leaves the state as it is.\<close>

definition module_step :: "('h, 'w) js_engine \<Rightarrow> ('h, 'w, module_job) job_poll" where
  "module_step js j c =
     (case mj_state j of
        MJInit \<Rightarrow>
          (case load_main_module js (mj_specifier j) (install_task_locals (mj_common j) c) of
             (Inl err, c') \<Rightarrow> (Some (Inl err), j, c')
           | (Inr module_id, c') \<Rightarrow>
               (case ask_js js (js_mod_evaluate js module_id) c' of
                  (Inl err, c'') \<Rightarrow> (Some (Inl err), j, c'')
                | (Inr receiver, c'') \<Rightarrow> (None, j\<lparr>mj_state := MJEvaluating module_id receiver\<rparr>, c'')))
      | MJEvaluating module_id receiver \<Rightarrow>
          (case ask_js js (js_poll_receiver js receiver) c of
             (Inr None, c') \<Rightarrow> (None, j, c')
           | (Inr (Some (Inl err)), c') \<Rightarrow>
               (case translate_core_error err c' of (e, c'') \<Rightarrow> (Some (Inl e), j\<lparr>mj_state := MJDone\<rparr>, c''))
           | (Inr (Some (Inr _)), c') \<Rightarrow> (None, j\<lparr>mj_state := MJWaitingNamespace module_id\<rparr>, c')
           | (Inl err, c') \<Rightarrow> (Some (Inl err), j, c'))
      | MJWaitingNamespace module_id \<Rightarrow>
          (case ask_js js (js_module_namespace js module_id) c of
             (Inr (Inr ns), c') \<Rightarrow>
               (case convert_out js ns c' of (r, c'') \<Rightarrow> (Some r, j\<lparr>mj_state := MJDone\<rparr>, c''))
           | (Inr (Inl e), c') \<Rightarrow> (Some (Inl (Internal (''Failed to get module namespace: '' @ e))), j, c')
           | (Inl err, c') \<Rightarrow> (Some (Inl err), j, c'))
      | MJDone \<Rightarrow> (Some (Inl (Internal ''Job already completed'')), j, c))"

definition module_poll :: "('h, 'w) js_engine \<Rightarrow> ('h, 'w, module_job) job_poll" where
  "module_poll js j c =
     (case expired js (mj_common j) c of
        (Some err, c') \<Rightarrow> (Some (Inl err), j, c')
      | (None, c') \<Rightarrow> module_step js j c')"

section \<open>The jobs of the dispatcher\<close>

text \<open>\<open>Box<dyn RuntimeJob>\<close>\<close>

datatype 'h runtime_job = JobOfPromise "'h promise_job" | JobOfModule module_job

fun job_common_of :: "'h runtime_job \<Rightarrow> job_common" where
  "job_common_of (JobOfPromise j) = pj_common j"
| "job_common_of (JobOfModule j) = mj_common j"

fun job_poll :: "('h, 'w) js_engine \<Rightarrow> ('h, 'w, 'h runtime_job) job_poll" where
  "job_poll js (JobOfPromise j) c = (case promise_poll js j c of (r, j', c') \<Rightarrow> (r, JobOfPromise j', c'))"
| "job_poll js (JobOfModule j) c = (case module_poll js j c of (r, j', c') \<Rightarrow> (r, JobOfModule j', c'))"

definition eval_async_job ::
  "nat \<Rightarrow> string \<Rightarrow> u64 option \<Rightarrow> nat option \<Rightarrow> nat \<Rightarrow> sync_watchdog option \<Rightarrow> 'h runtime_job" where
  "eval_async_job now code timeout_ms locals responder w =
     JobOfPromise (promise_job_new
       (job_common_new now EvalAsync WORDING_EVAL ''Async evaluation'' timeout_ms locals responder w)
       (StartEval code))"

definition stream_read_job :: "nat \<Rightarrow> u32 \<Rightarrow> nat \<Rightarrow> 'h runtime_job" where
  "stream_read_job now i responder =
     JobOfPromise (with_fulfilled_hook i (promise_job_new
       (job_common_new now EvalAsync WORDING_NONE ''Stream read'' None None responder None)
       (StartStreamRead i)))"

definition eval_module_async_job ::
  "nat \<Rightarrow> string \<Rightarrow> u64 option \<Rightarrow> nat option \<Rightarrow> nat \<Rightarrow> sync_watchdog option \<Rightarrow> 'h runtime_job" where
  "eval_module_async_job now specifier timeout_ms locals responder w =
     JobOfModule \<lparr>mj_specifier = specifier,
       mj_common = job_common_new now EvalModuleAsync WORDING_EVAL_MODULE ''Async module evaluation''
         timeout_ms locals responder w,
       mj_state = MJInit\<rparr>"

definition call_function_async_job ::
  "nat \<Rightarrow> u32 \<Rightarrow> js_value list \<Rightarrow> u64 option \<Rightarrow> nat option \<Rightarrow> nat \<Rightarrow> ('h, 'w) core_state \<Rightarrow> 'h runtime_job" where
  "call_function_async_job now fn_id args timeout_ms locals responder c =
     JobOfPromise (promise_job_new
       (job_common_new now CallFunctionAsync WORDING_CALL_FUNCTION ''Async function call''
          (effective_timeout_ms c timeout_ms) locals responder None)
       (StartCall fn_id args))"

definition resume_function_call_job :: "'h pending_call \<Rightarrow> nat option \<Rightarrow> nat \<Rightarrow> 'h runtime_job" where
  "resume_function_call_job pending locals responder =
     JobOfPromise (promise_job_new
       (job_common_resumed CallFunctionAsync WORDING_CALL_FUNCTION ''Async function call'' pending locals responder)
       (StartResumed (pc_promise pending)))"


section \<open>The interface of a job\<close>

definition timeout_error :: "job_common \<Rightarrow> runtime_error" where
  "timeout_error j = Timeout (tw_error (jc_wording j) @ '' timed out after ''
     @ show_word (case jc_timeout_ms j of Some t \<Rightarrow> t | None \<Rightarrow> 0) @ ''ms'' @ tw_suffix (jc_wording j))"

text \<open>What a poll that finds the deadline passed has asked for.\<close>

definition stopped :: "('h, 'w) core_state \<Rightarrow> bool" where
  "stopped c \<longleftrightarrow> v8_terminating (core_term c) \<and> reason (core_term c) \<noteq> None"

lemma expired_evolves: "expired js j c = (r, c') \<Longrightarrow> evolves c c'"
proof -
  have "term_le t (terminate_execution (ensure_reason q t))" for t q
    by (rule term_le_trans [of _ "ensure_reason q t"]) simp_all
  then have "evolves c (c\<lparr>core_term := terminate_execution (ensure_reason q (core_term c))\<rparr>)" for q
    by (auto simp: evolves_def core_ok_def term_le_def)
  then show "expired js j c = (r, c') \<Longrightarrow> evolves c c'"
    by (auto simp: expired_def Let_def evolves.le_refl split: option.splits if_splits)
qed

lemma expired_past:
  assumes "jc_deadline j = Some d" "d \<le> core_now js c"
  shows "\<exists>c'. expired js j c = (Some (timeout_error j), c') \<and> stopped c'"
  using assms
  by (auto simp: expired_def timeout_error_def stopped_def Let_def terminate_execution_def ensure_reason_set)

lemma expired_not_yet:
  "jc_deadline j = None \<or> (\<exists>d. jc_deadline j = Some d \<and> core_now js c < d) \<Longrightarrow> expired js j c = (None, c)"
  by (auto simp: expired_def)

text \<open>Polls with something else going on in between.\<close>

fun drive :: "('j \<Rightarrow> 'c \<Rightarrow> 'r option \<times> 'j \<times> 'c) \<Rightarrow> ('c \<Rightarrow> 'c) list \<Rightarrow> 'j \<Rightarrow> 'c \<Rightarrow> 'r option \<times> 'j \<times> 'c" where
  "drive poll [] j c = (None, j, c)"
| "drive poll (f # fs) j c =
     (case poll j (f c) of
        (None, j', c') \<Rightarrow> drive poll fs j' c'
      | (Some r, j', c') \<Rightarrow> (Some r, j', c'))"

lemma drive_append:
  "drive poll (fs @ gs) j c =
     (case drive poll fs j c of
        (None, j', c') \<Rightarrow> drive poll gs j' c'
      | (Some r, j', c') \<Rightarrow> (Some r, j', c'))"
  by (induction fs arbitrary: j c) (auto split: option.split prod.split)

locale polled_job = effect_order le
  for le :: "'c \<Rightarrow> 'c \<Rightarrow> bool" +
  fixes poll :: "'j \<Rightarrow> 'c \<Rightarrow> js_value runtime_result option \<times> 'j \<times> 'c"
    and common :: "'j \<Rightarrow> job_common"
    and now :: "'c \<Rightarrow> nat"
    and killed :: "'c \<Rightarrow> bool"
  assumes poll_common: "poll j c = (r, j', c') \<Longrightarrow> common j' = common j"
    and poll_le: "poll j c = (r, j', c') \<Longrightarrow> le c c'"
    and poll_past: "jc_deadline (common j) = Some d \<Longrightarrow> d \<le> now c
      \<Longrightarrow> \<exists>c'. poll j c = (Some (Inl (timeout_error (common j))), j, c') \<and> killed c'"
begin

lemma drive_common: "drive poll fs j c = (r, j', c') \<Longrightarrow> common j' = common j"
  by (induction fs arbitrary: j c) (auto dest: poll_common split: option.splits prod.splits)

lemma drive_le:
  assumes "\<And>f c. f \<in> set fs \<Longrightarrow> le c (f c)" "drive poll fs j c = (r, j', c')"
  shows "le c c'"
  using assms
proof (induction fs arbitrary: j c)
  case Nil
  then show ?case by (simp add: le_refl)
next
  case (Cons f fs)
  obtain q j1 c1 where p: "poll j (f c) = (q, j1, c1)" by (rule prod_cases3)
  have "le c (f c)" using Cons.prems(1) by simp
  then have c1: "le c c1" using poll_le [OF p] by (rule le_trans)
  show ?case
  proof (cases q)
    case None
    with Cons.prems(2) p have "drive poll fs j1 c1 = (r, j', c')" by simp
    with Cons.IH [of j1 c1] Cons.prems(1) have "le c1 c'" by simp
    with c1 show ?thesis by (rule le_trans)
  next
    case (Some a)
    with Cons.prems(2) p c1 show ?thesis by simp
  qed
qed

lemma drive_past:
  assumes "drive poll fs j c = (None, j1, c1)" "jc_deadline (common j) = Some d" "d \<le> now (f c1)"
  shows "\<exists>c'. drive poll (fs @ [f]) j c = (Some (Inl (timeout_error (common j))), j1, c') \<and> killed c'"
proof -
  have "common j1 = common j" by (rule drive_common [OF assms(1)])
  with poll_past [of j1 d "f c1"] assms show ?thesis
    by (auto simp: drive_append)
qed

end

section \<open>The machines are jobs\<close>

lemma as_promise_evolves: "others_polite js \<Longrightarrow> moves evolves (as_promise js v)"
proof -
  have "moves evolves (opt_or m r :: ('h, 'w, 'h) core_op)" for m r
    by (simp add: moves_def opt_or_def evolves.le_refl split: option.split)
  then show "others_polite js \<Longrightarrow> moves evolves (as_promise js v)"
    by (auto simp: as_promise_def intro!: evolve_rules calm_engine_evolves)
qed

lemma call_stored_evolves: "others_polite js \<Longrightarrow> moves evolves (call_stored js st args)"
  by (rule calm_moves) (rule call_stored_calm)

lemma start_call_evolves:
  assumes "others_polite js"
  shows "moves evolves (start_call js i args)"
proof -
  have "moves evolves (case outcome of CallReturned v \<Rightarrow> as_promise js v | CallThrew exc \<Rightarrow> raise_exception js exc
      | CallFailed \<Rightarrow> sfail (Internal m))" for outcome m
    using assms as_promise_evolves raise_exception_evolves evolves.sfail by (cases outcome) auto
  then have "moves evolves (sbind (call_stored js st args) (\<lambda>outcome. case outcome of
      CallReturned v \<Rightarrow> as_promise js v | CallThrew exc \<Rightarrow> raise_exception js exc
      | CallFailed \<Rightarrow> sfail (Internal m)))" for st m
    by (intro evolves.sbind call_stored_evolves assms)
  then show ?thesis
    by (auto simp: start_call_def moves_def evolves.le_refl split: option.split)
qed

lemma run_start_evolves: "others_polite js \<Longrightarrow> moves evolves (run_start js st)"
  by (cases st)
    (auto simp: start_eval_def start_stream_read_def
      intro!: sum_evolves evolve_rules calm_engine_evolves as_promise_evolves start_call_evolves)

lemma install_task_locals_evolves: "evolves c (install_task_locals j c)"
  by (auto simp: install_task_locals_def evolves_def core_ok_def split: option.split)

lemma stream_read_hook_evolves: "moves evolves (stream_read_hook js i v)"
  by (auto simp: moves_def stream_read_hook_def Let_def release_js_stream_def evolves_def core_ok_def split: sum.split)

lemma fulfilled_value_evolves:
  assumes "others_polite js"
  shows "moves evolves (fulfilled_value js hook p)"
proof -
  have "moves evolves (case hook of Some i \<Rightarrow> stream_read_hook js i v | None \<Rightarrow> sret v)" for v
    by (auto simp: stream_read_hook_evolves evolves.sret split: option.split)
  then show ?thesis unfolding fulfilled_value_def by (intro evolve_rules calm_engine_evolves [OF assms])
qed

lemma promise_step_evolves:
  assumes "others_polite js" "promise_step js j c = (r, j', c')"
  shows "evolves c c' \<and> pj_common j' = pj_common j"
proof -
  note inst = evolves.le_trans [OF install_task_locals_evolves]
  show ?thesis
    using assms(2) inst [OF movesD [OF run_start_evolves [OF assms(1)]]] install_task_locals_evolves
      movesD [OF fulfilled_value_evolves [OF assms(1)]] movesD [OF raise_exception_evolves [OF assms(1)]]
    by (fastforce simp: promise_step_def evolves.le_refl
        split: promise_job_state.splits option.splits prod.splits sum.splits promise_state.splits)
qed


lemma module_step_evolves:
  assumes "others_polite js" "module_step js j c = (r, j', c')"
  shows "evolves c c' \<and> mj_common j' = mj_common j"
proof (cases "mj_state j")
  case MJInit
  let ?c = "install_task_locals (mj_common j) c"
  obtain m c1 where m: "load_main_module js (mj_specifier j) ?c = (m, c1)" by fastforce
  have c1: "evolves c c1"
    by (rule evolves.le_trans [OF install_task_locals_evolves movesD [OF calm_engine_evolves(4) m]]) (rule assms(1))
  show ?thesis
  proof (cases m)
    case (Inl e)
    with assms(2) MJInit m c1 show ?thesis by (simp add: module_step_def)
  next
    case (Inr i)
    have "evolves c1 (snd (ask_js js (js_mod_evaluate js i) c1))"
      by (rule moves_app [OF calm_engine_evolves(1)]) (rule assms(1))
    with evolves.le_trans [OF c1 this] Inr assms(2) MJInit m show ?thesis
      by (auto simp: module_step_def ask_js_eq)
  qed
next
  case (MJEvaluating i q)
  let ?c = "snd (ask_js js (js_poll_receiver js q) c)"
  have c1: "evolves c ?c" by (rule moves_app [OF calm_engine_evolves(1)]) (rule assms(1))
  have "evolves c (snd (translate_core_error e ?c))" for e
    by (rule evolves.le_trans [OF c1 translate_evolves(2)])
  with c1 assms(2) MJEvaluating show ?thesis
    by (auto simp: module_step_def ask_js_eq split: option.splits sum.splits prod.splits) (metis snd_conv)
next
  case (MJWaitingNamespace i)
  let ?c = "snd (ask_js js (js_module_namespace js i) c)"
  have c1: "evolves c ?c" by (rule moves_app [OF calm_engine_evolves(1)]) (rule assms(1))
  have "evolves c (snd (convert_out js v ?c))" for v
    by (rule evolves.le_trans [OF c1 moves_app [OF calm_engine_evolves(3)]]) (rule assms(1))
  with c1 assms(2) MJWaitingNamespace show ?thesis
    by (auto simp: module_step_def ask_js_eq split: sum.splits prod.splits) (metis snd_conv)
next
  case MJDone
  with assms(2) show ?thesis by (auto simp: module_step_def evolves.le_refl)
qed

lemma promise_poll_evolves:
  assumes "others_polite js" "promise_poll js j c = (r, j', c')"
  shows "evolves c c' \<and> pj_common j' = pj_common j"
proof -
  obtain x c1 where e: "expired js (pj_common j) c = (x, c1)" by fastforce
  show ?thesis
    using assms(2) e expired_evolves [OF e] promise_step_evolves [OF assms(1), of j c1 r j' c']
    by (cases x) (auto simp: promise_poll_def intro: evolves.le_trans)
qed

lemma module_poll_evolves:
  assumes "others_polite js" "module_poll js j c = (r, j', c')"
  shows "evolves c c' \<and> mj_common j' = mj_common j"
proof -
  obtain x c1 where e: "expired js (mj_common j) c = (x, c1)" by fastforce
  show ?thesis
    using assms(2) e expired_evolves [OF e] module_step_evolves [OF assms(1), of j c1 r j' c']
    by (cases x) (auto simp: module_poll_def intro: evolves.le_trans)
qed

lemma job_poll_evolves:
  assumes "others_polite js" "job_poll js j c = (r, j', c')"
  shows "evolves c c' \<and> job_common_of j' = job_common_of j"
  using assms(2) promise_poll_evolves [OF assms(1)] module_poll_evolves [OF assms(1)]
  by (cases j) (auto split: prod.splits)

lemma job_poll_past:
  assumes "jc_deadline (job_common_of j) = Some d" "d \<le> core_now js c"
  shows "\<exists>c'. job_poll js j c = (Some (Inl (timeout_error (job_common_of j))), j, c') \<and> stopped c'"
proof -
  from expired_past [OF assms] obtain c' where
    e: "expired js (job_common_of j) c = (Some (timeout_error (job_common_of j)), c')" and s: "stopped c'" by blast
  then show ?thesis by (cases j) (simp_all add: promise_poll_def module_poll_def)
qed

lemma polls_keep_common:
  "promise_poll js pj c = (r, pj', c') \<Longrightarrow> pj_common pj' = pj_common pj"
  "module_poll js mj c = (r, mj', c') \<Longrightarrow> mj_common mj' = mj_common mj"
proof -
  have "promise_step js pj c1 = (r, pj', c') \<Longrightarrow> pj_common pj' = pj_common pj" for c1
    by (auto simp: promise_step_def
        split: promise_job_state.splits option.splits prod.splits sum.splits promise_state.splits)
  then show "promise_poll js pj c = (r, pj', c') \<Longrightarrow> pj_common pj' = pj_common pj"
    by (auto simp: promise_poll_def split: prod.splits option.splits)
  have "module_step js mj c1 = (r, mj', c') \<Longrightarrow> mj_common mj' = mj_common mj" for c1
    by (auto simp: module_step_def split: module_job_state.splits option.splits prod.splits sum.splits)
  then show "module_poll js mj c = (r, mj', c') \<Longrightarrow> mj_common mj' = mj_common mj"
    by (auto simp: module_poll_def split: prod.splits option.splits)
qed

lemma job_poll_common: "job_poll js j c = (r, j', c') \<Longrightarrow> job_common_of j' = job_common_of j"
  by (cases j) (auto dest: polls_keep_common split: prod.splits)

text \<open>The order of the interface, for threads that keep to the controller's methods.\<close>

definition polite_evolves :: "('h, 'w) js_engine \<Rightarrow> ('h, 'w) core_state \<Rightarrow> ('h, 'w) core_state \<Rightarrow> bool" where
  "polite_evolves js c c' \<longleftrightarrow> (others_polite js \<longrightarrow> evolves c c')"

lemma polite_order: "polite_evolves js c c" "polite_evolves js a b \<Longrightarrow> polite_evolves js b d \<Longrightarrow> polite_evolves js a d"
  by (auto simp: polite_evolves_def evolves.le_refl intro: evolves.le_trans)

interpretation promise_jobs: polled_job "polite_evolves js" "promise_poll js" pj_common "core_now js" stopped
  for js :: "('h, 'w) js_engine"
proof unfold_locales
  fix j :: "'h promise_job" and c :: "('h, 'w) core_state" and d
  assume "jc_deadline (pj_common j) = Some d" "d \<le> core_now js c"
  with job_poll_past [of "JobOfPromise j" d js c]
  show "\<exists>c'. promise_poll js j c = (Some (Inl (timeout_error (pj_common j))), j, c') \<and> stopped c'"
    by (auto split: prod.splits)
qed (auto simp: polite_evolves_def evolves.le_refl intro: evolves.le_trans dest: promise_poll_evolves polls_keep_common)

interpretation module_jobs: polled_job "polite_evolves js" "module_poll js" mj_common "core_now js" stopped
  for js :: "('h, 'w) js_engine"
proof unfold_locales
  fix j :: module_job and c :: "('h, 'w) core_state" and d
  assume "jc_deadline (mj_common j) = Some d" "d \<le> core_now js c"
  with job_poll_past [of "JobOfModule j" d js c]
  show "\<exists>c'. module_poll js j c = (Some (Inl (timeout_error (mj_common j))), j, c') \<and> stopped c'"
    by (auto split: prod.splits)
qed (auto simp: polite_evolves_def dest: module_poll_evolves polls_keep_common)

interpretation jobs: polled_job "polite_evolves js" "job_poll js" job_common_of "core_now js" stopped
  for js :: "('h, 'w) js_engine"
  by unfold_locales
    (auto simp: polite_evolves_def dest: job_poll_evolves job_poll_common intro: job_poll_past)

section \<open>Properties\<close>

text \<open>
  C18  A deadline is enforced whatever the promise does: a job that is still waiting when its deadline
  has passed is answered by the next poll, with the timeout of its kind and its milliseconds, and by
  then V8 has been asked to stop and a reason is on record.
\<close>

theorem job_answered_by_deadline:
  assumes "drive (job_poll js) steps j c = (None, j', c')"
    and "jc_deadline (job_common_of j) = Some d" "d \<le> core_now js (step c')"
  shows "\<exists>c''. drive (job_poll js) (steps @ [step]) j c = (Some (Inl (timeout_error (job_common_of j))), j', c'')
    \<and> v8_terminating (core_term c'') \<and> reason (core_term c'') \<noteq> None"
  using jobs.drive_past [OF assms(1,2), of step] assms(3) by (simp add: stopped_def)

theorem job_answered_by_deadline_witness:
  "\<exists>j' c''. drive (job_poll tick_js) [id, \<lambda>c. c\<lparr>core_v8 := (core_v8 c)\<lparr>v8_world := 9\<rparr>\<rparr>]
      (eval_async_job 0 ''promise'' (Some 8) None 1 None) (tick_core 0)
    = (Some (Inl (Timeout ''Evaluation timed out after 8ms (promise still pending)'')), j', c'')"
proof -
  let ?j = "eval_async_job 0 ''promise'' (Some 8) None 1 None :: nat runtime_job"
  let ?step = "\<lambda>c :: (nat, nat) core_state. c\<lparr>core_v8 := (core_v8 c)\<lparr>v8_world := 9\<rparr>\<rparr>"
  have one: "fst (drive (job_poll tick_js) [id] ?j (tick_core 0)) = None"
    by (simp add: eval_async_job_def promise_job_new_def job_common_new_def promise_poll_def promise_step_def
        expired_def from_millis_def start_eval_def as_promise_def sbind_def ask_js_eq absorb_def sret_def
        install_task_locals_def tick_defs)
  then obtain j' c' where d: "drive (job_poll tick_js) [id] ?j (tick_core 0) = (None, j', c')"
    by (cases "drive (job_poll tick_js) [id] ?j (tick_core 0)") auto
  have "timeout_error (job_common_of ?j) = Timeout ''Evaluation timed out after 8ms (promise still pending)''"
    by (simp add: timeout_error_def eval_async_job_def promise_job_new_def job_common_new_def WORDING_EVAL_def
        show_word_def show_uint.simps digit_char_def)
  with job_answered_by_deadline [OF d, of 8000000 ?step] show ?thesis
    by (auto simp: eval_async_job_def promise_job_new_def job_common_new_def from_millis_def tick_defs)
qed

end
