(* ===== verification/Peno_Dispatcher.thy ===== *)
theory Peno_Dispatcher
  imports Peno_Jobs "HOL-Library.Multiset"
begin

text \<open>
  \<open>RuntimeDispatcher\<close> (\<open>src/runtime/runner.rs\<close>): the loop of the runtime thread, which drives the event
  loop, polls the active job, honours a termination request and handles one command at a time.  One
  trip is the functions \<open>loop_top\<close> (down to the wait) and \<open>loop_wake\<close> (what ended the wait); the
  relation \<open>run_step\<close> chains them, with the other threads running while the dispatcher waits.  What is
  sent to a responder is appended to \<open>d_sent\<close>.
\<close>

section \<open>Commands and answers\<close>

text \<open>The last argument is the responder.\<close>

datatype runtime_command =
    CmdEval string nat
  | CmdEvalAsync string "u64 option" "nat option" nat
  | CmdEvalModule string nat
  | CmdEvalModuleAsync string "u64 option" "nat option" nat
  | CmdRegisterPythonOp string python_op_mode nat nat
  | CmdSetPythonOpExposure op_token bool nat
  | CmdSetModuleResolver nat nat
  | CmdSetModuleLoader nat nat
  | CmdAddStaticModule string string nat
  | CmdBindObject string "bound_property list" nat
  | CmdCallFunctionSync u32 "js_value list" "u64 option" nat
  | CmdCallFunctionAsync u32 "js_value list" "u64 option" "nat option" nat
  | CmdResumeFunctionCall u64 "nat option" nat
  | CmdReleaseFunction u32 nat
  | CmdStreamRead u32 nat
  | CmdStreamRelease u32 nat
  | CmdStreamCancel u32 nat
  | CmdGetStats nat
  | CmdTerminate nat
  | CmdShutdown nat

fun responder_of :: "runtime_command \<Rightarrow> nat" where
  "responder_of (CmdEval _ r) = r"
| "responder_of (CmdEvalAsync _ _ _ r) = r"
| "responder_of (CmdEvalModule _ r) = r"
| "responder_of (CmdEvalModuleAsync _ _ _ r) = r"
| "responder_of (CmdRegisterPythonOp _ _ _ r) = r"
| "responder_of (CmdSetPythonOpExposure _ _ r) = r"
| "responder_of (CmdSetModuleResolver _ r) = r"
| "responder_of (CmdSetModuleLoader _ r) = r"
| "responder_of (CmdAddStaticModule _ _ r) = r"
| "responder_of (CmdBindObject _ _ r) = r"
| "responder_of (CmdCallFunctionSync _ _ _ r) = r"
| "responder_of (CmdCallFunctionAsync _ _ _ _ r) = r"
| "responder_of (CmdResumeFunctionCall _ _ r) = r"
| "responder_of (CmdReleaseFunction _ r) = r"
| "responder_of (CmdStreamRead _ r) = r"
| "responder_of (CmdStreamRelease _ r) = r"
| "responder_of (CmdStreamCancel _ r) = r"
| "responder_of (CmdGetStats r) = r"
| "responder_of (CmdTerminate r) = r"
| "responder_of (CmdShutdown r) = r"

datatype answer =
    AnsValue "js_value runtime_result"
  | AnsToken "op_token runtime_result"
  | AnsFlag "bool runtime_result"
  | AnsUnit "unit runtime_result"
  | AnsCall "function_call_result runtime_result"
  | AnsStats "stats_report runtime_result"
  | AnsShutdown

section \<open>The dispatcher\<close>

record ('h, 'w) dispatcher =
  d_core :: "('h, 'w) core_state"
  d_pending :: "'h runtime_job list"
  d_active :: "'h runtime_job option"
  d_just :: bool
  d_closed :: bool
  d_sent :: "(nat \<times> answer) list"

definition dispatcher_new :: "('h, 'w) core_state \<Rightarrow> ('h, 'w) dispatcher" where
  "dispatcher_new core = \<lparr>d_core = core, d_pending = [], d_active = None, d_just = False, d_closed = False,
     d_sent = []\<rparr>"

definition reply :: "nat \<Rightarrow> answer \<Rightarrow> ('h, 'w) dispatcher \<Rightarrow> ('h, 'w) dispatcher" where
  "reply r a d = d\<lparr>d_sent := d_sent d @ [(r, a)]\<rparr>"

definition PENDING_WORK_TICK :: nat where
  "PENDING_WORK_TICK = 1000000"

definition pending_work_wait :: "('h, 'w) js_engine \<Rightarrow> ('h, 'w) dispatcher \<Rightarrow> nat" where
  "pending_work_wait js d =
     (case d_active d of
        None \<Rightarrow> PENDING_WORK_TICK
      | Some job \<Rightarrow>
          (case jc_deadline (job_common_of job) of
             None \<Rightarrow> PENDING_WORK_TICK
           | Some deadline \<Rightarrow> min PENDING_WORK_TICK (deadline - core_now js (d_core d))))"

definition submit_job :: "'h runtime_job \<Rightarrow> ('h, 'w) dispatcher \<Rightarrow> ('h, 'w) dispatcher" where
  "submit_job job d =
     (if d_active d = None then d\<lparr>d_just := True, d_active := Some job\<rparr>
      else d\<lparr>d_pending := d_pending d @ [job]\<rparr>)"

definition has_work :: "('h, 'w) dispatcher \<Rightarrow> bool" where
  "has_work d \<longleftrightarrow> d_active d \<noteq> None \<or> d_pending d \<noteq> []"

definition finish_job ::
  "('h, 'w) js_engine \<Rightarrow> 'h runtime_job \<Rightarrow> js_value runtime_result \<Rightarrow> ('h, 'w) dispatcher \<Rightarrow> ('h, 'w) dispatcher" where
  "finish_job js job result d =
     (case job_respond js (job_common_of job) result (d_core d) of
        (r, c) \<Rightarrow> reply (jc_responder (job_common_of job)) (AnsValue r) (d\<lparr>d_core := c\<rparr>))"

definition on_core :: "(('h, 'w) core_state \<Rightarrow> ('h, 'w) core_state) \<Rightarrow> ('h, 'w) dispatcher \<Rightarrow> ('h, 'w) dispatcher" where
  "on_core f d = d\<lparr>d_core := f (d_core d)\<rparr>"

text \<open>\<open>finish\<close> of the active job and of every queued one, in this order.\<close>

definition cancel_all_jobs :: "('h, 'w) js_engine \<Rightarrow> runtime_error \<Rightarrow> ('h, 'w) dispatcher \<Rightarrow> ('h, 'w) dispatcher" where
  "cancel_all_jobs js err d =
     (let d1 = (case d_active d of Some job \<Rightarrow> finish_job js job (Inl err) (d\<lparr>d_active := None\<rparr>) | None \<Rightarrow> d);
          d2 = fold (\<lambda>job. finish_job js job (Inl err)) (d_pending d1) (d1\<lparr>d_pending := []\<rparr>)
      in on_core core_clear_task_locals d2)"

definition start_next :: "('h, 'w) dispatcher \<Rightarrow> ('h, 'w) dispatcher" where
  "start_next d =
     (case d_pending d of
        [] \<Rightarrow> d
      | job # jobs \<Rightarrow> d\<lparr>d_pending := jobs, d_just := True, d_active := Some job\<rparr>)"

definition record_job ::
  "('h, 'w) js_engine \<Rightarrow> job_common \<Rightarrow> ('h, 'w) core_state \<Rightarrow> ('h, 'w) core_state" where
  "record_job js j c =
     c\<lparr>core_stats := stats_record (jc_kind j) (core_now js c - jc_start_time j) (core_stats c)\<rparr>"

text \<open>The active job is done: statistics, the answer, the task locals, the next job.\<close>

definition complete_job ::
  "('h, 'w) js_engine \<Rightarrow> 'h runtime_job \<Rightarrow> js_value runtime_result \<Rightarrow> ('h, 'w) dispatcher \<Rightarrow> ('h, 'w) dispatcher" where
  "complete_job js job result d =
     start_next (on_core core_clear_task_locals
       (finish_job js job result (on_core (record_job js (job_common_of job)) (d\<lparr>d_active := None\<rparr>))))"

section \<open>Commands\<close>

text \<open>The guard that most commands start with, and the answer of a command that is a core operation.\<close>

definition gated :: "('h, 'w, 'a) core_op \<Rightarrow> ('h, 'w, 'a) core_op" where
  "gated m c = (if should_reject_new_work c then (Inl (core_terminated_error c), c) else m c)"

definition answer_with ::
  "('a runtime_result \<Rightarrow> answer) \<Rightarrow> nat \<Rightarrow> ('h, 'w, 'a) core_op \<Rightarrow> ('h, 'w) dispatcher \<Rightarrow> ('h, 'w) dispatcher" where
  "answer_with wrap r m d = (case m (d_core d) of (result, c) \<Rightarrow> reply r (wrap result) (d\<lparr>d_core := c\<rparr>))"

text \<open>A synchronous entry point under its watchdog.\<close>

definition watched ::
  "('h, 'w) js_engine \<Rightarrow> string \<Rightarrow> string \<Rightarrow> ('h, 'w, 'a) core_op \<Rightarrow> ('h, 'w, 'a) core_op" where
  "watched js r context m =
     gated (sthen (ensure_inspector_ready js)
      (sbind (start_sync_watchdog js r) (\<lambda>w c.
       case m c of (result, c') \<Rightarrow> apply_watchdog_result js result w context c')))"

text \<open>A command that makes a job: the job is submitted, or its making fails and the caller hears why.\<close>

definition submit_made ::
  "nat \<Rightarrow> ('h, 'w, 'h runtime_job) core_op \<Rightarrow> ('h, 'w) dispatcher \<Rightarrow> ('h, 'w) dispatcher" where
  "submit_made r m d =
     (case m (d_core d) of
        (Inl e, c) \<Rightarrow> reply r (AnsValue (Inl e)) (d\<lparr>d_core := c\<rparr>)
      | (Inr job, c) \<Rightarrow> submit_job job (d\<lparr>d_core := c\<rparr>))"

definition make_now :: "('h, 'w) js_engine \<Rightarrow> (nat \<Rightarrow> ('h, 'w) core_state \<Rightarrow> 'j) \<Rightarrow> ('h, 'w, 'j) core_op" where
  "make_now js f c = (Inr (f (core_now js c) c), c)"

definition handle_eval :: "('h, 'w) js_engine \<Rightarrow> string \<Rightarrow> nat \<Rightarrow> ('h, 'w) dispatcher \<Rightarrow> ('h, 'w) dispatcher" where
  "handle_eval js code r =
     answer_with AnsValue r (watched js ''Synchronous evaluation timed out'' ''Sync evaluation'' (eval_sync js code))"

definition handle_eval_async ::
  "('h, 'w) js_engine \<Rightarrow> string \<Rightarrow> u64 option \<Rightarrow> nat option \<Rightarrow> nat \<Rightarrow> ('h, 'w) dispatcher \<Rightarrow> ('h, 'w) dispatcher" where
  "handle_eval_async js code timeout_ms locals r =
     submit_made r (gated (sthen (ensure_inspector_ready js) (\<lambda>c.
       (let effective = effective_timeout_ms c timeout_ms
        in sbind (start_timeout_watchdog js effective ''Asynchronous evaluation timed out'') (\<lambda>w.
           make_now js (\<lambda>now _. eval_async_job now code effective locals r w))) c)))"

definition handle_eval_module :: "('h, 'w) js_engine \<Rightarrow> string \<Rightarrow> nat \<Rightarrow> ('h, 'w) dispatcher \<Rightarrow> ('h, 'w) dispatcher" where
  "handle_eval_module js specifier r =
     answer_with AnsValue r (watched js ''Synchronous module evaluation timed out'' ''Sync module evaluation''
       (eval_module_sync js specifier))"

definition handle_eval_module_async ::
  "('h, 'w) js_engine \<Rightarrow> string \<Rightarrow> u64 option \<Rightarrow> nat option \<Rightarrow> nat \<Rightarrow> ('h, 'w) dispatcher \<Rightarrow> ('h, 'w) dispatcher" where
  "handle_eval_module_async js specifier timeout_ms locals r =
     submit_made r (gated (sthen (ensure_inspector_ready js) (\<lambda>c.
       (let effective = effective_timeout_ms c timeout_ms
        in sbind (start_timeout_watchdog js effective ''Asynchronous module evaluation timed out'') (\<lambda>w.
           make_now js (\<lambda>now _. eval_module_async_job now specifier effective locals r w))) c)))"

text \<open>\<open>None\<close> when the random source never yields a token.\<close>

definition handle_register_op ::
  "('h, 'w) js_engine \<Rightarrow> string \<Rightarrow> python_op_mode \<Rightarrow> nat \<Rightarrow> nat \<Rightarrow> ('h, 'w) dispatcher \<Rightarrow> ('h, 'w) dispatcher option" where
  "handle_register_op js name mode handler r d =
     (if should_reject_new_work (d_core d)
      then Some (reply r (AnsToken (Inl (core_terminated_error (d_core d)))) d)
      else (case register_python_op js name mode handler (d_core d) of
              None \<Rightarrow> None
            | Some (tok, c) \<Rightarrow> Some (reply r (AnsToken (Inr tok)) (d\<lparr>d_core := c\<rparr>))))"

definition handle_exposure :: "op_token \<Rightarrow> bool \<Rightarrow> nat \<Rightarrow> ('h, 'w) dispatcher \<Rightarrow> ('h, 'w) dispatcher" where
  "handle_exposure tok flag r =
     answer_with AnsFlag r (gated (\<lambda>c. case set_python_op_exposure tok flag c of (b, c') \<Rightarrow> (Inr b, c')))"

definition share_task_locals :: "('h, 'w) core_state \<Rightarrow> ('h, 'w) core_state" where
  "share_task_locals c =
     (if core_task_locals c = None then c else c\<lparr>core_loader := set_task_locals (core_loader c)\<rparr>)"

definition handle_set_resolver :: "nat \<Rightarrow> nat \<Rightarrow> ('h, 'w) dispatcher \<Rightarrow> ('h, 'w) dispatcher" where
  "handle_set_resolver f r =
     answer_with AnsUnit r (gated (\<lambda>c.
       (Inr (), share_task_locals (c\<lparr>core_loader := set_resolver f (core_loader c)\<rparr>))))"

definition handle_set_loader :: "nat \<Rightarrow> nat \<Rightarrow> ('h, 'w) dispatcher \<Rightarrow> ('h, 'w) dispatcher" where
  "handle_set_loader f r =
     answer_with AnsUnit r (gated (\<lambda>c.
       (Inr (), share_task_locals (c\<lparr>core_loader := set_loader f (core_loader c)\<rparr>))))"

definition handle_add_static_module :: "string \<Rightarrow> string \<Rightarrow> nat \<Rightarrow> ('h, 'w) dispatcher \<Rightarrow> ('h, 'w) dispatcher" where
  "handle_add_static_module name source r =
     answer_with AnsUnit r (gated (\<lambda>c.
       (Inr (), c\<lparr>core_loader := add_static_module name source (core_loader c)\<rparr>)))"

definition handle_bind_object ::
  "('h, 'w) js_engine \<Rightarrow> string \<Rightarrow> bound_property list \<Rightarrow> nat \<Rightarrow> ('h, 'w) dispatcher \<Rightarrow> ('h, 'w) dispatcher" where
  "handle_bind_object js name props r = answer_with AnsUnit r (gated (bind_object js name props))"

definition handle_call_sync ::
  "('h, 'w) js_engine \<Rightarrow> u32 \<Rightarrow> js_value list \<Rightarrow> u64 option \<Rightarrow> nat \<Rightarrow> ('h, 'w) dispatcher \<Rightarrow> ('h, 'w) dispatcher" where
  "handle_call_sync js fn_id args timeout_ms r =
     answer_with AnsCall r (watched js ''Synchronous function call timed out'' ''Sync function call''
       (call_function_sync js fn_id args timeout_ms))"

definition handle_call_async ::
  "('h, 'w) js_engine \<Rightarrow> u32 \<Rightarrow> js_value list \<Rightarrow> u64 option \<Rightarrow> nat option \<Rightarrow> nat \<Rightarrow> ('h, 'w) dispatcher
    \<Rightarrow> ('h, 'w) dispatcher" where
  "handle_call_async js fn_id args timeout_ms locals r =
     submit_made r (gated (sthen (ensure_inspector_ready js)
       (make_now js (\<lambda>now c. call_function_async_job now fn_id args timeout_ms locals r c))))"

definition handle_resume :: "('h, 'w) js_engine \<Rightarrow> u64 \<Rightarrow> nat option \<Rightarrow> nat \<Rightarrow> ('h, 'w) dispatcher \<Rightarrow> ('h, 'w) dispatcher" where
  "handle_resume js call_id locals r =
     submit_made r (gated (sthen (ensure_inspector_ready js)
       (sbind (take_pending_call call_id) (\<lambda>pending. sret (resume_function_call_job pending locals r)))))"

definition handle_release_function :: "u32 \<Rightarrow> nat \<Rightarrow> ('h, 'w) dispatcher \<Rightarrow> ('h, 'w) dispatcher" where
  "handle_release_function fn_id r = answer_with AnsUnit r (gated (\<lambda>c. (Inr (), release_function fn_id c)))"

definition handle_stream_read :: "('h, 'w) js_engine \<Rightarrow> u32 \<Rightarrow> nat \<Rightarrow> ('h, 'w) dispatcher \<Rightarrow> ('h, 'w) dispatcher" where
  "handle_stream_read js i r = submit_made r (gated (make_now js (\<lambda>now _. stream_read_job now i r)))"

definition handle_terminate :: "('h, 'w) js_engine \<Rightarrow> nat \<Rightarrow> ('h, 'w) dispatcher \<Rightarrow> ('h, 'w) dispatcher" where
  "handle_terminate js r d =
     (let d1 = on_core finalize_termination (cancel_all_jobs js (core_terminated_error (d_core d)) d)
      in (reply r (AnsUnit (Inr ())) d1)\<lparr>d_closed := True\<rparr>)"

definition handle_shutdown :: "nat \<Rightarrow> ('h, 'w) dispatcher \<Rightarrow> ('h, 'w) dispatcher" where
  "handle_shutdown r d =
     (let d1 = on_core (\<lambda>c. core_clear_task_locals (c\<lparr>core_v8 := (core_v8 c)\<lparr>v8_fns := Map.empty\<rparr>\<rparr>)) d
      in (reply r AnsShutdown d1)\<lparr>d_closed := True\<rparr>)"

text \<open>\<open>True\<close>: the loop is to exit.\<close>

fun handle_command ::
  "('h, 'w) js_engine \<Rightarrow> runtime_command \<Rightarrow> ('h, 'w) dispatcher \<Rightarrow> (bool \<times> ('h, 'w) dispatcher) option" where
  "handle_command js (CmdEval code r) d = Some (False, handle_eval js code r d)"
| "handle_command js (CmdEvalAsync code t l r) d = Some (False, handle_eval_async js code t l r d)"
| "handle_command js (CmdEvalModule s r) d = Some (False, handle_eval_module js s r d)"
| "handle_command js (CmdEvalModuleAsync s t l r) d = Some (False, handle_eval_module_async js s t l r d)"
| "handle_command js (CmdRegisterPythonOp n m h r) d = map_option (Pair False) (handle_register_op js n m h r d)"
| "handle_command js (CmdSetPythonOpExposure tok flag r) d = Some (False, handle_exposure tok flag r d)"
| "handle_command js (CmdSetModuleResolver f r) d = Some (False, handle_set_resolver f r d)"
| "handle_command js (CmdSetModuleLoader f r) d = Some (False, handle_set_loader f r d)"
| "handle_command js (CmdAddStaticModule n s r) d = Some (False, handle_add_static_module n s r d)"
| "handle_command js (CmdBindObject n ps r) d = Some (False, handle_bind_object js n ps r d)"
| "handle_command js (CmdCallFunctionSync f as t r) d = Some (False, handle_call_sync js f as t r d)"
| "handle_command js (CmdCallFunctionAsync f as t l r) d = Some (False, handle_call_async js f as t l r d)"
| "handle_command js (CmdResumeFunctionCall i l r) d = Some (False, handle_resume js i l r d)"
| "handle_command js (CmdReleaseFunction f r) d = Some (False, handle_release_function f r d)"
| "handle_command js (CmdStreamRead i r) d = Some (False, handle_stream_read js i r d)"
| "handle_command js (CmdStreamRelease i r) d =
     Some (False, reply r (AnsUnit (Inr ())) (on_core (release_js_stream i) d))"
| "handle_command js (CmdStreamCancel i r) d =
     Some (False, reply r (AnsUnit (Inr ())) (on_core (cancel_js_stream js i) d))"
| "handle_command js (CmdGetStats r) d = Some (False, reply r (AnsStats (Inr (collect_stats js (d_core d)))) d)"
| "handle_command js (CmdTerminate r) d = Some (True, handle_terminate js r d)"
| "handle_command js (CmdShutdown r) d = Some (True, handle_shutdown r d)"

definition handle_channel_closed :: "('h, 'w) js_engine \<Rightarrow> ('h, 'w) dispatcher \<Rightarrow> ('h, 'w) dispatcher" where
  "handle_channel_closed js d =
     (let d1 = on_core (\<lambda>c. c\<lparr>core_term := ensure_reason ''Command channel closed unexpectedly'' (core_term c)\<rparr>) d
      in on_core finalize_termination (cancel_all_jobs js (core_terminated_error (d_core d1)) d1))"

section \<open>The loop\<close>

text \<open>How the part of a trip before the wait ends; the flag of \<open>TurnWait\<close> is \<open>idle\<close>.\<close>

datatype turn = TurnAgain | TurnWait bool | TurnBreak

text \<open>Step 1: \<open>None\<close> when a fatal error was settled, otherwise whether the event loop is drained.\<close>

definition drive_event_loop :: "('h, 'w) js_engine \<Rightarrow> ('h, 'w) dispatcher \<Rightarrow> bool option \<times> ('h, 'w) dispatcher" where
  "drive_event_loop js d =
     (case ask_js js (js_poll_event_loop js) (d_core d) of
        (Inr (Some (Inl err)), c) \<Rightarrow>
          (case translate_core_error err c of
             (e, c') \<Rightarrow>
               if runtime_error_indicates_termination e then (Some True, d\<lparr>d_core := c'\<rparr>)
               else (None, (case d_active d of
                       Some job \<Rightarrow> complete_job js job (Inl e) (d\<lparr>d_core := c'\<rparr>)
                     | None \<Rightarrow> d\<lparr>d_core := c'\<rparr>)))
      | (Inr (Some (Inr _)), c) \<Rightarrow> (Some True, d\<lparr>d_core := c\<rparr>)
      | (Inr None, c) \<Rightarrow> (Some False, d\<lparr>d_core := c\<rparr>)
      | (Inl _, c) \<Rightarrow> (Some True, d\<lparr>d_core := c\<rparr>))"

text \<open>Step 2.\<close>

definition poll_active :: "('h, 'w) js_engine \<Rightarrow> ('h, 'w) dispatcher \<Rightarrow> ('h, 'w) dispatcher" where
  "poll_active js d =
     (case d_active d of
        None \<Rightarrow> d
      | Some job \<Rightarrow>
          (case job_poll js job (d_core d) of
             (None, job', c) \<Rightarrow> d\<lparr>d_active := Some job', d_core := c\<rparr>
           | (Some result, job', c) \<Rightarrow> complete_job js job' result (d\<lparr>d_active := Some job', d_core := c\<rparr>)))"

text \<open>Step 2b and the decision how to wait.\<close>

definition settle_turn :: "('h, 'w) js_engine \<Rightarrow> bool \<Rightarrow> ('h, 'w) dispatcher \<Rightarrow> turn \<times> ('h, 'w) dispatcher" where
  "settle_turn js drained d =
     (if should_reject_new_work (d_core d) \<and> has_work d
      then (TurnBreak, on_core finalize_termination (cancel_all_jobs js (core_terminated_error (d_core d)) d))
      else if d_just d then (TurnAgain, d\<lparr>d_just := False\<rparr>)
      else (TurnWait (drained \<and> d_active d = None \<and> d_pending d = []), d))"

definition loop_top :: "('h, 'w) js_engine \<Rightarrow> ('h, 'w) dispatcher \<Rightarrow> turn \<times> ('h, 'w) dispatcher" where
  "loop_top js d =
     (case drive_event_loop js d of
        (None, d') \<Rightarrow> (TurnAgain, d')
      | (Some drained, d') \<Rightarrow> settle_turn js drained (poll_active js d'))"

datatype wake = GotCommand runtime_command | ChannelClosed | Notified | TimerElapsed

fun loop_wake :: "('h, 'w) js_engine \<Rightarrow> wake \<Rightarrow> ('h, 'w) dispatcher \<Rightarrow> (bool \<times> ('h, 'w) dispatcher) option" where
  "loop_wake js (GotCommand cmd) d = handle_command js cmd d"
| "loop_wake js ChannelClosed d = Some (True, handle_channel_closed js d)"
| "loop_wake js Notified d = Some (False, on_core (\<lambda>c. c\<lparr>core_term := (core_term c)\<lparr>wake := False\<rparr>\<rparr>) d)"
| "loop_wake js TimerElapsed d = Some (False, d)"

datatype phase = Looping | Waiting bool | Exited

fun phase_of_turn :: "turn \<Rightarrow> phase" where
  "phase_of_turn TurnAgain = Looping"
| "phase_of_turn (TurnWait idle) = Waiting idle"
| "phase_of_turn TurnBreak = Exited"

fun taken :: "wake \<Rightarrow> runtime_command list" where
  "taken (GotCommand cmd) = [cmd]"
| "taken _ = []"

text \<open>
  A step, labelled with the commands it takes from the channel.  While the dispatcher waits, the world
  changes and the other threads use the controller; an idle dispatcher has no timer.
\<close>

inductive run_step ::
  "('h, 'w) js_engine \<Rightarrow> phase \<times> ('h, 'w) dispatcher \<Rightarrow> runtime_command list \<Rightarrow> phase \<times> ('h, 'w) dispatcher \<Rightarrow> bool"
  for js where
  turn: "loop_top js d = (t, d') \<Longrightarrow> run_step js (Looping, d) [] (phase_of_turn t, d')"
| others: "\<lbrakk>c = d_core d; term_step\<^sup>*\<^sup>* (core_term c) t\<rbrakk> \<Longrightarrow>
    run_step js (Waiting idle, d) []
      (Waiting idle, d\<lparr>d_core := c\<lparr>core_v8 := (core_v8 c)\<lparr>v8_world := w\<rparr>, core_term := t, core_py_streams := p\<rparr>\<rparr>)"
| woken: "\<lbrakk>loop_wake js ev d = Some (exit, d'); ev = TimerElapsed \<longrightarrow> \<not> idle\<rbrakk> \<Longrightarrow>
    run_step js (Waiting idle, d) (taken ev) (if exit then Exited else Looping, d')"

inductive runs ::
  "('h, 'w) js_engine \<Rightarrow> phase \<times> ('h, 'w) dispatcher \<Rightarrow> runtime_command list \<Rightarrow> phase \<times> ('h, 'w) dispatcher \<Rightarrow> bool"
  for js s where
  start: "runs js s [] s"
| step: "runs js s cmds s' \<Longrightarrow> run_step js s' new s'' \<Longrightarrow> runs js s (cmds @ new) s''"

inductive_cases run_stepE: "run_step js s new s'"

end
