(* ===== verification/Peno_Handle.thy ===== *)
theory Peno_Handle
  imports Peno_Dispatcher Peno_Config
begin

text \<open>
  \<open>RuntimeHandle\<close> (\<open>src/runtime/handle.rs\<close>) and \<open>TerminationHandle\<close> (\<open>src/runtime/python/runtime.rs\<close>):
  how the host's threads talk to the runtime thread.  A command that is sent is appended to \<open>h_sent\<close>.
  While a caller waits for its answer the rest of the world goes on; \<open>wait_env\<close> says what the caller
  finds at each time it looks: an answer, a dropped responder, or the end of a slice with the time, and
  the termination record at that moment.
\<close>

section \<open>The handle\<close>

text \<open>
  \<open>h_open\<close>: the runtime thread still holds the receiving end.  \<open>h_next\<close> numbers the responders.
\<close>

record runtime_handle =
  h_tx :: bool
  h_open :: bool
  h_sent :: "runtime_command list"
  h_next :: nat
  h_shutdown :: bool
  h_term :: termination_state
  h_functions :: "u32 set"
  h_js_streams :: "u32 set"
  h_py_streams :: "u32 set"
  h_limits :: serialization_limits
  h_registry :: py_stream_registry
  h_grace :: "nat option"

definition handle_spawn ::
  "(nat, string) runtime_config \<Rightarrow> nat \<Rightarrow> ('h, 'w) core_state \<Rightarrow> runtime_handle" where
  "handle_spawn cfg listener core =
     \<lparr>h_tx = True, h_open = True, h_sent = [], h_next = 0, h_shutdown = False, h_term = core_term core,
      h_functions = {}, h_js_streams = {}, h_py_streams = {}, h_limits = config_limits cfg,
      h_registry = add_release_listener listener (core_py_streams core), h_grace = force_kill_grace cfg\<rparr>"

definition sender :: "runtime_handle \<Rightarrow> runtime_error + unit" where
  "sender h =
     (if is_requested (h_term h) \<or> is_terminated (h_term h) then Inl (terminated_error (h_term h))
      else if h_shutdown h then Inl (Internal ''Runtime has been shut down'')
      else if h_tx h then Inr () else Inl (Internal ''Runtime has been shut down''))"

definition is_shutdown_handle :: "runtime_handle \<Rightarrow> bool" where
  "is_shutdown_handle h \<longleftrightarrow> is_requested (h_term h) \<or> is_terminated (h_term h) \<or> h_shutdown h"

section \<open>Waiting for an answer\<close>

text \<open>\<open>SliceElapsed t1 t2\<close>: the two readings of the clock, when the clock of the grace is started and when it is compared.\<close>

definition FORCE_KILL_POLL_SLICE :: nat where
  "FORCE_KILL_POLL_SLICE = 5000000"

datatype 'a recv_event = Received 'a | Disconnected | SliceElapsed nat nat

record 'a wait_env =
  we_event :: "nat \<Rightarrow> 'a recv_event"
  we_term :: "nat \<Rightarrow> termination_state"

text \<open>How a wait ends, and at which look; \<open>None\<close>: it does not.\<close>

datatype 'a wait_end = Answered 'a | Lost | Killed

partial_function (option) recv_plain :: "(nat \<Rightarrow> 'a recv_event) \<Rightarrow> nat \<Rightarrow> ('a wait_end \<times> nat) option" where
  "recv_plain ev k =
     (case ev k of
        Received v \<Rightarrow> Some (Answered v, k)
      | Disconnected \<Rightarrow> Some (Lost, k)
      | SliceElapsed _ _ \<Rightarrow> recv_plain ev (Suc k))"

partial_function (option) recv_sliced ::
  "nat \<Rightarrow> 'a wait_env \<Rightarrow> nat option \<Rightarrow> nat \<Rightarrow> ('a wait_end \<times> nat) option" where
  "recv_sliced grace env seen k =
     (case we_event env k of
        Received v \<Rightarrow> Some (Answered v, k)
      | Disconnected \<Rightarrow> Some (Lost, k)
      | SliceElapsed t1 t2 \<Rightarrow>
          if \<not> is_requested (we_term env k) then recv_sliced grace env seen (Suc k)
          else
            let started = (case seen of Some t \<Rightarrow> t | None \<Rightarrow> t1)
            in if t2 - started < grace then recv_sliced grace env (Some started) (Suc k)
               else Some (Killed, k))"

text \<open>\<open>shown\<close> is the \<open>Debug\<close> rendering of a duration.\<close>

definition force_killed_message :: "(nat \<Rightarrow> string) \<Rightarrow> nat \<Rightarrow> string \<Rightarrow> string" where
  "force_killed_message shown grace what =
     ''Runtime did not acknowledge termination within '' @ shown grace @ '' and was force-killed during ''
     @ what @ ''; the runtime thread has been abandoned and this Runtime is no longer usable -- create a new one''"

definition recv_result ::
  "(nat \<Rightarrow> string) \<Rightarrow> 'a wait_env \<Rightarrow> string \<Rightarrow> runtime_handle \<Rightarrow> ((runtime_error + 'a) \<times> runtime_handle) option" where
  "recv_result shown env what h =
     (case (case h_grace h of None \<Rightarrow> recv_plain (we_event env) 0 | Some g \<Rightarrow> recv_sliced g env None 0) of
        None \<Rightarrow> None
      | Some (Answered v, k) \<Rightarrow> Some (Inr v, h\<lparr>h_term := we_term env k\<rparr>)
      | Some (Lost, k) \<Rightarrow>
          Some (Inl (Internal (''Failed to receive '' @ what @ '' result'')), h\<lparr>h_term := we_term env k\<rparr>)
      | Some (Killed, k) \<Rightarrow>
          Some (Inl (ForceKilled (force_killed_message shown (case h_grace h of Some g \<Rightarrow> g | None \<Rightarrow> 0) what)),
            h\<lparr>h_term := force_mark_terminated (we_term env k), h_shutdown := True\<rparr>))"

text \<open>A receive that the grace does not bound: \<open>recv\<close>, \<open>blocking_recv\<close> or \<open>await\<close>.\<close>

definition recv_unbounded ::
  "'a wait_env \<Rightarrow> string \<Rightarrow> runtime_handle \<Rightarrow> ((runtime_error + 'a) \<times> runtime_handle) option" where
  "recv_unbounded env lost h =
     (case recv_plain (we_event env) 0 of
        None \<Rightarrow> None
      | Some (Answered v, k) \<Rightarrow> Some (Inr v, h\<lparr>h_term := we_term env k\<rparr>)
      | Some (_, k) \<Rightarrow> Some (Inl (Internal lost), h\<lparr>h_term := we_term env k\<rparr>))"

section \<open>Requests\<close>

definition post :: "(nat \<Rightarrow> runtime_command) \<Rightarrow> runtime_handle \<Rightarrow> runtime_handle" where
  "post cmd h = h\<lparr>h_sent := h_sent h @ [cmd (h_next h)], h_next := Suc (h_next h)\<rparr>"

definition flatten :: "(runtime_error + (runtime_error + 'a)) \<Rightarrow> runtime_error + 'a" where
  "flatten r = (case r of Inl e \<Rightarrow> Inl e | Inr x \<Rightarrow> x)"

type_synonym 'a outcome = "((runtime_error + 'a) \<times> runtime_handle) option"

definition ask_runtime ::
  "(runtime_handle \<Rightarrow> ((runtime_error + (runtime_error + 'a)) \<times> runtime_handle) option)
    \<Rightarrow> (nat \<Rightarrow> runtime_command) \<Rightarrow> string \<Rightarrow> runtime_handle \<Rightarrow> 'a outcome" where
  "ask_runtime wait cmd name h =
     (case sender h of
        Inl e \<Rightarrow> Some (Inl e, h)
      | Inr _ \<Rightarrow>
          if \<not> h_open h then Some (Inl (Internal (''Failed to send '' @ name @ '' command'')), h)
          else map_option (\<lambda>(r, h'). (flatten r, h')) (wait (post cmd h)))"

type_synonym 'a answers = "'a runtime_result wait_env"

definition h_eval_sync :: "(nat \<Rightarrow> string) \<Rightarrow> js_value answers \<Rightarrow> string \<Rightarrow> runtime_handle \<Rightarrow> js_value outcome" where
  "h_eval_sync shown env code = ask_runtime (recv_result shown env ''eval'') (CmdEval code) ''eval''"

definition h_eval_async ::
  "js_value answers \<Rightarrow> string \<Rightarrow> u64 option \<Rightarrow> nat option \<Rightarrow> runtime_handle \<Rightarrow> js_value outcome" where
  "h_eval_async env code timeout_ms locals =
     ask_runtime (recv_unbounded env ''Failed to receive async eval result'') (CmdEvalAsync code timeout_ms locals)
       ''eval_async''"

definition h_register_op ::
  "(nat \<Rightarrow> string) \<Rightarrow> op_token answers \<Rightarrow> string \<Rightarrow> python_op_mode \<Rightarrow> nat \<Rightarrow> runtime_handle \<Rightarrow> op_token outcome" where
  "h_register_op shown env name mode handler =
     ask_runtime (recv_result shown env ''op registration'') (CmdRegisterPythonOp name mode handler) ''register_op''"

definition h_set_op_exposure :: "bool answers \<Rightarrow> op_token \<Rightarrow> bool \<Rightarrow> runtime_handle \<Rightarrow> bool outcome" where
  "h_set_op_exposure env tok flag =
     ask_runtime (recv_unbounded env ''Failed to receive op exposure result'') (CmdSetPythonOpExposure tok flag)
       ''op exposure''"

definition h_set_module_resolver :: "(nat \<Rightarrow> string) \<Rightarrow> unit answers \<Rightarrow> nat \<Rightarrow> runtime_handle \<Rightarrow> unit outcome" where
  "h_set_module_resolver shown env f =
     ask_runtime (recv_result shown env ''set_module_resolver'') (CmdSetModuleResolver f) ''set_module_resolver''"

definition h_set_module_loader :: "(nat \<Rightarrow> string) \<Rightarrow> unit answers \<Rightarrow> nat \<Rightarrow> runtime_handle \<Rightarrow> unit outcome" where
  "h_set_module_loader shown env f =
     ask_runtime (recv_result shown env ''set_module_loader'') (CmdSetModuleLoader f) ''set_module_loader''"

definition h_add_static_module ::
  "(nat \<Rightarrow> string) \<Rightarrow> unit answers \<Rightarrow> string \<Rightarrow> string \<Rightarrow> runtime_handle \<Rightarrow> unit outcome" where
  "h_add_static_module shown env name source =
     ask_runtime (recv_result shown env ''add_static_module'') (CmdAddStaticModule name source) ''add_static_module''"

definition h_bind_object ::
  "(nat \<Rightarrow> string) \<Rightarrow> unit answers \<Rightarrow> string \<Rightarrow> bound_property list \<Rightarrow> runtime_handle \<Rightarrow> unit outcome" where
  "h_bind_object shown env name props =
     ask_runtime (recv_result shown env ''bind_object'') (CmdBindObject name props) ''bind_object''"

definition h_eval_module_sync ::
  "(nat \<Rightarrow> string) \<Rightarrow> js_value answers \<Rightarrow> string \<Rightarrow> runtime_handle \<Rightarrow> js_value outcome" where
  "h_eval_module_sync shown env specifier =
     ask_runtime (recv_result shown env ''eval_module'') (CmdEvalModule specifier) ''eval_module''"

definition h_eval_module_async ::
  "js_value answers \<Rightarrow> string \<Rightarrow> u64 option \<Rightarrow> nat option \<Rightarrow> runtime_handle \<Rightarrow> js_value outcome" where
  "h_eval_module_async env specifier timeout_ms locals =
     ask_runtime (recv_unbounded env ''Failed to receive async eval_module result'')
       (CmdEvalModuleAsync specifier timeout_ms locals) ''eval_module_async''"

definition h_call_function_sync ::
  "(nat \<Rightarrow> string) \<Rightarrow> function_call_result answers \<Rightarrow> u32 \<Rightarrow> js_value list \<Rightarrow> u64 option \<Rightarrow> runtime_handle
    \<Rightarrow> function_call_result outcome" where
  "h_call_function_sync shown env fn_id args timeout_ms =
     ask_runtime (recv_result shown env ''function call'') (CmdCallFunctionSync fn_id args timeout_ms)
       ''call_function_sync''"

definition h_call_function_async ::
  "js_value answers \<Rightarrow> u32 \<Rightarrow> js_value list \<Rightarrow> u64 option \<Rightarrow> nat option \<Rightarrow> runtime_handle \<Rightarrow> js_value outcome" where
  "h_call_function_async env fn_id args timeout_ms locals =
     ask_runtime (recv_unbounded env ''Failed to receive function call result'')
       (CmdCallFunctionAsync fn_id args timeout_ms locals) ''call_function''"

definition h_resume_function_call :: "js_value answers \<Rightarrow> u64 \<Rightarrow> nat option \<Rightarrow> runtime_handle \<Rightarrow> js_value outcome" where
  "h_resume_function_call env call_id locals =
     ask_runtime (recv_unbounded env ''Failed to receive resumed function call result'')
       (CmdResumeFunctionCall call_id locals) ''resume_function_call''"

definition h_release_function :: "unit answers \<Rightarrow> u32 \<Rightarrow> runtime_handle \<Rightarrow> unit outcome" where
  "h_release_function env fn_id =
     ask_runtime (recv_unbounded env ''Failed to receive release result'') (CmdReleaseFunction fn_id) ''release_function''"

definition h_release_function_async :: "unit answers \<Rightarrow> u32 \<Rightarrow> runtime_handle \<Rightarrow> unit outcome" where
  "h_release_function_async env fn_id =
     ask_runtime (recv_unbounded env ''Failed to receive release result'') (CmdReleaseFunction fn_id) ''release_function''"

definition untrack_js_stream_id :: "u32 \<Rightarrow> runtime_handle \<Rightarrow> runtime_handle" where
  "untrack_js_stream_id i h = h\<lparr>h_js_streams := h_js_streams h - {i}\<rparr>"

definition h_stream_read ::
  "(js_value option \<Rightarrow> string) \<Rightarrow> js_value answers \<Rightarrow> u32 \<Rightarrow> runtime_handle \<Rightarrow> stream_chunk outcome" where
  "h_stream_read dbg env i h =
     (case ask_runtime (recv_unbounded env ''Failed to receive stream chunk'') (CmdStreamRead i) ''stream_read'' h of
        None \<Rightarrow> None
      | Some (Inl e, h') \<Rightarrow> Some (Inl e, h')
      | Some (Inr v, h') \<Rightarrow>
          (case from_js_value dbg v of
             Inl e \<Rightarrow> Some (Inl e, h')
           | Inr chunk \<Rightarrow> Some (Inr chunk, if chunk_done chunk then untrack_js_stream_id i h' else h')))"

definition untracking :: "u32 \<Rightarrow> unit outcome \<Rightarrow> unit outcome" where
  "untracking i r =
     (case r of
        Some (Inr u, h) \<Rightarrow> Some (Inr (), untrack_js_stream_id i h)
      | other \<Rightarrow> other)"

definition h_stream_release :: "(nat \<Rightarrow> string) \<Rightarrow> unit answers \<Rightarrow> u32 \<Rightarrow> runtime_handle \<Rightarrow> unit outcome" where
  "h_stream_release shown env i h =
     untracking i (ask_runtime (recv_result shown env ''stream_release'') (CmdStreamRelease i) ''stream_release'' h)"

definition h_stream_cancel :: "(nat \<Rightarrow> string) \<Rightarrow> unit answers \<Rightarrow> u32 \<Rightarrow> runtime_handle \<Rightarrow> unit outcome" where
  "h_stream_cancel shown env i h =
     untracking i (ask_runtime (recv_result shown env ''stream_cancel'') (CmdStreamCancel i) ''stream_cancel'' h)"

definition h_get_stats :: "(nat \<Rightarrow> string) \<Rightarrow> stats_report answers \<Rightarrow> runtime_handle \<Rightarrow> stats_report outcome" where
  "h_get_stats shown env = ask_runtime (recv_result shown env ''stats'') CmdGetStats ''get_stats''"

section \<open>Tracked ids\<close>

definition track_function_id :: "u32 \<Rightarrow> runtime_handle \<Rightarrow> runtime_handle" where
  "track_function_id i h = h\<lparr>h_functions := insert i (h_functions h)\<rparr>"

definition untrack_function_id :: "u32 \<Rightarrow> runtime_handle \<Rightarrow> runtime_handle" where
  "untrack_function_id i h = h\<lparr>h_functions := h_functions h - {i}\<rparr>"

definition track_js_stream_id :: "u32 \<Rightarrow> runtime_handle \<Rightarrow> runtime_handle" where
  "track_js_stream_id i h = h\<lparr>h_js_streams := insert i (h_js_streams h)\<rparr>"

definition track_py_stream_id :: "u32 \<Rightarrow> runtime_handle \<Rightarrow> runtime_handle" where
  "track_py_stream_id i h = h\<lparr>h_py_streams := insert i (h_py_streams h)\<rparr>"

definition untrack_py_stream_id :: "u32 \<Rightarrow> runtime_handle \<Rightarrow> runtime_handle" where
  "untrack_py_stream_id i h = h\<lparr>h_py_streams := h_py_streams h - {i}\<rparr>"

definition drain_tracked_function_ids :: "runtime_handle \<Rightarrow> u32 set \<times> runtime_handle" where
  "drain_tracked_function_ids h = (h_functions h, h\<lparr>h_functions := {}\<rparr>)"

definition drain_tracked_js_stream_ids :: "runtime_handle \<Rightarrow> u32 set \<times> runtime_handle" where
  "drain_tracked_js_stream_ids h = (h_js_streams h, h\<lparr>h_js_streams := {}\<rparr>)"

definition drain_tracked_py_stream_ids :: "runtime_handle \<Rightarrow> u32 set \<times> runtime_handle" where
  "drain_tracked_py_stream_ids h = (h_py_streams h, h\<lparr>h_py_streams := {}\<rparr>)"

definition register_py_stream :: "nat \<Rightarrow> runtime_handle \<Rightarrow> u32 \<times> runtime_handle" where
  "register_py_stream iterable h =
     (case register_iterable iterable (h_registry h) of
        (i, r) \<Rightarrow> (i, track_py_stream_id i (h\<lparr>h_registry := r\<rparr>)))"

text \<open>The release listener that \<open>spawn\<close> installs takes the id out of the handle's set.\<close>

definition release_py_stream :: "u32 \<Rightarrow> runtime_handle \<Rightarrow> runtime_handle" where
  "release_py_stream i h = untrack_py_stream_id i (h\<lparr>h_registry := py_stream_release i (h_registry h)\<rparr>)"

text \<open>The first component is the task that another thread runs later: \<open>cancel\<close> on the registry.\<close>

definition cancel_py_stream_async ::
  "'w py_calls \<Rightarrow> u32 \<Rightarrow> runtime_handle \<Rightarrow> ('w, unit) pull \<times> runtime_handle" where
  "cancel_py_stream_async pc i h = (cancel pc i, untrack_py_stream_id i h)"

definition is_function_tracked :: "u32 \<Rightarrow> runtime_handle \<Rightarrow> bool" where
  "is_function_tracked i h \<longleftrightarrow> i \<in> h_functions h"

definition tracked_function_count :: "runtime_handle \<Rightarrow> nat" where
  "tracked_function_count h = card (h_functions h)"

section \<open>Terminating and closing\<close>

text \<open>
  \<open>TerminationHandle::terminate\<close>; it reaches the shared record only.
\<close>

definition off_thread_terminate :: "termination_state \<Rightarrow> termination_state" where
  "off_thread_terminate t =
     terminate_execution (snd (request (ensure_reason ''Terminated via TerminationHandle from another thread'' t)))"

text \<open>The wait of a second caller of \<open>terminate\<close>; \<open>now k\<close> is the clock at its \<open>k\<close>th look.\<close>

partial_function (option) await_terminated ::
  "nat option \<Rightarrow> nat \<Rightarrow> (nat \<Rightarrow> nat) \<Rightarrow> (nat \<Rightarrow> termination_state) \<Rightarrow> nat \<Rightarrow> (bool \<times> nat) option" where
  "await_terminated grace started now ts k =
     (if is_terminated (ts k) then Some (False, k)
      else
        (case grace of
           None \<Rightarrow> await_terminated grace started now ts (Suc k)
         | Some g \<Rightarrow>
             if g \<le> now k - started then Some (True, k)
             else await_terminated grace started now ts (Suc k)))"

definition second_kill_message :: "(nat \<Rightarrow> string) \<Rightarrow> nat \<Rightarrow> string" where
  "second_kill_message shown g =
     ''Runtime did not acknowledge an in-progress termination within '' @ shown g
     @ '' and was force-killed; the runtime thread has been abandoned and this Runtime is no longer usable -- create a new one''"

definition h_terminate ::
  "(nat \<Rightarrow> string) \<Rightarrow> unit answers \<Rightarrow> nat \<Rightarrow> (nat \<Rightarrow> nat) \<Rightarrow> runtime_handle \<Rightarrow> unit outcome" where
  "h_terminate shown env started now h =
     (if is_terminated (h_term h) then Some (Inr (), h)
      else if \<not> h_tx h then Some (Inr (), h\<lparr>h_shutdown := True\<rparr>)
      else
        (case request (ensure_reason ''Terminated by host request'' (h_term h)) of
           (False, t) \<Rightarrow>
             (case await_terminated (h_grace h) started now (we_term env) 0 of
                None \<Rightarrow> None
              | Some (False, k) \<Rightarrow> Some (Inr (), h\<lparr>h_term := we_term env k\<rparr>)
              | Some (True, k) \<Rightarrow>
                  Some (Inl (ForceKilled (second_kill_message shown (case h_grace h of Some g \<Rightarrow> g | None \<Rightarrow> 0))),
                    h\<lparr>h_term := force_mark_terminated (we_term env k), h_shutdown := True\<rparr>))
         | (True, t) \<Rightarrow>
             if \<not> h_open h then Some (Inl (Internal ''Failed to send terminate command''), h\<lparr>h_term := t\<rparr>)
             else
               (case recv_result shown env ''terminate confirmation''
                       ((post CmdTerminate h)\<lparr>h_term := terminate_execution t\<rparr>) of
                  None \<Rightarrow> None
                | Some (Inr (Inr u), h') \<Rightarrow> Some (Inr (), h'\<lparr>h_shutdown := True\<rparr>)
                | Some (Inr (Inl e), h') \<Rightarrow> Some (Inl e, h')
                | Some (Inl e, h') \<Rightarrow> Some (Inl e, h'))))"

definition h_close :: "unit wait_env \<Rightarrow> runtime_handle \<Rightarrow> unit outcome" where
  "h_close env h =
     (if h_shutdown h then Some (Inr (), h)
      else if is_requested (h_term h) \<or> is_terminated (h_term h)
      then Some (Inr (), h\<lparr>h_tx := False, h_shutdown := True\<rparr>)
      else if \<not> h_tx h then Some (Inr (), h)
      else if \<not> h_open h then Some (Inl (Internal ''Failed to send shutdown command''), h\<lparr>h_tx := False\<rparr>)
      else
        (case recv_unbounded env ''Failed to confirm runtime shutdown'' (post CmdShutdown (h\<lparr>h_tx := False\<rparr>)) of
           None \<Rightarrow> None
         | Some (Inl e, h') \<Rightarrow> Some (Inl e, h')
         | Some (Inr _, h') \<Rightarrow> Some (Inr (), h'\<lparr>h_shutdown := True\<rparr>)))"

end
