(* ===== verification/Peno_DispatchLaws.thy ===== *)
theory Peno_DispatchLaws
  imports Peno_Dispatcher
begin

text \<open>
  What the dispatcher promises.  The abstract server \<open>serve\<close> is a first-in-first-out queue of accepted
  requests and a log of answers; the loop of the dispatcher refines it, which gives that every request
  is answered exactly once.  The effects on the core (\<open>evolves\<close>) give that a termination is final.
\<close>

section \<open>The abstract server\<close>

type_synonym server = "nat list \<times> (nat \<times> answer) list"

fun makes_job :: "runtime_command \<Rightarrow> bool" where
  "makes_job (CmdEvalAsync _ _ _ _) = True"
| "makes_job (CmdEvalModuleAsync _ _ _ _) = True"
| "makes_job (CmdCallFunctionAsync _ _ _ _ _) = True"
| "makes_job (CmdResumeFunctionCall _ _ _) = True"
| "makes_job (CmdStreamRead _ _) = True"
| "makes_job _ = False"

inductive serve :: "runtime_command list \<Rightarrow> server \<Rightarrow> server \<Rightarrow> bool" where
  accept: "makes_job cmd \<Longrightarrow> serve [cmd] (q, l) (q @ [responder_of cmd], l)"
| answer_now: "serve [cmd] (q, l) (q, l @ [(responder_of cmd, a)])"
| answer_first: "serve [] (r # q, l) (q, l @ [(r, AnsValue v)])"
| shut_down: "serve [CmdShutdown r] (q, l) ([], l @ [(r, AnsShutdown)])"

inductive serves :: "runtime_command list \<Rightarrow> server \<Rightarrow> server \<Rightarrow> bool" where
  none: "serves [] s s"
| more: "serves cmds s s' \<Longrightarrow> serve new s' s'' \<Longrightarrow> serves (cmds @ new) s s''"

lemma serves_one: "serve cmds s s' \<Longrightarrow> serves cmds s s'"
  using serves.more [OF serves.none] by fastforce

lemma serves_trans: "serves ys b c \<Longrightarrow> serves xs a b \<Longrightarrow> serves (xs @ ys) a c"
proof (induction arbitrary: a rule: serves.induct)
  case (more cmds s s' new s'')
  from serves.more [OF more.IH [OF more.prems] more.hyps(2)] show ?case by simp
qed simp

lemma serves_quiet: "serves [] a b \<Longrightarrow> serves ys b c \<Longrightarrow> serves ys a c"
  using serves_trans [of ys b c "[]" a] by simp

lemma serves_quiet_after: "serves xs a b \<Longrightarrow> serves [] b c \<Longrightarrow> serves xs a c"
  using serves_trans [of "[]" b c xs a] by simp

text \<open>The log only grows, and its responders account for the requests.\<close>

definition is_shutdown :: "runtime_command \<Rightarrow> bool" where
  "is_shutdown cmd \<longleftrightarrow> (\<exists>r. cmd = CmdShutdown r)"

lemma serve_accounts:
  "serve cmds s s' \<Longrightarrow> \<exists>new dropped. snd s' = snd s @ new \<and> (dropped = {#} \<or> (\<exists>cmd \<in> set cmds. is_shutdown cmd))
    \<and> mset (fst s) + mset (map responder_of cmds) = mset (map fst new) + mset (fst s') + dropped"
proof (induction rule: serve.induct)
  case (shut_down r q l)
  then show ?case
    by (intro exI [of _ "[(r, AnsShutdown)]"] exI [of _ "mset q"]) (simp add: is_shutdown_def)
qed auto

lemma serves_accounts:
  "serves cmds s s' \<Longrightarrow> \<exists>new dropped. snd s' = snd s @ new \<and> (dropped = {#} \<or> (\<exists>cmd \<in> set cmds. is_shutdown cmd))
    \<and> mset (fst s) + mset (map responder_of cmds) = mset (map fst new) + mset (fst s') + dropped"
proof (induction rule: serves.induct)
  case (none s)
  show ?case by (rule exI [of _ "[]"], rule exI [of _ "{#}"]) simp
next
  case (more cmds s s' new s'')
  from more.IH obtain n1 d1 where 1: "snd s' = snd s @ n1"
    "d1 = {#} \<or> (\<exists>cmd \<in> set cmds. is_shutdown cmd)"
    "mset (fst s) + mset (map responder_of cmds) = mset (map fst n1) + mset (fst s') + d1" by blast
  from serve_accounts [OF more.hyps(2)] obtain n2 d2 where 2: "snd s'' = snd s' @ n2"
    "d2 = {#} \<or> (\<exists>cmd \<in> set new. is_shutdown cmd)"
    "mset (fst s') + mset (map responder_of new) = mset (map fst n2) + mset (fst s'') + d2" by blast
  have "mset (fst s) + mset (map responder_of (cmds @ new))
      = mset (map fst n1) + d1 + (mset (fst s') + mset (map responder_of new))"
    using 1(3) by (simp add: ac_simps)
  also have "\<dots> = mset (map fst (n1 @ n2)) + mset (fst s'') + (d1 + d2)"
    unfolding 2(3) by (simp add: ac_simps)
  finally show ?case using 1(1,2) 2(1,2) by (intro exI [of _ "n1 @ n2"] exI [of _ "d1 + d2"]) auto
qed

section \<open>The dispatcher seen as a server\<close>

definition job_responder :: "'h runtime_job \<Rightarrow> nat" where
  "job_responder j = jc_responder (job_common_of j)"

definition outstanding :: "('h, 'w) dispatcher \<Rightarrow> nat list" where
  "outstanding d = map job_responder ((case d_active d of Some j \<Rightarrow> [j] | None \<Rightarrow> []) @ d_pending d)"

definition server_of :: "('h, 'w) dispatcher \<Rightarrow> server" where
  "server_of d = (outstanding d, d_sent d)"

text \<open>A dispatcher that has exited answers nothing more: what is left in its queues is dropped.\<close>

definition abs_state :: "phase \<times> ('h, 'w) dispatcher \<Rightarrow> server" where
  "abs_state s = (if fst s = Exited then [] else outstanding (snd s), d_sent (snd s))"

text \<open>No job waits while none is active.\<close>

definition d_ok :: "('h, 'w) dispatcher \<Rightarrow> bool" where
  "d_ok d \<longleftrightarrow> (d_active d = None \<longrightarrow> d_pending d = [])"

lemma finish_job_eq:
  "\<exists>v c. finish_job js job res d = d\<lparr>d_core := c, d_sent := d_sent d @ [(job_responder job, AnsValue v)]\<rparr>"
  by (auto simp: finish_job_def reply_def job_responder_def split: prod.split)

lemma complete_job_serves:
  assumes "d_active d = Some j0" "job_responder job = job_responder j0"
  shows "serves [] (server_of d) (server_of (complete_job js job res d)) \<and> d_ok (complete_job js job res d)"
proof -
  let ?d = "on_core (record_job js (job_common_of job)) (d\<lparr>d_active := None\<rparr>)"
  obtain v c where f: "finish_job js job res ?d
      = ?d\<lparr>d_core := c, d_sent := d_sent ?d @ [(job_responder job, AnsValue v)]\<rparr>"
    using finish_job_eq by blast
  have "server_of (complete_job js job res d)
      = (map job_responder (d_pending d), d_sent d @ [(job_responder j0, AnsValue v)])"
    unfolding complete_job_def f
    by (cases "d_pending d") (simp_all add: start_next_def on_core_def server_of_def outstanding_def assms)
  moreover have "server_of d = (job_responder j0 # map job_responder (d_pending d), d_sent d)"
    using assms(1) by (simp add: server_of_def outstanding_def)
  moreover have "d_ok (complete_job js job res d)"
    unfolding complete_job_def f by (cases "d_pending d") (simp_all add: start_next_def on_core_def d_ok_def)
  ultimately show ?thesis by (simp add: serves_one serve.answer_first)
qed

lemma finish_all_serves:
  "\<exists>c new. fold (\<lambda>job. finish_job js job res) jobs d = d\<lparr>d_core := c, d_sent := d_sent d @ new\<rparr>
    \<and> serves [] (map job_responder jobs @ q, d_sent d) (q, d_sent d @ new)"
proof (induction jobs arbitrary: d)
  case Nil
  show ?case by (rule exI [of _ "d_core d"], rule exI [of _ "[]"]) (simp add: serves.none)
next
  case (Cons job jobs)
  obtain v c where f: "finish_job js job res d = d\<lparr>d_core := c, d_sent := d_sent d @ [(job_responder job, AnsValue v)]\<rparr>"
    using finish_job_eq by blast
  let ?d = "d\<lparr>d_core := c, d_sent := d_sent d @ [(job_responder job, AnsValue v)]\<rparr>"
  from Cons.IH [of ?d] obtain c' new where
    r: "fold (\<lambda>job. finish_job js job res) jobs ?d = ?d\<lparr>d_core := c', d_sent := d_sent ?d @ new\<rparr>"
    "serves [] (map job_responder jobs @ q, d_sent ?d) (q, d_sent ?d @ new)" by blast
  have "serves [] (map job_responder (job # jobs) @ q, d_sent d) (map job_responder jobs @ q, d_sent ?d)"
    by (simp add: serves_one serve.answer_first)
  from serves_quiet [OF this r(2)] show ?case
    by (intro exI [of _ c'] exI [of _ "(job_responder job, AnsValue v) # new"]) (simp add: f r(1))
qed

lemma cancel_all_serves:
  "serves [] (server_of d) (server_of (cancel_all_jobs js err d)) \<and> outstanding (cancel_all_jobs js err d) = []"
proof -
  let ?d1 = "case d_active d of Some job \<Rightarrow> finish_job js job (Inl err) (d\<lparr>d_active := None\<rparr>) | None \<Rightarrow> d"
  obtain c s where d1: "?d1 = d\<lparr>d_active := None, d_core := c, d_sent := s\<rparr>"
    and sv: "serves [] (server_of d) (map job_responder (d_pending d), s)"
  proof (cases "d_active d")
    case None
    then show thesis
      using that [where c = "d_core d" and s = "d_sent d"] by (simp add: server_of_def outstanding_def serves.none)
  next
    case (Some job)
    obtain v c where "finish_job js job (Inl err) (d\<lparr>d_active := None\<rparr>)
        = d\<lparr>d_active := None, d_core := c, d_sent := d_sent d @ [(job_responder job, AnsValue v)]\<rparr>"
      using finish_job_eq [of js job "Inl err" "d\<lparr>d_active := None\<rparr>"] by auto
    with Some that [where c = c and s = "d_sent d @ [(job_responder job, AnsValue v)]"] show thesis
      by (simp add: server_of_def outstanding_def serves_one serve.answer_first)
  qed
  obtain c' new where fo: "fold (\<lambda>job. finish_job js job (Inl err)) (d_pending d) (?d1\<lparr>d_pending := []\<rparr>)
      = ?d1\<lparr>d_pending := [], d_core := c', d_sent := s @ new\<rparr>"
    and sv2: "serves [] (map job_responder (d_pending d), s) ([], s @ new)"
    using finish_all_serves [where js = js and res = "Inl err" and jobs = "d_pending d"
        and d = "?d1\<lparr>d_pending := []\<rparr>" and q = "[]"] by (auto simp: d1)
  have "server_of (cancel_all_jobs js err d) = ([], s @ new)"
    using fo by (simp add: cancel_all_jobs_def Let_def d1 on_core_def server_of_def outstanding_def)
  then show ?thesis using serves_quiet [OF sv sv2] by (simp add: server_of_def)
qed


lemma cancel_all_ok: "d_ok (cancel_all_jobs js err d)"
  using cancel_all_serves [of d js err] by (auto simp: d_ok_def outstanding_def split: option.splits)

section \<open>One trip round the loop\<close>

lemma on_core_server [simp]: "server_of (on_core f d) = server_of d" "d_ok (on_core f d) = d_ok d"
  "outstanding (on_core f d) = outstanding d"
  by (simp_all add: on_core_def server_of_def outstanding_def d_ok_def)

lemma core_server [simp]: "server_of (d\<lparr>d_core := c\<rparr>) = server_of d" "d_ok (d\<lparr>d_core := c\<rparr>) = d_ok d"
  "outstanding (d\<lparr>d_core := c\<rparr>) = outstanding d"
  by (simp_all add: server_of_def outstanding_def d_ok_def)

lemma drive_event_loop_serves:
  assumes "drive_event_loop js d = (r, d')" "d_ok d"
  shows "serves [] (server_of d) (server_of d') \<and> d_ok d'"
proof -
  have quiet: "serves [] (server_of d) (server_of (d\<lparr>d_core := c\<rparr>)) \<and> d_ok (d\<lparr>d_core := c\<rparr>)" for c
    using assms(2) by (simp add: serves.none)
  have full: "serves [] (server_of d) (server_of (complete_job js job x (d\<lparr>d_core := c\<rparr>)))
      \<and> d_ok (complete_job js job x (d\<lparr>d_core := c\<rparr>))" if "d_active d = Some job" for job c x
    using complete_job_serves [of "d\<lparr>d_core := c\<rparr>" job job js x] that by simp
  obtain ev c where ask: "ask_js js (js_poll_event_loop js) (d_core d) = (Inr ev, c)"
    by (simp add: ask_js_eq)
  show ?thesis
  proof (cases ev)
    case None
    with assms(1) ask quiet [of c] show ?thesis by (auto simp: drive_event_loop_def)
  next
    case (Some x)
    show ?thesis
    proof (cases x)
      case (Inl err)
      obtain e c' where t: "translate_core_error err c = (e, c')" by fastforce
      have "d' = d\<lparr>d_core := c'\<rparr>
          \<or> (\<exists>job. d_active d = Some job \<and> d' = complete_job js job (Inl e) (d\<lparr>d_core := c'\<rparr>))"
        using assms(1) ask Some Inl t by (auto simp: drive_event_loop_def split: if_splits option.splits)
      then show ?thesis using quiet full by blast
    next
      case (Inr u)
      with assms(1) ask Some quiet [of c] show ?thesis by (auto simp: drive_event_loop_def)
    qed
  qed
qed

lemma poll_active_serves:
  assumes "d_ok d"
  shows "serves [] (server_of d) (server_of (poll_active js d)) \<and> d_ok (poll_active js d)"
proof (cases "d_active d")
  case None
  with assms show ?thesis by (simp add: poll_active_def serves.none)
next
  case (Some job)
  obtain r job' c where p: "job_poll js job (d_core d) = (r, job', c)" by (rule prod_cases3)
  have resp: "job_responder job' = job_responder job"
    using job_poll_common [OF p] by (simp add: job_responder_def)
  let ?d = "d\<lparr>d_active := Some job', d_core := c\<rparr>"
  have same: "server_of ?d = server_of d" using Some resp by (simp add: server_of_def outstanding_def)
  show ?thesis
  proof (cases r)
    case None
    with Some p same assms show ?thesis by (simp add: poll_active_def serves.none d_ok_def)
  next
    case (Some x)
    with \<open>d_active d = Some job\<close> p same complete_job_serves [of ?d job' job' js x] show ?thesis
      by (simp add: poll_active_def)
  qed
qed

lemma settle_turn_serves:
  assumes "settle_turn js drained d = (t, d')" "d_ok d"
  shows "serves [] (server_of d) (server_of d') \<and> d_ok d' \<and> (t = TurnBreak \<longrightarrow> outstanding d' = [])
    \<and> (should_reject_new_work (d_core d) \<longrightarrow> outstanding d' = [])"
proof (cases "should_reject_new_work (d_core d) \<and> has_work d")
  case True
  let ?c = "cancel_all_jobs js (core_terminated_error (d_core d)) d"
  from True assms(1) have d': "t = TurnBreak" "d' = on_core finalize_termination ?c"
    by (simp_all add: settle_turn_def)
  show ?thesis unfolding d' on_core_server using cancel_all_serves cancel_all_ok by blast
next
  case False
  then have "d' = d\<lparr>d_just := False\<rparr> \<or> d' = d" "t \<noteq> TurnBreak"
    using assms(1) by (auto simp: settle_turn_def split: if_splits)
  moreover have "server_of (d\<lparr>d_just := False\<rparr>) = server_of d" "d_ok (d\<lparr>d_just := False\<rparr>)"
    "outstanding (d\<lparr>d_just := False\<rparr>) = outstanding d"
    using assms(2) by (simp_all add: server_of_def outstanding_def d_ok_def)
  moreover have "outstanding d = []" if "should_reject_new_work (d_core d)"
    using that False by (simp add: outstanding_def has_work_def)
  ultimately show ?thesis using assms(2) by (auto simp: serves.none)
qed

lemma loop_top_serves:
  assumes "loop_top js d = (t, d')" "d_ok d"
  shows "serves [] (server_of d) (server_of d') \<and> d_ok d' \<and> (t = TurnBreak \<longrightarrow> outstanding d' = [])"
proof -
  obtain x d1 where e: "drive_event_loop js d = (x, d1)" by fastforce
  note s1 = drive_event_loop_serves [OF e assms(2)]
  show ?thesis
  proof (cases x)
    case None
    with assms(1) e s1 show ?thesis by (auto simp: loop_top_def)
  next
    case (Some drained)
    let ?d2 = "poll_active js d1"
    have s2: "serves [] (server_of d1) (server_of ?d2) \<and> d_ok ?d2" using poll_active_serves s1 by blast
    have "settle_turn js drained ?d2 = (t, d')" using assms(1) e Some by (simp add: loop_top_def)
    from settle_turn_serves [OF this] s1 s2 show ?thesis by (blast intro: serves_quiet)
  qed
qed


section \<open>Commands\<close>

definition handled :: "runtime_command \<Rightarrow> ('h, 'w) dispatcher \<Rightarrow> ('h, 'w) dispatcher \<Rightarrow> bool" where
  "handled cmd d d' \<longleftrightarrow> serves [cmd] (server_of d) (server_of d') \<and> (d_ok d \<longrightarrow> d_ok d')"

lemma reply_handled: "handled cmd d (reply (responder_of cmd) a (d\<lparr>d_core := c\<rparr>))"
  by (simp add: handled_def reply_def server_of_def outstanding_def d_ok_def serves_one serve.answer_now)

lemma reply_same_handled: "handled cmd d (reply (responder_of cmd) a d)"
  using reply_handled [of cmd d a "d_core d"] by simp

lemma answer_with_handled: "handled cmd d (answer_with wrap (responder_of cmd) m d)"
  by (auto simp: answer_with_def reply_handled split: prod.split)

lemma submit_job_handled:
  assumes "makes_job cmd" "job_responder job = responder_of cmd" "d_ok d"
  shows "handled cmd d (submit_job job (d\<lparr>d_core := c\<rparr>))"
  using assms serve.accept [OF assms(1), of "outstanding d" "d_sent d"]
  by (auto simp: handled_def submit_job_def server_of_def outstanding_def d_ok_def intro: serves_one)

text \<open>A job maker: every job it makes answers the given responder.\<close>

definition makes_for :: "nat \<Rightarrow> ('h, 'w, 'h runtime_job) core_op \<Rightarrow> bool" where
  "makes_for r m \<longleftrightarrow> (\<forall>c job c'. m c = (Inr job, c') \<longrightarrow> job_responder job = r)"

lemma submit_made_handled:
  assumes "makes_job cmd" "makes_for (responder_of cmd) m" "d_ok d"
  shows "handled cmd d (submit_made (responder_of cmd) m d)"
proof -
  obtain x c where m: "m (d_core d) = (x, c)" by fastforce
  show ?thesis
  proof (cases x)
    case (Inl e)
    with m show ?thesis by (simp add: submit_made_def reply_handled)
  next
    case (Inr job)
    with m assms submit_job_handled [of cmd job d c] show ?thesis by (auto simp: submit_made_def makes_for_def)
  qed
qed

lemma makes_for_gated: "makes_for r m \<Longrightarrow> makes_for r (gated m)"
  by (auto simp: makes_for_def gated_def)

lemma makes_for_sbind: "(\<And>a. makes_for r (f a)) \<Longrightarrow> makes_for r (sbind m f)"
  unfolding makes_for_def sbind_Inr by blast

lemma makes_for_sthen: "makes_for r k \<Longrightarrow> makes_for r (sthen m k)"
  unfolding sthen_def by (rule makes_for_sbind)

lemma makes_for_core: "(\<And>c a. makes_for r (f c a)) \<Longrightarrow> makes_for r (\<lambda>c. sbind (m c) (f c) c)"
  unfolding makes_for_def sbind_Inr by blast

lemma makes_for_now: "(\<And>now c. job_responder (f now c) = r) \<Longrightarrow> makes_for r (make_now js f)"
  by (auto simp: makes_for_def make_now_def)

lemma made_responders:
  "job_responder (eval_async_job n code t l r w) = r" "job_responder (eval_module_async_job n s t l r w) = r"
  "job_responder (call_function_async_job n f as t l r c) = r" "job_responder (resume_function_call_job p l r) = r"
  "job_responder (stream_read_job n i r) = r"
  by (simp_all add: job_responder_def eval_async_job_def eval_module_async_job_def call_function_async_job_def
      resume_function_call_job_def stream_read_job_def promise_job_new_def job_common_new_def
      job_common_resumed_def with_fulfilled_hook_def)

lemmas makes_for_rules = makes_for_gated makes_for_sthen makes_for_sbind makes_for_now made_responders

lemma job_commands_handled:
  assumes "d_ok d"
  shows "handled (CmdEvalAsync code t l r) d (handle_eval_async js code t l r d)"
    "handled (CmdEvalModuleAsync s t l r) d (handle_eval_module_async js s t l r d)"
    "handled (CmdCallFunctionAsync f as t l r) d (handle_call_async js f as t l r d)"
    "handled (CmdResumeFunctionCall i l r) d (handle_resume js i l r d)"
    "handled (CmdStreamRead n r) d (handle_stream_read js n r d)"
proof -
  have inj: "makes_for r (sret job)" if "job_responder job = r" for job :: "'h runtime_job" and r
    using that by (simp add: makes_for_def)
  note submit = submit_made_handled [OF _ _ assms]
  show "handled (CmdEvalAsync code t l r) d (handle_eval_async js code t l r d)"
    unfolding handle_eval_async_def Let_def
    by (rule submit [of "CmdEvalAsync code t l r", simplified])
      (rule makes_for_gated, rule makes_for_sthen, rule makes_for_core, rule makes_for_now, rule made_responders)
  show "handled (CmdEvalModuleAsync s t l r) d (handle_eval_module_async js s t l r d)"
    unfolding handle_eval_module_async_def Let_def
    by (rule submit [of "CmdEvalModuleAsync s t l r", simplified])
      (rule makes_for_gated, rule makes_for_sthen, rule makes_for_core, rule makes_for_now, rule made_responders)
  show "handled (CmdCallFunctionAsync f as t l r) d (handle_call_async js f as t l r d)"
    unfolding handle_call_async_def
    by (rule submit [of "CmdCallFunctionAsync f as t l r", simplified]) (intro makes_for_rules)
  show "handled (CmdResumeFunctionCall i l r) d (handle_resume js i l r d)"
    unfolding handle_resume_def
    by (rule submit [of "CmdResumeFunctionCall i l r", simplified])
      (intro makes_for_gated makes_for_sthen makes_for_sbind inj made_responders)
  show "handled (CmdStreamRead n r) d (handle_stream_read js n r d)"
    unfolding handle_stream_read_def
    by (rule submit [of "CmdStreamRead n r", simplified]) (intro makes_for_gated makes_for_now made_responders)
qed

lemma register_op_handled:
  "handle_register_op js n m h r d = Some d' \<Longrightarrow> handled (CmdRegisterPythonOp n m h r) d d'"
  using reply_handled [of "CmdRegisterPythonOp n m h r" d] reply_same_handled [of "CmdRegisterPythonOp n m h r" d]
  by (auto simp: handle_register_op_def split: if_splits option.splits)

lemma server_of_closed [simp]: "server_of (d\<lparr>d_closed := b\<rparr>) = server_of d" "d_ok (d\<lparr>d_closed := b\<rparr>) = d_ok d"
  "outstanding (d\<lparr>d_closed := b\<rparr>) = outstanding d"
  by (simp_all add: server_of_def outstanding_def d_ok_def)

lemma terminate_handled:
  "handled (CmdTerminate r) d (handle_terminate js r d) \<and> outstanding (handle_terminate js r d) = []"
proof -
  let ?c = "on_core finalize_termination (cancel_all_jobs js (core_terminated_error (d_core d)) d)"
  have q: "serves [] (server_of d) (server_of ?c)" "outstanding ?c = []" "d_ok ?c"
    using cancel_all_serves cancel_all_ok by auto
  have "handled (CmdTerminate r) ?c (reply r (AnsUnit (Inr ())) ?c)"
    using reply_same_handled [of "CmdTerminate r" ?c] by simp
  with q show ?thesis
    by (auto simp: handled_def handle_terminate_def Let_def reply_def outstanding_def intro: serves_quiet)
qed

lemma shutdown_handled:
  "serves [CmdShutdown r] (server_of d) ([], d_sent (handle_shutdown r d))"
  by (simp add: handle_shutdown_def Let_def reply_def on_core_def server_of_def serves_one serve.shut_down)

lemma channel_closed_handled:
  "serves [] (server_of d) (server_of (handle_channel_closed js d)) \<and> outstanding (handle_channel_closed js d) = []"
  using cancel_all_serves [of "on_core f d" js err for f err] by (auto simp: handle_channel_closed_def Let_def)


lemma abs_state_simps [simp]: "abs_state (Looping, d) = server_of d" "abs_state (Waiting b, d) = server_of d"
  "abs_state (Exited, d) = ([], d_sent d)"
  by (simp_all add: abs_state_def server_of_def)

lemma abs_exited: "outstanding d = [] \<Longrightarrow> ([], d_sent d) = server_of d"
  by (simp add: server_of_def)

definition answered :: "runtime_command \<Rightarrow> ('h, 'w) dispatcher \<Rightarrow> bool \<Rightarrow> ('h, 'w) dispatcher \<Rightarrow> bool" where
  "answered cmd d exit d' \<longleftrightarrow> serves [cmd] (server_of d) (abs_state (if exit then Exited else Looping, d'))
     \<and> (\<not> exit \<longrightarrow> d_ok d')"

lemma handled_answered: "d_ok d \<Longrightarrow> handled cmd d d' \<Longrightarrow> answered cmd d False d'"
  by (simp add: handled_def answered_def)

lemma terminate_answered: "answered (CmdTerminate r) d True (handle_terminate js r d)"
proof -
  note t = terminate_handled [of r d js]
  then have "([], d_sent (handle_terminate js r d)) = server_of (handle_terminate js r d)"
    by (intro abs_exited) blast
  with t show ?thesis by (simp add: answered_def handled_def)
qed

lemma handle_command_answered:
  assumes "handle_command js cmd d = Some (exit, d')" "d_ok d"
  shows "answered cmd d exit d'"
proof (cases cmd)
  case (CmdRegisterPythonOp n m h r)
  with assms obtain "exit = False" "handle_register_op js n m h r d = Some d'" by auto
  with CmdRegisterPythonOp register_op_handled handled_answered [OF assms(2)] show ?thesis by metis
next
  case (CmdTerminate r)
  with assms terminate_answered show ?thesis by auto
next
  case (CmdShutdown r)
  with assms shutdown_handled show ?thesis by (auto simp: answered_def)
next
  case (CmdStreamRelease i r)
  with assms handled_answered [OF assms(2) reply_handled [of cmd d]] show ?thesis by (auto simp: on_core_def)
next
  case (CmdStreamCancel i r)
  with assms handled_answered [OF assms(2) reply_handled [of cmd d]] show ?thesis by (auto simp: on_core_def)
next
  case (CmdGetStats r)
  with assms handled_answered [OF assms(2) reply_same_handled [of cmd d]] show ?thesis by auto
qed (use assms handled_answered [OF assms(2) answer_with_handled [of cmd d]]
    handled_answered [OF assms(2) job_commands_handled(1) [OF assms(2)]]
    handled_answered [OF assms(2) job_commands_handled(2) [OF assms(2)]]
    handled_answered [OF assms(2) job_commands_handled(3) [OF assms(2)]]
    handled_answered [OF assms(2) job_commands_handled(4) [OF assms(2)]]
    handled_answered [OF assms(2) job_commands_handled(5) [OF assms(2)]] in
  \<open>auto simp: handle_eval_def handle_eval_module_def handle_exposure_def handle_set_resolver_def
     handle_set_loader_def handle_add_static_module_def handle_bind_object_def handle_call_sync_def
     handle_release_function_def\<close>)

definition run_ok :: "phase \<times> ('h, 'w) dispatcher \<Rightarrow> bool" where
  "run_ok s \<longleftrightarrow> (fst s \<noteq> Exited \<longrightarrow> d_ok (snd s))"

lemma loop_wake_serves:
  assumes "loop_wake js ev d = Some (exit, d')" "d_ok d"
  shows "serves (taken ev) (server_of d) (abs_state (if exit then Exited else Looping, d'))
    \<and> (\<not> exit \<longrightarrow> d_ok d')"
proof (cases ev)
  case (GotCommand cmd)
  with assms handle_command_answered [of js cmd d exit d'] show ?thesis by (simp add: answered_def)
next
  case ChannelClosed
  then have "exit" "d' = handle_channel_closed js d" using assms(1) by simp_all
  with ChannelClosed channel_closed_handled [of d js] show ?thesis by (simp add: abs_exited)
next
  case Notified
  with assms show ?thesis by (auto simp: serves.none)
next
  case TimerElapsed
  with assms show ?thesis by (auto simp: serves.none)
qed

lemma run_step_serves:
  assumes "run_step js s new s'" "run_ok s"
  shows "serves new (abs_state s) (abs_state s') \<and> run_ok s'"
  using assms
proof (induction rule: run_step.induct)
  case (turn d t d')
  then have "d_ok d" by (simp add: run_ok_def)
  with loop_top_serves [OF turn.hyps] show ?case
    by (cases t) (auto simp: run_ok_def abs_exited)
next
  case (others c d t idle w p)
  then show ?case by (simp add: run_ok_def serves.none)
next
  case (woken ev d exit d' idle)
  with loop_wake_serves [OF woken.hyps(1)] show ?case by (simp add: run_ok_def)
qed

lemma runs_serve:
  assumes "runs js s cmds s'" "run_ok s"
  shows "serves cmds (abs_state s) (abs_state s') \<and> run_ok s'"
  using assms
proof (induction rule: runs.induct)
  case (step cmds s' new s'')
  then show ?case using run_step_serves [of js s' new s''] serves_trans by blast
qed (simp add: serves.none)


section \<open>What a trip does to the core\<close>

text \<open>The order on dispatchers: the cores evolve.\<close>

definition d_evolves :: "('h, 'w) dispatcher \<Rightarrow> ('h, 'w) dispatcher \<Rightarrow> bool" where
  "d_evolves d d' \<longleftrightarrow> evolves (d_core d) (d_core d')"

lemma d_evolves_refl [simp]: "d_evolves d d"
  by (simp add: d_evolves_def evolves.le_refl)

lemma d_evolves_trans: "d_evolves a b \<Longrightarrow> d_evolves b c \<Longrightarrow> d_evolves a c"
  unfolding d_evolves_def by (rule evolves.le_trans)

lemma on_core_evolves: "evolves (d_core d) (f (d_core d)) \<Longrightarrow> d_evolves d (on_core f d)"
  by (simp add: d_evolves_def on_core_def)

lemma evolves_same_term:
  assumes "core_term c' = core_term c" "core_terminated c' = core_terminated c"
    and "core_pending_calls c' = core_pending_calls c"
  shows "evolves c c'"
  using assms by (simp add: evolves_def core_ok_def)

lemma small_evolves:
  "evolves c (core_clear_task_locals c)" "evolves c (record_job js j c)" "evolves c (release_js_stream i c)"
  "evolves c (share_task_locals c)" "evolves c (release_function f c)"
  "evolves c (snd (set_python_op_exposure tok flag c))" "evolves c (c\<lparr>core_loader := l\<rparr>)"
  "evolves c (c\<lparr>core_v8 := v\<rparr>)"
  by (auto intro!: evolves_same_term simp: core_clear_task_locals_def record_job_def release_js_stream_def
      share_task_locals_def release_function_def set_python_op_exposure_def split: prod.split)

lemma resolve_watchdog_evolves:
  assumes "others_polite js"
  shows "moves evolves (resolve_sync_watchdog js w)"
proof -
  have "moves evolves (\<lambda>c. case joined of None \<Rightarrow> (Inl (Internal m), c)
      | Some fired \<Rightarrow> (Inr (fired, sw_duration w),
          if fired then c\<lparr>core_term := cancel_terminate_execution (core_term c)\<rparr> else c))" for joined m
    by (auto simp: moves_def evolves_def core_ok_def is_terminated_def cancel_terminate_execution_def [of "core_term _"]
        split: option.split)
      (simp_all flip: cancel_terminate_execution_def)
  then show ?thesis
    unfolding resolve_sync_watchdog_def by (intro evolves.sbind calm_engine_evolves [OF assms])
qed

lemma apply_watchdog_evolves:
  assumes "others_polite js"
  shows "moves evolves (apply_watchdog_result js x w ctx)"
  using resolve_watchdog_evolves [OF assms]
  by (auto simp: apply_watchdog_result_def intro!: evolves.slift evolves.sbind split: option.split prod.split)

lemma finish_job_evolves: "others_polite js \<Longrightarrow> d_evolves d (finish_job js job x d)"
  using moves_app [OF apply_watchdog_evolves, where x1 = x and w1 = "jc_watchdog (job_common_of job)"
      and ctx1 = "jc_context (job_common_of job)" and s = "d_core d"]
  by (simp add: finish_job_def job_respond_def d_evolves_def reply_def case_prod_beta)

lemma complete_job_evolves:
  assumes "others_polite js"
  shows "d_evolves d (complete_job js job x d)"
proof -
  let ?d1 = "on_core (record_job js (job_common_of job)) (d\<lparr>d_active := None\<rparr>)"
  have "d_evolves d ?d1" using small_evolves(2) by (simp add: d_evolves_def on_core_def)
  moreover have "d_evolves ?d1 (finish_job js job x ?d1)" by (rule finish_job_evolves [OF assms])
  moreover have "d_evolves (finish_job js job x ?d1) (on_core core_clear_task_locals (finish_job js job x ?d1))"
    by (intro on_core_evolves small_evolves)
  moreover have "d_evolves e (start_next e)" for e
    by (simp add: start_next_def d_evolves_def evolves.le_refl split: list.split)
  ultimately show ?thesis unfolding complete_job_def by (blast intro: d_evolves_trans)
qed

lemma finish_all_evolves: "others_polite js \<Longrightarrow> d_evolves d (fold (\<lambda>job. finish_job js job x) jobs d)"
  by (induction jobs arbitrary: d) (auto intro: d_evolves_trans finish_job_evolves)

lemma cancel_all_evolves:
  assumes "others_polite js"
  shows "d_evolves d (cancel_all_jobs js err d)"
proof -
  let ?d1 = "case d_active d of Some job \<Rightarrow> finish_job js job (Inl err) (d\<lparr>d_active := None\<rparr>) | None \<Rightarrow> d"
  have "d_evolves d ?d1"
    using finish_job_evolves [OF assms, of "d\<lparr>d_active := None\<rparr>"]
    by (auto simp: d_evolves_def evolves.le_refl split: option.split)
  moreover have "d_evolves ?d1 (?d1\<lparr>d_pending := []\<rparr>)" by (simp add: d_evolves_def evolves.le_refl)
  ultimately have "d_evolves d (?d1\<lparr>d_pending := []\<rparr>)" by (rule d_evolves_trans)
  then have "d_evolves d (fold (\<lambda>job. finish_job js job (Inl err)) (d_pending ?d1) (?d1\<lparr>d_pending := []\<rparr>))"
    using finish_all_evolves [OF assms] by (rule d_evolves_trans)
  then show ?thesis unfolding cancel_all_jobs_def Let_def
    by (rule d_evolves_trans) (intro on_core_evolves small_evolves)
qed

lemma abort_evolves:
  "others_polite js \<Longrightarrow> d_evolves d (on_core finalize_termination (cancel_all_jobs js err d))"
  by (rule d_evolves_trans [OF cancel_all_evolves on_core_evolves]) (auto intro: finalize_evolves)

lemma drive_event_loop_evolves:
  assumes "others_polite js" "drive_event_loop js d = (r, d')"
  shows "d_evolves d d'"
proof -
  obtain ev c where ask: "ask_js js (js_poll_event_loop js) (d_core d) = (Inr ev, c)"
    by (simp add: ask_js_eq)
  have c: "evolves (d_core d) c" by (rule movesD [OF calm_engine_evolves(1) [OF assms(1)] ask])
  show ?thesis
  proof (cases ev)
    case None
    with assms(2) ask c show ?thesis by (auto simp: drive_event_loop_def d_evolves_def)
  next
    case (Some x)
    show ?thesis
    proof (cases x)
      case (Inl err)
      obtain e c' where t: "translate_core_error err c = (e, c')" by fastforce
      have "evolves c c'" using translate_evolves(2) [of c err] t by simp
      with c have dc: "d_evolves d (d\<lparr>d_core := c'\<rparr>)" by (simp add: d_evolves_def evolves.le_trans)
      have "d' = d\<lparr>d_core := c'\<rparr> \<or> (\<exists>job. d' = complete_job js job (Inl e) (d\<lparr>d_core := c'\<rparr>))"
        using assms(2) ask Some Inl t by (auto simp: drive_event_loop_def split: if_splits option.splits)
      then show ?thesis using dc complete_job_evolves [OF assms(1)] d_evolves_trans by blast
    next
      case (Inr u)
      with assms(2) ask Some c show ?thesis by (auto simp: drive_event_loop_def d_evolves_def)
    qed
  qed
qed

lemma poll_active_evolves:
  assumes "others_polite js"
  shows "d_evolves d (poll_active js d)"
proof (cases "d_active d")
  case (Some job)
  obtain r job' c where p: "job_poll js job (d_core d) = (r, job', c)" by (rule prod_cases3)
  from job_poll_evolves [OF assms p] have c: "d_evolves d (d\<lparr>d_active := Some job', d_core := c\<rparr>)"
    by (simp add: d_evolves_def)
  with Some p show ?thesis
    using d_evolves_trans [OF c complete_job_evolves [OF assms]]
    by (cases r) (auto simp: poll_active_def d_evolves_def)
qed (simp add: poll_active_def)

lemma settle_turn_evolves:
  "others_polite js \<Longrightarrow> settle_turn js drained d = (t, d') \<Longrightarrow> d_evolves d d'"
  using abort_evolves [of js d]
  by (auto simp: settle_turn_def d_evolves_def evolves.le_refl split: if_splits)

lemma loop_top_evolves:
  assumes "others_polite js" "loop_top js d = (t, d')"
  shows "d_evolves d d'"
proof -
  obtain x d1 where e: "drive_event_loop js d = (x, d1)" by fastforce
  note s1 = drive_event_loop_evolves [OF assms(1) e]
  show ?thesis
  proof (cases x)
    case None
    with assms(2) e s1 show ?thesis by (simp add: loop_top_def)
  next
    case (Some drained)
    have "settle_turn js drained (poll_active js d1) = (t, d')" using assms(2) e Some by (simp add: loop_top_def)
    from settle_turn_evolves [OF assms(1) this] s1 poll_active_evolves [OF assms(1)]
    show ?thesis by (blast intro: d_evolves_trans)
  qed
qed


text \<open>A command body only has to evolve a core that is not terminated: the guard sees to the rest.\<close>

definition live_evolves :: "('h, 'w, 'a) core_op \<Rightarrow> bool" where
  "live_evolves m \<longleftrightarrow> (\<forall>c. \<not> core_terminated c \<longrightarrow> evolves c (snd (m c)))"

definition steady :: "('h, 'w) core_state \<Rightarrow> ('h, 'w) core_state \<Rightarrow> bool" where
  "steady c c' \<longleftrightarrow> evolves c c' \<and> core_terminated c' = core_terminated c"

lemma calm_steady: "moves calm m \<Longrightarrow> moves steady m"
  by (rule moves_weaken [of calm]) (auto simp: steady_def calm_evolves dest: calm_same)

lemma inspector_steady:
  assumes "others_polite js"
  shows "moves steady (ensure_inspector_ready js)"
proof -
  have "core_terminated (snd (ensure_inspector_ready js c)) = core_terminated c" for c
  proof -
    have "core_terminated (absorb js e) = core_terminated e" for e
      by (simp add: absorb_def case_prod_beta)
    then show ?thesis
      by (auto simp: ensure_inspector_ready_def sthen_def sbind_def ask_js_eq sret_def split: option.split)
  qed
  then show ?thesis
    using ensure_inspector_evolves [OF assms] by (simp add: moves_def steady_def)
qed

lemma live_moves: "moves evolves m \<Longrightarrow> live_evolves m"
  by (simp add: moves_def live_evolves_def)

lemma live_bind:
  fixes m :: "('h, 'w, 'a) core_op"
  assumes "moves steady m" "\<And>a. live_evolves (f a)"
  shows "live_evolves (sbind m f)"
  unfolding live_evolves_def
proof (intro allI impI)
  fix c :: "('h, 'w) core_state" assume c: "\<not> core_terminated c"
  obtain r c' where m: "m c = (r, c')" by fastforce
  then have s: "evolves c c'" "\<not> core_terminated c'"
    using movesD [OF assms(1) m] c by (simp_all add: steady_def)
  show "evolves c (snd (sbind m f c))"
  proof (cases r)
    case (Inl e)
    with m s show ?thesis by (simp add: sbind_def)
  next
    case (Inr a)
    with assms(2) [of a] s have "evolves c' (snd (f a c'))" by (simp add: live_evolves_def)
    with Inr m s show ?thesis by (simp add: sbind_def evolves.le_trans)
  qed
qed

lemma live_then: "moves steady m \<Longrightarrow> live_evolves k \<Longrightarrow> live_evolves (sthen m k)"
  unfolding sthen_def by (rule live_bind)

lemma gated_evolves: "live_evolves m \<Longrightarrow> moves evolves (gated m)"
  by (auto simp: moves_def gated_def live_evolves_def should_reject_new_work_def evolves.le_refl)

lemma watched_evolves:
  fixes m :: "('h, 'w, 'a) core_op"
  assumes "others_polite js" "live_evolves m"
  shows "moves evolves (watched js r ctx m)"
proof -
  have "live_evolves (\<lambda>c. case m c of (x, c') \<Rightarrow> apply_watchdog_result js x w ctx c')" for w
    unfolding live_evolves_def
  proof (intro allI impI)
    fix c :: "('h, 'w) core_state" assume c: "\<not> core_terminated c"
    obtain x c' where m: "m c = (x, c')" by fastforce
    with assms(2) c have "evolves c c'" by (metis live_evolves_def snd_conv)
    moreover have "evolves c' (snd (apply_watchdog_result js x w ctx c'))"
      by (rule moves_app [OF apply_watchdog_evolves [OF assms(1)]])
    ultimately show "evolves c (snd (case m c of (x, c') \<Rightarrow> apply_watchdog_result js x w ctx c'))"
      unfolding m prod.case by (rule evolves.le_trans)
  qed
  then show ?thesis unfolding watched_def
    by (intro gated_evolves live_then live_bind inspector_steady calm_steady start_watchdog_calm assms)
qed

lemma answer_with_evolves: "moves evolves m \<Longrightarrow> d_evolves d (answer_with wrap r m d)"
  by (simp add: answer_with_def d_evolves_def reply_def case_prod_beta moves_def)

lemma submit_made_evolves:
  assumes "moves evolves m"
  shows "d_evolves d (submit_made r m d)"
proof -
  obtain x c where m: "m (d_core d) = (x, c)" by fastforce
  from movesD [OF assms m] show ?thesis
    by (cases x) (simp_all add: submit_made_def m d_evolves_def reply_def submit_job_def)
qed

lemma make_now_live: "live_evolves (make_now js f)"
  by (simp add: live_evolves_def make_now_def evolves.le_refl)

lemma timed_live_at:
  assumes "others_polite js"
  shows "live_evolves (sbind (start_timeout_watchdog js t r) (\<lambda>w. make_now js (h w)))"
  by (intro live_bind make_now_live calm_steady start_watchdog_calm assms)

lemma timed_job_live:
  assumes "others_polite js"
  shows "live_evolves (\<lambda>c. sbind (start_timeout_watchdog js (g c) r) (\<lambda>w. make_now js (f c w)) c)"
  unfolding live_evolves_def
  by (intro allI impI timed_live_at [OF assms, unfolded live_evolves_def, rule_format])

lemma resume_live: "live_evolves (sbind (take_pending_call i) (\<lambda>p. sret (resume_function_call_job p l r)))"
  by (auto simp: live_evolves_def take_pending_call_def sbind_def sret_def evolves_def core_ok_def split: option.split)

lemma bind_object_live: "others_polite js \<Longrightarrow> live_evolves (bind_object js name props)"
proof -
  assume p: "others_polite js"
  have reg: "moves evolves (\<lambda>c. (Inr (), c\<lparr>core_registry := f (core_registry c)\<rparr>) :: (runtime_error + unit) \<times> ('h, 'w) core_state)" for f
    by (simp add: moves_def evolves_same_term)
  have out: "moves evolves (case outcome of CallReturned v \<Rightarrow> (\<lambda>c. (Inr (), c\<lparr>core_registry := f (core_registry c)\<rparr>))
      | CallThrew exc \<Rightarrow> sbind (ask_js js (js_from_v8_exception js exc)) (\<lambda>e. sfail (JavaScript (from_js_error e)))
      | CallFailed \<Rightarrow> sfail (Internal m))" for outcome f m
  proof (cases outcome)
    case (CallThrew exc)
    then show ?thesis
      by simp (rule evolves.sbind [OF calm_engine_evolves(1) [OF p] evolves.sfail])
  qed (use reg evolves.sfail in simp_all)
  have "moves evolves (sbind (in_world_of js mm) (\<lambda>(helper, gn, arr).
      sbind (ask_js js (js_call js helper gl [gn, arr])) (\<lambda>outcome. case outcome of
        CallReturned v \<Rightarrow> (\<lambda>c. (Inr (), c\<lparr>core_registry := f (core_registry c)\<rparr>))
      | CallThrew exc \<Rightarrow> sbind (ask_js js (js_from_v8_exception js exc)) (\<lambda>e. sfail (JavaScript (from_js_error e)))
      | CallFailed \<Rightarrow> sfail (Internal m))))" for mm gl f m
    by (rule evolves.sbind [OF calm_engine_evolves(7) [OF p]])
      (clarsimp, rule evolves.sbind [OF calm_engine_evolves(1) [OF p] out])
  then show ?thesis
    unfolding live_evolves_def bind_object_def by (blast intro: moves_app)
qed


lemma gated_pure_evolves: "(\<And>c. evolves c (snd (f c))) \<Longrightarrow> moves evolves (gated f)"
  by (rule gated_evolves) (simp add: live_evolves_def)

lemma exposure_evolves:
  "evolves c (snd (case set_python_op_exposure tok flag c of (b, c') \<Rightarrow> (Inr b, c')))"
  using small_evolves(6) [of c tok flag] by (simp add: case_prod_beta)

lemma loader_evolves:
  "evolves c (share_task_locals (c\<lparr>core_loader := l\<rparr>))"
  by (rule evolves.le_trans [OF small_evolves(7) small_evolves(4)])

lemma cancel_stream_evolves: "others_polite js \<Longrightarrow> evolves c (cancel_js_stream js i c)"
  unfolding cancel_js_stream_def
  by (rule evolves.le_trans [OF moves_app [OF calm_engine_evolves(6)] small_evolves(3)])

lemma register_op_evolves: "handle_register_op js n m h r d = Some d' \<Longrightarrow> d_evolves d d'"
  by (auto simp: handle_register_op_def register_python_op_def d_evolves_def reply_def evolves.le_refl
      intro: evolves_same_term split: if_splits option.splits)

lemma reply_evolves: "d_evolves d e \<Longrightarrow> d_evolves d (reply r a e)" "d_evolves d e \<Longrightarrow> d_evolves d (e\<lparr>d_closed := b\<rparr>)"
  by (simp_all add: d_evolves_def reply_def)

lemma shutdown_evolves: "d_evolves d (handle_shutdown r d)"
proof -
  have "evolves c (core_clear_task_locals (c\<lparr>core_v8 := v\<rparr>))" for c :: "('h, 'w) core_state" and v
    by (rule evolves.le_trans [OF small_evolves(8) small_evolves(1)])
  then show ?thesis
    unfolding handle_shutdown_def Let_def by (intro reply_evolves on_core_evolves)
qed

lemma terminate_evolves: "others_polite js \<Longrightarrow> d_evolves d (handle_terminate js r d)"
  unfolding handle_terminate_def Let_def by (intro reply_evolves abort_evolves)

lemma watched_commands_evolve:
  assumes "others_polite js"
  shows "d_evolves d (handle_eval js code r d)" "d_evolves d (handle_eval_module js s r d)"
    "d_evolves d (handle_call_sync js f as t r d)"
proof -
  note go = answer_with_evolves [OF watched_evolves [OF assms]]
  show "d_evolves d (handle_eval js code r d)" unfolding handle_eval_def
    by (intro go live_moves eval_sync_evolves assms)
  show "d_evolves d (handle_eval_module js s r d)" unfolding handle_eval_module_def
    by (intro go live_moves eval_module_sync_evolves assms)
  show "d_evolves d (handle_call_sync js f as t r d)" unfolding handle_call_sync_def
    by (intro go) (simp add: live_evolves_def call_function_sync_evolves assms)
qed

lemma job_commands_evolve:
  assumes "others_polite js"
  shows "d_evolves d (handle_eval_async js code t l r d)" "d_evolves d (handle_eval_module_async js s t l r d)"
    "d_evolves d (handle_call_async js f as t l r d)" "d_evolves d (handle_resume js i l r d)"
    "d_evolves d (handle_stream_read js n r d)"
  unfolding handle_eval_async_def handle_eval_module_async_def handle_call_async_def handle_resume_def
    handle_stream_read_def Let_def
  by (rule submit_made_evolves, rule gated_evolves,
      (rule live_then [OF inspector_steady [OF assms]])?,
      rule timed_job_live [OF assms] make_now_live resume_live)+

lemma plain_commands_evolve:
  "d_evolves d (handle_exposure tok flag r d)" "d_evolves d (handle_set_resolver f r d)"
  "d_evolves d (handle_set_loader f r d)" "d_evolves d (handle_add_static_module n s r d)"
  "d_evolves d (handle_release_function i r d)"
  unfolding handle_exposure_def handle_set_resolver_def handle_set_loader_def handle_add_static_module_def
    handle_release_function_def
  by (rule answer_with_evolves, rule gated_pure_evolves, simp add: exposure_evolves loader_evolves small_evolves)+

lemma bind_command_evolves: "others_polite js \<Longrightarrow> d_evolves d (handle_bind_object js n ps r d)"
  unfolding handle_bind_object_def by (intro answer_with_evolves gated_evolves bind_object_live)

lemma handle_command_evolves:
  assumes "others_polite js" "handle_command js cmd d = Some (exit, d')"
  shows "d_evolves d d'"
  using assms(2) watched_commands_evolve [OF assms(1)] job_commands_evolve [OF assms(1)] plain_commands_evolve
    bind_command_evolves [OF assms(1)] terminate_evolves [OF assms(1)] shutdown_evolves register_op_evolves
    reply_evolves(1) [OF on_core_evolves [where f = "release_js_stream i" for i, OF small_evolves(3)]]
    reply_evolves(1) [OF on_core_evolves [where f = "cancel_js_stream js i" for i, OF cancel_stream_evolves [OF assms(1)]]]
    reply_evolves(1) [OF d_evolves_refl]
  by (cases cmd) auto

lemma term_evolves: "term_le (core_term c) t \<Longrightarrow> evolves c (c\<lparr>core_term := t\<rparr>)"
  by (auto simp: evolves_def core_ok_def term_le_def)

lemma channel_closed_evolves: "others_polite js \<Longrightarrow> d_evolves d (handle_channel_closed js d)"
proof -
  have "evolves c (c\<lparr>core_term := ensure_reason q (core_term c)\<rparr>)" for c :: "('h, 'w) core_state" and q
    by (rule term_evolves) simp
  then show "others_polite js \<Longrightarrow> d_evolves d (handle_channel_closed js d)"
    unfolding handle_channel_closed_def Let_def
    by (intro d_evolves_trans [OF on_core_evolves abort_evolves])
qed

lemma run_step_evolves:
  assumes "run_step js s new s'" "others_polite js"
  shows "d_evolves (snd s) (snd s')"
  using assms
proof (induction rule: run_step.induct)
  case (turn d t d')
  then show ?case using loop_top_evolves by auto
next
  case others
  then show ?case using calm_evolves [OF calmI [OF term_steps_le]] by (simp add: d_evolves_def)
next
  case (woken ev d exit d' idle)
  have "evolves c (c\<lparr>core_term := (core_term c)\<lparr>wake := False\<rparr>\<rparr>)" for c :: "('h, 'w) core_state"
    by (rule term_evolves) simp
  from on_core_evolves [where f = "\<lambda>c. c\<lparr>core_term := (core_term c)\<lparr>wake := False\<rparr>\<rparr>", OF this]
  show ?case
    using woken handle_command_evolves channel_closed_evolves by (cases ev) auto
qed

lemma runs_evolve: "runs js s cmds s' \<Longrightarrow> others_polite js \<Longrightarrow> d_evolves (snd s) (snd s')"
  by (induction rule: runs.induct) (auto intro: d_evolves_trans run_step_evolves)


section \<open>Abandoning work\<close>

text \<open>Answers that tell each of the given responders of an error.\<close>

definition all_failed :: "nat list \<Rightarrow> (nat \<times> answer) list \<Rightarrow> bool" where
  "all_failed rs l \<longleftrightarrow> map fst l = rs \<and> (\<forall>a \<in> snd ` set l. \<exists>e. a = AnsValue (Inl e))"

lemma respond_error: "\<exists>e. fst (job_respond js j (Inl err) c) = Inl e"
  by (cases "jc_watchdog j")
    (auto simp: job_respond_def apply_watchdog_result_def slift_def sbind_def watchdog_verdict_def Let_def
      split: sum.split prod.split)

lemma finish_error:
  "\<exists>e c. finish_job js job (Inl err) d = d\<lparr>d_core := c, d_sent := d_sent d @ [(job_responder job, AnsValue (Inl e))]\<rparr>"
proof -
  obtain e c where "job_respond js (job_common_of job) (Inl err) (d_core d) = (Inl e, c)"
    using respond_error [of js "job_common_of job" err "d_core d"] by (metis prod.collapse)
  then have "finish_job js job (Inl err) d
      = d\<lparr>d_core := c, d_sent := d_sent d @ [(job_responder job, AnsValue (Inl e))]\<rparr>"
    by (simp add: finish_job_def reply_def job_responder_def)
  then show ?thesis by blast
qed

lemma finish_all_errors:
  "\<exists>c new. fold (\<lambda>job. finish_job js job (Inl err)) jobs d = d\<lparr>d_core := c, d_sent := d_sent d @ new\<rparr>
    \<and> all_failed (map job_responder jobs) new"
proof (induction jobs arbitrary: d)
  case Nil
  show ?case by (rule exI [of _ "d_core d"], rule exI [of _ "[]"]) (simp add: all_failed_def)
next
  case (Cons job jobs)
  obtain e c where f: "finish_job js job (Inl err) d
      = d\<lparr>d_core := c, d_sent := d_sent d @ [(job_responder job, AnsValue (Inl e))]\<rparr>"
    using finish_error by blast
  let ?d = "d\<lparr>d_core := c, d_sent := d_sent d @ [(job_responder job, AnsValue (Inl e))]\<rparr>"
  from Cons.IH [of ?d] obtain c' new where
    r: "fold (\<lambda>job. finish_job js job (Inl err)) jobs ?d = ?d\<lparr>d_core := c', d_sent := d_sent ?d @ new\<rparr>"
    "all_failed (map job_responder jobs) new" by blast
  then show ?case
    by (intro exI [of _ c'] exI [of _ "(job_responder job, AnsValue (Inl e)) # new"]) (simp add: f all_failed_def)
qed

lemma cancel_all_fails:
  "\<exists>new. d_sent (cancel_all_jobs js err d) = d_sent d @ new \<and> all_failed (outstanding d) new"
proof (cases "d_active d")
  case None
  then show ?thesis
    using finish_all_errors [of js err "d_pending d" "d\<lparr>d_pending := []\<rparr>"]
    by (auto simp: cancel_all_jobs_def Let_def on_core_def outstanding_def)
next
  case (Some job)
  obtain e c where f: "finish_job js job (Inl err) (d\<lparr>d_active := None\<rparr>)
      = d\<lparr>d_active := None, d_core := c, d_sent := d_sent d @ [(job_responder job, AnsValue (Inl e))]\<rparr>"
    using finish_error [of js job err "d\<lparr>d_active := None\<rparr>"] by auto
  let ?d = "d\<lparr>d_active := None, d_core := c, d_sent := d_sent d @ [(job_responder job, AnsValue (Inl e))], d_pending := []\<rparr>"
  obtain new c' where "fold (\<lambda>job. finish_job js job (Inl err)) (d_pending d) ?d
      = ?d\<lparr>d_core := c', d_sent := d_sent ?d @ new\<rparr>" "all_failed (map job_responder (d_pending d)) new"
    using finish_all_errors [of js err "d_pending d" ?d] by blast
  with Some f show ?thesis
    by (intro exI [of _ "(job_responder job, AnsValue (Inl e)) # new"])
      (simp add: cancel_all_jobs_def Let_def on_core_def outstanding_def all_failed_def)
qed

lemma terminate_ok:
  assumes "others_polite js" "core_ok (d_core d)"
  shows "core_ok (d_core (handle_terminate js r d)) \<and> core_terminated (d_core (handle_terminate js r d))"
  using abort_evolves [OF assms(1), of d "core_terminated_error (d_core d)"] assms(2)
  by (simp add: d_evolves_def evolves_def handle_terminate_def Let_def reply_def on_core_def finalize_terminated)

section \<open>Properties\<close>

lemma new_run_ok: "run_ok (Looping, dispatcher_new core)" "abs_state (Looping, dispatcher_new core) = ([], [])"
  by (simp_all add: run_ok_def d_ok_def dispatcher_new_def server_of_def outstanding_def)

lemma runs_from_new:
  "runs js (Looping, dispatcher_new core) cmds s \<Longrightarrow> serves cmds ([], []) (abs_state s)"
  using runs_serve [OF _ new_run_ok(1)] new_run_ok(2) by metis

text \<open>
  C3  The runtime thread refines a first-in-first-out request server: whatever guest code, watchdogs
  and other threads do, every run of the dispatcher is a run of the server, in which a command is
  answered on the spot or queued, only the head of the queue is ever answered, and only a shutdown
  forgets what is queued.
\<close>

theorem dispatcher_refines_server:
  assumes "runs js (Looping, dispatcher_new core) cmds s"
  shows "serves cmds ([], []) (abs_state s)"
  by (rule runs_from_new [OF assms])

text \<open>
  At any moment of any run, each command taken from the channel has been answered exactly once or
  is still active or queued, and nothing else was ever answered; requests are dropped only by a
  shutdown command.
\<close>

theorem every_request_answered_once:
  assumes "runs js (Looping, dispatcher_new core) cmds (ph, d)"
  shows "\<exists>dropped. mset (map responder_of cmds)
      = mset (map fst (d_sent d)) + (if ph = Exited then {#} else mset (outstanding d)) + dropped
    \<and> (dropped = {#} \<or> (\<exists>r. CmdShutdown r \<in> set cmds))"
  using serves_accounts [OF runs_from_new [OF assms]]
  by (auto simp: abs_state_def is_shutdown_def)


text \<open>The commands that the guard protects, and the answer it gives.\<close>

fun gated_command :: "runtime_command \<Rightarrow> bool" where
  "gated_command (CmdStreamRelease _ _) = False"
| "gated_command (CmdStreamCancel _ _) = False"
| "gated_command (CmdGetStats _) = False"
| "gated_command (CmdTerminate _) = False"
| "gated_command (CmdShutdown _) = False"
| "gated_command _ = True"

fun refusal :: "runtime_command \<Rightarrow> runtime_error \<Rightarrow> answer" where
  "refusal (CmdRegisterPythonOp _ _ _ _) e = AnsToken (Inl e)"
| "refusal (CmdSetPythonOpExposure _ _ _) e = AnsFlag (Inl e)"
| "refusal (CmdSetModuleResolver _ _) e = AnsUnit (Inl e)"
| "refusal (CmdSetModuleLoader _ _) e = AnsUnit (Inl e)"
| "refusal (CmdAddStaticModule _ _ _) e = AnsUnit (Inl e)"
| "refusal (CmdBindObject _ _ _) e = AnsUnit (Inl e)"
| "refusal (CmdCallFunctionSync _ _ _ _) e = AnsCall (Inl e)"
| "refusal (CmdReleaseFunction _ _) e = AnsUnit (Inl e)"
| "refusal _ e = AnsValue (Inl e)"

lemma gated_rejects:
  assumes "should_reject_new_work (d_core d)"
  shows "answer_with wrap r (gated m) d = reply r (wrap (Inl (core_terminated_error (d_core d)))) d"
    "submit_made r (gated m') d = reply r (AnsValue (Inl (core_terminated_error (d_core d)))) d"
  using assms by (simp_all add: answer_with_def submit_made_def gated_def)

lemma rejected:
  assumes "should_reject_new_work (d_core d)" "gated_command cmd"
  shows "handle_command js cmd d
    = Some (False, reply (responder_of cmd) (refusal cmd (core_terminated_error (d_core d))) d)"
  using assms
  by (cases cmd)
    (simp_all add: handle_eval_def handle_eval_async_def handle_eval_module_def handle_eval_module_async_def
      handle_register_op_def handle_exposure_def handle_set_resolver_def handle_set_loader_def
      handle_add_static_module_def handle_bind_object_def handle_call_sync_def handle_call_async_def
      handle_resume_def handle_release_function_def handle_stream_read_def watched_def gated_rejects)

lemma settle_aborts:
  assumes "settle_turn js drained d = (t, d')" "should_reject_new_work (d_core d)"
  shows "outstanding d' = []"
proof (cases "has_work d")
  case True
  with assms cancel_all_serves [of d js] show ?thesis by (auto simp: settle_turn_def)
next
  case False
  then have "outstanding d = []" "outstanding (d\<lparr>d_just := False\<rparr>) = []"
    by (simp_all add: outstanding_def has_work_def)
  with False assms show ?thesis by (auto simp: settle_turn_def split: if_splits)
qed

lemma evolves_reject: "evolves c c' \<Longrightarrow> should_reject_new_work c \<Longrightarrow> should_reject_new_work c'"
  by (auto simp: evolves_def should_reject_new_work_def term_le_def)

text \<open>
  C7  A termination request is final.  Once it is on record, then after any further run every command
  that would do work is answered with the terminated error, and neither the core nor the queue of jobs
  changes.
\<close>

theorem terminated_runtime_rejects:
  assumes "others_polite js" "runs js (ph, d) cmds (ph', d')"
    and "is_requested (core_term (d_core d))" "gated_command cmd"
  shows "handle_command js cmd d'
    = Some (False, reply (responder_of cmd) (refusal cmd (core_terminated_error (d_core d'))) d')"
proof -
  have "should_reject_new_work (d_core d)" using assms(3) by (simp add: should_reject_new_work_def)
  with runs_evolve [OF assms(2,1)] have "should_reject_new_work (d_core d')"
    by (auto simp: d_evolves_def intro: evolves_reject)
  then show ?thesis using assms(4) by (rule rejected)
qed

lemma drive_event_loop_rejects:
  "others_polite js \<Longrightarrow> drive_event_loop js d = (r, d') \<Longrightarrow> should_reject_new_work (d_core d)
    \<Longrightarrow> should_reject_new_work (d_core d')"
  using drive_event_loop_evolves evolves_reject unfolding d_evolves_def by blast

text \<open>
  C8  Work is abandoned as soon as a termination is seen.  A trip of the loop that starts with a request
  on record either settled a fatal error first or leaves no job active or queued; and a \<open>Terminate\<close>
  command answers every outstanding job with an error, in order, and leaves a core that is terminated
  and, if it was consistent, holds no pending call.
\<close>

theorem termination_aborts_work:
  assumes "others_polite js" "is_requested (core_term (d_core d))"
  shows "(case loop_top js d of (t, d') \<Rightarrow> fst (drive_event_loop js d) = None \<or> outstanding d' = [])
    \<and> (\<exists>d' new. handle_command js (CmdTerminate r) d = Some (True, d') \<and> all_failed (outstanding d) new
         \<and> d_sent d' = d_sent d @ new @ [(r, AnsUnit (Inr ()))] \<and> core_terminated (d_core d')
         \<and> (core_ok (d_core d) \<longrightarrow> core_pending_calls (d_core d') = Map.empty) \<and> outstanding d' = [])"
proof
  obtain x d1 where e: "drive_event_loop js d = (x, d1)" by fastforce
  obtain t d' where top: "loop_top js d = (t, d')" by fastforce
  have rej: "should_reject_new_work (d_core (poll_active js d1))"
    using assms(2) drive_event_loop_rejects [OF assms(1) e] evolves_reject
      poll_active_evolves [OF assms(1), of d1] unfolding d_evolves_def by (auto simp: should_reject_new_work_def)
  show "case loop_top js d of (t, d') \<Rightarrow> fst (drive_event_loop js d) = None \<or> outstanding d' = []"
    using settle_aborts [OF _ rej, of js] e
    by (cases x) (auto simp: loop_top_def split: prod.split)
next
  obtain new where "d_sent (cancel_all_jobs js (core_terminated_error (d_core d)) d) = d_sent d @ new"
    "all_failed (outstanding d) new"
    using cancel_all_fails by blast
  moreover have "core_pending_calls (d_core (handle_terminate js r d)) = Map.empty" if "core_ok (d_core d)"
    using terminate_ok [OF assms(1) that] by (simp add: core_ok_def)
  ultimately show "\<exists>d' new. handle_command js (CmdTerminate r) d = Some (True, d') \<and> all_failed (outstanding d) new
         \<and> d_sent d' = d_sent d @ new @ [(r, AnsUnit (Inr ()))] \<and> core_terminated (d_core d')
         \<and> (core_ok (d_core d) \<longrightarrow> core_pending_calls (d_core d') = Map.empty) \<and> outstanding d' = []"
    using terminate_handled [of r d js]
    by (intro exI [of _ "handle_terminate js r d"] exI [of _ new])
      (simp add: handle_terminate_def Let_def reply_def on_core_def finalize_terminated)
qed

text \<open>
  C20  A pending call is resumed once, on the clock of the original call.  When a synchronous call returned
  a promise that is still pending under an id, the resume of that id, as long as it is in the table,
  submits a job that waits for this very promise for its own responder, with the start time, the
  effective timeout and the deadline of the original call, however much later it comes; so a poll past
  that deadline gives the timeout.  The entry is gone then, and the next resume of the id is answered
  with the error that there is no such call.
\<close>

theorem pending_call_resumed_once:
  assumes "call_function_sync js fn_id args timeout_ms c = (Inr (PendingCall k), c')"
    and "core_pending_calls (d_core d) k = core_pending_calls c' k"
    and "\<not> should_reject_new_work (d_core d)" "\<forall>st. core_inspector (d_core d) = Some st \<longrightarrow> irs_has_waited st"
  shows "\<exists>promise j d'. js_promise_state js promise (core_world c') = PromisePending
    \<and> handle_command js (CmdResumeFunctionCall k locals r) d = Some (False, d')
    \<and> d' = submit_job (JobOfPromise j) (d\<lparr>d_core := (d_core d)\<lparr>core_pending_calls := (core_pending_calls (d_core d))(k := None)\<rparr>\<rparr>)
    \<and> pj_start j = Some (StartResumed promise) \<and> pj_state j = PJInit \<and> jc_responder (pj_common j) = r
    \<and> jc_start_time (pj_common j) = core_now js c
    \<and> jc_timeout_ms (pj_common j) = effective_timeout_ms c timeout_ms
    \<and> jc_deadline (pj_common j) = map_option (\<lambda>ms. core_now js c + from_millis ms) (effective_timeout_ms c timeout_ms)
    \<and> (\<forall>ms c2. effective_timeout_ms c timeout_ms = Some ms \<longrightarrow> core_now js c + from_millis ms \<le> core_now js c2 \<longrightarrow>
         fst (job_poll js (JobOfPromise j) c2) = Some (Inl (timeout_error (pj_common j))))
    \<and> handle_command js (CmdResumeFunctionCall k locals' r') d' = Some (False,
        reply r' (AnsValue (Inl (Internal (''Pending function call '' @ show_word k @ '' not found'')))) d')"
proof -
  obtain v where v: "js_promise_state js v (core_world c') = PromisePending"
    and entry: "core_pending_calls c' k = Some \<lparr>pc_promise = v, pc_start_time = core_now js c,
        pc_deadline = map_option (\<lambda>t. core_now js c + from_millis t) (effective_timeout_ms c timeout_ms),
        pc_timeout_ms = effective_timeout_ms c timeout_ms\<rparr>"
    using pending_call_stored [OF assms(1)] by blast
  let ?c = "(d_core d)\<lparr>core_pending_calls := (core_pending_calls (d_core d))(k := None)\<rparr>"
  let ?p = "\<lparr>pc_promise = v, pc_start_time = core_now js c,
        pc_deadline = map_option (\<lambda>t. core_now js c + from_millis t) (effective_timeout_ms c timeout_ms),
        pc_timeout_ms = effective_timeout_ms c timeout_ms\<rparr>"
  obtain j where j: "resume_function_call_job ?p locals r = JobOfPromise j" by (simp add: resume_function_call_job_def)
  let ?d = "submit_job (JobOfPromise j) (d\<lparr>d_core := ?c\<rparr>)"
  have ready: "ensure_inspector_ready js e = (Inr (), e)"
    if "core_inspector e = core_inspector (d_core d)" for e
    using assms(4) that by (auto simp: ensure_inspector_ready_def split: option.split)
  have core: "d_core ?d = ?c" by (simp add: submit_job_def)
  have "handle_command js (CmdResumeFunctionCall k locals r) d = Some (False, ?d)"
    using assms(2,3) entry j ready
    by (simp add: handle_resume_def submit_made_def gated_def sthen_def sbind_def sret_def take_pending_call_def)
  moreover have "handle_command js (CmdResumeFunctionCall k locals' r') ?d = Some (False,
        reply r' (AnsValue (Inl (Internal (''Pending function call '' @ show_word k @ '' not found'')))) ?d)"
    using assms(3) ready
    by (simp add: handle_resume_def submit_made_def gated_def sthen_def sbind_def take_pending_call_def core
        should_reject_new_work_def) (simp add: reply_def submit_job_def)
  moreover have common: "pj_start j = Some (StartResumed v)" "pj_state j = PJInit" "jc_responder (pj_common j) = r"
    "jc_start_time (pj_common j) = core_now js c" "jc_timeout_ms (pj_common j) = effective_timeout_ms c timeout_ms"
    "jc_deadline (pj_common j) = map_option (\<lambda>ms. core_now js c + from_millis ms) (effective_timeout_ms c timeout_ms)"
    using j by (auto simp: resume_function_call_job_def promise_job_new_def job_common_resumed_def)
  moreover have "fst (job_poll js (JobOfPromise j) c2) = Some (Inl (timeout_error (pj_common j)))"
    if "effective_timeout_ms c timeout_ms = Some ms" "core_now js c + from_millis ms \<le> core_now js c2" for ms c2
    using job_poll_past [of "JobOfPromise j" "core_now js c + from_millis ms" js c2] common(6) that by auto
  ultimately show ?thesis using v by (intro exI [of _ v] exI [of _ j] exI [of _ ?d]) blast
qed

text \<open>
  From a consistent core, every reachable core is consistent: one that is terminated has the
  terminated status on record and holds no pending call, and the record itself only ever advances.
\<close>

theorem termination_is_final:
  assumes "others_polite js" "runs js (Looping, dispatcher_new core) cmds (ph, d)" "core_ok core"
  shows "core_ok (d_core d) \<and> term_le (core_term core) (core_term (d_core d))
    \<and> (core_terminated core \<longrightarrow> core_terminated (d_core d))"
  using runs_evolve [OF assms(2,1)] assms(3) by (simp add: d_evolves_def evolves_def dispatcher_new_def)


section \<open>Sample runs\<close>

lemma tick_top:
  "loop_top tick_js (dispatcher_new (tick_core w))
    = (TurnWait True, dispatcher_new (snd (ask_js tick_js (tick ()) (tick_core w))))"
  by (simp add: loop_top_def drive_event_loop_def poll_active_def settle_turn_def should_reject_new_work_def
      is_requested_def termination_new_def status_defs dispatcher_new_def ask_js_eq absorb_def tick_defs)

lemma tick_run:
  fixes r :: nat
  shows "\<exists>d. runs tick_js (Looping, dispatcher_new (tick_core 0)) [CmdGetStats r] (Looping, d) \<and> map fst (d_sent d) = [r]
    \<and> outstanding d = []"
proof -
  let ?d1 = "dispatcher_new (snd (ask_js tick_js (tick ()) (tick_core 0)))"
  let ?d2 = "reply r (AnsStats (Inr (collect_stats tick_js (d_core ?d1)))) ?d1"
  have "run_step tick_js (Looping, dispatcher_new (tick_core 0)) [] (Waiting True, ?d1)"
    using run_step.turn [OF tick_top [of 0]] by simp
  from runs.step [OF runs.start this]
  have one: "runs tick_js (Looping, dispatcher_new (tick_core 0)) [] (Waiting True, ?d1)" by simp
  have "run_step tick_js (Waiting True, ?d1) [CmdGetStats r] (Looping, ?d2)"
    using run_step.woken [of tick_js "GotCommand (CmdGetStats r)" ?d1 False ?d2 True] by simp
  from runs.step [OF one this]
  have "runs tick_js (Looping, dispatcher_new (tick_core 0)) [CmdGetStats r] (Looping, ?d2)" by simp
  then show ?thesis by (intro exI [of _ ?d2]) (simp add: reply_def dispatcher_new_def outstanding_def)
qed

definition tick_doomed :: "(nat, nat) dispatcher" where
  "tick_doomed = dispatcher_new ((tick_core 0)\<lparr>core_term := snd (request termination_new)\<rparr>)"

lemma tick_doomed_requested: "is_requested (core_term (d_core tick_doomed))"
  by (simp add: tick_doomed_def dispatcher_new_def request_def is_requested_def termination_new_def status_defs)

theorem dispatcher_refines_server_witness:
  "\<exists>a. serves [CmdGetStats 1] ([], []) ([], [(1, a)])"
proof -
  obtain d where t: "runs tick_js (Looping, dispatcher_new (tick_core 0)) [CmdGetStats 1] (Looping, d)
      \<and> map fst (d_sent d) = [1] \<and> outstanding d = []" using tick_run [of 1] ..
  note run = conjunct1 [OF t] and d = conjunct2 [OF t]
  from d obtain a where "d_sent d = [(1, a)]" by auto
  with d have "abs_state (Looping, d) = ([], [(1, a)])" by (simp add: server_of_def)
  with dispatcher_refines_server [OF run] have "serves [CmdGetStats 1] ([], []) ([], [(1, a)])" by (rule subst [rotated])
  then show ?thesis ..
qed

theorem every_request_answered_once_witness:
  "\<exists>d. map fst (d_sent d) = [1] \<and> mset [1] = mset (map fst (d_sent (d :: (nat, nat) dispatcher))) + mset (outstanding d)"
proof -
  obtain d where t: "runs tick_js (Looping, dispatcher_new (tick_core 0)) [CmdGetStats 1] (Looping, d)
      \<and> map fst (d_sent d) = [1] \<and> outstanding d = []" using tick_run [of 1] ..
  note run = conjunct1 [OF t] and d = conjunct1 [OF conjunct2 [OF t]]
  from every_request_answered_once [OF run] obtain dropped where
    "mset (map responder_of [CmdGetStats 1])
      = mset (map fst (d_sent d)) + (if Looping = Exited then {#} else mset (outstanding d)) + dropped"
    "dropped = {#} \<or> (\<exists>r. CmdShutdown r \<in> set [CmdGetStats 1])" by blast
  then have "mset [1] = mset (map fst (d_sent d)) + mset (outstanding d)" by simp
  with d have "map fst (d_sent d) = [1] \<and> mset [1] = mset (map fst (d_sent d)) + mset (outstanding d)" ..
  then show ?thesis ..
qed

theorem terminated_runtime_rejects_witness:
  "handle_command tick_js (CmdEval ''1'' 5) tick_doomed = Some (False, reply 5 (AnsValue (Inl (Terminated None))) tick_doomed)"
proof -
  have "core_terminated_error (d_core tick_doomed) = Terminated None"
    by (simp add: tick_doomed_def dispatcher_new_def core_terminated_error_def terminated_error_def request_def
        termination_new_def)
  with terminated_runtime_rejects [OF tick_polite runs.start tick_doomed_requested, of "CmdEval ''1'' 5"]
  show ?thesis by simp
qed

text \<open>A request for termination meets an evaluation that is queued behind another.\<close>

definition tick_doomed_busy :: "(nat, nat) dispatcher" where
  "tick_doomed_busy = tick_doomed\<lparr>d_active := Some (eval_async_job 0 ''promise'' None None 7 None),
     d_pending := [eval_async_job 0 ''1'' None None 8 None]\<rparr>"

theorem termination_aborts_work_witness:
  "\<exists>d' new. handle_command tick_js (CmdTerminate 9) tick_doomed_busy = Some (True, d')
    \<and> all_failed [7, 8] new \<and> map fst (d_sent d') = [7, 8, 9] \<and> core_terminated (d_core d')"
proof -
  have "is_requested (core_term (d_core tick_doomed_busy))"
    using tick_doomed_requested by (simp add: tick_doomed_busy_def)
  moreover have "outstanding tick_doomed_busy = [7, 8]" "d_sent tick_doomed_busy = []"
    by (simp_all add: tick_doomed_busy_def outstanding_def job_responder_def eval_async_job_def promise_job_new_def
        job_common_new_def tick_doomed_def dispatcher_new_def)
  ultimately obtain d' new where end_of_work: "handle_command tick_js (CmdTerminate 9) tick_doomed_busy = Some (True, d')"
    "all_failed [7, 8] new" "d_sent d' = new @ [(9, AnsUnit (Inr ()))]" "core_terminated (d_core d')"
    using termination_aborts_work [OF tick_polite, of tick_doomed_busy 9] by auto
  then have "map fst (d_sent d') = [7, 8, 9]" by (simp add: all_failed_def)
  with end_of_work show ?thesis by (intro exI [of _ d'] exI [of _ new] conjI)
qed

theorem pending_call_resumed_once_witness:
  "\<exists>d j d'. handle_command tick_js (CmdResumeFunctionCall 0 None 5) d = Some (False, d') \<and> d_active d' = Some (JobOfPromise j)
    \<and> jc_deadline (pj_common j) = Some 8000000
    \<and> handle_command tick_js (CmdResumeFunctionCall 0 None 6) d'
        = Some (False, reply 6 (AnsValue (Inl (Internal ''Pending function call 0 not found''))) d')"
proof -
  obtain c' where call: "call_function_sync tick_js 4 [] None (tick_core 3) = (Inr (PendingCall 0), c')"
    using tick_call_pending by blast
  let ?d = "dispatcher_new ((tick_core 9)\<lparr>core_pending_calls := core_pending_calls c'\<rparr>)"
  have "core_pending_calls (d_core ?d) 0 = core_pending_calls c' 0" "\<not> should_reject_new_work (d_core ?d)"
    "\<forall>st. core_inspector (d_core ?d) = Some st \<longrightarrow> irs_has_waited st"
    by (simp_all add: dispatcher_new_def should_reject_new_work_def is_requested_def termination_new_def status_defs tick_defs)
  from pending_call_resumed_once [OF call this, of None 5 None 6] obtain j d' where
    "handle_command tick_js (CmdResumeFunctionCall 0 None 5) ?d = Some (False, d')"
    "d' = submit_job (JobOfPromise j) (?d\<lparr>d_core := (d_core ?d)\<lparr>core_pending_calls := (core_pending_calls (d_core ?d))(0 := None)\<rparr>\<rparr>)"
    "jc_deadline (pj_common j) = map_option (\<lambda>ms. core_now tick_js (tick_core 3) + from_millis ms) (effective_timeout_ms (tick_core 3) None)"
    "handle_command tick_js (CmdResumeFunctionCall 0 None 6) d'
        = Some (False, reply 6 (AnsValue (Inl (Internal (''Pending function call '' @ show_word (0 :: u64) @ '' not found'')))) d')"
    by blast
  moreover have "map_option (\<lambda>ms. core_now tick_js (tick_core 3) + from_millis ms) (effective_timeout_ms (tick_core 3) None) = Some 8000000"
    by (simp add: effective_timeout_ms_def tick_defs duration_to_u64_ms_def as_millis_def from_millis_def Let_def)
  moreover have "show_word (0 :: u64) = ''0''" by (simp add: show_word_def show_uint.simps digit_char_def)
  ultimately show ?thesis
    by (intro exI [of _ ?d] exI [of _ j] exI [of _ d']) (simp add: submit_job_def dispatcher_new_def)
qed

theorem termination_is_final_witness: "core_ok (tick_core 0) \<and> term_le (core_term (tick_core 0)) (core_term (tick_core 0))"
proof -
  have "core_ok (tick_core 0)" by (simp add: core_ok_def tick_defs)
  from termination_is_final [OF tick_polite runs.start this] this show ?thesis by (simp add: dispatcher_new_def)
qed

end
