(* ===== verification/Peno_HandleLaws.thy ===== *)
theory Peno_HandleLaws
  imports Peno_Handle Peno_DispatchLaws
begin

text \<open>
  What the handle promises its callers: every request is one command with a responder of its own, a
  handle that is stopped refuses everything and sends nothing, a bounded wait ends, and a force-kill
  hits only a runtime that did not answer in time.
\<close>

section \<open>Requests\<close>

definition handle_dead :: "runtime_handle \<Rightarrow> bool" where
  "handle_dead h \<longleftrightarrow> is_requested (h_term h) \<or> h_shutdown h \<or> \<not> h_tx h"

definition refusal_of :: "runtime_handle \<Rightarrow> runtime_error" where
  "refusal_of h = (if is_requested (h_term h) then terminated_error (h_term h)
                   else Internal ''Runtime has been shut down'')"

definition handle_ok :: "runtime_handle \<Rightarrow> bool" where
  "handle_ok h \<longleftrightarrow> map responder_of (h_sent h) = [0..<h_next h]"

text \<open>At most one command, with the next responder.\<close>

definition sends_one :: "runtime_handle \<Rightarrow> runtime_handle \<Rightarrow> bool" where
  "sends_one h h' \<longleftrightarrow> (h_sent h' = h_sent h \<and> h_next h' = h_next h)
     \<or> (\<exists>cmd. responder_of cmd = h_next h \<and> h_sent h' = h_sent h @ [cmd] \<and> h_next h' = Suc (h_next h))"

lemma terminated_requested: "is_terminated t \<Longrightarrow> is_requested t"
  by (simp add: is_terminated_def is_requested_def)

lemma sender_dead: "handle_dead h \<Longrightarrow> sender h = Inl (refusal_of h)"
  by (auto simp: handle_dead_def sender_def refusal_of_def terminated_requested)

lemma sender_alive: "\<not> handle_dead h \<Longrightarrow> sender h = Inr ()"
  by (auto simp: handle_dead_def sender_def terminated_requested)

lemma sends_one_ok: "sends_one h h' \<Longrightarrow> handle_ok h \<Longrightarrow> handle_ok h'"
  by (auto simp: sends_one_def handle_ok_def)

lemma post_sends_one [simp]: "(\<And>r. responder_of (cmd r) = r) \<Longrightarrow> sends_one h (post cmd h)"
  by (simp add: sends_one_def post_def)

text \<open>The contract that the operations with a command share.\<close>

locale request_op =
  fixes run :: "runtime_handle \<Rightarrow> 'a outcome"
  assumes refuses: "handle_dead h \<Longrightarrow> run h = Some (Inl (refusal_of h), h)"
    and posts: "run h = Some (r, h') \<Longrightarrow> sends_one h h'"
begin

lemma keeps_ok: "run h = Some (r, h') \<Longrightarrow> handle_ok h \<Longrightarrow> handle_ok h'"
  by (rule sends_one_ok [OF posts])

end

text \<open>A wait that sends nothing.\<close>

definition silent :: "(runtime_handle \<Rightarrow> ('r \<times> runtime_handle) option) \<Rightarrow> bool" where
  "silent wait \<longleftrightarrow> (\<forall>h r h'. wait h = Some (r, h') \<longrightarrow> h_sent h' = h_sent h \<and> h_next h' = h_next h)"

lemma silent_waits [simp]: "silent (recv_result shown env what)" "silent (recv_unbounded env lost)"
  by (auto simp: silent_def recv_result_def recv_unbounded_def split: option.splits wait_end.splits)

lemma ask_refuses: "handle_dead h \<Longrightarrow> ask_runtime wait cmd name h = Some (Inl (refusal_of h), h)"
  by (simp add: ask_runtime_def sender_dead)

lemma ask_posts:
  assumes "silent wait" "\<And>r. responder_of (cmd r) = r" "ask_runtime wait cmd name h = Some (r, h')"
  shows "sends_one h h'"
proof (cases "handle_dead h \<or> \<not> h_open h")
  case True
  then show ?thesis
    using assms(3) by (cases "handle_dead h") (auto simp: ask_runtime_def sends_one_def sender_dead sender_alive)
next
  case False
  then obtain r0 where w: "wait (post cmd h) = Some (r0, h')"
    using assms(3) by (auto simp: ask_runtime_def sender_alive)
  then have "h_sent h' = h_sent (post cmd h)" "h_next h' = h_next (post cmd h)"
    using assms(1) by (auto simp: silent_def)
  then show ?thesis
    using post_sends_one [OF assms(2), of h] by (simp add: sends_one_def)
qed

lemma ask_request_op: "silent wait \<Longrightarrow> (\<And>r. responder_of (cmd r) = r) \<Longrightarrow> request_op (ask_runtime wait cmd name)"
  by unfold_locales (auto intro: ask_refuses ask_posts)

lemmas request_defs = h_eval_sync_def h_eval_async_def h_register_op_def h_set_op_exposure_def
  h_set_module_resolver_def h_set_module_loader_def h_add_static_module_def h_bind_object_def
  h_eval_module_sync_def h_eval_module_async_def h_call_function_sync_def h_call_function_async_def
  h_resume_function_call_def h_release_function_def h_release_function_async_def h_get_stats_def

interpretation rq_eval: request_op "h_eval_sync shown env code" for shown env code
  unfolding request_defs by (rule ask_request_op) simp_all

interpretation rq_eval_async: request_op "h_eval_async env code timeout locals" for env code timeout locals
  unfolding request_defs by (rule ask_request_op) simp_all

interpretation rq_register: request_op "h_register_op shown env name mode handler" for shown env name mode handler
  unfolding request_defs by (rule ask_request_op) simp_all

interpretation rq_exposure: request_op "h_set_op_exposure env tok flag" for env tok flag
  unfolding request_defs by (rule ask_request_op) simp_all

interpretation rq_resolver: request_op "h_set_module_resolver shown env f" for shown env f
  unfolding request_defs by (rule ask_request_op) simp_all

interpretation rq_loader: request_op "h_set_module_loader shown env f" for shown env f
  unfolding request_defs by (rule ask_request_op) simp_all

interpretation rq_static: request_op "h_add_static_module shown env name source" for shown env name source
  unfolding request_defs by (rule ask_request_op) simp_all

interpretation rq_bind: request_op "h_bind_object shown env name props" for shown env name props
  unfolding request_defs by (rule ask_request_op) simp_all

interpretation rq_module: request_op "h_eval_module_sync shown env spec" for shown env spec
  unfolding request_defs by (rule ask_request_op) simp_all

interpretation rq_module_async: request_op "h_eval_module_async env spec timeout locals" for env spec timeout locals
  unfolding request_defs by (rule ask_request_op) simp_all

interpretation rq_call: request_op "h_call_function_sync shown env f args timeout" for shown env f args timeout
  unfolding request_defs by (rule ask_request_op) simp_all

interpretation rq_call_async: request_op "h_call_function_async env f args timeout locals" for env f args timeout locals
  unfolding request_defs by (rule ask_request_op) simp_all

interpretation rq_resume: request_op "h_resume_function_call env i locals" for env i locals
  unfolding request_defs by (rule ask_request_op) simp_all

interpretation rq_release: request_op "h_release_function env f" for env f
  unfolding request_defs by (rule ask_request_op) simp_all

interpretation rq_release_async: request_op "h_release_function_async env f" for env f
  unfolding request_defs by (rule ask_request_op) simp_all

interpretation rq_stats: request_op "h_get_stats shown env" for shown env
  unfolding request_defs by (rule ask_request_op) simp_all

lemma untracking_request_op: "request_op run \<Longrightarrow> request_op (\<lambda>h. untracking i (run h))"
proof unfold_locales
  assume run: "request_op run"
  show "untracking i (run h) = Some (Inl (refusal_of h), h)" if "handle_dead h" for h
    using request_op.refuses [OF run that] by (simp add: untracking_def)
  show "sends_one h h'" if "untracking i (run h) = Some (r, h')" for h r h'
  proof -
    obtain r0 h0 where "run h = Some (r0, h0)" "h_sent h' = h_sent h0" "h_next h' = h_next h0"
      using \<open>untracking i (run h) = Some (r, h')\<close>
      by (auto simp: untracking_def untrack_js_stream_id_def split: option.splits sum.splits)
    then show ?thesis
      using request_op.posts [OF run] by (simp add: sends_one_def)
  qed
qed

interpretation rq_stream_release: request_op "h_stream_release shown env i" for shown env i
  unfolding h_stream_release_def by (intro untracking_request_op ask_request_op) simp_all

interpretation rq_stream_cancel: request_op "h_stream_cancel shown env i" for shown env i
  unfolding h_stream_cancel_def by (intro untracking_request_op ask_request_op) simp_all

lemma stream_ask:
  "request_op (ask_runtime (recv_unbounded env ''Failed to receive stream chunk'') (CmdStreamRead i) ''stream_read'')"
  by (rule ask_request_op) simp_all

interpretation rq_stream_read: request_op "h_stream_read dbg env i" for dbg env i
proof unfold_locales
  show "h_stream_read dbg env i h = Some (Inl (refusal_of h), h)" if "handle_dead h" for h
    by (simp add: h_stream_read_def request_op.refuses [OF stream_ask that])
  show "sends_one h h'" if read: "h_stream_read dbg env i h = Some (r, h')" for h r h'
  proof -
    obtain r0 h0 where "ask_runtime (recv_unbounded (env :: js_value answers) ''Failed to receive stream chunk'') (CmdStreamRead i) ''stream_read'' h
        = Some (r0, h0)" "h_sent h' = h_sent h0" "h_next h' = h_next h0"
      using read by (auto simp: h_stream_read_def untrack_js_stream_id_def split: option.splits sum.splits if_splits)
    then show ?thesis
      using request_op.posts [OF stream_ask] by (simp add: sends_one_def)
  qed
qed

section \<open>Bounded waits\<close>

text \<open>
  What \<open>recv_timeout\<close> and \<open>Instant\<close> promise: the clock does not go back, and a slice lasts at least
  \<open>FORCE_KILL_POLL_SLICE\<close>.
\<close>

definition slices_elapse :: "'a wait_env \<Rightarrow> bool" where
  "slices_elapse env \<longleftrightarrow>
     (\<forall>k t1 t2. we_event env k = SliceElapsed t1 t2 \<longrightarrow> t1 \<le> t2)
     \<and> (\<forall>k t1 t2 u1 u2. we_event env k = SliceElapsed t1 t2 \<longrightarrow> we_event env (Suc k) = SliceElapsed u1 u2
          \<longrightarrow> t2 + FORCE_KILL_POLL_SLICE \<le> u1)"

lemma slice_order: "slices_elapse env \<Longrightarrow> we_event env k = SliceElapsed t1 t2 \<Longrightarrow> t1 \<le> t2"
  by (simp add: slices_elapse_def)

lemma slice_gap:
  "slices_elapse env \<Longrightarrow> we_event env k = SliceElapsed t1 t2 \<Longrightarrow> we_event env (Suc k) = SliceElapsed u1 u2 \<Longrightarrow>
   t2 + FORCE_KILL_POLL_SLICE \<le> u1"
  by (simp add: slices_elapse_def)

text \<open>One look.\<close>

lemma look_done [simp]:
  "we_event env k = Received v \<Longrightarrow> recv_sliced g env seen k = Some (Answered v, k)"
  "we_event env k = Disconnected \<Longrightarrow> recv_sliced g env seen k = Some (Lost, k)"
  by (simp_all add: recv_sliced.simps)

lemma look_slice:
  "we_event env k = SliceElapsed t1 t2 \<Longrightarrow> recv_sliced g env seen k =
     (if \<not> is_requested (we_term env k) then recv_sliced g env seen (Suc k)
      else if t2 - (case seen of Some t \<Rightarrow> t | None \<Rightarrow> t1) < g
      then recv_sliced g env (Some (case seen of Some t \<Rightarrow> t | None \<Rightarrow> t1)) (Suc k) else Some (Killed, k))"
  by (subst recv_sliced.simps) (simp add: Let_def)

lemma ticking_wait_ends:
  assumes "slices_elapse env" "\<And>i. k \<le> i \<Longrightarrow> is_requested (we_term env i)"
    "\<And>t1 t2. we_event env k = SliceElapsed t1 t2 \<Longrightarrow> s + c \<le> t2" "g \<le> c + m * FORCE_KILL_POLL_SLICE"
  shows "\<exists>e i. recv_sliced g env (Some s) k = Some (e, i) \<and> i \<le> k + m"
  using assms(2-)
proof (induction m arbitrary: k c)
  case 0
  then show ?case
    by (cases "we_event env k") (auto simp: look_slice)
next
  case (Suc m)
  show ?case
  proof (cases "we_event env k")
    case (SliceElapsed t1 t2)
    have "\<exists>e i. recv_sliced g env (Some s) (Suc k) = Some (e, i) \<and> i \<le> Suc k + m"
    proof (rule Suc.IH)
      show "s + (c + FORCE_KILL_POLL_SLICE) \<le> u2" if "we_event env (Suc k) = SliceElapsed u1 u2" for u1 u2
        using slice_gap [OF assms(1) SliceElapsed that] slice_order [OF assms(1) that] Suc.prems(2) [OF SliceElapsed]
        by simp
    qed (use Suc.prems in \<open>simp_all\<close>)
    then show ?thesis
      by (auto simp: look_slice [OF SliceElapsed] intro: exI [of _ k])
  qed auto
qed

lemma wait_ends:
  assumes "slices_elapse env" "\<And>i. n \<le> i \<Longrightarrow> is_requested (we_term env i)" "k \<le> n"
    "\<And>s t1 t2. seen = Some s \<Longrightarrow> we_event env k = SliceElapsed t1 t2 \<Longrightarrow> s \<le> t2"
  shows "\<exists>e i. recv_sliced g env seen k = Some (e, i) \<and> i \<le> n + g div FORCE_KILL_POLL_SLICE + 1"
  using assms(3-)
proof (induction "n - k" arbitrary: k seen)
  case 0
  have enough: "g \<le> FORCE_KILL_POLL_SLICE + (g div FORCE_KILL_POLL_SLICE) * FORCE_KILL_POLL_SLICE"
    using dividend_less_div_times [of FORCE_KILL_POLL_SLICE g] by (simp add: FORCE_KILL_POLL_SLICE_def)
  have k: "k = n"
    using 0 by simp
  show ?case
  proof (cases "we_event env k")
    case (SliceElapsed t1 t2)
    let ?s = "case seen of Some t \<Rightarrow> t | None \<Rightarrow> t1"
    have "?s \<le> t2"
      using 0(3) SliceElapsed slice_order [OF assms(1) SliceElapsed] by (auto split: option.split)
    have "\<exists>e i. recv_sliced g env (Some ?s) (Suc k) = Some (e, i) \<and> i \<le> Suc k + g div FORCE_KILL_POLL_SLICE"
    proof (rule ticking_wait_ends [OF assms(1) _ _ enough])
      show "?s + FORCE_KILL_POLL_SLICE \<le> u2" if "we_event env (Suc k) = SliceElapsed u1 u2" for u1 u2
        using slice_gap [OF assms(1) SliceElapsed that] slice_order [OF assms(1) that] \<open>?s \<le> t2\<close> by simp
    qed (use assms(2) k in simp)
    then show ?thesis
      using assms(2) [of n] by (auto simp: look_slice [OF SliceElapsed] k look_slice [OF SliceElapsed [unfolded k]])
  qed (use k in auto)
next
  case (Suc d)
  have step: "\<exists>e i. recv_sliced g env seen' (Suc k) = Some (e, i) \<and> i \<le> n + g div FORCE_KILL_POLL_SLICE + 1"
    if "\<And>s t1 t2. seen' = Some s \<Longrightarrow> we_event env (Suc k) = SliceElapsed t1 t2 \<Longrightarrow> s \<le> t2" for seen'
    using that Suc.hyps by (intro Suc.hyps(1)) auto
  show ?case
  proof (cases "we_event env k")
    case (SliceElapsed t1 t2)
    have later: "t2 \<le> u2" if "we_event env (Suc k) = SliceElapsed u1 u2" for u1 u2
      using slice_gap [OF assms(1) SliceElapsed that] slice_order [OF assms(1) that] by simp
    let ?s = "case seen of Some t \<Rightarrow> t | None \<Rightarrow> t1"
    have "?s \<le> t2"
      using Suc.prems(2) SliceElapsed slice_order [OF assms(1) SliceElapsed] by (auto split: option.split)
    then have "\<exists>e i. recv_sliced g env (Some ?s) (Suc k) = Some (e, i) \<and> i \<le> n + g div FORCE_KILL_POLL_SLICE + 1"
      by (intro step) (auto dest: later)
    moreover have "\<exists>e i. recv_sliced g env seen (Suc k) = Some (e, i) \<and> i \<le> n + g div FORCE_KILL_POLL_SLICE + 1"
      using Suc.prems(2) [OF _ SliceElapsed] by (intro step) (fastforce dest: later)
    ultimately show ?thesis
      using Suc.prems(1) by (auto simp: look_slice [OF SliceElapsed])
  qed (use Suc.prems in auto)
qed

text \<open>Why a wait was given up.\<close>

definition unanswered :: "nat \<Rightarrow> 'a wait_env \<Rightarrow> nat \<Rightarrow> bool" where
  "unanswered g env k \<longleftrightarrow>
     (\<forall>i\<le>k. \<exists>t1 t2. we_event env i = SliceElapsed t1 t2)
     \<and> (\<exists>j\<le>k. is_requested (we_term env j) \<and> is_requested (we_term env k)
          \<and> (\<exists>t1 t2 u1 u2. we_event env j = SliceElapsed t1 t2 \<and> we_event env k = SliceElapsed u1 u2 \<and> g \<le> u2 - t1))"

definition waited :: "'a wait_env \<Rightarrow> nat option \<Rightarrow> nat \<Rightarrow> bool" where
  "waited env seen k \<longleftrightarrow>
     (\<forall>j<k. \<exists>t1 t2. we_event env j = SliceElapsed t1 t2)
     \<and> (\<forall>s. seen = Some s \<longrightarrow> (\<exists>j<k. is_requested (we_term env j) \<and> (\<exists>t2. we_event env j = SliceElapsed s t2)))"

lemma waited_more:
  assumes "waited env seen k" "we_event env k = SliceElapsed t1 t2"
  shows "waited env seen (Suc k)"
  unfolding waited_def
proof (intro conjI allI impI)
  show "\<exists>t1 t2. we_event env j = SliceElapsed t1 t2" if "j < Suc k" for j
    using assms that by (cases "j = k") (auto simp: waited_def)
  show "\<exists>j<Suc k. is_requested (we_term env j) \<and> (\<exists>t2. we_event env j = SliceElapsed s t2)" if "seen = Some s" for s
    using assms(1) that less_SucI unfolding waited_def by blast
qed

lemma waited_seen:
  assumes "waited env seen k" "we_event env k = SliceElapsed t1 t2" "is_requested (we_term env k)"
  shows "waited env (Some (case seen of Some t \<Rightarrow> t | None \<Rightarrow> t1)) (Suc k)"
proof -
  have "\<exists>j<Suc k. is_requested (we_term env j)
      \<and> (\<exists>t2. we_event env j = SliceElapsed (case seen of Some t \<Rightarrow> t | None \<Rightarrow> t1) t2)"
    using assms by (cases seen) (auto simp: waited_def intro: less_SucI)
  then show ?thesis
    using waited_more [OF assms(1,2)] by (simp add: waited_def)
qed

lemma unansweredI:
  "(\<And>i. i < k \<Longrightarrow> \<exists>t1 t2. we_event env i = SliceElapsed t1 t2) \<Longrightarrow> we_event env k = SliceElapsed u1 u2 \<Longrightarrow>
   is_requested (we_term env k) \<Longrightarrow> j \<le> k \<Longrightarrow> is_requested (we_term env j) \<Longrightarrow> we_event env j = SliceElapsed t1 t2 \<Longrightarrow>
   g \<le> u2 - t1 \<Longrightarrow> unanswered g env k"
  unfolding unanswered_def le_less [of _ k] by blast

lemma waited_killed:
  assumes "waited env seen k" "we_event env k = SliceElapsed t1 t2" "is_requested (we_term env k)"
    "\<not> t2 - (case seen of Some t \<Rightarrow> t | None \<Rightarrow> t1) < g"
  shows "unanswered g env k"
proof (cases seen)
  case None
  then show ?thesis
    using assms by (intro unansweredI [OF _ assms(2,3) _ assms(3) assms(2)]) (auto simp: waited_def)
next
  case (Some s)
  then obtain j t where j: "j < k" "is_requested (we_term env j)" "we_event env j = SliceElapsed s t"
    using assms(1) by (auto simp: waited_def)
  then show ?thesis
    using assms Some by (intro unansweredI [OF _ assms(2,3) _ j(2,3)]) (auto simp: waited_def)
qed

lemma killed_unanswered:
  assumes "recv_sliced g env seen k = Some (Killed, i)" "waited env seen k"
  shows "unanswered g env i"
proof -
  have "fst (Killed, i) = (Killed :: 'a wait_end) \<longrightarrow> waited env seen k \<longrightarrow> unanswered g env (snd (Killed :: 'a wait_end, i))"
  proof (rule recv_sliced.raw_induct
      [where P = "\<lambda>g env seen k r. fst r = Killed \<longrightarrow> waited env seen k \<longrightarrow> unanswered g env (snd r)", OF _ assms(1)])
    fix rec g k r
    fix env :: "'a wait_env"
    fix seen
    assume IH: "\<And>g env seen k r. rec g env seen k = Some r \<Longrightarrow>
        fst r = Killed \<longrightarrow> waited env seen k \<longrightarrow> unanswered g env (snd r)"
      and body: "(case we_event env k of Received v \<Rightarrow> Some (Answered v, k) | Disconnected \<Rightarrow> Some (Lost, k)
         | SliceElapsed t1 t2 \<Rightarrow> if \<not> is_requested (we_term env k) then rec g env seen (Suc k)
           else let started = case seen of None \<Rightarrow> t1 | Some t \<Rightarrow> t
                in if t2 - started < g then rec g env (Some started) (Suc k) else Some (Killed, k)) = Some r"
    show "fst r = Killed \<longrightarrow> waited env seen k \<longrightarrow> unanswered g env (snd r)"
    proof (cases "we_event env k")
      case (SliceElapsed t1 t2)
      then show ?thesis
        using body waited_more [OF _ SliceElapsed] waited_seen [OF _ SliceElapsed] waited_killed [OF _ SliceElapsed]
        by (auto simp: Let_def dest!: IH split: if_splits)
    qed (use body in auto)
  qed
  then show ?thesis
    using assms(2) by simp
qed

section \<open>Terminating and closing\<close>

text \<open>What other threads can do to the shared record while a caller waits: it only advances.\<close>

definition advances :: "termination_state \<Rightarrow> 'a wait_env \<Rightarrow> bool" where
  "advances t env \<longleftrightarrow> (\<forall>k. term_le t (we_term env k))"

definition status_known :: "termination_state \<Rightarrow> bool" where
  "status_known t \<longleftrightarrow> status t = TERMINATION_STATUS_RUNNING \<or> is_requested t"

lemma advances_requested: "advances t env \<Longrightarrow> is_requested t \<Longrightarrow> is_requested (we_term env k)"
  by (simp add: advances_def term_le_def)

lemma advances_term [simp]:
  "advances (terminate_execution t) env = advances t env" "advances (t\<lparr>wake := b\<rparr>) env = advances t env"
  by (simp_all add: advances_def term_le_def terminate_execution_def is_requested_def is_terminated_def)

lemma forced [simp]: "is_terminated (force_mark_terminated t)" "is_requested (force_mark_terminated t)"
  by (simp_all add: force_mark_terminated_def mark_terminated_def is_terminated_def is_requested_def)

lemma recv_result_requested:
  "recv_result shown env what h = Some (r, h') \<Longrightarrow> advances (h_term h) env \<Longrightarrow> is_requested (h_term h) \<Longrightarrow>
   is_requested (h_term h')"
  by (auto simp: recv_result_def advances_requested split: option.splits wait_end.splits)

lemma request_cases:
  "request (ensure_reason r t) = (first, t') \<Longrightarrow> status_known t \<Longrightarrow> is_requested t' \<and> (first \<longleftrightarrow> \<not> is_requested t)
     \<and> term_le t t'"
  using term_le_trans [OF term_le_ops(4) term_le_ops(1), of t r]
  by (auto simp: request_def status_known_def is_requested_def status_defs ensure_reason_def split: if_splits)

lemma await_terminated_stops:
  "await_terminated g s now ts k = Some (b, i) \<Longrightarrow> \<not> b \<longrightarrow> is_terminated (ts i)"
  by (rule await_terminated.raw_induct
      [where P = "\<lambda>g s now ts k r. \<not> fst r \<longrightarrow> is_terminated (ts (snd r))" and y = "(b, i)", simplified])
    (auto split: if_splits option.splits)

lemma await_forever: "(\<And>k. \<not> is_terminated (ts k)) \<Longrightarrow> await_terminated None s now ts k = None"
proof (rule ccontr)
  assume no: "\<And>k. \<not> is_terminated (ts k)" and "await_terminated None s now ts k \<noteq> None"
  then obtain r where r: "await_terminated None s now ts k = Some r"
    by auto
  have "None = (None :: nat option) \<longrightarrow> (\<forall>k. \<not> is_terminated (ts k)) \<longrightarrow> False"
    by (rule await_terminated.raw_induct
        [where P = "\<lambda>g s now ts k r. g = None \<longrightarrow> (\<forall>k. \<not> is_terminated (ts k)) \<longrightarrow> False", OF _ r])
      (auto split: if_splits option.splits)
  then show False
    using no by simp
qed

lemma await_returns:
  "is_terminated (ts (k + n)) \<Longrightarrow> \<exists>i. await_terminated None s now ts k = Some (False, i)"
proof (induction n arbitrary: k)
  case (Suc n)
  then show ?case
    by (cases "is_terminated (ts k)") (auto simp: await_terminated.simps [of _ _ _ _ k])
qed (simp add: await_terminated.simps)

lemma terminated_dead: "is_terminated (h_term h) \<Longrightarrow> handle_dead h"
  by (simp add: handle_dead_def terminated_requested)

text \<open>What \<open>terminate\<close> leaves in the shared record before it waits.\<close>

definition host_request :: "termination_state \<Rightarrow> termination_state" where
  "host_request t = snd (request (ensure_reason ''Terminated by host request'' t))"

lemma host_request_requested: "status_known t \<Longrightarrow> is_requested (host_request t)"
  by (auto simp: host_request_def request_def status_known_def is_requested_def status_defs ensure_reason_def)

lemma terminate_dead:
  assumes "h_terminate shown env started now h = Some (r, h')" "status_known (h_term h)"
    "advances (host_request (h_term h)) env"
  shows "handle_dead h'"
proof -
  have t: "is_requested (host_request (h_term h))" "is_requested (terminate_execution (host_request (h_term h)))"
    using host_request_requested [OF assms(2)] by (simp_all add: terminate_execution_def is_requested_def)
  consider "is_terminated (h_term h)" | "\<not> is_terminated (h_term h)" "\<not> h_tx h"
    | b where "\<not> is_terminated (h_term h)" "h_tx h"
      "request (ensure_reason ''Terminated by host request'' (h_term h)) = (b, host_request (h_term h))"
    by (metis host_request_def prod.collapse)
  then show ?thesis
  proof cases
    case 3
    show ?thesis
    proof (cases b)
      case True
      have later: "is_requested (h_term h2)"
        if "recv_result shown env what ((post CmdTerminate h)\<lparr>h_term := terminate_execution (host_request (h_term h))\<rparr>)
              = Some (r2, h2)" for r2 h2 what
        by (rule recv_result_requested [OF that]) (use assms(3) t in \<open>simp_all\<close>)
      show ?thesis
        using assms(1) 3 True t(1)
        by (auto simp: h_terminate_def handle_dead_def split: if_splits option.splits sum.splits dest!: later)
    next
      case False
      show ?thesis
        using assms(1) 3 False
        by (auto simp: h_terminate_def handle_dead_def terminated_requested dest!: await_terminated_stops
            split: option.splits bool.splits)
    qed
  qed (use assms(1) in \<open>auto simp: h_terminate_def handle_dead_def terminated_requested\<close>)
qed

lemma close_dead: "h_close env h = Some (r, h') \<Longrightarrow> handle_dead h'"
  by (auto simp: h_close_def handle_dead_def recv_unbounded_def post_def terminated_requested
      split: if_splits option.splits wait_end.splits sum.splits)

lemma close_of_dead: "handle_dead h \<Longrightarrow> \<exists>h'. h_close env h = Some (Inr (), h') \<and> h_sent h' = h_sent h \<and> handle_dead h'"
  by (auto simp: h_close_def handle_dead_def terminated_requested)

lemma terminate_sends_one: "h_terminate shown env started now h = Some (r, h') \<Longrightarrow> sends_one h h'"
proof -
  assume run: "h_terminate shown env started now h = Some (r, h')"
  have wait: "sends_one h h2"
    if "recv_result shown env what ((post CmdTerminate h)\<lparr>h_term := t\<rparr>) = Some (r2, h2)" for r2 h2 t what
    using silent_waits(1) [of shown env what] that unfolding silent_def by (fastforce simp: sends_one_def post_def)
  show ?thesis
    using run unfolding h_terminate_def
    by (auto split: if_splits option.splits sum.splits prod.splits bool.splits dest!: wait)
      (auto simp: sends_one_def)
qed

lemma close_sends_one: "h_close env h = Some (r, h') \<Longrightarrow> sends_one h h'"
  by (auto simp: h_close_def recv_unbounded_def post_def sends_one_def
      split: if_splits option.splits wait_end.splits sum.splits)

lemma tracking_sends_none [simp]:
  "sends_one h (track_function_id i h)" "sends_one h (untrack_function_id i h)" "sends_one h (track_js_stream_id i h)"
  "sends_one h (untrack_js_stream_id i h)" "sends_one h (track_py_stream_id i h)" "sends_one h (untrack_py_stream_id i h)"
  "sends_one h (snd (drain_tracked_function_ids h))" "sends_one h (snd (drain_tracked_js_stream_ids h))"
  "sends_one h (snd (drain_tracked_py_stream_ids h))" "sends_one h (snd (register_py_stream it h))"
  "sends_one h (release_py_stream i h)" "sends_one h (snd (cancel_py_stream_async pc i h))"
  by (simp_all add: sends_one_def track_function_id_def untrack_function_id_def track_js_stream_id_def
      untrack_js_stream_id_def track_py_stream_id_def untrack_py_stream_id_def drain_tracked_function_ids_def
      drain_tracked_js_stream_ids_def drain_tracked_py_stream_ids_def register_py_stream_def release_py_stream_def
      cancel_py_stream_async_def split: prod.split)

lemma spawned_ok [simp]: "handle_ok (handle_spawn cfg l core)"
  by (simp add: handle_ok_def handle_spawn_def)

lemma used_handle_ok: "sends_one\<^sup>*\<^sup>* h h' \<Longrightarrow> handle_ok h \<Longrightarrow> handle_ok h'"
  by (induction rule: rtranclp_induct) (auto intro: sends_one_ok)

lemma plain_not_killed: "recv_plain ev k \<noteq> Some (Killed, i)"
proof
  assume killed: "recv_plain ev k = Some (Killed, i)"
  have "fst (Killed :: 'a wait_end, i) \<noteq> Killed"
    by (rule recv_plain.raw_induct [where P = "\<lambda>ev k r. fst r \<noteq> Killed", OF _ killed])
      (auto split: recv_event.splits)
  then show False by simp
qed

lemma distinct_sub: "mset xs \<subseteq># mset ys \<Longrightarrow> distinct ys \<Longrightarrow> distinct xs"
proof -
  assume sub: "mset xs \<subseteq># mset ys" and ys: "distinct ys"
  have "count (mset xs) a = (if a \<in> set xs then 1 else 0)" for a
  proof -
    have "count (mset xs) a \<le> count (mset ys) a"
      using sub by (simp add: subseteq_mset_def)
    moreover have "count (mset ys) a \<le> 1"
      using ys unfolding distinct_count_atmost_1 by simp
    moreover have "a \<in> set xs \<Longrightarrow> 0 < count (mset xs) a"
      by (simp only: count_greater_zero_iff set_mset_mset)
    ultimately have "a \<in> set xs \<Longrightarrow> count (mset xs) a = 1"
      by linarith
    then show ?thesis
      by (auto simp: count_eq_zero_iff)
  qed
  then show ?thesis
    unfolding distinct_count_atmost_1 by blast
qed

section \<open>Properties\<close>

text \<open>
  C24  A caller that set a grace waits no more than \<open>grace div slice + 1\<close> looks past the first look from
  which a termination stays requested, whatever the runtime thread does: the wait returns.
\<close>

theorem force_kill_bounds_wait:
  assumes "slices_elapse env" "\<And>i. n \<le> i \<Longrightarrow> is_requested (we_term env i)" "h_grace h = Some g"
  shows "\<exists>e k r h'. recv_sliced g env None 0 = Some (e, k) \<and> k \<le> n + g div FORCE_KILL_POLL_SLICE + 1
    \<and> recv_result shown env what h = Some (r, h')"
proof -
  obtain e k where "recv_sliced g env None 0 = Some (e, k)" "k \<le> n + g div FORCE_KILL_POLL_SLICE + 1"
    using wait_ends [OF assms(1), of n 0 None g] assms(2) by auto
  then show ?thesis
    using assms(3) by (cases e) (auto simp: recv_result_def)
qed

text \<open>
  C1  A call fails with \<open>ForceKilled\<close> only when a grace is set, no answer had arrived by the last look,
  and a termination had been requested for at least the grace; the handle is then dead for good.
\<close>

theorem force_kill_only_unresponsive:
  assumes "recv_result shown env what h = Some (Inl (ForceKilled m), h')"
  shows "\<exists>g k. h_grace h = Some g \<and> unanswered g env k \<and> is_terminated (h_term h') \<and> h_shutdown h'"
proof -
  obtain g k where "h_grace h = Some g" "recv_sliced g env None 0 = Some (Killed, k)"
    "h' = h\<lparr>h_term := force_mark_terminated (we_term env k), h_shutdown := True\<rparr>"
    using assms by (auto simp: recv_result_def plain_not_killed split: option.splits wait_end.splits)
  then show ?thesis
    using killed_unanswered [of g env None 0 k] by (auto simp: waited_def)
qed

text \<open>
  Once termination is requested, the runtime is shut down or the channel is gone, every operation
  that would send a command fails at once with the stored reason, and leaves the handle as it was.
\<close>

theorem dead_handle_refuses:
  assumes "handle_dead h"
  shows "h_eval_sync shown e1 code h = Some (Inl (refusal_of h), h)
    \<and> h_eval_async e1 code timeout locals h = Some (Inl (refusal_of h), h)
    \<and> h_register_op shown e2 name mode handler h = Some (Inl (refusal_of h), h)
    \<and> h_set_op_exposure e3 tok flag h = Some (Inl (refusal_of h), h)
    \<and> h_set_module_resolver shown e4 f h = Some (Inl (refusal_of h), h)
    \<and> h_set_module_loader shown e4 f h = Some (Inl (refusal_of h), h)
    \<and> h_add_static_module shown e4 name source h = Some (Inl (refusal_of h), h)
    \<and> h_bind_object shown e4 name props h = Some (Inl (refusal_of h), h)
    \<and> h_eval_module_sync shown e1 name h = Some (Inl (refusal_of h), h)
    \<and> h_eval_module_async e1 name timeout locals h = Some (Inl (refusal_of h), h)
    \<and> h_call_function_sync shown e5 i args timeout h = Some (Inl (refusal_of h), h)
    \<and> h_call_function_async e1 i args timeout locals h = Some (Inl (refusal_of h), h)
    \<and> h_resume_function_call e1 call locals h = Some (Inl (refusal_of h), h)
    \<and> h_release_function e4 i h = Some (Inl (refusal_of h), h)
    \<and> h_stream_read dbg e1 i h = Some (Inl (refusal_of h), h)
    \<and> h_stream_release shown e4 i h = Some (Inl (refusal_of h), h)
    \<and> h_stream_cancel shown e4 i h = Some (Inl (refusal_of h), h)
    \<and> h_get_stats shown e6 h = Some (Inl (refusal_of h), h)"
  by (simp add: assms rq_eval.refuses rq_eval_async.refuses rq_register.refuses rq_exposure.refuses rq_resolver.refuses
      rq_loader.refuses rq_static.refuses rq_bind.refuses rq_module.refuses rq_module_async.refuses rq_call.refuses
      rq_call_async.refuses rq_resume.refuses rq_release.refuses rq_stream_read.refuses rq_stream_release.refuses
      rq_stream_cancel.refuses rq_stats.refuses)

text \<open>
  C25  However \<open>close\<close> or \<open>terminate\<close> ends, errors included, the handle is dead afterwards, and closing
  a dead handle succeeds without sending anything.
\<close>

theorem stopping_is_final:
  assumes "status_known (h_term h)" "advances (host_request (h_term h)) env"
    "h_close cenv h = Some (r, h') \<or> h_terminate shown env started now h = Some (r, h')"
  shows "handle_dead h' \<and> (\<exists>h''. h_close again h' = Some (Inr (), h'') \<and> h_sent h'' = h_sent h' \<and> handle_dead h'')"
  using assms(3) close_dead terminate_dead [OF _ assms(1,2)] close_of_dead by blast

text \<open>
  C1  \<open>terminate\<close> on a runtime whose termination was already requested, with the default grace, returns
  exactly when some thread marks the record terminated; an idle runtime thread never does, so the call
  then does not return.
\<close>

theorem second_terminate_waits:
  assumes "is_requested (h_term h)" "\<not> is_terminated (h_term h)" "h_tx h" "h_grace h = None"
  shows "h_terminate shown env started now h = None \<longleftrightarrow> (\<forall>k. \<not> is_terminated (we_term env k))"
proof -
  obtain t where first: "request (ensure_reason ''Terminated by host request'' (h_term h)) = (False, t)"
    using request_first_only [of "ensure_reason ''Terminated by host request'' (h_term h)"] assms(1)
    by (cases "request (ensure_reason ''Terminated by host request'' (h_term h))")
      (auto simp: ensure_reason_def is_requested_def split: if_splits)
  show ?thesis
  proof (cases "\<exists>k. is_terminated (we_term env k)")
    case True
    then obtain i where "await_terminated None started now (we_term env) 0 = Some (False, i)"
      using await_returns [of "we_term env" 0 _ started now] by auto
    with True show ?thesis
      by (auto simp: h_terminate_def assms first)
  next
    case False
    then have "await_terminated None started now (we_term env) 0 = None"
      by (intro await_forever) simp
    with False show ?thesis
      by (simp add: h_terminate_def assms first)
  qed
qed

text \<open>
  Every operation of a handle numbers its responder afresh, so in any run of the runtime thread over
  the commands a handle has sent, no caller is answered twice and nobody else is answered.
\<close>

theorem each_call_one_answer:
  assumes "sends_one\<^sup>*\<^sup>* (handle_spawn cfg l core) h" "h_sent h = cmds @ rest"
    "runs js (Looping, dispatcher_new core) cmds (ph, d)"
  shows "distinct (map fst (d_sent d)) \<and> set (map fst (d_sent d)) \<subseteq> {..<length cmds}"
proof -
  have "handle_ok h"
    using used_handle_ok [OF assms(1)] by simp
  then have all: "map responder_of cmds @ map responder_of rest = [0..<h_next h]"
    by (simp add: handle_ok_def assms(2))
  then have "take (length cmds) [0..<h_next h] = map responder_of cmds" "length cmds \<le> h_next h"
    by (metis append_eq_conv_conj length_map, metis length_append length_map length_upt diff_zero le_add1)
  then have numbers: "map responder_of cmds = [0..<length cmds]"
    by (simp add: take_upt)
  obtain left where "mset (map responder_of cmds) = mset (map fst (d_sent d)) + left"
    using serves_accounts [OF runs_from_new [OF assms(3)]] by (auto simp: abs_state_def add.assoc)
  then have sub: "mset (map fst (d_sent d)) \<subseteq># mset [0..<length cmds]"
    by (simp add: numbers)
  then have "distinct (map fst (d_sent d))"
    by (rule distinct_sub) simp
  moreover have "set (map fst (d_sent d)) \<subseteq> {..<length cmds}"
    using set_mset_mono [OF sub] by auto
  ultimately show ?thesis ..
qed

section \<open>Sample runs\<close>

text \<open>A handle whose termination is requested, and a runtime thread that never answers.\<close>

definition waiting_handle :: "nat option \<Rightarrow> runtime_handle" where
  "waiting_handle grace = (handle_spawn tick_config 0 (tick_core 0))\<lparr>h_term := host_request termination_new, h_grace := grace\<rparr>"

definition mute_env :: "'a wait_env" where
  "mute_env = \<lparr>we_event = (\<lambda>k. SliceElapsed (k * FORCE_KILL_POLL_SLICE) (k * FORCE_KILL_POLL_SLICE)),
     we_term = (\<lambda>_. host_request termination_new)\<rparr>"

lemma mute_facts [simp]:
  "slices_elapse mute_env" "is_requested (we_term mute_env k)" "\<not> is_terminated (we_term mute_env k)"
  "h_grace (waiting_handle g) = g" "is_requested (h_term (waiting_handle g))" "\<not> is_terminated (h_term (waiting_handle g))"
  "h_tx (waiting_handle g)" "handle_dead (waiting_handle g)" "refusal_of (waiting_handle g) = Terminated (Some ''Terminated by host request'')"
  by (simp_all add: slices_elapse_def mute_env_def waiting_handle_def handle_spawn_def handle_dead_def refusal_of_def
      host_request_def ensure_reason_def request_def is_requested_def is_terminated_def termination_new_def
      terminated_error_def status_defs)

theorem force_kill_bounds_wait_witness:
  "\<exists>e k. recv_sliced 12000000 (mute_env :: js_value answers) None 0 = Some (e, k) \<and> k \<le> 3"
  using force_kill_bounds_wait [of "mute_env :: js_value answers" 0 "waiting_handle (Some 12000000)" 12000000]
  by (fastforce simp: FORCE_KILL_POLL_SLICE_def)

theorem force_kill_only_unresponsive_witness:
  "\<exists>m h' g k. recv_result (\<lambda>_. ''0ns'') (mute_env :: js_value answers) ''eval'' (waiting_handle (Some 0))
     = Some (Inl (ForceKilled m), h') \<and> g = (0 :: nat) \<and> unanswered g (mute_env :: js_value answers) k \<and> h_shutdown h'"
proof -
  have "recv_sliced 0 (mute_env :: js_value answers) None 0 = Some (Killed, 0)"
    by (subst recv_sliced.simps) (simp add: mute_env_def host_request_def ensure_reason_def request_def is_requested_def termination_new_def status_defs)
  then obtain m h' where "recv_result (\<lambda>_. ''0ns'') (mute_env :: js_value answers) ''eval'' (waiting_handle (Some 0))
      = Some (Inl (ForceKilled m), h')"
    by (simp add: recv_result_def)
  with force_kill_only_unresponsive [OF this] show ?thesis
    by auto
qed

theorem dead_handle_refuses_witness:
  "h_eval_sync (\<lambda>_. []) mute_env ''1'' (waiting_handle None) = Some (Inl (Terminated (Some ''Terminated by host request'')), waiting_handle None)"
  using dead_handle_refuses [of "waiting_handle None"] by simp

theorem stopping_is_final_witness:
  "\<exists>h'. h_close mute_env (waiting_handle None) = Some (Inr (), h') \<and> handle_dead h'"
proof -
  have "advances (host_request (h_term (waiting_handle None))) (mute_env :: unit answers)"
    "status_known (h_term (waiting_handle None))"
    by (simp_all add: advances_def waiting_handle_def mute_env_def status_known_def host_request_def ensure_reason_def
        request_def termination_new_def is_requested_def status_defs)
  moreover obtain h' where "h_close mute_env (waiting_handle None) = Some (Inr (), h')"
    using close_of_dead [of "waiting_handle None" mute_env] by auto
  ultimately show ?thesis
    using stopping_is_final [of "waiting_handle None" mute_env mute_env "Inr ()" h'] by blast
qed

theorem second_terminate_waits_witness: "h_terminate (\<lambda>_. []) mute_env 0 (\<lambda>k. k) (waiting_handle None) = None"
  using second_terminate_waits [of "waiting_handle None"] by simp

theorem each_call_one_answer_witness:
  "\<exists>d. distinct (map fst (d_sent (d :: (nat, nat) dispatcher))) \<and> map fst (d_sent d) = [0]"
proof -
  let ?h = "handle_spawn tick_config 0 (tick_core 0)"
  have "sends_one ?h (post CmdGetStats ?h)"
    by simp
  then have used: "sends_one\<^sup>*\<^sup>* ?h (post CmdGetStats ?h)" ..
  have sent: "h_sent (post CmdGetStats ?h) = [CmdGetStats 0] @ []"
    by (simp add: post_def handle_spawn_def)
  obtain d where t: "runs tick_js (Looping, dispatcher_new (tick_core 0)) [CmdGetStats 0] (Looping, d)
      \<and> map fst (d_sent d) = [0] \<and> outstanding d = []" using tick_run [of 0] ..
  from each_call_one_answer [OF used sent conjunct1 [OF t]] have "distinct (map fst (d_sent d))" ..
  with t show ?thesis by (intro exI [of _ d]) simp
qed

end
