(* ===== verification/Peno_Bridge.thy ===== *)
theory Peno_Bridge
  imports Peno_Ops
begin

text \<open>
  The JavaScript bridge that \<open>python_extension\<close> of \<open>src/runtime/ops.rs\<close> installs in every isolate: how
  a guest value is prepared for a host tool and revived from its answer, what a failing host call looks
  like to the guest, how bindings are installed, and the stream polyfill.  A guest value is the tree that
  \<open>Object.entries\<close> and the array methods see; the entries of an object are in property order.  The
  parts of the engine's library with a meaning of their own on exotic arguments are the record
  \<open>guest_engine\<close>.  The script runs in the guest's own realm and calls methods that guest code can replace,
  on a value or for all values: \<open>map\<close>, \<open>valueOf\<close>, \<open>toString\<close>, \<open>Array.from\<close>, \<open>Array.isArray\<close>, \<open>ArrayBuffer.isView\<close>,
  \<open>Object.entries\<close>, \<open>instanceof\<close> by \<open>Symbol.hasInstance\<close>, \<open>indexOf\<close>, \<open>slice\<close>.  What they make of a step whose
  outcome would be the last argument with the methods the engine comes with is a function of the record, too.
\<close>

section \<open>Guest values\<close>

text \<open>
  \<open>GObj c es\<close>: an object of class \<open>c\<close> (\<open>''''\<close> for a plain one) with the own enumerable entries \<open>es\<close>.
  \<open>GError n m own\<close>: \<open>own\<close> says that \<open>name\<close> was assigned.  \<open>GStream\<close>: what \<open>__peno_from_py_stream\<close>
  returns.  \<open>GBound f i\<close>: the arrow function \<open>(...args) => f(i, ...args)\<close>.
\<close>

datatype gval =
    GUndef
  | GNull
  | GBool bool
  | GNum f64
  | GBigInt int
  | GStr string
  | GSymbol string
  | GView bytes
  | GArr "gval list"
  | GDate f64
  | GSet "gval list"
  | GObj string "(string \<times> gval) list"
  | GError string string bool
  | GStream gval
  | GFun nat
  | GBound gval f64

record guest_engine =
  ge_date :: "gval \<Rightarrow> f64"
  ge_bigint :: "gval \<Rightarrow> gval + int"
  ge_py_stream :: "(gval \<Rightarrow> gval + gval) option"
  ge_define :: "gval \<Rightarrow> string \<Rightarrow> gval \<Rightarrow> gval + gval"
  ge_lib :: "string \<Rightarrow> gval \<Rightarrow> gval + gval \<Rightarrow> gval + gval"
  ge_lib_args :: "gval list \<Rightarrow> gval + gval list \<Rightarrow> gval + gval list"
  ge_lib_revive :: "gval \<Rightarrow> gval + gval \<Rightarrow> gval + gval"
  ge_lib_error :: "gval \<Rightarrow> gval \<Rightarrow> gval"

text \<open>Guest code has replaced none of the methods.\<close>

definition pristine :: "guest_engine \<Rightarrow> bool" where
  "pristine ge \<longleftrightarrow> (\<forall>path v r. ge_lib ge path v r = r) \<and> (\<forall>args r. ge_lib_args ge args r = r)
     \<and> (\<forall>v r. ge_lib_revive ge v r = r) \<and> (\<forall>err r. ge_lib_error ge err r = r)"

fun is_function :: "gval \<Rightarrow> bool" where
  "is_function (GFun _) = True"
| "is_function (GBound _ _) = True"
| "is_function _ = False"

fun truthy :: "gval \<Rightarrow> bool" where
  "truthy GUndef = False"
| "truthy GNull = False"
| "truthy (GBool b) = b"
| "truthy (GNum f) = (\<not> f64_is_nan f \<and> \<not> f64_eq_zero f)"
| "truthy (GBigInt i) = (i \<noteq> 0)"
| "truthy (GStr s) = (s \<noteq> [])"
| "truthy _ = True"

text \<open>\<open>Object.entries\<close> of the objects that are neither arrays, dates, sets nor views; a fresh stream for \<open>GStream\<close>.\<close>

fun own_entries :: "gval \<Rightarrow> (string \<times> gval) list" where
  "own_entries (GObj c es) = es"
| "own_entries (GError n m own) = (if own then [(''name'', GStr n)] else [])"
| "own_entries (GStream i) =
     [(''_queue'', GArr []), (''_closed'', GBool False), (''_errored'', GBool False), (''_error'', GUndef),
      (''_pulling'', GBool False), (''_underlying'', GObj '''' [(''pull'', GFun 0), (''cancel'', GFun 1)]),
      (''_controller'', GObj '''' [(''enqueue'', GFun 2), (''close'', GFun 3), (''error'', GFun 4)])]"
| "own_entries _ = []"

text \<open>\<open>setOwn\<close> on an object literal under construction.\<close>

definition set_own :: "(string \<times> gval) list \<Rightarrow> string \<times> gval \<Rightarrow> (string \<times> gval) list" where
  "set_own es e = AList.update (fst e) (snd e) es"

definition own_object :: "(string \<times> gval) list \<Rightarrow> gval" where
  "own_object es = GObj '''' (foldl set_own [] es)"

section \<open>Arguments\<close>

definition reject_function :: "string \<Rightarrow> gval" where
  "reject_function path = GError ''TypeError''
     (''Cannot pass a JavaScript function to a host tool (at '' @ path
      @ ''). Host tools receive data, not callables; call the tool with a plain value, or have the tool return a value the guest applies itself.'')
     False"

definition reject_symbol :: "string \<Rightarrow> gval" where
  "reject_symbol path = GError ''TypeError''
     (''Cannot pass a JavaScript Symbol to a host tool (at '' @ path
      @ ''). Symbols have no Python representation; pass its description as a string instead.'') False"

text \<open>\<open>Array.prototype.map\<close> with the index, stopping at the first exception.\<close>

fun rmap_index :: "(nat \<Rightarrow> 'v \<Rightarrow> 'e + 'a) \<Rightarrow> nat \<Rightarrow> 'v list \<Rightarrow> 'e + 'a list" where
  "rmap_index f i [] = Inr []"
| "rmap_index f i (x # xs) =
     (case f i x of
        Inl e \<Rightarrow> Inl e
      | Inr y \<Rightarrow> (case rmap_index f (Suc i) xs of Inl e \<Rightarrow> Inl e | Inr ys \<Rightarrow> Inr (y # ys)))"

lemma rmap_index_cong [fundef_cong]:
  "xs = ys \<Longrightarrow> i = j \<Longrightarrow> (\<And>k x. x \<in> set ys \<Longrightarrow> f k x = g k x) \<Longrightarrow> rmap_index f i xs = rmap_index g j ys"
  by (induction xs arbitrary: ys i j) (auto split: sum.split)

lemma size_entry [termination_simp]:
  "(k, v) \<in> set es \<Longrightarrow> size v < Suc (size_list (size_prod (\<lambda>_. 0) size) es)"
  by (induction es) auto

function (sequential) prepare :: "guest_engine \<Rightarrow> string \<Rightarrow> gval \<Rightarrow> gval + gval" where
  "prepare ge path (GFun _) = Inl (reject_function path)"
| "prepare ge path (GBound _ _) = Inl (reject_function path)"
| "prepare ge path (GSymbol _) = Inl (reject_symbol path)"
| "prepare ge path GUndef = Inr GUndef"
| "prepare ge path GNull = Inr GNull"
| "prepare ge path (GArr xs) = ge_lib ge path (GArr xs)
     (case rmap_index (\<lambda>i. prepare ge (path @ ''['' @ show_nat i @ '']'')) 0 xs of
        Inl e \<Rightarrow> Inl e | Inr ys \<Rightarrow> Inr (GArr ys))"
| "prepare ge path (GDate t) = ge_lib ge path (GDate t)
     (Inr (GObj '''' [(TYPE_TAG, GStr DATE_TYPE), (DATE_EPOCH_KEY, GNum t)]))"
| "prepare ge path (GSet xs) = ge_lib ge path (GSet xs)
     (case rmap_index (\<lambda>i. prepare ge (path @ ''.<set item '' @ show_nat i @ ''>'')) 0 xs of
        Inl e \<Rightarrow> Inl e
      | Inr ys \<Rightarrow> Inr (GObj '''' [(TYPE_TAG, GStr SET_TYPE), (SET_VALUES_KEY, GArr ys)]))"
| "prepare ge path (GBigInt i) = ge_lib ge path (GBigInt i)
     (Inr (GObj '''' [(TYPE_TAG, GStr BIGINT_TYPE), (BIGINT_VALUE_KEY, GStr (show_int i))]))"
| "prepare ge path (GObj c es) = ge_lib ge path (GObj c es)
     (case rmap (\<lambda>(k, v). tag_snd k (prepare ge (path @ ''.'' @ k) v)) es of
        Inl e \<Rightarrow> Inl e | Inr es' \<Rightarrow> Inr (own_object es'))"
| "prepare ge path (GError n m own) = ge_lib ge path (GError n m own) (Inr (own_object (own_entries (GError n m own))))"
| "prepare ge path (GStream i) = ge_lib ge path (GStream i) (Inl (reject_function (path @ ''._underlying.pull'')))"
| "prepare ge path v = ge_lib ge path v (Inr v)"
  by pat_completeness auto
termination
  by (relation "measure (size \<circ> snd \<circ> snd)") (auto simp: termination_simp)

definition prepare_args :: "guest_engine \<Rightarrow> gval list \<Rightarrow> gval + gval list" where
  "prepare_args ge args =
     ge_lib_args ge args (rmap_index (\<lambda>i. prepare ge (''args['' @ show_nat i @ '']'')) 0 args)"

section \<open>Answers\<close>

text \<open>\<open>Set.prototype.add\<close>: an element that is the same value as one already there is not added again.\<close>

fun primitive :: "gval \<Rightarrow> bool" where
  "primitive (GView _) = False"
| "primitive (GArr _) = False"
| "primitive (GDate _) = False"
| "primitive (GSet _) = False"
| "primitive (GObj _ _) = False"
| "primitive (GError _ _ _) = False"
| "primitive (GStream _) = False"
| "primitive (GFun _) = False"
| "primitive (GBound _ _) = False"
| "primitive _ = True"

definition same_value_zero :: "gval \<Rightarrow> gval \<Rightarrow> bool" where
  "same_value_zero a b \<longleftrightarrow> primitive a \<and> a = b"

definition gset_add :: "gval list \<Rightarrow> gval \<Rightarrow> gval list" where
  "gset_add xs x = (if list_ex (\<lambda>y. same_value_zero y x) xs then xs else xs @ [x])"

definition type_tag :: "(string \<times> gval) list \<Rightarrow> string" where
  "type_tag es = (case map_of es TYPE_TAG of Some (GStr t) \<Rightarrow> t | _ \<Rightarrow> '''')"

definition prop_of :: "(string \<times> gval) list \<Rightarrow> string \<Rightarrow> gval" where
  "prop_of es k = (case map_of es k of Some v \<Rightarrow> v | None \<Rightarrow> GUndef)"

lemma prop_of_size [termination_simp]:
  assumes "prop_of es k = GArr xs" "x \<in> set xs"
  shows "size x < Suc (size_list (\<lambda>e. Suc (size (snd e))) es)"
proof -
  have "(k, GArr xs) \<in> set es"
    using assms(1) by (auto simp: prop_of_def map_of_SomeD split: option.splits)
  then have "size (GArr xs) < Suc (size_list (\<lambda>e. Suc (size (snd e))) es)"
    by (induction es) auto
  moreover have "size x < size (GArr xs)"
    using assms(2) by (induction xs) auto
  ultimately show ?thesis
    by simp
qed

function (sequential) revive :: "guest_engine \<Rightarrow> gval \<Rightarrow> gval + gval" where
  "revive ge (GArr xs) = ge_lib_revive ge (GArr xs)
     (case rmap (revive ge) xs of Inl e \<Rightarrow> Inl e | Inr ys \<Rightarrow> Inr (GArr ys))"
| "revive ge (GObj c es) = ge_lib_revive ge (GObj c es)
     (if type_tag es = UNDEFINED_TYPE then Inr GUndef
      else if type_tag es = DATE_TYPE then Inr (GDate (ge_date ge (prop_of es DATE_EPOCH_KEY)))
      else if type_tag es = SET_TYPE then
        (case prop_of es SET_VALUES_KEY of
           GArr xs \<Rightarrow> (case rmap (revive ge) xs of Inl e \<Rightarrow> Inl e | Inr ys \<Rightarrow> Inr (GSet (foldl gset_add [] ys)))
         | _ \<Rightarrow> Inr (GSet []))
      else if type_tag es = BIGINT_TYPE then map_sum id GBigInt (ge_bigint ge (prop_of es BIGINT_VALUE_KEY))
      else if type_tag es = PY_STREAM_TYPE then
        (case ge_py_stream ge of Some helper \<Rightarrow> helper (prop_of es STREAM_ID_KEY) | None \<Rightarrow> Inr (GObj c es))
      else
        (case rmap (\<lambda>(k, v). tag_snd k (revive ge v)) es of
           Inl e \<Rightarrow> Inl e | Inr es' \<Rightarrow> Inr (own_object es')))"
| "revive ge (GView bs) = ge_lib_revive ge (GView bs) (Inr (GView bs))"
| "revive ge (GDate t) = ge_lib_revive ge (GDate t) (Inr (own_object []))"
| "revive ge (GSet xs) = ge_lib_revive ge (GSet xs) (Inr (own_object []))"
| "revive ge (GError n m own) = ge_lib_revive ge (GError n m own) (Inr (own_object (own_entries (GError n m own))))"
| "revive ge (GStream i) = ge_lib_revive ge (GStream i) (Inr (own_object (own_entries (GStream i))))"
| "revive ge v = Inr v"
  by pat_completeness auto
termination
  by (relation "measure (size \<circ> snd)") (auto simp: termination_simp)

section \<open>Errors\<close>

text \<open>The string under \<open>message\<close>, when there is one.\<close>

fun message_of :: "gval \<Rightarrow> string option" where
  "message_of (GError n m own) = Some m"
| "message_of (GObj c es) = (case map_of es ''message'' of Some (GStr m) \<Rightarrow> Some m | _ \<Rightarrow> None)"
| "message_of _ = None"

fun set_message :: "string \<Rightarrow> gval \<Rightarrow> gval" where
  "set_message m (GError n _ own) = GError n m own"
| "set_message m (GObj c es) = GObj c (AList.update ''message'' (GStr m) es)"
| "set_message m v = v"

definition restore_host_error :: "guest_engine \<Rightarrow> gval \<Rightarrow> gval" where
  "restore_host_error ge err =
     (case message_of err of
        None \<Rightarrow> err
      | Some m \<Rightarrow> ge_lib_error ge err
          (case m of
             [] \<Rightarrow> err
           | c # body \<Rightarrow>
               if c \<noteq> HOST_ERROR_MARKER then err
               else (case index_of '': '' body of
                       None \<Rightarrow> set_message body err
                     | Some split \<Rightarrow> GError (take split body) (drop (split + 2) body) True)))"

definition INTERNAL_MARKERS :: "string list" where
  "INTERNAL_MARKERS = [''serde_v8'', ''deno_core'', ''JsErrorBox'', ''OpState'', ''PythonOpRegistry'',
     ''PyStreamRegistry'', ''GlobalTaskLocals'', ''TaskLocals'', ''SerializationLimits'']"

definition OPAQUE_INTERNAL :: gval where
  "OPAQUE_INTERNAL = GError ''TypeError'' ''Host call failed: internal runtime error'' False"

definition sanitize_host_error :: "guest_engine \<Rightarrow> gval \<Rightarrow> gval" where
  "sanitize_host_error ge err =
     (case message_of err of
        None \<Rightarrow> err
      | Some m \<Rightarrow> ge_lib_error ge err
          (if list_ex (\<lambda>marker. contains marker m) INTERNAL_MARKERS then OPAQUE_INTERNAL else err))"

section \<open>Host calls\<close>

text \<open>
  The op as guest code sees it, serde_v8 included: it is applied to the token and the prepared
  arguments, changes the host's world, and throws or returns.
\<close>

type_synonym 'w host_op = "gval \<Rightarrow> gval list \<Rightarrow> 'w \<Rightarrow> (gval + gval) \<times> 'w"

definition peno_call_sync :: "guest_engine \<Rightarrow> 'w host_op \<Rightarrow> gval \<Rightarrow> gval list \<Rightarrow> 'w \<Rightarrow> (gval + gval) \<times> 'w" where
  "peno_call_sync ge op i args w =
     (case prepare_args ge args of
        Inl e \<Rightarrow> (Inl e, w)
      | Inr prepared \<Rightarrow>
          (case op i prepared w of
             (r, w') \<Rightarrow>
               (case (case r of Inl e \<Rightarrow> Inl e | Inr v \<Rightarrow> revive ge v) of
                  Inl e \<Rightarrow> (Inl (sanitize_host_error ge (restore_host_error ge e)), w')
                | Inr v \<Rightarrow> (Inr v, w'))))"

text \<open>\<open>Inl\<close>: thrown at once; \<open>Inr\<close>: how the returned promise settles.\<close>

definition peno_call_async ::
  "guest_engine \<Rightarrow> 'w host_op \<Rightarrow> gval \<Rightarrow> gval list \<Rightarrow> 'w \<Rightarrow> (gval + (gval + gval)) \<times> 'w" where
  "peno_call_async ge op i args w =
     (case prepare_args ge args of
        Inl e \<Rightarrow> (Inl e, w)
      | Inr prepared \<Rightarrow>
          (case op i prepared w of
             (Inl e, w') \<Rightarrow> (Inr (Inl (sanitize_host_error ge (restore_host_error ge e))), w')
           | (Inr v, w') \<Rightarrow> (Inr (revive ge v), w')))"

section \<open>Bindings\<close>

type_synonym globals = "string \<rightharpoonup> gval"

definition get_global :: "globals \<Rightarrow> string \<Rightarrow> gval" where
  "get_global g k = (case g k of Some v \<Rightarrow> v | None \<Rightarrow> GUndef)"

text \<open>\<open>Object.defineProperty\<close> with a data descriptor.\<close>

definition define_own :: "guest_engine \<Rightarrow> gval \<Rightarrow> string \<Rightarrow> gval \<Rightarrow> gval + gval" where
  "define_own ge target k v =
     (case target of
        GObj c es \<Rightarrow> Inr (GObj c (set_own es (k, v)))
      | _ \<Rightarrow> ge_define ge target k v)"

definition assign_own :: "guest_engine \<Rightarrow> string \<Rightarrow> string \<Rightarrow> gval \<Rightarrow> globals \<Rightarrow> (gval + unit) \<times> globals" where
  "assign_own ge name k v g =
     (case define_own ge (get_global g name) k v of
        Inl e \<Rightarrow> (Inl e, g)
      | Inr target \<Rightarrow> (Inr (), g(name \<mapsto> target)))"

text \<open>One assignment of \<open>__peno_bind_object\<close>; the object under \<open>name\<close> is the target.\<close>

definition bind_assignment :: "guest_engine \<Rightarrow> string \<Rightarrow> gval \<Rightarrow> globals \<Rightarrow> (gval + unit) \<times> globals" where
  "bind_assignment ge name entry g =
     (case entry of
        GObj c es \<Rightarrow>
          (case prop_of es ''key'' of
             GStr key \<Rightarrow>
               if prop_of es ''kind'' = GStr ''op'' then
                 (let bridge = get_global g (if prop_of es ''mode'' = GStr ''async'' then ''__host_op_async__''
                                             else ''__host_op_sync__'')
                  in case prop_of es ''op_id'' of
                       GNum i \<Rightarrow> if is_function bridge then assign_own ge name key (GBound bridge i) g else (Inr (), g)
                     | _ \<Rightarrow> (Inr (), g))
               else if prop_of es ''kind'' = GStr ''value'' then assign_own ge name key (prop_of es ''value'') g
               else (Inr (), g)
           | _ \<Rightarrow> (Inr (), g))
      | _ \<Rightarrow> (Inr (), g))"

fun bind_assignments :: "guest_engine \<Rightarrow> string \<Rightarrow> gval list \<Rightarrow> globals \<Rightarrow> (gval + unit) \<times> globals" where
  "bind_assignments ge name [] g = (Inr (), g)"
| "bind_assignments ge name (e # es) g =
     (case bind_assignment ge name e g of
        (Inl err, g') \<Rightarrow> (Inl err, g')
      | (Inr _, g') \<Rightarrow> bind_assignments ge name es g')"

definition peno_bind_object :: "guest_engine \<Rightarrow> gval \<Rightarrow> gval \<Rightarrow> globals \<Rightarrow> (gval + unit) \<times> globals" where
  "peno_bind_object ge global_name assignments g =
     (case (global_name, assignments) of
        (GStr name, GArr es) \<Rightarrow>
          bind_assignments ge name es
            (if get_global g name \<in> {GUndef, GNull} then g(name \<mapsto> GObj '''' []) else g)
      | _ \<Rightarrow> (Inr (), g))"

section \<open>The stream polyfill\<close>

text \<open>\<open>rs_pull\<close>: the underlying source has a \<open>pull\<close> function.\<close>

record guest_stream =
  rs_queue :: "gval list"
  rs_closed :: bool
  rs_errored :: bool
  rs_error :: gval
  rs_pulling :: bool
  rs_pull :: bool

definition stream_new :: "bool \<Rightarrow> guest_stream" where
  "stream_new has_pull = \<lparr>rs_queue = [], rs_closed = False, rs_errored = False, rs_error = GUndef, rs_pulling = False,
     rs_pull = has_pull\<rparr>"

definition controller_enqueue :: "gval \<Rightarrow> guest_stream \<Rightarrow> guest_stream" where
  "controller_enqueue v s = (if rs_closed s then s else s\<lparr>rs_queue := rs_queue s @ [v]\<rparr>)"

definition controller_close :: "guest_stream \<Rightarrow> guest_stream" where
  "controller_close s = s\<lparr>rs_closed := True\<rparr>"

text \<open>\<open>text_of\<close> is \<open>String\<close>.\<close>

definition controller_error :: "(gval \<Rightarrow> string) \<Rightarrow> gval \<Rightarrow> guest_stream \<Rightarrow> guest_stream" where
  "controller_error text_of reason s =
     s\<lparr>rs_errored := True,
       rs_error := (case reason of
          GError _ _ _ \<Rightarrow> reason
        | GUndef \<Rightarrow> GError ''Error'' ''ReadableStream error'' False
        | GNull \<Rightarrow> GError ''Error'' ''ReadableStream error'' False
        | _ \<Rightarrow> GError ''Error'' (text_of reason) False),
       rs_closed := True\<rparr>"

datatype read_result = ReadValue gval | ReadDone | ReadThrow gval

text \<open>What \<open>read()\<close> does up to its first \<open>await\<close>: take at once, wait for nothing, or wait for the pull it started.\<close>

datatype read_wait = TakeNow | TakeSoon | AwaitPull

definition read_start :: "guest_stream \<Rightarrow> read_wait \<times> guest_stream" where
  "read_start s =
     (if rs_queue s = [] \<and> \<not> rs_closed s then
        (if rs_pulling s \<or> \<not> rs_pull s then (TakeSoon, s) else (AwaitPull, s\<lparr>rs_pulling := True\<rparr>))
      else (TakeNow, s))"

definition read_take :: "guest_stream \<Rightarrow> read_result \<times> guest_stream" where
  "read_take s =
     (case rs_queue s of
        v # vs \<Rightarrow> (ReadValue v, s\<lparr>rs_queue := vs\<rparr>)
      | [] \<Rightarrow>
          if rs_errored s
          then (ReadThrow (if truthy (rs_error s) then rs_error s else GError ''Error'' ''ReadableStream error'' False), s)
          else (ReadDone, s))"

text \<open>The pull settles: \<open>finally\<close>, then the rest of \<open>read\<close>.\<close>

definition read_pulled :: "gval option \<Rightarrow> guest_stream \<Rightarrow> read_result \<times> guest_stream" where
  "read_pulled failure s =
     (let s' = s\<lparr>rs_pulling := False\<rparr>
      in case failure of Some e \<Rightarrow> (ReadThrow e, s') | None \<Rightarrow> read_take s')"

definition revive_stream_chunk :: "guest_engine \<Rightarrow> gval \<Rightarrow> gval + gval" where
  "revive_stream_chunk ge entry =
     (case entry of
        GObj c es \<Rightarrow>
          if type_tag es \<noteq> ''StreamChunk'' then Inr entry
          else
            (case (if prop_of es ''value'' = GUndef then Inr GUndef else revive ge (prop_of es ''value'')) of
               Inl e \<Rightarrow> Inl e
             | Inr v \<Rightarrow> Inr (GObj '''' [(''done'', GBool (truthy (prop_of es ''done''))), (''value'', v)]))
      | _ \<Rightarrow> Inr entry)"

text \<open>
  \<open>pull\<close> of \<open>__peno_from_py_stream\<close> after the op has settled with \<open>raw\<close>: the exception that leaves it,
  if any.
\<close>

definition py_pull :: "guest_engine \<Rightarrow> gval + gval \<Rightarrow> guest_stream \<Rightarrow> gval option \<times> guest_stream" where
  "py_pull ge raw s =
     (case raw of
        Inl err \<Rightarrow> (Some (sanitize_host_error ge (restore_host_error ge err)), s)
      | Inr entry \<Rightarrow>
          (case revive_stream_chunk ge entry of
             Inl e \<Rightarrow> (Some e, s)
           | Inr (GObj c es) \<Rightarrow>
               if truthy (prop_of es ''done'') then (None, controller_close s)
               else (None, controller_enqueue (prop_of es ''value'') s)
           | Inr chunk \<Rightarrow>
               if chunk \<in> {GUndef, GNull} then (Some (GError ''TypeError'' ''Cannot read properties'' False), s)
               else (None, controller_enqueue GUndef s)))"

text \<open>A reader that waits for each \<open>read\<close> before the next; \<open>pull_op\<close> is the op, awaited.\<close>

definition read_next ::
  "guest_engine \<Rightarrow> ('w \<Rightarrow> (gval + gval) \<times> 'w) \<Rightarrow> guest_stream \<times> 'w \<Rightarrow> read_result \<times> guest_stream \<times> 'w" where
  "read_next ge pull_op sw =
     (case read_start (fst sw) of
        (AwaitPull, s) \<Rightarrow>
          (case pull_op (snd sw) of
             (raw, w) \<Rightarrow>
               (case py_pull ge raw s of (failure, s') \<Rightarrow> (case read_pulled failure s' of (r, s'') \<Rightarrow> (r, s'', w))))
      | (_, s) \<Rightarrow> (case read_take s of (r, s') \<Rightarrow> (r, s', snd sw)))"

fun read_many ::
  "guest_engine \<Rightarrow> ('w \<Rightarrow> (gval + gval) \<times> 'w) \<Rightarrow> nat \<Rightarrow> guest_stream \<times> 'w \<Rightarrow> read_result list \<times> guest_stream \<times> 'w" where
  "read_many ge pull_op 0 sw = ([], sw)"
| "read_many ge pull_op (Suc n) sw =
     (case read_next ge pull_op sw of
        (r, sw') \<Rightarrow> (case read_many ge pull_op n sw' of (rs, sw'') \<Rightarrow> (r # rs, sw'')))"

text \<open>\<open>cancel\<close>: the stream is closed, then the op is called.\<close>

definition reader_cancel :: "('w \<Rightarrow> (gval + gval) \<times> 'w) \<Rightarrow> guest_stream \<times> 'w \<Rightarrow> (gval + gval) \<times> guest_stream \<times> 'w" where
  "reader_cancel cancel_op sw =
     (case cancel_op (snd sw) of (r, w) \<Rightarrow> (r, controller_close (fst sw), w))"

end
