(* ===== verification/Peno_BridgeLaws.thy ===== *)
theory Peno_BridgeLaws
  imports Peno_Bridge Peno_OpsLaws
begin

text \<open>
  What the bridge guarantees: a host tool is only ever handed plain data, data survives the way to the
  host's wire format and back, host values are revived as what they stand for, a Python exception
  reaches guest code under its own class, host internals do not, a binding makes exactly its properties,
  and a Python stream is read in order.
\<close>

section \<open>Collecting over lists\<close>

lemma rmap_index_Inr_from: "rmap_index f i xs = Inr ys \<Longrightarrow> y \<in> set ys \<Longrightarrow> \<exists>k. \<exists>x \<in> set xs. f k x = Inr y"
  by (induction xs arbitrary: i ys) (auto split: sum.splits, blast+)

lemma rmap_index_Inr_to: "rmap_index f i xs = Inr ys \<Longrightarrow> x \<in> set xs \<Longrightarrow> \<exists>k y. f k x = Inr y"
  by (induction xs arbitrary: i ys) (auto split: sum.splits)

lemma rmap_index_Inl: "rmap_index f i xs = Inl e \<Longrightarrow> \<exists>k. \<exists>x \<in> set xs. f k x = Inl e"
  by (induction xs arbitrary: i) (auto split: sum.splits, blast+)

lemma rmap_index_ok: "(\<And>k x. x \<in> set xs \<Longrightarrow> \<exists>y. f k x = Inr y \<and> P x y) \<Longrightarrow> \<exists>ys. rmap_index f i xs = Inr ys \<and> list_all2 P xs ys"
proof (induction xs arbitrary: i)
  case (Cons x xs)
  obtain y where "f i x = Inr y" "P x y"
    using Cons.prems [of x i] by auto
  moreover obtain ys where "rmap_index f (Suc i) xs = Inr ys" "list_all2 P xs ys"
    using Cons.IH [of "Suc i"] Cons.prems by auto
  ultimately show ?case
    by auto
qed simp

text \<open>The values of an object, key by key.\<close>

definition on_entries :: "(string \<Rightarrow> gval \<Rightarrow> 'e + gval) \<Rightarrow> (string \<times> gval) list \<Rightarrow> 'e + (string \<times> gval) list" where
  "on_entries f es = rmap (\<lambda>(k, v). tag_snd k (f k v)) es"

lemma on_entries_simps [simp]:
  "on_entries f [] = Inr []"
  "on_entries f ((k, v) # es) = (case f k v of Inl e \<Rightarrow> Inl e
     | Inr y \<Rightarrow> (case on_entries f es of Inl e \<Rightarrow> Inl e | Inr es' \<Rightarrow> Inr ((k, y) # es')))"
  by (auto simp: on_entries_def tag_snd_def split: sum.split)

lemma on_entries_from: "on_entries f es = Inr es' \<Longrightarrow> (k, p) \<in> set es' \<Longrightarrow> \<exists>v. (k, v) \<in> set es \<and> f k v = Inr p"
  by (induction es arbitrary: es') (auto split: sum.splits prod.splits, blast+)

lemma on_entries_to: "on_entries f es = Inr es' \<Longrightarrow> (k, v) \<in> set es \<Longrightarrow> \<exists>p. f k v = Inr p"
  by (induction es arbitrary: es') (auto split: sum.splits prod.splits)

lemma on_entries_Inl: "on_entries f es = Inl e \<Longrightarrow> \<exists>k v. (k, v) \<in> set es \<and> f k v = Inl e"
proof (induction es)
  case (Cons a es)
  obtain k v where a: "a = (k, v)" by force
  show ?case
    using Cons a by (cases "f k v") (auto split: sum.splits)
qed simp

lemma on_entries_ok:
  "(\<And>k v. (k, v) \<in> set es \<Longrightarrow> \<exists>p. f k v = Inr p \<and> P k v p) \<Longrightarrow>
   \<exists>es'. on_entries f es = Inr es' \<and> list_all2 (\<lambda>(k, v) (k', p). k' = k \<and> P k v p) es es'"
proof (induction es)
  case (Cons a es)
  obtain k v where a: "a = (k, v)" by force
  obtain p where "f k v = Inr p" "P k v p"
    using Cons.prems [of k v] a by auto
  moreover obtain es' where "on_entries f es = Inr es'" "list_all2 (\<lambda>(k, v) (k', p). k' = k \<and> P k v p) es es'"
    using Cons.IH Cons.prems by auto
  ultimately show ?case
    using a by auto
qed simp

lemma rmap_back: "list_all2 (\<lambda>x y. g y = Inr x) xs ys \<Longrightarrow> rmap g ys = Inr xs"
  by (induction rule: list_all2_induct) auto

lemma entries_back: "list_all2 (\<lambda>(k, v) (k', p). k' = k \<and> g p = Inr v) es es' \<Longrightarrow> on_entries (\<lambda>k. g) es' = Inr es"
  by (induction rule: list_all2_induct) auto

lemma set_own_fold: "distinct (map fst (acc @ es)) \<Longrightarrow> foldl set_own acc es = acc @ es"
proof (induction es arbitrary: acc)
  case (Cons e es)
  then have "set_own acc e = acc @ [e]"
    by (cases e) (auto simp: set_own_def update_fresh)
  then show ?case
    using Cons by simp
qed simp

lemma own_object_distinct: "distinct (map fst es) \<Longrightarrow> own_object es = GObj '''' es"
  using set_own_fold [of "[]" es] by (simp add: own_object_def)

lemma pristine_lib:
  assumes "pristine ge"
  shows "ge_lib ge path v r = r" "ge_lib_args ge args q = q" "ge_lib_revive ge v r = r" "ge_lib_error ge err g = g"
  using assms by (simp_all add: pristine_def)

lemma prepare_array: "pristine ge \<Longrightarrow> prepare ge path (GArr xs) =
    map_sum id GArr (rmap_index (\<lambda>i. prepare ge (path @ ''['' @ show_nat i @ '']'')) 0 xs)"
  by (simp add: pristine_lib split: sum.split)

lemma prepare_set: "pristine ge \<Longrightarrow> prepare ge path (GSet xs) =
    map_sum id (\<lambda>ys. GObj '''' [(TYPE_TAG, GStr SET_TYPE), (SET_VALUES_KEY, GArr ys)])
      (rmap_index (\<lambda>i. prepare ge (path @ ''.<set item '' @ show_nat i @ ''>'')) 0 xs)"
  by (simp add: pristine_lib split: sum.split)

lemma prepare_object: "pristine ge \<Longrightarrow> prepare ge path (GObj c es) = map_sum id own_object (on_entries (\<lambda>k. prepare ge (path @ ''.'' @ k)) es)"
  by (simp add: on_entries_def pristine_lib split: sum.split)

lemmas prepare_containers = prepare_array prepare_set prepare_object

declare prepare.simps(6,8,10) [simp del]

lemma map_sum_Inr: "map_sum id g r = Inr p \<longleftrightarrow> (\<exists>y. r = Inr y \<and> p = g y)" "map_sum id g r = Inl e \<longleftrightarrow> r = Inl e"
  by (cases r; auto)+

section \<open>Arguments\<close>

text \<open>What may be handed to serde_v8.\<close>

fun wire_data :: "gval \<Rightarrow> bool" where
  "wire_data GUndef = True"
| "wire_data GNull = True"
| "wire_data (GBool _) = True"
| "wire_data (GNum _) = True"
| "wire_data (GStr _) = True"
| "wire_data (GView _) = True"
| "wire_data (GArr xs) = list_all wire_data xs"
| "wire_data (GObj c es) = (c = '''' \<and> list_all (\<lambda>(k, v). wire_data v) es)"
| "wire_data _ = False"

text \<open>No function, bound op, symbol or stream inside.\<close>

fun callable_free :: "gval \<Rightarrow> bool" where
  "callable_free (GFun _) = False"
| "callable_free (GBound _ _) = False"
| "callable_free (GSymbol _) = False"
| "callable_free (GStream _) = False"
| "callable_free (GArr xs) = list_all callable_free xs"
| "callable_free (GSet xs) = list_all callable_free xs"
| "callable_free (GObj c es) = list_all (\<lambda>(k, v). callable_free v) es"
| "callable_free _ = True"

lemma set_own_in: "(k, v) \<in> set (foldl set_own acc es) \<Longrightarrow> (k, v) \<in> set acc \<or> (k, v) \<in> set es"
proof (induction es arbitrary: acc)
  case (Cons e es)
  have "(k, v) \<in> set (set_own acc e) \<Longrightarrow> (k, v) \<in> set acc \<or> (k, v) = e"
    by (induction acc) (auto simp: set_own_def split: if_splits)
  then show ?case
    using Cons by auto
qed simp

lemma own_object_wire: "(\<And>k v. (k, v) \<in> set es \<Longrightarrow> wire_data v) \<Longrightarrow> wire_data (own_object es)"
  using set_own_in [of _ _ "[]" es] by (auto simp: own_object_def list_all_iff)

lemma prepare_wire:
  "pristine ge \<Longrightarrow> prepare ge path g = Inr p \<Longrightarrow> wire_data p"
proof (induction ge path g arbitrary: p rule: prepare.induct)
  case (6 ge path xs)
  then obtain ys where ys: "rmap_index (\<lambda>i. prepare ge (path @ ''['' @ show_nat i @ '']'')) 0 xs = Inr ys" "p = GArr ys"
    by (auto simp: prepare_array map_sum_Inr)
  have "wire_data y" if "y \<in> set ys" for y
    using rmap_index_Inr_from [OF ys(1) that] 6(1,2) by blast
  then show ?case
    using ys(2) by (simp add: list_all_iff)
next
  case (8 ge path xs)
  then obtain ys where ys: "rmap_index (\<lambda>i. prepare ge (path @ ''.<set item '' @ show_nat i @ ''>'')) 0 xs = Inr ys"
    "p = GObj '''' [(TYPE_TAG, GStr SET_TYPE), (SET_VALUES_KEY, GArr ys)]"
    by (auto simp: prepare_set map_sum_Inr)
  have "wire_data y" if "y \<in> set ys" for y
    using rmap_index_Inr_from [OF ys(1) that] 8(1,2) by blast
  then show ?case
    using ys(2) by (simp add: list_all_iff)
next
  case (10 ge path c es)
  then obtain es' where es: "on_entries (\<lambda>k. prepare ge (path @ ''.'' @ k)) es = Inr es'" "p = own_object es'"
    by (auto simp: prepare_object map_sum_Inr)
  have "wire_data v" if entry: "(k, v) \<in> set es'" for k v
    using on_entries_from [OF es(1) entry] 10(1,2) by blast
  then show ?case
    using es(2) own_object_wire by blast
qed (auto simp: own_object_def set_own_def pristine_lib)

lemma prepare_refuses:
  "pristine ge \<Longrightarrow> prepare ge path g = Inl e \<Longrightarrow> \<exists>p. e = reject_function p \<or> e = reject_symbol p"
proof (induction ge path g arbitrary: e rule: prepare.induct)
  case (6 ge path xs)
  then have "rmap_index (\<lambda>i. prepare ge (path @ ''['' @ show_nat i @ '']'')) 0 xs = Inl e"
    by (auto simp: prepare_array map_sum_Inr)
  from rmap_index_Inl [OF this] show ?case
    using 6(1,2) by blast
next
  case (8 ge path xs)
  then have "rmap_index (\<lambda>i. prepare ge (path @ ''.<set item '' @ show_nat i @ ''>'')) 0 xs = Inl e"
    by (auto simp: prepare_set map_sum_Inr)
  from rmap_index_Inl [OF this] show ?case
    using 8(1,2) by blast
next
  case (10 ge path c es)
  then have "on_entries (\<lambda>k. prepare ge (path @ ''.'' @ k)) es = Inl e"
    by (auto simp: prepare_object map_sum_Inr)
  from on_entries_Inl [OF this] obtain k v where "(k, v) \<in> set es" "prepare ge (path @ ''.'' @ k) v = Inl e"
    by blast
  then show ?case
    using 10(1,2) by blast
qed (auto simp: pristine_lib)

lemma prepare_callable:
  "pristine ge \<Longrightarrow> prepare ge path g = Inr p \<Longrightarrow> callable_free g"
proof (induction ge path g arbitrary: p rule: prepare.induct)
  case (6 ge path xs)
  then obtain ys where ys: "rmap_index (\<lambda>i. prepare ge (path @ ''['' @ show_nat i @ '']'')) 0 xs = Inr ys"
    by (auto simp: prepare_array map_sum_Inr)
  have "callable_free x" if "x \<in> set xs" for x
    using rmap_index_Inr_to [OF ys that] 6(1,2) that by blast
  then show ?case
    by (simp add: list_all_iff)
next
  case (8 ge path xs)
  then obtain ys where ys: "rmap_index (\<lambda>i. prepare ge (path @ ''.<set item '' @ show_nat i @ ''>'')) 0 xs = Inr ys"
    by (auto simp: prepare_set map_sum_Inr)
  have "callable_free x" if "x \<in> set xs" for x
    using rmap_index_Inr_to [OF ys that] 8(1,2) that by blast
  then show ?case
    by (simp add: list_all_iff)
next
  case (10 ge path c es)
  then obtain es' where es: "on_entries (\<lambda>k. prepare ge (path @ ''.'' @ k)) es = Inr es'"
    by (auto simp: prepare_object map_sum_Inr)
  have "callable_free v" if "(k, v) \<in> set es" for k v
    using on_entries_to [OF es that] 10(1,2) that by blast
  then show ?case
    by (auto simp: list_all_iff)
qed (auto simp: pristine_lib)

lemma prepare_free: "pristine ge \<Longrightarrow> callable_free g \<Longrightarrow> \<exists>p. prepare ge path g = Inr p"
proof (induction ge path g rule: prepare.induct)
  case (6 ge path xs)
  have "\<exists>ys. rmap_index (\<lambda>i. prepare ge (path @ ''['' @ show_nat i @ '']'')) 0 xs = Inr ys \<and> list_all2 (\<lambda>x y. True) xs ys"
    using 6 by (intro rmap_index_ok) (simp add: list_all_iff)
  then show ?case
    using 6(2) by (auto simp: prepare_array)
next
  case (8 ge path xs)
  have "\<exists>ys. rmap_index (\<lambda>i. prepare ge (path @ ''.<set item '' @ show_nat i @ ''>'')) 0 xs = Inr ys
      \<and> list_all2 (\<lambda>x y. True) xs ys"
    using 8 by (intro rmap_index_ok) (simp add: list_all_iff)
  then show ?case
    using 8(2) by (auto simp: prepare_set)
next
  case (10 ge path c es)
  have "\<exists>es'. on_entries (\<lambda>k. prepare ge (path @ ''.'' @ k)) es = Inr es'
      \<and> list_all2 (\<lambda>(k, v) (k', p). k' = k \<and> True) es es'"
    using 10 by (intro on_entries_ok) (fastforce simp: list_all_iff)
  then show ?case
    using 10(2) by (auto simp: prepare_object)
qed (auto simp: pristine_lib)

text \<open>An object without enumerable entries, such as an \<open>ArrayBuffer\<close>, a \<open>Map\<close> or an error, becomes \<open>{}\<close>.\<close>

lemma class_is_lost: "pristine ge \<Longrightarrow> prepare ge path (GObj ''ArrayBuffer'' []) = Inr (GObj '''' [])"
  by (simp add: prepare_object own_object_def)

section \<open>There and back\<close>

text \<open>\<open>is_time\<close>: the time values a \<open>Date\<close> can hold.\<close>

definition is_time :: "f64 \<Rightarrow> bool" where
  "is_time t \<longleftrightarrow> t = NaN \<or> (\<exists>i. t = Fin (of_int i) \<and> \<bar>i\<bar> \<le> 8640000000000000)"

definition tag_words :: "string set" where
  "tag_words = {UNDEFINED_TYPE, DATE_TYPE, SET_TYPE, BIGINT_TYPE, PY_STREAM_TYPE}"

fun guest_data :: "gval \<Rightarrow> bool" where
  "guest_data (GArr xs) = list_all guest_data xs"
| "guest_data (GSet xs) = (distinct (filter primitive xs) \<and> list_all guest_data xs)"
| "guest_data (GObj c es) =
     (c = '''' \<and> distinct (map fst es) \<and> type_tag es \<notin> tag_words \<and> list_all (\<lambda>(k, v). guest_data v) es)"
| "guest_data (GDate t) = is_time t"
| "guest_data (GSymbol _) = False"
| "guest_data (GError _ _ _) = False"
| "guest_data (GStream _) = False"
| "guest_data (GFun _) = False"
| "guest_data (GBound _ _) = False"
| "guest_data _ = True"

text \<open>What the language says of \<open>new Date(n)\<close> and \<open>BigInt(s)\<close>.\<close>

definition engine_ok :: "guest_engine \<Rightarrow> bool" where
  "engine_ok ge \<longleftrightarrow> (\<forall>t. is_time t \<longrightarrow> ge_date ge (GNum t) = t) \<and> (\<forall>i. ge_bigint ge (GStr (show_int i)) = Inr i)"

lemma gset_add_fold: "distinct (filter primitive (acc @ xs)) \<Longrightarrow> foldl gset_add acc xs = acc @ xs"
proof (induction xs arbitrary: acc)
  case (Cons x xs)
  have "gset_add acc x = acc @ [x]"
    using Cons.prems by (auto simp: gset_add_def same_value_zero_def list_ex_iff split: if_splits)
  moreover have "distinct (filter primitive ((acc @ [x]) @ xs))"
    using Cons.prems by simp
  ultimately show ?case
    using Cons.IH [of "acc @ [x]"] by simp
qed simp

lemma prepare_GStr: "pristine ge \<Longrightarrow> prepare ge path v = Inr (GStr t) \<longleftrightarrow> v = GStr t"
  by (cases v) (auto simp: own_object_def prepare_containers map_sum_Inr pristine_lib)

lemma prepared_tag:
  assumes "pristine ge" "list_all2 (\<lambda>(k, v) (k', p). k' = k \<and> (\<exists>path. prepare ge path v = Inr p)) es es'"
  shows "type_tag es' = type_tag es" "map fst es' = map fst es"
proof -
  have "map_of es' TYPE_TAG = Some (GStr t) \<longleftrightarrow> map_of es TYPE_TAG = Some (GStr t)" for t
    using assms(2) by (induction rule: list_all2_induct) (auto simp: prepare_GStr [OF assms(1)] pristine_lib [OF assms(1)] split: prod.splits)
  then show "type_tag es' = type_tag es"
    by (cases "map_of es' TYPE_TAG"; cases "map_of es TYPE_TAG") (auto simp: type_tag_def split: gval.split)
  show "map fst es' = map fst es"
    using assms(2) by (induction rule: list_all2_induct) auto
qed

lemma revive_entries: "pristine ge \<Longrightarrow> type_tag es \<notin> tag_words \<Longrightarrow>
  revive ge (GObj c es) = map_sum id own_object (on_entries (\<lambda>k. revive ge) es)"
  by (simp add: tag_words_def on_entries_def pristine_lib split: sum.split)

lemma revive_array: "pristine ge \<Longrightarrow> revive ge (GArr xs) = map_sum id GArr (rmap (revive ge) xs)"
  by (simp add: pristine_lib split: sum.split)

lemma revive_set: "pristine ge \<Longrightarrow> revive ge (GObj c [(TYPE_TAG, GStr SET_TYPE), (SET_VALUES_KEY, GArr xs)])
  = map_sum id (GSet \<circ> foldl gset_add []) (rmap (revive ge) xs)"
  by (simp add: type_tag_def prop_of_def pristine_lib split: sum.split)

lemma prepare_revive:
  "pristine ge \<Longrightarrow> engine_ok ge \<Longrightarrow> guest_data g \<Longrightarrow> \<exists>p. prepare ge path g = Inr p \<and> revive ge p = Inr g"
proof (induction ge path g rule: prepare.induct)
  case (6 ge path xs)
  have "\<exists>ys. rmap_index (\<lambda>i. prepare ge (path @ ''['' @ show_nat i @ '']'')) 0 xs = Inr ys
      \<and> list_all2 (\<lambda>x y. revive ge y = Inr x) xs ys"
    using 6 by (intro rmap_index_ok) (simp add: list_all_iff)
  then show ?case
    using 6(2) by (auto simp: prepare_array revive_array dest: rmap_back simp del: revive.simps)
next
  case (8 ge path xs)
  have "\<exists>ys. rmap_index (\<lambda>i. prepare ge (path @ ''.<set item '' @ show_nat i @ ''>'')) 0 xs = Inr ys
      \<and> list_all2 (\<lambda>x y. revive ge y = Inr x) xs ys"
    using 8 by (intro rmap_index_ok) (simp add: list_all_iff)
  moreover have "foldl gset_add [] xs = xs"
    using 8 gset_add_fold [of "[]" xs] by simp
  ultimately show ?case
    using 8(2) by (auto simp: prepare_set revive_set dest: rmap_back simp del: revive.simps)
next
  case (10 ge path c es)
  have "\<exists>es'. on_entries (\<lambda>k. prepare ge (path @ ''.'' @ k)) es = Inr es' \<and> list_all2 (\<lambda>(k, v) (k', p). k' = k
      \<and> ((\<exists>path. prepare ge path v = Inr p) \<and> revive ge p = Inr v)) es es'"
  proof (rule on_entries_ok)
    fix k v
    assume "(k, v) \<in> set es"
    then have "\<exists>p. prepare ge (path @ ''.'' @ k) v = Inr p \<and> revive ge p = Inr v"
      using 10(1-4) by (fastforce simp: list_all_iff)
    then show "\<exists>p. prepare ge (path @ ''.'' @ k) v = Inr p \<and> (\<exists>path. prepare ge path v = Inr p) \<and> revive ge p = Inr v"
      by blast
  qed
  then obtain es' where es: "on_entries (\<lambda>k. prepare ge (path @ ''.'' @ k)) es = Inr es'"
    and rel: "list_all2 (\<lambda>(k, v) (k', p). k' = k \<and> ((\<exists>path. prepare ge path v = Inr p) \<and> revive ge p = Inr v)) es es'"
    by blast
  have "list_all2 (\<lambda>(k, v) (k', p). k' = k \<and> (\<exists>path. prepare ge path v = Inr p)) es es'"
    by (rule list_all2_mono [OF rel]) auto
  note tag = prepared_tag [OF 10(2) this]
  have "list_all2 (\<lambda>(k, v) (k', p). k' = k \<and> revive ge p = Inr v) es es'"
    by (rule list_all2_mono [OF rel]) auto
  note inv = entries_back [OF this]
  show ?case
    using 10(2,4) es tag inv by (simp add: prepare_object own_object_distinct revive_entries del: revive.simps)
next
  case (9 ge path i)
  then show ?case
    by (simp add: type_tag_def prop_of_def engine_ok_def pristine_lib)
next
  case (7 ge path t)
  then show ?case
    by (simp add: type_tag_def prop_of_def engine_ok_def pristine_lib)
qed (simp_all add: pristine_lib)

section \<open>Host values\<close>

text \<open>
  The documented mapping of serde_v8: integers a double holds exactly are numbers, byte buffers are
  \<open>Uint8Array\<close>s, and a map becomes a plain object with its keys in order, which holds as long as none of
  them is an array index.
\<close>

definition plain_keys :: "string list \<Rightarrow> bool" where
  "plain_keys ks \<longleftrightarrow> distinct ks \<and> list_all (\<lambda>k. \<not> list_all (\<lambda>c. c \<in> set ''0123456789'') k) ks"

definition serde_v8 :: "(serde \<Rightarrow> gval) \<Rightarrow> bool" where
  "serde_v8 wire \<longleftrightarrow>
     (\<forall>b. wire (SBool b) = GBool b) \<and> (\<forall>i. \<bar>i\<bar> < 2 ^ 53 \<longrightarrow> wire (SI64 i) = GNum (f64_of_int i))
     \<and> (\<forall>n. n < 2 ^ 53 \<longrightarrow> wire (SU64 n) = GNum (f64_of_int (int n))) \<and> (\<forall>f. wire (SF64 f) = GNum f)
     \<and> (\<forall>s. wire (SStr s) = GStr s) \<and> (\<forall>bs. wire (SBytes bs) = GView bs) \<and> wire SNone = GNull
     \<and> (\<forall>xs. wire (SSeq xs) = GArr (map wire xs))
     \<and> (\<forall>es. plain_keys (map fst es) \<longrightarrow> wire (SMap es) = GObj '''' (map (\<lambda>(k, s). (k, wire s)) es))"

fun sendable :: "js_value \<Rightarrow> bool" where
  "sendable (JFunction _) = False"
| "sendable (JInt i) = (\<bar>i\<bar> < 2 ^ 53)"
| "sendable (JDate ms) = (\<bar>ms\<bar> \<le> 8640000000000000)"
| "sendable (JArray vs) = list_all sendable vs"
| "sendable (JSet vs) = list_all sendable vs"
| "sendable (JObject m) = (\<not> carries_tag m \<and> plain_keys (map fst m) \<and> list_all (\<lambda>(k, v). sendable v) m)"
| "sendable _ = True"

text \<open>What the guest is to see of a host value.  A \<open>JsStream\<close> stays the tagged object.\<close>

fun guest_image :: "js_value \<Rightarrow> gval" where
  "guest_image JUndefined = GUndef"
| "guest_image JNull = GNull"
| "guest_image (JBool b) = GBool b"
| "guest_image (JInt i) = GNum (f64_of_int i)"
| "guest_image (JBigInt i) = GBigInt i"
| "guest_image (JFloat f) = GNum f"
| "guest_image (JString s) = GStr s"
| "guest_image (JBytes bs) = GView bs"
| "guest_image (JArray vs) = GArr (map guest_image vs)"
| "guest_image (JObject m) = GObj '''' (map (\<lambda>(k, v). (k, guest_image v)) m)"
| "guest_image (JDate ms) = GDate (Fin (of_int ms))"
| "guest_image (JSet vs) = GSet (foldl gset_add [] (map guest_image vs))"
| "guest_image (JFunction i) = GUndef"
| "guest_image (JJsStream i) = GObj '''' [(TYPE_TAG, GStr JS_STREAM_TYPE), (STREAM_ID_KEY, GNum (f64_of_int (uint i)))]"
| "guest_image (JPyStream i) = GStream (GNum (f64_of_int (uint i)))"

lemma plain_tags [simp]: "plain_keys [TYPE_TAG]" "plain_keys [TYPE_TAG, DATE_EPOCH_KEY]"
  "plain_keys [TYPE_TAG, SET_VALUES_KEY]" "plain_keys [TYPE_TAG, BIGINT_VALUE_KEY]"
  "plain_keys [TYPE_TAG, STREAM_ID_KEY]"
  by (simp_all add: plain_keys_def)

lemma u32_number [simp]: "f64_of_int (uint (i :: u32)) = Fin (unsigned i)"
  using uint_lt2p [of i] by (subst f64_of_int_small) simp_all

lemma u32_safe [simp]: "unat (i :: u32) < 9007199254740992"
  using unat_u32_less [of i] by simp

definition shows_as :: "guest_engine \<Rightarrow> (serde \<Rightarrow> gval) \<Rightarrow> js_value \<Rightarrow> bool" where
  "shows_as ge wire v \<longleftrightarrow> (\<exists>s. serialize show_int v = Inr s \<and> revive ge (wire s) = Inr (guest_image v))"

lemma rmap_tagged:
  "rmap (\<lambda>(k, v). tag_snd k (f v)) m = Inr es \<Longrightarrow> list_all2 (\<lambda>(k, v) (k', p). k' = k \<and> f v = Inr p) m es"
  unfolding rmap_Inr_iff by (erule list_all2_mono) (auto simp: tag_snd_Inr)

lemma same_keys: "list_all2 (\<lambda>(k, v) (k', p). k' = k \<and> R v p) m es \<Longrightarrow> map fst es = map fst m"
  by (induction rule: list_all2_induct) auto

lemma wire_map:
  "serde_v8 wire \<Longrightarrow> plain_keys (map fst m) \<Longrightarrow> rmap (\<lambda>(k, v). tag_snd k (f v)) m = Inr es \<Longrightarrow>
   wire (SMap es) = GObj '''' (map (\<lambda>(k, s). (k, wire s)) es)"
  using same_keys [OF rmap_tagged [of f m es]] by (simp add: serde_v8_def)

lemma wire_string:
  assumes "serde_v8 wire" "sendable v" "serialize show_int v = Inr s" "wire s = GStr t"
  shows "v = JString t"
proof (cases v)
  case (JObject m)
  then obtain es where "rmap (\<lambda>(k, v). tag_snd k (serialize show_int v)) m = Inr es" "s = SMap es"
    using assms(3) by (auto split: sum.splits)
  then show ?thesis
    using wire_map [OF assms(1), of m "serialize show_int" es] assms(2,4) JObject by simp
qed (use assms in \<open>auto simp: serde_v8_def split: sum.splits\<close>)

lemma wired_tag:
  assumes "serde_v8 wire" "list_all2 (\<lambda>(k, v) (k', s). k' = k \<and> serialize show_int v = Inr s) m es"
    "list_all (\<lambda>(k, v). sendable v) m" "\<not> carries_tag m"
  shows "type_tag (map (\<lambda>(k, s). (k, wire s)) es) = ''''"
proof -
  have "map_of (map (\<lambda>(k, s). (k, wire s)) es) TYPE_TAG = Some (GStr t) \<Longrightarrow> map_of m TYPE_TAG = Some (JString t)" for t
    using assms(2,3) by (induction rule: list_all2_induct) (auto dest: wire_string [OF assms(1)] split: if_splits)
  then show ?thesis
    using assms(4) by (auto simp: type_tag_def carries_tag_def split: option.splits gval.splits)
qed

lemma image_list:
  assumes "\<And>v. v \<in> set vs \<Longrightarrow> shows_as ge wire v"
  shows "\<exists>ss. rmap (serialize show_int) vs = Inr ss \<and> rmap (revive ge) (map wire ss) = Inr (map guest_image vs)"
  using assms
proof (induction vs)
  case (Cons v vs)
  then obtain s where "serialize show_int v = Inr s" "revive ge (wire s) = Inr (guest_image v)"
    using Cons.prems [of v] by (auto simp: shows_as_def)
  moreover obtain ss where "rmap (serialize show_int) vs = Inr ss"
    "rmap (revive ge) (map wire ss) = Inr (map guest_image vs)"
    using Cons by auto
  ultimately show ?case
    by (intro exI [of _ "s # ss"]) simp
qed simp

lemma image_entries:
  assumes "\<And>k v. (k, v) \<in> set m \<Longrightarrow> shows_as ge wire v"
  shows "\<exists>es. rmap (\<lambda>(k, v). tag_snd k (serialize show_int v)) m = Inr es
    \<and> on_entries (\<lambda>k. revive ge) (map (\<lambda>(k, s). (k, wire s)) es) = Inr (map (\<lambda>(k, v). (k, guest_image v)) m)"
  using assms
proof (induction m)
  case (Cons a m)
  obtain k v where a: "a = (k, v)" by force
  then obtain s where "serialize show_int v = Inr s" "revive ge (wire s) = Inr (guest_image v)"
    using Cons.prems [of k v] by (auto simp: shows_as_def)
  moreover obtain es where "rmap (\<lambda>(k, v). tag_snd k (serialize show_int v)) m = Inr es"
    "on_entries (\<lambda>k. revive ge) (map (\<lambda>(k, s). (k, wire s)) es) = Inr (map (\<lambda>(k, v). (k, guest_image v)) m)"
    using Cons by auto
  ultimately show ?case
    using a by (intro exI [of _ "(k, s) # es"]) (simp add: tag_snd_def)
qed simp

lemma sendable_shows:
  assumes wire: "serde_v8 wire" and engine: "pristine ge" "engine_ok ge" "ge_py_stream ge = Some (\<lambda>i. Inr (GStream i))"
    and "sendable v"
  shows "shows_as ge wire v"
  using assms(5)
proof (induction v rule: js_depth.induct)
  case (1 vs)
  then have "\<exists>ss. rmap (serialize show_int) vs = Inr ss \<and> rmap (revive ge) (map wire ss) = Inr (map guest_image vs)"
    by (intro image_list) (simp add: list_all_iff)
  then show ?case
    using wire by (auto simp: shows_as_def serde_v8_def revive_array [OF engine(1)] simp del: revive.simps)
next
  case (2 vs)
  then have "\<exists>ss. rmap (serialize show_int) vs = Inr ss \<and> rmap (revive ge) (map wire ss) = Inr (map guest_image vs)"
    by (intro image_list) (simp add: list_all_iff)
  then obtain ss where ss: "rmap (serialize show_int) vs = Inr ss"
    "rmap (revive ge) (map wire ss) = Inr (map guest_image vs)" by blast
  have "wire (SMap [(TYPE_TAG, SStr SET_TYPE), (SET_VALUES_KEY, SSeq ss)])
      = GObj '''' [(TYPE_TAG, GStr SET_TYPE), (SET_VALUES_KEY, GArr (map wire ss))]"
    using wire by (simp add: serde_v8_def)
  then show ?case
    using ss by (simp add: shows_as_def revive_set [OF engine(1)] del: revive.simps)
next
  case (3 m)
  have "\<exists>es. rmap (\<lambda>(k, v). tag_snd k (serialize show_int v)) m = Inr es
      \<and> on_entries (\<lambda>k. revive ge) (map (\<lambda>(k, s). (k, wire s)) es) = Inr (map (\<lambda>(k, v). (k, guest_image v)) m)"
    using 3 by (intro image_entries) (fastforce simp: list_all_iff)
  then obtain es where es: "rmap (\<lambda>(k, v). tag_snd k (serialize show_int v)) m = Inr es"
    "on_entries (\<lambda>k. revive ge) (map (\<lambda>(k, s). (k, wire s)) es) = Inr (map (\<lambda>(k, v). (k, guest_image v)) m)"
    by blast
  have "wire (SMap es) = GObj '''' (map (\<lambda>(k, s). (k, wire s)) es)"
    using wire_map [OF wire _ es(1)] 3(2) by simp
  moreover have "type_tag (map (\<lambda>(k, s). (k, wire s)) es) = ''''"
    using wired_tag [OF wire rmap_tagged [OF es(1)]] 3(2) by simp
  moreover have "distinct (map fst (map (\<lambda>(k, v). (k, guest_image v)) m))"
    using 3(2) by (simp add: plain_keys_def case_prod_beta comp_def)
  ultimately show ?case
    using es by (simp add: shows_as_def revive_entries [OF engine(1)] tag_words_def own_object_distinct del: revive.simps)
qed (use wire engine in \<open>simp_all add: shows_as_def serde_v8_def engine_ok_def type_tag_def prop_of_def is_time_def
       own_object_distinct f64_of_int_small tag_snd_def pristine_lib\<close>)

section \<open>Errors\<close>

text \<open>deno_core throws a \<open>JsErrorBox\<close> as an error of its class with its message.\<close>

definition thrown_box :: "js_error_box \<Rightarrow> gval" where
  "thrown_box b = GError (box_class b) (box_message b) False"

definition names_internals :: "string \<Rightarrow> bool" where
  "names_internals m \<longleftrightarrow> list_ex (\<lambda>marker. contains marker m) INTERNAL_MARKERS"

text \<open>What the guest is to see of a Python exception.\<close>

definition guest_exception :: "string \<Rightarrow> string \<Rightarrow> gval" where
  "guest_exception c t = (if names_internals t then OPAQUE_INTERNAL else GError c t True)"

lemma index_of_class: "CHR '':'' \<notin> set c \<Longrightarrow> index_of '': '' (c @ '': '' @ t) = Some (length c)"
  by (induction c) (auto simp: starts_with_def)

lemma restore_exception:
  assumes "pristine ge" "opp_class py err = Some c" "CHR '':'' \<notin> set c"
  shows "restore_host_error ge (thrown_box (map_pyerr py err)) = GError c (opp_text py err) True"
  using index_of_class [OF assms(3), of "opp_text py err"] assms(1,2)
  by (simp add: pristine_lib restore_host_error_def thrown_box_def map_pyerr_def type_error_def)

lemma sanitize_exception: "pristine ge \<Longrightarrow> sanitize_host_error ge (GError c t True) = guest_exception c t"
  by (simp add: pristine_lib sanitize_host_error_def guest_exception_def names_internals_def)

lemma opaque_clean [simp]: "\<not> names_internals ''Host call failed: internal runtime error''"
  by (simp add: names_internals_def INTERNAL_MARKERS_def starts_with_def)

lemma sanitized_clean: "pristine ge \<Longrightarrow> message_of (sanitize_host_error ge err) = Some m \<Longrightarrow> \<not> names_internals m"
  by (auto simp: pristine_lib sanitize_host_error_def OPAQUE_INTERNAL_def names_internals_def [symmetric]
      split: option.splits if_splits)

section \<open>Bindings\<close>

text \<open>The assignment object that the runtime thread builds for a value or an op.\<close>

fun assignment_of :: "string \<times> (gval + f64 \<times> python_op_mode) \<Rightarrow> gval" where
  "assignment_of (k, Inl v) = GObj '''' [(''key'', GStr k), (''kind'', GStr ''value''), (''value'', v)]"
| "assignment_of (k, Inr (i, m)) = GObj '''' [(''key'', GStr k), (''kind'', GStr ''op''), (''op_id'', GNum i),
     (''mode'', GStr (if m = AsyncOp then ''async'' else ''sync''))]"

fun slot_of :: "globals \<Rightarrow> string \<times> (gval + f64 \<times> python_op_mode) \<Rightarrow> string \<times> gval" where
  "slot_of g (k, Inl v) = (k, v)"
| "slot_of g (k, Inr (i, m)) =
     (k, GBound (get_global g (if m = AsyncOp then ''__host_op_async__'' else ''__host_op_sync__'')) i)"

lemma bind_one:
  assumes "name \<noteq> ''__host_op_sync__''" "name \<noteq> ''__host_op_async__''"
    "is_function (get_global g ''__host_op_sync__'')" "is_function (get_global g ''__host_op_async__'')"
  shows "bind_assignment ge name (assignment_of p) (g(name \<mapsto> GObj c acc))
    = (Inr (), g(name \<mapsto> GObj c (set_own acc (slot_of g p))))"
  using assms
  by (cases p; cases "snd p") (auto simp: bind_assignment_def prop_of_def assign_own_def define_own_def get_global_def)

lemma bind_all:
  assumes "name \<noteq> ''__host_op_sync__''" "name \<noteq> ''__host_op_async__''"
    "is_function (get_global g ''__host_op_sync__'')" "is_function (get_global g ''__host_op_async__'')"
  shows "bind_assignments ge name (map assignment_of ps) (g(name \<mapsto> GObj c acc))
    = (Inr (), g(name \<mapsto> GObj c (foldl set_own acc (map (slot_of g) ps))))"
  by (induction ps arbitrary: acc) (simp_all add: bind_one [OF assms])

section \<open>Streams\<close>

text \<open>The envelopes of \<open>StreamChunk::to_js_value\<close> as they arrive, and a Python side that still has \<open>ps\<close> to give.\<close>

definition chunk_envelope :: "gval \<Rightarrow> gval" where
  "chunk_envelope p = GObj '''' [(TYPE_TAG, GStr STREAM_CHUNK_TYPE), (STREAM_CHUNK_DONE_KEY, GBool False), (STREAM_CHUNK_VALUE_KEY, p)]"

definition end_envelope :: gval where
  "end_envelope = GObj '''' [(TYPE_TAG, GStr STREAM_CHUNK_TYPE), (STREAM_CHUNK_DONE_KEY, GBool True)]"

fun chunk_source :: "gval list \<Rightarrow> (gval + gval) \<times> gval list" where
  "chunk_source [] = (Inr end_envelope, [])"
| "chunk_source (p # ps) = (Inr (chunk_envelope p), ps)"

definition stream_done :: guest_stream where
  "stream_done = (stream_new True)\<lparr>rs_closed := True\<rparr>"

lemma revive_chunk: "revive ge p = Inr v \<Longrightarrow>
  revive_stream_chunk ge (chunk_envelope p) = Inr (GObj '''' [(''done'', GBool False), (''value'', v)])"
  by (auto simp: revive_stream_chunk_def chunk_envelope_def type_tag_def prop_of_def)

lemma revive_end: "revive_stream_chunk ge end_envelope = Inr (GObj '''' [(''done'', GBool True), (''value'', GUndef)])"
  by (simp add: revive_stream_chunk_def end_envelope_def type_tag_def prop_of_def)

lemma read_one: "revive ge p = Inr v \<Longrightarrow>
  read_next ge chunk_source (stream_new True, p # ps) = (ReadValue v, stream_new True, ps)"
  by (simp add: read_next_def read_start_def py_pull_def revive_chunk prop_of_def controller_enqueue_def read_pulled_def
      read_take_def stream_new_def)

lemma read_end: "read_next ge chunk_source (stream_new True, []) = (ReadDone, stream_done, [])"
  by (simp add: read_next_def read_start_def py_pull_def revive_end prop_of_def controller_close_def read_pulled_def
      read_take_def stream_new_def stream_done_def)

lemma read_after: "read_next ge chunk_source (stream_done, ps) = (ReadDone, stream_done, ps)"
  by (simp add: read_next_def read_start_def read_take_def stream_new_def stream_done_def)

lemma read_rest: "read_many ge chunk_source n (stream_done, ps) = (replicate n ReadDone, stream_done, ps)"
  by (induction n) (simp_all add: read_after)

lemma read_all:
  "list_all2 (\<lambda>p v. revive ge p = Inr v) ps vs \<Longrightarrow>
   read_many ge chunk_source (length vs + Suc n) (stream_new True, ps)
     = (map ReadValue vs @ replicate (Suc n) ReadDone, stream_done, [])"
  by (induction rule: list_all2_induct) (simp_all add: read_one read_end read_rest)

text \<open>
  A second \<open>read()\<close> made before the first one's pull has settled reports the end of a stream that is
  still open.
\<close>

lemma overlapping_read_ends:
  "fst (read_start (stream_new True)) = AwaitPull"
  "fst (read_start (snd (read_start (stream_new True)))) = TakeSoon"
  "fst (read_take (snd (read_start (stream_new True)))) = ReadDone"
  "\<not> rs_closed (snd (read_start (stream_new True)))"
  by (simp_all add: read_start_def read_take_def stream_new_def)

section \<open>Properties\<close>

text \<open>
  C15  Only plain data reaches a host tool from a guest that has not replaced the methods the shim calls
  (\<open>map\<close>, \<open>valueOf\<close>, ..., on the value or for all values): no argument that contains a function, a bound
  op, a symbol or a stream is ever passed on -- the call throws a \<open>TypeError\<close> before the op runs -- and
  everything else is passed on as undefined, null, booleans, numbers, strings, byte views, arrays and
  plain objects.
\<close>

theorem host_gets_plain_data:
  assumes "pristine ge"
  shows "(list_all callable_free args \<longrightarrow> (\<exists>ps. prepare_args ge args = Inr ps \<and> length ps = length args \<and> list_all wire_data ps))
    \<and> (\<not> list_all callable_free args \<longrightarrow>
        (\<exists>e. peno_call_sync ge op i args w = (Inl e, w) \<and> peno_call_async ge op i args w = (Inl e, w)
           \<and> (\<exists>p. e = reject_function p \<or> e = reject_symbol p)))"
proof (cases "list_all callable_free args")
  case True
  have "\<exists>ps. prepare_args ge args = Inr ps \<and> list_all2 (\<lambda>_ y. wire_data y) args ps"
    unfolding prepare_args_def pristine_lib(2) [OF assms]
  proof (rule rmap_index_ok)
    fix k x
    assume "x \<in> set args"
    then have "callable_free x"
      using True by (simp add: list_all_iff)
    then obtain p where "prepare ge (''args['' @ show_nat k @ '']'') x = Inr p"
      using prepare_free [OF assms] by blast
    then show "\<exists>y. prepare ge (''args['' @ show_nat k @ '']'') x = Inr y \<and> wire_data y"
      using prepare_wire [OF assms] by blast
  qed
  then show ?thesis
    using True by (auto simp: list_all2_conv_all_nth list_all_length)
next
  case False
  then obtain x where x: "x \<in> set args" "\<not> callable_free x"
    by (auto simp: list_all_iff)
  obtain e where e: "prepare_args ge args = Inl e"
    using rmap_index_Inr_to [OF _ x(1)] prepare_callable [OF assms] x(2)
    by (cases "prepare_args ge args") (fastforce simp: prepare_args_def pristine_lib [OF assms])+
  then obtain k x where "prepare ge (''args['' @ show_nat k @ '']'') x = Inl e"
    unfolding prepare_args_def pristine_lib(2) [OF assms] using rmap_index_Inl [of "\<lambda>i. prepare ge (''args['' @ show_nat i @ '']'')" 0 args e] by auto
  then have "\<exists>p. e = reject_function p \<or> e = reject_symbol p"
    by (rule prepare_refuses [OF assms])
  then show ?thesis
    using False e by (simp add: peno_call_sync_def peno_call_async_def)
qed

text \<open>
  C29  What a guest sends comes back unchanged when it is data: primitives other than symbols, byte views,
  dates, and arrays, sets and plain objects of such values, no object with a string under \<open>__peno_type\<close>
  that is one of the tags.  Preparing such a value and reviving the result gives the same value, when
  \<open>Date\<close> and \<open>BigInt\<close> do what the language says and the guest has not replaced the methods the shim calls.
\<close>

theorem guest_value_round_trip:
  assumes "pristine ge" "engine_ok ge" "guest_data g"
  shows "\<exists>p. prepare ge path g = Inr p \<and> wire_data p \<and> revive ge p = Inr g"
  using prepare_revive [OF assms] prepare_wire [OF assms(1)] by blast

text \<open>
  C28  A host value is revived in the guest as what it stands for -- \<open>undefined\<close>, numbers, big integers,
  dates, sets, byte views and streams, at any depth -- when it holds no function, no dict with a string
  under \<open>__peno_type\<close>, no \<open>JInt\<close> beyond 53 bits, no date outside the range of \<open>Date\<close> and no empty or
  all-digit key, and the guest has not replaced the methods the shim calls.
\<close>

theorem host_value_reaches_guest:
  assumes "serde_v8 wire" "pristine ge" "engine_ok ge" "ge_py_stream ge = Some (\<lambda>i. Inr (GStream i))" "sendable v"
  shows "\<exists>s. serialize show_int v = Inr s \<and> revive ge (wire s) = Inr (guest_image v)"
  using sendable_shows [OF assms] by (simp add: shows_as_def)

text \<open>
  C30  A Python exception raised by a host tool reaches guest code, thrown or as a rejection, as an error
  named after its class with its message, or as the opaque internal error when the message names host
  internals, when the guest has not replaced the methods the shim calls.
\<close>

theorem python_exception_reaches_guest:
  assumes "pristine ge" "opp_class py err = Some c" "CHR '':'' \<notin> set c" "prepare_args ge args = Inr ps"
    "op i ps w = (Inl (thrown_box (map_pyerr py err)), w')"
  shows "peno_call_sync ge op i args w = (Inl (guest_exception c (opp_text py err)), w')
    \<and> peno_call_async ge op i args w = (Inr (Inl (guest_exception c (opp_text py err))), w')"
  using assms by (simp add: peno_call_sync_def peno_call_async_def restore_exception sanitize_exception)

text \<open>
  C16  Once the arguments are prepared, no message of what a synchronous host call throws -- in the op or in
  reviving its result -- names serde_v8, deno_core or a type of the host, and neither does the rejection
  of an asynchronous call whose op failed, when the guest has not replaced the methods the shim calls.  An
  exception of reviving the result of an asynchronous call is outside: the shim passes it on as it is.
\<close>

theorem guest_sees_no_internals:
  assumes "pristine ge" "prepare_args ge args = Inr ps" "message_of e = Some m"
    "peno_call_sync ge op i args w = (Inl e, w')
     \<or> (peno_call_async ge op i args w = (Inr (Inl e), w') \<and> fst (op i ps w) = Inl x)"
  shows "\<not> names_internals m"
  using assms
  by (auto simp: peno_call_sync_def peno_call_async_def dest: sanitized_clean split: prod.splits sum.splits)

text \<open>
  C1  Binding under a free name makes one plain object with exactly the given properties, each an own data
  property even when its key is \<open>__proto__\<close>, each op bound to its token, and touches no other global.
\<close>

theorem binding_installs_properties:
  assumes "get_global g name = GUndef" "is_function (get_global g ''__host_op_sync__'')"
    "is_function (get_global g ''__host_op_async__'')"
  shows "peno_bind_object ge (GStr name) (GArr (map assignment_of ps)) g
    = (Inr (), g(name \<mapsto> own_object (map (slot_of g) ps)))"
proof -
  have "name \<noteq> ''__host_op_sync__''" "name \<noteq> ''__host_op_async__''"
    using assms by auto
  then show ?thesis
    using assms by (simp add: peno_bind_object_def bind_all own_object_def)
qed

text \<open>
  C31  A guest that reads a Python stream one \<open>read()\<close> after the other gets its chunks in order, each
  exactly once, and then the end for ever, with one pull per chunk and one for the end.
\<close>

theorem python_stream_read_in_order:
  assumes "list_all2 (\<lambda>p v. revive ge p = Inr v) ps vs"
  shows "read_many ge chunk_source (length vs + Suc n) (stream_new True, ps)
    = (map ReadValue vs @ replicate (Suc n) ReadDone, stream_done, [])"
  by (rule read_all [OF assms])

section \<open>Sample runs\<close>

definition plain_engine :: guest_engine where
  "plain_engine = \<lparr>ge_date = (\<lambda>v. case v of GNum t \<Rightarrow> t | _ \<Rightarrow> NaN),
     ge_bigint = (\<lambda>v. case v of
        GStr s \<Rightarrow> (case parse_int s of Some i \<Rightarrow> Inr i | None \<Rightarrow> Inl (GError ''SyntaxError'' s False))
      | _ \<Rightarrow> Inl (GError ''TypeError'' ''not a string'' False)),
     ge_py_stream = Some (\<lambda>i. Inr (GStream i)),
     ge_define = (\<lambda>_ _ _. Inl (GError ''TypeError'' ''not an object'' False)),
     ge_lib = (\<lambda>_ _ r. r), ge_lib_args = (\<lambda>_ r. r), ge_lib_revive = (\<lambda>_ r. r), ge_lib_error = (\<lambda>_ r. r)\<rparr>"

lemma plain_engine_ok [simp]: "pristine plain_engine" "engine_ok plain_engine" "ge_py_stream plain_engine = Some (\<lambda>i. Inr (GStream i))"
  by (simp_all add: pristine_def engine_ok_def plain_engine_def parse_show_int)

lemmas plain_lib [simp] = pristine_lib [OF plain_engine_ok(1)]

fun plain_wire :: "serde \<Rightarrow> gval" where
  "plain_wire (SBool b) = GBool b"
| "plain_wire (SI64 i) = GNum (f64_of_int i)"
| "plain_wire (SU64 n) = GNum (f64_of_int (int n))"
| "plain_wire (SF64 f) = GNum f"
| "plain_wire (SStr s) = GStr s"
| "plain_wire (SBytes bs) = GView bs"
| "plain_wire SNone = GNull"
| "plain_wire SUnit = GUndef"
| "plain_wire (SSeq xs) = GArr (map plain_wire xs)"
| "plain_wire (SMap es) = GObj '''' (map (\<lambda>(k, s). (k, plain_wire s)) es)"

lemma plain_wire_ok [simp]: "serde_v8 plain_wire"
  by (simp add: serde_v8_def)

text \<open>
  Without \<open>pristine\<close> the refusals are not enforced: an array whose own \<open>map\<close> answers \<open>[Symbol()]\<close> brings a
  symbol to the op, and with \<open>String.prototype.indexOf\<close> replaced no message is found to name internals.
\<close>

definition own_map_engine :: guest_engine where
  "own_map_engine = plain_engine\<lparr>ge_lib := (\<lambda>path v r. case v of GArr [GNum (Fin f)] \<Rightarrow> Inr (GArr [GSymbol ''s'']) | _ \<Rightarrow> r)\<rparr>"

lemma own_map_escapes:
  "peno_call_sync own_map_engine (\<lambda>_ ps seen. (Inr GUndef, seen @ ps)) (GNum (Fin 0)) [GArr [GNum (Fin 0)]] []
    = (Inr GUndef, [GArr [GSymbol ''s'']])"
  by (simp add: peno_call_sync_def prepare_args_def own_map_engine_def prepare.simps plain_engine_def)

definition own_index_engine :: guest_engine where
  "own_index_engine = plain_engine\<lparr>ge_lib_error := (\<lambda>err _. err)\<rparr>"

lemma own_index_escapes:
  "peno_call_sync own_index_engine (\<lambda>_ _ w. (Inl (GError ''Error'' ''serde_v8 error'' False), w)) GNull [] (0 :: nat)
    = (Inl (GError ''Error'' ''serde_v8 error'' False), 0)"
  by (simp add: peno_call_sync_def prepare_args_def own_index_engine_def plain_engine_def restore_host_error_def
      sanitize_host_error_def)

theorem host_gets_plain_data_witness:
  "peno_call_sync plain_engine (\<lambda>_ _ w. (Inr GNull, Suc w)) (GNum (Fin 3)) [GNum (Fin 1), GObj '''' [(''cb'', GFun 7)]] 0
    = (Inl (reject_function ''args[1].cb''), 0)
   \<and> (\<exists>ps. prepare_args plain_engine [GBigInt 5, GSet [GNum (Fin 1)]] = Inr ps \<and> length ps = 2)"
proof -
  have "\<not> list_all callable_free [GNum (Fin 1), GObj '''' [(''cb'', GFun 7)]]" "list_all callable_free [GBigInt 5, GSet [GNum (Fin 1)]]"
    by simp_all
  then have "\<exists>e. peno_call_sync plain_engine (\<lambda>_ _ w. (Inr GNull, Suc w)) (GNum (Fin 3)) [GNum (Fin 1), GObj '''' [(''cb'', GFun 7)]] (0 :: nat)
      = (Inl e, 0)" "\<exists>ps. prepare_args plain_engine [GBigInt 5, GSet [GNum (Fin 1)]] = Inr ps \<and> length ps = 2"
    using host_gets_plain_data [OF plain_engine_ok(1), of "[GNum (Fin 1), GObj '''' [(''cb'', GFun 7)]]" "\<lambda>_ _ w. (Inr GNull, Suc w)" "GNum (Fin 3)" 0]
      host_gets_plain_data [OF plain_engine_ok(1), of "[GBigInt 5, GSet [GNum (Fin 1)]]"] by auto
  then show ?thesis
    by (simp add: peno_call_sync_def prepare_args_def prepare_containers show_nat_def show_int_def show_uint.simps digit_char_def)
qed

theorem guest_value_round_trip_witness:
  "\<exists>p. prepare plain_engine ''args[0]'' (GObj '''' [(''__proto__'', GSet [GDate NaN, GBigInt (2 ^ 70)]), (''u'', GArr [GUndef])]) = Inr p
     \<and> revive plain_engine p = Inr (GObj '''' [(''__proto__'', GSet [GDate NaN, GBigInt (2 ^ 70)]), (''u'', GArr [GUndef])])"
proof -
  have "guest_data (GObj '''' [(''__proto__'', GSet [GDate NaN, GBigInt (2 ^ 70)]), (''u'', GArr [GUndef])])"
    by (simp add: type_tag_def tag_words_def is_time_def)
  with guest_value_round_trip [OF plain_engine_ok(1,2)] show ?thesis by blast
qed

theorem host_value_reaches_guest_witness:
  "\<exists>s. serialize show_int (JObject [(''when'', JDate 5), (''in'', JArray [JUndefined, JPyStream 3])]) = Inr s
     \<and> revive plain_engine (plain_wire s)
       = Inr (GObj '''' [(''when'', GDate (Fin 5)), (''in'', GArr [GUndef, GStream (GNum (Fin 3))])])"
proof -
  have "sendable (JObject [(''when'', JDate 5), (''in'', JArray [JUndefined, JPyStream 3])])"
    by (simp add: carries_tag_def plain_keys_def)
  from host_value_reaches_guest [OF plain_wire_ok plain_engine_ok this] show ?thesis
    by (simp add: f64_of_int_small)
qed

theorem python_exception_reaches_guest_witness:
  "\<exists>op. peno_call_sync plain_engine op (GNum (Fin 3)) [GNull] (0 :: nat) = (Inl (GError ''ValueError'' ''bad'' True), 1)"
proof -
  obtain op :: "nat host_op" where op: "op (GNum (Fin 3)) [GNull] 0 = (Inl (thrown_box (map_pyerr sample_python (PyValueError ''bad''))), 1)"
    by (rule that [of "\<lambda>_ _ w. (Inl (thrown_box (map_pyerr sample_python (PyValueError ''bad''))), Suc w)"]) simp
  have "opp_class sample_python (PyValueError ''bad'') = Some ''ValueError''" "CHR '':'' \<notin> set ''ValueError''"
    "prepare_args plain_engine [GNull] = Inr [GNull]"
    by (simp_all add: sample_python_def prepare_args_def)
  note run = python_exception_reaches_guest [OF plain_engine_ok(1) this, of op "GNum (Fin 3)" 0 1, OF op]
  have "guest_exception ''ValueError'' ''bad'' = GError ''ValueError'' ''bad'' True"
    by (simp add: guest_exception_def names_internals_def INTERNAL_MARKERS_def starts_with_def)
  then show ?thesis
    using run by (intro exI [of _ op]) (simp add: sample_python_def)
qed

theorem guest_sees_no_internals_witness:
  "\<not> names_internals ''Host call failed: internal runtime error''
   \<and> peno_call_sync plain_engine (\<lambda>_ _ w. (Inl (GError ''Error'' ''serde_v8 error'' False), w)) GNull [] (0 :: nat) = (Inl OPAQUE_INTERNAL, 0)"
proof -
  have run: "peno_call_sync plain_engine (\<lambda>_ _ w. (Inl (GError ''Error'' ''serde_v8 error'' False), w)) GNull [] (0 :: nat) = (Inl OPAQUE_INTERNAL, 0)"
    by (simp add: peno_call_sync_def prepare_args_def restore_host_error_def sanitize_host_error_def INTERNAL_MARKERS_def
        starts_with_def)
  have "prepare_args plain_engine [] = Inr []" "message_of OPAQUE_INTERNAL = Some ''Host call failed: internal runtime error''"
    by (simp_all add: prepare_args_def OPAQUE_INTERNAL_def)
  from guest_sees_no_internals [OF plain_engine_ok(1) this, OF disjI1, OF run] run show ?thesis
    by blast
qed

theorem binding_installs_properties_witness:
  "\<exists>g'. peno_bind_object plain_engine (GStr ''tools'')
       (GArr (map assignment_of [(''__proto__'', Inl GNull), (''add'', Inr (Fin 7, SyncOp))]))
       [''__host_op_sync__'' \<mapsto> GFun 1, ''__host_op_async__'' \<mapsto> GFun 2] = (Inr (), g')
     \<and> g' ''tools'' = Some (GObj '''' [(''__proto__'', GNull), (''add'', GBound (GFun 1) (Fin 7))])"
proof -
  have "get_global [''__host_op_sync__'' \<mapsto> GFun 1, ''__host_op_async__'' \<mapsto> GFun 2] ''tools'' = GUndef"
    "is_function (get_global [''__host_op_sync__'' \<mapsto> GFun 1, ''__host_op_async__'' \<mapsto> GFun 2] ''__host_op_sync__'')"
    "is_function (get_global [''__host_op_sync__'' \<mapsto> GFun 1, ''__host_op_async__'' \<mapsto> GFun 2] ''__host_op_async__'')"
    by (simp_all add: get_global_def)
  from binding_installs_properties [OF this, of plain_engine "[(''__proto__'', Inl GNull), (''add'', Inr (Fin 7, SyncOp))]"]
  show ?thesis
    by (simp add: own_object_def set_own_def get_global_def del: assignment_of.simps)
qed

theorem python_stream_read_in_order_witness:
  "read_many plain_engine chunk_source 4 (stream_new True, [GNum (Fin 1), GStr ''x''])
    = ([ReadValue (GNum (Fin 1)), ReadValue (GStr ''x''), ReadDone, ReadDone], stream_done, [])"
  using python_stream_read_in_order [of plain_engine "[GNum (Fin 1), GStr ''x'']" "[GNum (Fin 1), GStr ''x'']" 1]
  by (simp add: eval_nat_numeral)

end
