(* ===== verification/Peno_PyBindings.thy ===== *)
theory Peno_PyBindings
  imports Peno_Handle
begin

text \<open>
  The Python classes of \<open>src/runtime/python/runtime.rs\<close>: \<open>Runtime\<close>, \<open>JsFunction\<close>, \<open>JsStream\<close>,
  \<open>PyStreamSource\<close> and their finalizers, over the operations of the handle.  An operation maps a
  session to \<open>None\<close> when it does not return, or to its result or exception and the session after it.
  What the runtime thread answers to the request with responder \<open>n\<close> is entry \<open>n\<close> of the record
  \<open>thread_answers\<close>; what Python computes is the record \<open>py_host\<close>.
\<close>

section \<open>Sessions\<close>

text \<open>
  \<open>ps_open\<close>: the \<open>Runtime\<close> object still holds its clone of the handle.  The clones share every field but
  the sender, which only \<open>RuntimeHandle::close\<close> drops, on a clone that is dropped with it; so
  \<open>ps_handle\<close> is the shared state as any object that holds a clone sees it.  \<open>ps_cancels\<close> lists the Python
  streams whose cancellation has been spawned on the Tokio runtime.
\<close>

record py_session =
  ps_open :: bool
  ps_handle :: runtime_handle
  ps_store :: py_store
  ps_cancels :: "u32 list"

type_synonym 'a py_op = "py_session \<Rightarrow> ((py_exc + 'a) \<times> py_session) option"

definition pret :: "'a \<Rightarrow> 'a py_op" where
  "pret a s = Some (Inr a, s)"

definition praise :: "py_exc \<Rightarrow> 'a py_op" where
  "praise e s = Some (Inl e, s)"

definition plift :: "py_exc + 'a \<Rightarrow> 'a py_op" where
  "plift r s = Some (r, s)"

definition pbind :: "'a py_op \<Rightarrow> ('a \<Rightarrow> 'b py_op) \<Rightarrow> 'b py_op" where
  "pbind m f s =
     (case m s of
        None \<Rightarrow> None
      | Some (Inl e, s') \<Rightarrow> Some (Inl e, s')
      | Some (Inr a, s') \<Rightarrow> f a s')"

text \<open>A Rust panic reaches Python as \<open>pyo3_runtime.PanicException\<close>.\<close>

fun of_outcome :: "'a py_outcome \<Rightarrow> py_exc + 'a" where
  "of_outcome (Returns a) = Inr a"
| "of_outcome (Raises e) = Inl e"
| "of_outcome Panic = Inl (PyOther ''PanicException'' [])"

record thread_answers =
  ta_shown :: "nat \<Rightarrow> string"
  ta_value :: "nat \<Rightarrow> js_value answers"
  ta_token :: "nat \<Rightarrow> op_token answers"
  ta_flag :: "nat \<Rightarrow> bool answers"
  ta_unit :: "nat \<Rightarrow> unit answers"
  ta_call :: "nat \<Rightarrow> function_call_result answers"
  ta_stats :: "nat \<Rightarrow> stats_report answers"
  ta_close :: "nat \<Rightarrow> unit wait_env"
  ta_started :: nat
  ta_clock :: "nat \<Rightarrow> nat"
  ta_order :: "u32 set \<Rightarrow> u32 list"

text \<open>\<open>ta_order\<close> is the order in which a \<open>HashSet\<close> is iterated.\<close>

definition asking :: "(nat \<Rightarrow> 'e) \<Rightarrow> ('e \<Rightarrow> runtime_handle \<Rightarrow> 'a outcome) \<Rightarrow> runtime_handle \<Rightarrow> 'a outcome" where
  "asking envs m h = m (envs (h_next h)) h"

definition on_handle :: "string \<Rightarrow> (runtime_handle \<Rightarrow> 'a outcome) \<Rightarrow> 'a py_op" where
  "on_handle context m s =
     map_option (\<lambda>(r, h). (map_err (runtime_error_with_context context) r, s\<lparr>ps_handle := h\<rparr>)) (m (ps_handle s))"

record py_host =
  ph_env :: py_env
  ph_extract :: "py_val py_extract"
  ph_iscoroutinefunction :: "nat \<Rightarrow> py_exc + bool"
  ph_has_call :: "nat \<Rightarrow> py_exc + bool"
  ph_call_attr :: "nat \<Rightarrow> py_exc + nat"
  ph_object :: "py_val \<Rightarrow> nat"
  ph_locals :: "py_exc + nat"

text \<open>Values cross with the session's heap and the handle's sets of tracked proxies.\<close>

definition to_python :: "py_host \<Rightarrow> js_value \<Rightarrow> py_val py_op" where
  "to_python py v s =
     (case js_value_to_python (ph_env py) True v
             ((ps_store s)\<lparr>tracked_fns := h_functions (ps_handle s), tracked_streams := h_js_streams (ps_handle s)\<rparr>) of
        (r, st) \<Rightarrow> Some (r, s\<lparr>ps_store := st,
          ps_handle := (ps_handle s)\<lparr>h_functions := tracked_fns st, h_js_streams := tracked_streams st\<rparr>\<rparr>))"

definition env_now :: "py_host \<Rightarrow> py_session \<Rightarrow> py_env" where
  "env_now py s = (ph_env py)\<lparr>runtime_is_shutdown := is_shutdown_handle (ps_handle s)\<rparr>"

section \<open>Runtime\<close>

definition borrow_handle :: "unit py_op" where
  "borrow_handle s =
     (if ps_open s then pret () s else praise (PyRuntimeError ''Runtime has been closed'') s)"

definition detect_async :: "py_host \<Rightarrow> nat \<Rightarrow> py_exc + bool" where
  "detect_async py handler =
     rbind (ph_iscoroutinefunction py handler) (\<lambda>is_async.
     if is_async then Inr True
     else
       rbind (ph_has_call py handler) (\<lambda>has.
       if has then rbind (ph_call_attr py handler) (\<lambda>call_attr. ph_iscoroutinefunction py call_attr)
       else Inr False))"

definition quoted :: "string \<Rightarrow> string" where
  "quoted s = CHR 0x27 # s @ [CHR 0x27]"

definition checked_mode :: "py_host \<Rightarrow> string \<Rightarrow> nat \<Rightarrow> py_exc + python_op_mode" where
  "checked_mode py mode handler =
     rbind (detect_async py handler) (\<lambda>is_async.
     if mode = ''sync'' \<and> is_async
     then Inl (PyRuntimeError (''Handler is async but mode='' @ quoted ''sync'' @ ''; use mode='' @ quoted ''async''))
     else if mode = ''async'' \<and> \<not> is_async
     then Inl (PyRuntimeError (''Handler is sync but mode='' @ quoted ''async'' @ ''; use mode='' @ quoted ''sync''))
     else if mode = ''sync'' then Inr SyncOp
     else if mode = ''async'' then Inr python_op_mode.AsyncOp
     else Inl (PyRuntimeError
       (''Invalid mode '' @ quoted mode @ '', expected '' @ quoted ''sync'' @ '' or '' @ quoted ''async'')))"

definition detected_mode :: "py_host \<Rightarrow> nat \<Rightarrow> py_exc + python_op_mode" where
  "detected_mode py handler =
     rbind (detect_async py handler) (\<lambda>is_async. Inr (if is_async then python_op_mode.AsyncOp else SyncOp))"

definition init_with_config ::
  "runtime_error + runtime_handle \<Rightarrow> py_store \<Rightarrow> py_exc + py_session" where
  "init_with_config spawned st =
     (case map_err (runtime_error_with_context ''Failed to spawn runtime'') spawned of
        Inl e \<Rightarrow> Inl e
      | Inr h \<Rightarrow> Inr \<lparr>ps_open = True, ps_handle = h, ps_store = st, ps_cancels = []\<rparr>)"

text \<open>\<open>spawn\<close> is \<open>RuntimeHandle::spawn\<close>; without an argument it gets the default configuration.\<close>

definition py_new ::
  "((nat, string) runtime_config \<Rightarrow> runtime_error + runtime_handle) \<Rightarrow> py_store \<Rightarrow> (nat, string) runtime_config option
    \<Rightarrow> py_exc + py_session" where
  "py_new spawn st config =
     init_with_config (spawn (case config of Some c \<Rightarrow> c | None \<Rightarrow> runtime_config_default)) st"

definition py_eval :: "py_host \<Rightarrow> thread_answers \<Rightarrow> string \<Rightarrow> py_val py_op" where
  "py_eval py ta code =
     pbind borrow_handle (\<lambda>_.
     pbind (on_handle ''Evaluation failed'' (asking (ta_value ta) (\<lambda>e. h_eval_sync (ta_shown ta) e code)))
       (to_python py))"

definition py_eval_module :: "py_host \<Rightarrow> thread_answers \<Rightarrow> string \<Rightarrow> py_val py_op" where
  "py_eval_module py ta specifier =
     pbind borrow_handle (\<lambda>_.
     pbind (on_handle ''Module evaluation failed''
              (asking (ta_value ta) (\<lambda>e. h_eval_module_sync (ta_shown ta) e specifier)))
       (to_python py))"

text \<open>
  What an asynchronous method hands to \<open>bridge_js_future\<close>: the future, as the request that its first
  poll sends, and the error context.
\<close>

datatype async_request =
    ReqEval string "u64 option" nat
  | ReqEvalModule string "u64 option" nat
  | ReqCall u32 "js_value list" "u64 option" nat
  | ReqResume u64 nat

definition start_async ::
  "py_host \<Rightarrow> py_val option \<Rightarrow> (u64 option \<Rightarrow> nat \<Rightarrow> async_request) \<Rightarrow> string \<Rightarrow> (async_request \<times> string) py_op" where
  "start_async py timeout req context =
     pbind (plift (of_outcome (normalize_timeout_to_ms (ph_extract py) timeout))) (\<lambda>timeout_ms.
     pbind (plift (ph_locals py)) (\<lambda>locals.
     pret (req timeout_ms locals, context)))"

definition py_eval_async :: "py_host \<Rightarrow> string \<Rightarrow> py_val option \<Rightarrow> (async_request \<times> string) py_op" where
  "py_eval_async py code timeout =
     pbind borrow_handle (\<lambda>_. start_async py timeout (ReqEval code) ''Evaluation failed'')"

definition py_eval_module_async :: "py_host \<Rightarrow> string \<Rightarrow> py_val option \<Rightarrow> (async_request \<times> string) py_op" where
  "py_eval_module_async py specifier timeout =
     pbind borrow_handle (\<lambda>_. start_async py timeout (ReqEvalModule specifier) ''Module evaluation failed'')"

definition py_is_closed :: "py_session \<Rightarrow> bool" where
  "py_is_closed s \<longleftrightarrow> (if ps_open s then is_shutdown_handle (ps_handle s) else True)"

definition debug_tracked_function_count :: "py_session \<Rightarrow> nat" where
  "debug_tracked_function_count s = (if ps_open s then tracked_function_count (ps_handle s) else 0)"

text \<open>\<open>RuntimeStats\<close> (\<open>src/runtime/python/stats.rs\<close>)\<close>

record runtime_stats =
  py_heap_total_bytes :: u64
  py_heap_used_bytes :: u64
  py_external_memory_bytes :: u64
  py_physical_total_bytes :: u64
  py_total_execution_time_ms :: u64
  py_last_execution_time_ms :: u64
  py_last_execution_kind :: "string option"
  py_eval_sync_count :: u64
  py_eval_async_count :: u64
  py_eval_module_sync_count :: u64
  py_eval_module_async_count :: u64
  py_call_function_async_count :: u64
  py_call_function_sync_count :: u64
  py_active_async_ops :: u64
  py_open_resources :: u64
  py_active_timers :: u64
  py_active_intervals :: u64
  py_active_js_streams :: u64
  py_active_py_streams :: u64
  py_total_js_streams :: u64
  py_total_py_streams :: u64
  py_bytes_streamed_js_to_py :: u64
  py_bytes_streamed_py_to_js :: u64

definition stats_from_snapshot :: "stats_report \<Rightarrow> runtime_stats" where
  "stats_from_snapshot r =
     \<lparr>py_heap_total_bytes = r_heap_total_bytes r,
      py_heap_used_bytes = r_heap_used_bytes r,
      py_external_memory_bytes = r_external_memory_bytes r,
      py_physical_total_bytes = r_physical_total_bytes r,
      py_total_execution_time_ms = r_total_execution_time_ms r,
      py_last_execution_time_ms = r_last_execution_time_ms r,
      py_last_execution_kind = map_option as_str (r_last_execution_kind r),
      py_eval_sync_count = r_eval_sync_count r,
      py_eval_async_count = r_eval_async_count r,
      py_eval_module_sync_count = r_eval_module_sync_count r,
      py_eval_module_async_count = r_eval_module_async_count r,
      py_call_function_async_count = r_call_function_async_count r,
      py_call_function_sync_count = r_call_function_sync_count r,
      py_active_async_ops = r_active_async_ops r,
      py_open_resources = r_open_resources r,
      py_active_timers = r_active_timers r,
      py_active_intervals = r_active_intervals r,
      py_active_js_streams = r_active_js_streams r,
      py_active_py_streams = r_active_py_streams r,
      py_total_js_streams = r_total_js_streams r,
      py_total_py_streams = r_total_py_streams r,
      py_bytes_streamed_js_to_py = r_bytes_streamed_js_to_py r,
      py_bytes_streamed_py_to_js = r_bytes_streamed_py_to_js r\<rparr>"

definition stats_repr :: "runtime_stats \<Rightarrow> string" where
  "stats_repr s =
     ''RuntimeStats(heap_used_bytes='' @ show_word (py_heap_used_bytes s)
     @ '', total_execution_time_ms='' @ show_word (py_total_execution_time_ms s)
     @ '', last_execution_kind='' @ (case py_last_execution_kind s of Some k \<Rightarrow> k | None \<Rightarrow> ''None'')
     @ '', active_async_ops='' @ show_word (py_active_async_ops s)
     @ '', open_resources='' @ show_word (py_open_resources s)
     @ '', eval_sync_count='' @ show_word (py_eval_sync_count s)
     @ '', call_function_async_count='' @ show_word (py_call_function_async_count s)
     @ '', call_function_sync_count='' @ show_word (py_call_function_sync_count s)
     @ '', active_js_streams='' @ show_word (py_active_js_streams s)
     @ '', active_py_streams='' @ show_word (py_active_py_streams s) @ '')''"

definition py_get_stats :: "thread_answers \<Rightarrow> runtime_stats py_op" where
  "py_get_stats ta =
     pbind borrow_handle (\<lambda>_.
     pbind (on_handle ''Failed to obtain runtime stats'' (asking (ta_stats ta) (h_get_stats (ta_shown ta)))) (\<lambda>r.
     pret (stats_from_snapshot r)))"

text \<open>
  \<open>close\<close> takes the clone out of the object, so a second \<open>close\<close> finds nothing.  It drains the tracked
  ids, stopping a loop when the runtime turns out to be shut down, and ignores failed releases.
\<close>

fun release_js_streams :: "thread_answers \<Rightarrow> u32 list \<Rightarrow> runtime_handle \<Rightarrow> runtime_handle option" where
  "release_js_streams ta [] h = Some h"
| "release_js_streams ta (i # ids) h =
     (if is_shutdown_handle h then Some h
      else case asking (ta_unit ta) (\<lambda>e. h_stream_release (ta_shown ta) e i) h of
        None \<Rightarrow> None
      | Some (_, h') \<Rightarrow> release_js_streams ta ids h')"

fun cancel_py_streams :: "u32 list \<Rightarrow> runtime_handle \<Rightarrow> runtime_handle" where
  "cancel_py_streams [] h = h"
| "cancel_py_streams (i # ids) h = cancel_py_streams ids (untrack_py_stream_id i h)"

fun release_functions :: "thread_answers \<Rightarrow> u32 list \<Rightarrow> runtime_handle \<Rightarrow> runtime_handle option" where
  "release_functions ta [] h = Some h"
| "release_functions ta (i # ids) h =
     (if is_shutdown_handle h then Some h
      else case asking (ta_unit ta) (\<lambda>e. h_release_function e i) h of
        None \<Rightarrow> None
      | Some (_, h') \<Rightarrow> release_functions ta ids h')"

definition close_blocking :: "thread_answers \<Rightarrow> unit py_op" where
  "close_blocking ta s =
     (case drain_tracked_js_stream_ids (ps_handle s) of (js_ids, h1) \<Rightarrow>
     (case release_js_streams ta (ta_order ta js_ids) h1 of
        None \<Rightarrow> None
      | Some h2 \<Rightarrow>
     (case drain_tracked_py_stream_ids h2 of (py_ids, h3) \<Rightarrow>
      let cancelled = ta_order ta py_ids; h4 = cancel_py_streams cancelled h3 in
     (case drain_tracked_function_ids h4 of (fn_ids, h5) \<Rightarrow>
     (case release_functions ta (ta_order ta fn_ids) h5 of
        None \<Rightarrow> None
      | Some h6 \<Rightarrow>
     (case h_close (ta_close ta (h_next h6)) h6 of
        None \<Rightarrow> None
      | Some (r, h7) \<Rightarrow>
          Some (map_err (runtime_error_with_context ''Shutdown failed'') r,
            s\<lparr>ps_handle := h7\<lparr>h_tx := h_tx (ps_handle s)\<rparr>, ps_cancels := ps_cancels s @ cancelled\<rparr>)))))))"

definition py_close :: "thread_answers \<Rightarrow> unit py_op" where
  "py_close ta s =
     (if ps_open s then close_blocking ta (s\<lparr>ps_open := False\<rparr>) else Some (Inr (), s))"

text \<open>\<open>__exit__\<close> closes, and lets an exception of the \<open>with\<close> body through.\<close>

definition py_exit :: "thread_answers \<Rightarrow> bool py_op" where
  "py_exit ta = pbind (py_close ta) (\<lambda>_. pret False)"

definition py_terminate :: "thread_answers \<Rightarrow> unit py_op" where
  "py_terminate ta s =
     (if ps_open s
      then on_handle ''Termination failed''
             (asking (ta_unit ta) (\<lambda>e. h_terminate (ta_shown ta) e (ta_started ta) (ta_clock ta))) s
      else Some (Inr (), s))"

text \<open>The \<open>TerminationHandle\<close> object: it shares the termination record and nothing else.\<close>

definition py_termination_handle :: "unit py_op" where
  "py_termination_handle = borrow_handle"

definition termination_handle_terminate :: "py_session \<Rightarrow> py_session" where
  "termination_handle_terminate s =
     s\<lparr>ps_handle := (ps_handle s)\<lparr>h_term := off_thread_terminate (h_term (ps_handle s))\<rparr>\<rparr>"

definition termination_handle_is_terminated :: "py_session \<Rightarrow> bool" where
  "termination_handle_is_terminated s = is_terminated (h_term (ps_handle s))"

definition termination_handle_repr :: "py_session \<Rightarrow> string" where
  "termination_handle_repr s =
     ''<TerminationHandle terminated='' @ show_bool (termination_handle_is_terminated s) @ ''>''"

definition register_with :: "thread_answers \<Rightarrow> string \<Rightarrow> python_op_mode \<Rightarrow> nat \<Rightarrow> op_token py_op" where
  "register_with ta name mode handler =
     on_handle ''Op registration failed''
       (asking (ta_token ta) (\<lambda>e. h_register_op (ta_shown ta) e name mode handler))"

definition expose_with :: "thread_answers \<Rightarrow> string \<Rightarrow> op_token \<Rightarrow> bool \<Rightarrow> bool py_op" where
  "expose_with ta context tok flag =
     on_handle context (asking (ta_flag ta) (\<lambda>e. h_set_op_exposure e tok flag))"

definition py_register_op :: "py_host \<Rightarrow> thread_answers \<Rightarrow> string \<Rightarrow> nat \<Rightarrow> string \<Rightarrow> op_token py_op" where
  "py_register_op py ta name handler mode =
     pbind borrow_handle (\<lambda>_.
     pbind (plift (checked_mode py mode handler)) (\<lambda>m.
     pbind (register_with ta name m handler) (\<lambda>tok.
     pbind (expose_with ta ''Op registration failed'' tok True) (\<lambda>_.
     pret tok))))"

definition py_revoke_op :: "thread_answers \<Rightarrow> op_token \<Rightarrow> bool py_op" where
  "py_revoke_op ta tok =
     pbind borrow_handle (\<lambda>_. expose_with ta ''Op revocation failed'' tok False)"

definition bridge_name :: "python_op_mode \<Rightarrow> string" where
  "bridge_name m = (case m of SyncOp \<Rightarrow> ''__host_op_sync__'' | python_op_mode.AsyncOp \<Rightarrow> ''__host_op_async__'')"

definition binding_script :: "string \<Rightarrow> python_op_mode \<Rightarrow> op_token \<Rightarrow> string" where
  "binding_script name m tok =
     ''globalThis.'' @ name @ '' = (...args) => '' @ bridge_name m @ ''('' @ show_word tok @ '', ...args); void 0;''"

definition py_bind_function :: "py_host \<Rightarrow> thread_answers \<Rightarrow> string \<Rightarrow> nat \<Rightarrow> op_token py_op" where
  "py_bind_function py ta name handler =
     pbind borrow_handle (\<lambda>_.
     pbind (plift (detected_mode py handler)) (\<lambda>m.
     pbind (register_with ta name m handler) (\<lambda>tok.
     pbind (py_eval py ta (binding_script name m tok)) (\<lambda>_.
     pbind (expose_with ta ''Op registration failed'' tok True) (\<lambda>_.
     pret tok)))))"

text \<open>
  The loop of \<open>bind_object\<close> over the entries of the dict: the properties and the dict of tokens so far.
\<close>

definition bind_entry_py ::
  "py_host \<Rightarrow> thread_answers \<Rightarrow> string \<Rightarrow> bound_property list \<times> (string \<times> op_token) list \<Rightarrow> py_val \<times> py_val
    \<Rightarrow> (bound_property list \<times> (string \<times> op_token) list) py_op" where
  "bind_entry_py py ta name acc e =
     (case acc of (bindings, tokens) \<Rightarrow>
     pbind (plift (extract_string (ph_env py) (fst e))) (\<lambda>key.
     if is_callable (ph_extract py) (snd e) then
       pbind (plift (detected_mode py (ph_object py (snd e)))) (\<lambda>m.
       pbind (register_with ta (name @ ''.'' @ key) m (ph_object py (snd e))) (\<lambda>tok.
       pret (bindings @ [BoundOp key tok m], AList.update key tok tokens)))
     else
       pbind (\<lambda>s. plift (python_to_js_value (env_now py s) (py_heap_of (ps_store s)) (h_limits (ps_handle s)) (snd e)) s)
         (\<lambda>v. pret (bindings @ [BoundValue key v], tokens))))"

fun pfold :: "('b \<Rightarrow> 'v \<Rightarrow> 'b py_op) \<Rightarrow> 'b \<Rightarrow> 'v list \<Rightarrow> 'b py_op" where
  "pfold f acc [] = pret acc"
| "pfold f acc (x # xs) = pbind (f acc x) (\<lambda>acc'. pfold f acc' xs)"

definition py_bind_object ::
  "py_host \<Rightarrow> thread_answers \<Rightarrow> string \<Rightarrow> py_val \<Rightarrow> (string \<times> op_token) list py_op" where
  "py_bind_object py ta name obj =
     pbind borrow_handle (\<lambda>_ s.
     case (case obj of PRef p \<Rightarrow> py_heap_of (ps_store s) p | _ \<Rightarrow> None) of
       Some (PDictO es) \<Rightarrow>
         pbind (pfold (bind_entry_py py ta name) ([], []) es) (\<lambda>(bindings, tokens).
         pbind (on_handle ''Failed to bind object''
                  (asking (ta_unit ta) (\<lambda>e. h_bind_object (ta_shown ta) e name bindings))) (\<lambda>_.
         pret tokens)) s
     | _ \<Rightarrow> praise (PyRuntimeError ''bind_object expects a dict with string keys'') s)"

definition py_set_module_resolver :: "thread_answers \<Rightarrow> nat \<Rightarrow> unit py_op" where
  "py_set_module_resolver ta resolver =
     pbind borrow_handle (\<lambda>_. on_handle ''Failed to set module resolver''
       (asking (ta_unit ta) (\<lambda>e. h_set_module_resolver (ta_shown ta) e resolver)))"

definition py_set_module_loader :: "thread_answers \<Rightarrow> nat \<Rightarrow> unit py_op" where
  "py_set_module_loader ta loader =
     pbind borrow_handle (\<lambda>_. on_handle ''Failed to set module loader''
       (asking (ta_unit ta) (\<lambda>e. h_set_module_loader (ta_shown ta) e loader)))"

definition py_add_static_module :: "thread_answers \<Rightarrow> string \<Rightarrow> string \<Rightarrow> unit py_op" where
  "py_add_static_module ta name source =
     pbind borrow_handle (\<lambda>_. on_handle ''Failed to add static module''
       (asking (ta_unit ta) (\<lambda>e. h_add_static_module (ta_shown ta) e name source)))"

section \<open>JsFunction\<close>

text \<open>
  A proxy is the record \<open>js_function_obj\<close>; its limits are those of the handle it was made with.  All
  arguments of a call share one tracker.
\<close>

definition convert_python_args ::
  "py_env \<Rightarrow> py_heap \<Rightarrow> serialization_limits \<Rightarrow> py_val list \<Rightarrow> py_exc + js_value list" where
  "convert_python_args env heap limits args =
     fst (smap (python_to_js_value_tracked env heap) args (tracker_new (lim_depth limits) (lim_bytes limits)))"

definition function_handle :: "js_function_obj \<Rightarrow> py_exc + unit" where
  "function_handle f =
     (if jf_closed f then Inl (PyRuntimeError ''Function has been closed'')
      else if \<not> jf_has_handle f then Inl (PyRuntimeError ''Runtime has been shut down'')
      else Inr ())"

definition call_args :: "py_host \<Rightarrow> js_function_obj \<Rightarrow> py_val list \<Rightarrow> js_value list py_op" where
  "call_args py f args s =
     pbind (plift (function_handle f)) (\<lambda>_.
     plift (convert_python_args (env_now py s) (py_heap_of (ps_store s)) (h_limits (ps_handle s)) args)) s"

datatype call_outcome = CallValue py_val | CallAwaitable async_request string

definition js_function_call ::
  "py_host \<Rightarrow> thread_answers \<Rightarrow> js_function_obj \<Rightarrow> py_val list \<Rightarrow> py_val option \<Rightarrow> call_outcome py_op" where
  "js_function_call py ta f args timeout =
     pbind (call_args py f args) (\<lambda>js_args.
     pbind (plift (of_outcome (normalize_timeout_to_ms (ph_extract py) timeout))) (\<lambda>timeout_ms.
     pbind (on_handle ''Function call failed''
              (asking (ta_call ta) (\<lambda>e. h_call_function_sync (ta_shown ta) e (jf_id f) js_args timeout_ms))) (\<lambda>r.
     case r of
       Immediate v \<Rightarrow> pbind (to_python py v) (\<lambda>x. pret (CallValue x))
     | PendingCall call_id \<Rightarrow>
         pbind (plift (ph_locals py)) (\<lambda>locals.
         pret (CallAwaitable (ReqResume call_id locals) ''Function call failed'')))))"

definition js_function_call_async ::
  "py_host \<Rightarrow> js_function_obj \<Rightarrow> py_val list \<Rightarrow> py_val option \<Rightarrow> (async_request \<times> string) py_op" where
  "js_function_call_async py f args timeout =
     pbind (call_args py f args) (\<lambda>js_args.
     start_async py timeout (ReqCall (jf_id f) js_args) ''Function call failed'')"

text \<open>
  \<open>close\<close>: the object is closed at once; the future that releases the function runs later.  The flag of
  the result: whether there is anything to release.
\<close>

definition js_function_close :: "js_function_obj \<Rightarrow> (py_exc + bool) \<times> js_function_obj" where
  "js_function_close f =
     (if jf_closed f then (Inr False, f)
      else if \<not> jf_has_handle f then (Inl (PyRuntimeError ''Runtime has been shut down''), f)
      else (Inr True, f\<lparr>jf_has_handle := False, jf_closed := True\<rparr>))"

definition close_function_task :: "thread_answers \<Rightarrow> u32 \<Rightarrow> unit py_op" where
  "close_function_task ta i s =
     (case asking (ta_unit ta) (\<lambda>e. h_release_function_async e i) (ps_handle s) of
        None \<Rightarrow> None
      | Some (r, h) \<Rightarrow>
          Some (map_err (runtime_error_with_context ''Failed to release function'') r,
            s\<lparr>ps_handle := untrack_function_id i h\<rparr>))"

definition js_function_repr :: "js_function_obj \<Rightarrow> string" where
  "js_function_repr f = (if jf_closed f then ''<JsFunction (closed)>'' else ''<JsFunction id='' @ show_word (jf_id f) @ ''>'')"

text \<open>\<open>JsFunctionFinalizer::__call__\<close>; \<open>armed\<close>: it still holds its clone of the handle.\<close>

definition function_finalizer ::
  "thread_answers \<Rightarrow> u32 \<Rightarrow> bool \<Rightarrow> runtime_handle \<Rightarrow> (bool \<times> runtime_handle) option" where
  "function_finalizer ta i armed h =
     (if \<not> armed \<or> \<not> is_function_tracked i h then Some (False, h)
      else if is_shutdown_handle h then Some (False, untrack_function_id i h)
      else case asking (ta_unit ta) (\<lambda>e. h_release_function e i) h of
        None \<Rightarrow> None
      | Some (_, h') \<Rightarrow> Some (False, untrack_function_id i h'))"

section \<open>JsStream\<close>

text \<open>\<open>StreamSharedState\<close>: the proxy, its finalizer and the futures of its reads share it.\<close>

record stream_shared =
  ss_handle :: bool
  ss_id :: u32
  ss_closed :: bool

definition stream_shared_new :: "u32 \<Rightarrow> stream_shared" where
  "stream_shared_new i = \<lparr>ss_handle = True, ss_id = i, ss_closed = False\<rparr>"

definition mark_remote_closed :: "stream_shared \<Rightarrow> stream_shared" where
  "mark_remote_closed st = st\<lparr>ss_closed := True, ss_handle := False\<rparr>"

definition swap_closed :: "stream_shared \<Rightarrow> bool \<times> stream_shared" where
  "swap_closed st = (ss_closed st, st\<lparr>ss_closed := True\<rparr>)"

definition take_stream_handle :: "stream_shared \<Rightarrow> bool \<times> stream_shared" where
  "take_stream_handle st = (ss_handle st, st\<lparr>ss_handle := False\<rparr>)"

definition shared_cancel ::
  "thread_answers \<Rightarrow> stream_shared \<times> runtime_handle \<Rightarrow> (stream_shared \<times> runtime_handle) option" where
  "shared_cancel ta sh =
     (case sh of (st, h) \<Rightarrow>
     (case swap_closed st of (was_closed, st1) \<Rightarrow>
      if was_closed then Some (st1, h)
      else case take_stream_handle st1 of (held, st2) \<Rightarrow>
        if \<not> held then Some (st2, h)
        else map_option (\<lambda>(_, h'). (st2, h'))
          (asking (ta_unit ta) (\<lambda>e. h_stream_cancel (ta_shown ta) e (ss_id st2)) h)))"

text \<open>
  The proxy, its finalizer and the futures of its reads run on different threads: each call of \<open>cancel\<close> or
  \<open>mark_remote_closed\<close> is a thread that has done some of its atomic steps.  \<open>sr_cancels\<close> counts the calls
  of \<open>stream_cancel\<close> on the handle.
\<close>

datatype stream_thread = AboutToSwap | AboutToTake | AboutToStore | AboutToDrop

record stream_race =
  sr_shared :: stream_shared
  sr_threads :: "stream_thread list"
  sr_cancels :: nat

inductive race_step :: "stream_race \<Rightarrow> stream_race \<Rightarrow> bool" where
  call_cancel: "race_step r (r\<lparr>sr_threads := AboutToSwap # sr_threads r\<rparr>)"
| call_mark: "race_step r (r\<lparr>sr_threads := AboutToStore # sr_threads r\<rparr>)"
| swap: "\<lbrakk>sr_threads r = xs @ AboutToSwap # ys; swap_closed (sr_shared r) = (was_closed, st)\<rbrakk> \<Longrightarrow>
    race_step r (r\<lparr>sr_shared := st, sr_threads := xs @ (if was_closed then [] else [AboutToTake]) @ ys\<rparr>)"
| take: "\<lbrakk>sr_threads r = xs @ AboutToTake # ys; take_stream_handle (sr_shared r) = (held, st)\<rbrakk> \<Longrightarrow>
    race_step r (r\<lparr>sr_shared := st, sr_threads := xs @ ys, sr_cancels := sr_cancels r + (if held then 1 else 0)\<rparr>)"
| store: "sr_threads r = xs @ AboutToStore # ys \<Longrightarrow>
    race_step r (r\<lparr>sr_shared := snd (swap_closed (sr_shared r)), sr_threads := xs @ AboutToDrop # ys\<rparr>)"
| drop_handle: "sr_threads r = xs @ AboutToDrop # ys \<Longrightarrow>
    race_step r (r\<lparr>sr_shared := snd (take_stream_handle (sr_shared r)), sr_threads := xs @ ys\<rparr>)"

inductive_cases race_stepE: "race_step r r'"

text \<open>\<open>__anext__\<close> decides at once whether there is a read; the future of the read is \<open>stream_next_task\<close>.\<close>

definition stream_anext :: "stream_shared \<Rightarrow> py_exc + u32" where
  "stream_anext st =
     (if ss_closed st then Inl (PyStopAsyncIteration ''Stream closed'')
      else if \<not> ss_handle st then Inl (PyRuntimeError ''Runtime has been shut down'')
      else Inr (ss_id st))"

definition stream_next_task ::
  "py_host \<Rightarrow> thread_answers \<Rightarrow> (js_value option \<Rightarrow> string) \<Rightarrow> u32 \<Rightarrow> stream_shared \<Rightarrow> py_session
    \<Rightarrow> ((py_exc + py_val) \<times> stream_shared \<times> py_session) option" where
  "stream_next_task py ta dbg i st s =
     (case asking (ta_value ta) (\<lambda>e. h_stream_read dbg e i) (ps_handle s) of
        None \<Rightarrow> None
      | Some (Inl e, h) \<Rightarrow> Some (Inl (runtime_error_to_py e), st, s\<lparr>ps_handle := h\<rparr>)
      | Some (Inr chunk, h) \<Rightarrow>
          if chunk_done chunk
          then Some (Inl (PyStopAsyncIteration []), mark_remote_closed st, s\<lparr>ps_handle := h\<rparr>)
          else (case chunk_value chunk of
                  None \<Rightarrow> Some (Inr PNone, st, s\<lparr>ps_handle := h\<rparr>)
                | Some v \<Rightarrow> map_option (\<lambda>(r, s'). (r, st, s')) (to_python py v (s\<lparr>ps_handle := h\<rparr>))))"

definition js_stream_repr :: "stream_shared \<Rightarrow> string" where
  "js_stream_repr st = (if ss_closed st then ''<JsStream (closed)>'' else ''<JsStream id='' @ show_word (ss_id st) @ ''>'')"

section \<open>PyStreamSource\<close>

definition py_stream_source_new :: "py_host \<Rightarrow> nat \<Rightarrow> py_stream_source py_op" where
  "py_stream_source_new py iterable =
     pbind (plift (ph_locals py)) (\<lambda>_ s.
     case register_py_stream iterable (ps_handle s) of
       (i, h) \<Rightarrow> pret \<lparr>pss_id = i, pss_closed = False, pss_has_handle = True\<rparr> (s\<lparr>ps_handle := h\<rparr>))"

definition py_stream_from_async_iterable :: "py_host \<Rightarrow> nat \<Rightarrow> py_stream_source py_op" where
  "py_stream_from_async_iterable py iterable = pbind borrow_handle (\<lambda>_. py_stream_source_new py iterable)"

definition source_cancel :: "u32 \<Rightarrow> py_session \<Rightarrow> py_session" where
  "source_cancel i s = s\<lparr>ps_handle := untrack_py_stream_id i (ps_handle s), ps_cancels := ps_cancels s @ [i]\<rparr>"

definition source_mark_closed :: "py_stream_source \<times> py_session \<Rightarrow> py_stream_source \<times> py_session" where
  "source_mark_closed x =
     (case x of (src, s) \<Rightarrow>
      if pss_closed src then (src, s)
      else (src\<lparr>pss_closed := True, pss_has_handle := False\<rparr>,
            if pss_has_handle src then source_cancel (pss_id src) s else s))"

definition py_stream_source_repr :: "py_stream_source \<Rightarrow> string" where
  "py_stream_source_repr src =
     (if pss_closed src then ''<PyStreamSource (closed)>'' else ''<PyStreamSource id='' @ show_word (pss_id src) @ ''>'')"

definition source_finalizer :: "u32 \<Rightarrow> bool \<times> py_session \<Rightarrow> bool \<times> py_session" where
  "source_finalizer i x = (case x of (armed, s) \<Rightarrow> (False, if armed then source_cancel i s else s))"

text \<open>
  A cancellation that was spawned runs on the registry of the runtime, in any order; the registry tells
  the handle when it removes the stream.
\<close>

definition run_spawned_cancel :: "'w py_calls \<Rightarrow> u32 \<Rightarrow> py_session \<times> 'w \<Rightarrow> py_session \<times> 'w" where
  "run_spawned_cancel pc i x =
     (case x of (s, w) \<Rightarrow>
      if i \<notin> set (ps_cancels s) then (s, w)
      else
        let h = ps_handle s;
            r = h_registry h
        in case cancel pc i (r, w) of
             (_, (r', w')) \<Rightarrow>
               (s\<lparr>ps_cancels := remove1 i (ps_cancels s),
                  ps_handle := (if i \<in> dom (psr_entries r) then untrack_py_stream_id i h else h)\<lparr>h_registry := r'\<rparr>\<rparr>, w'))"

end
