(* ===== verification/Peno_PyBridge.thy ===== *)
theory Peno_PyBridge
  imports Peno_PyBindings
begin

text \<open>
  \<open>src/runtime/python/bridge.rs\<close>: how a future of the runtime thread settles an \<open>asyncio\<close> future.
  The done callback, the Tokio task and the result setter run on different threads; each is one step on
  the record \<open>js_bridge\<close>, which holds what they share.
\<close>

section \<open>The shared state\<close>

datatype py_future = FutPending | FutCancelled | FutResult py_val | FutException py_exc

definition future_done :: "py_future \<Rightarrow> bool" where
  "future_done f \<longleftrightarrow> f \<noteq> FutPending"

definition python_future_cancelled :: "py_future \<Rightarrow> bool" where
  "python_future_cancelled f \<longleftrightarrow> f = FutCancelled"

text \<open>
  \<open>jb_cancel_tx\<close>: the callback still holds its sender; \<open>jb_cancel_sent\<close>: the message is in the channel;
  \<open>jb_running\<close>: the task is in its \<open>select!\<close>; \<open>jb_setter\<close>: the setter is scheduled on the event loop;
  \<open>jb_outcome\<close>: the outcome it still holds.
\<close>

record js_bridge =
  jb_future :: py_future
  jb_cancel_tx :: bool
  jb_cancel_sent :: bool
  jb_running :: bool
  jb_setter :: bool
  jb_outcome :: "(runtime_error + js_value) option"

definition bridge_js_future :: js_bridge where
  "bridge_js_future =
     \<lparr>jb_future = FutPending, jb_cancel_tx = True, jb_cancel_sent = False, jb_running = True, jb_setter = False,
      jb_outcome = None\<rparr>"

section \<open>What runs\<close>

text \<open>The first poll of the task's future sends the request.\<close>

fun run_request :: "thread_answers \<Rightarrow> async_request \<Rightarrow> runtime_handle \<Rightarrow> js_value outcome" where
  "run_request ta (ReqEval code timeout locals) =
     asking (ta_value ta) (\<lambda>e. h_eval_async e code timeout (Some locals))"
| "run_request ta (ReqEvalModule specifier timeout locals) =
     asking (ta_value ta) (\<lambda>e. h_eval_module_async e specifier timeout (Some locals))"
| "run_request ta (ReqCall fn_id args timeout locals) =
     asking (ta_value ta) (\<lambda>e. h_call_function_async e fn_id args timeout (Some locals))"
| "run_request ta (ReqResume call_id locals) =
     asking (ta_value ta) (\<lambda>e. h_resume_function_call e call_id (Some locals))"

text \<open>\<open>JsAsyncCancelCallback::__call__\<close>\<close>

definition cancel_callback :: "js_bridge \<Rightarrow> js_bridge" where
  "cancel_callback b =
     (if python_future_cancelled (jb_future b) \<and> jb_cancel_tx b
      then b\<lparr>jb_cancel_tx := False, jb_cancel_sent := True\<rparr> else b)"

text \<open>\<open>loop_says\<close>: what \<open>call_soon_threadsafe\<close> does.\<close>

definition schedule_js_future_result ::
  "py_exc + unit \<Rightarrow> runtime_error + js_value \<Rightarrow> js_bridge \<Rightarrow> (py_exc + unit) \<times> js_bridge" where
  "schedule_js_future_result loop_says result b =
     (case loop_says of
        Inl e \<Rightarrow> (Inl e, b)
      | Inr _ \<Rightarrow> (Inr (), b\<lparr>jb_setter := True, jb_outcome := Some result\<rparr>))"

definition set_future_exception_immediate :: "py_exc \<Rightarrow> js_bridge \<Rightarrow> js_bridge" where
  "set_future_exception_immediate e b =
     (if future_done (jb_future b) then b else b\<lparr>jb_future := FutException e\<rparr>)"

text \<open>The two ways the \<open>select!\<close> ends.\<close>

definition task_settles :: "py_exc + unit \<Rightarrow> runtime_error + js_value \<Rightarrow> js_bridge \<Rightarrow> js_bridge" where
  "task_settles loop_says result b =
     (case schedule_js_future_result loop_says result (b\<lparr>jb_running := False\<rparr>) of
        (Inl e, b') \<Rightarrow> set_future_exception_immediate e b'
      | (Inr _, b') \<Rightarrow> b')"

definition task_aborts :: "js_bridge \<Rightarrow> js_bridge" where
  "task_aborts b = b\<lparr>jb_running := False\<rparr>"

text \<open>
  \<open>JsAsyncResultSetter::__call__\<close>, run by the event loop, which only logs an exception that it raises.
\<close>

definition run_setter ::
  "py_host \<Rightarrow> string \<Rightarrow> js_bridge \<Rightarrow> py_session \<Rightarrow> ((py_exc + unit) \<times> js_bridge \<times> py_session) option" where
  "run_setter py context b s =
     (if future_done (jb_future b) \<or> python_future_cancelled (jb_future b)
      then Some (Inr (), b\<lparr>jb_setter := False\<rparr>, s)
      else
        let b' = b\<lparr>jb_setter := False, jb_outcome := None\<rparr>
        in case jb_outcome b of
             None \<Rightarrow> Some (Inl (PyOther ''PanicException'' ''JsAsyncResultSetter invoked more than once''), b', s)
           | Some (Inl err) \<Rightarrow>
               Some (Inr (), b'\<lparr>jb_future := FutException (runtime_error_with_context context err)\<rparr>, s)
           | Some (Inr v) \<Rightarrow>
               (case to_python py v s of
                  None \<Rightarrow> None
                | Some (Inl e, s') \<Rightarrow> Some (Inl e, b', s')
                | Some (Inr x, s') \<Rightarrow> Some (Inr (), b'\<lparr>jb_future := FutResult x\<rparr>, s')))"

text \<open>
  One step of the world: the host cancels the awaiting task, the callback, the task or the setter runs, or
  something else changes the session.
\<close>

inductive bridge_step ::
  "py_host \<Rightarrow> string \<Rightarrow> js_bridge \<times> py_session \<Rightarrow> js_bridge \<times> py_session \<Rightarrow> bool" for py ctx where
  cancelled: "\<not> future_done (jb_future b) \<Longrightarrow> bridge_step py ctx (b, s) (b\<lparr>jb_future := FutCancelled\<rparr>, s)"
| callback: "future_done (jb_future b) \<Longrightarrow> bridge_step py ctx (b, s) (cancel_callback b, s)"
| settled: "jb_running b \<Longrightarrow> bridge_step py ctx (b, s) (task_settles loop_says result b, s)"
| aborted: "jb_running b \<Longrightarrow> jb_cancel_sent b \<Longrightarrow> bridge_step py ctx (b, s) (task_aborts b, s)"
| setter: "jb_setter b \<Longrightarrow> run_setter py ctx b s = Some (r, b', s') \<Longrightarrow> bridge_step py ctx (b, s) (b', s')"
| elsewhere: "bridge_step py ctx (b, s) (b, s')"

inductive_cases bridge_stepE: "bridge_step py ctx x y"

text \<open>The run in which nobody cancels and the event loop is open.\<close>

definition await_bridge ::
  "py_host \<Rightarrow> thread_answers \<Rightarrow> async_request \<Rightarrow> string \<Rightarrow> py_session \<Rightarrow> (js_bridge \<times> py_session) option" where
  "await_bridge py ta req context s =
     (case run_request ta req (ps_handle s) of
        None \<Rightarrow> None
      | Some (result, h) \<Rightarrow>
          map_option snd
            (run_setter py context (task_settles (Inr ()) result bridge_js_future) (s\<lparr>ps_handle := h\<rparr>)))"

definition future_result :: "py_future \<Rightarrow> (py_exc + py_val) option" where
  "future_result f =
     (case f of FutResult x \<Rightarrow> Some (Inr x) | FutException e \<Rightarrow> Some (Inl e) | _ \<Rightarrow> None)"

end
