(* ===== verification/Peno_PyLaws.thy ===== *)
theory Peno_PyLaws
  imports Peno_PyBridge Peno_HandleLaws Peno_ConvTrip "HOL-Library.Sublist"
begin

text \<open>
  What the Python classes promise: a closed \<open>Runtime\<close> refuses everything and leaves nothing tracked, an
  op is callable only after its binding, the arguments of a call share one budget, a stream is cancelled
  at most once, and an \<open>asyncio\<close> future is settled at most once.
\<close>

section \<open>Sessions\<close>

lemma pbind_simps [simp]:
  "pbind (pret a) f = f a" "pbind (praise e) f = praise e" "pbind (plift (Inr a)) f = f a"
  "pbind (plift (Inl e)) f = praise e"
  by (simp_all add: fun_eq_iff pbind_def pret_def praise_def plift_def)

lemma pbind_Some:
  "pbind m f s = Some (r, s') \<longleftrightarrow>
     (\<exists>e. m s = Some (Inl e, s') \<and> r = Inl e) \<or> (\<exists>a s1. m s = Some (Inr a, s1) \<and> f a s1 = Some (r, s'))"
  by (auto simp: pbind_def split: option.splits sum.splits)

lemma borrow_open [simp]: "ps_open s \<Longrightarrow> borrow_handle s = Some (Inr (), s)"
  by (simp add: borrow_handle_def pret_def)

lemma borrow_closed:
  "\<not> ps_open s \<Longrightarrow> pbind borrow_handle f s = Some (Inl (PyRuntimeError ''Runtime has been closed''), s)"
  by (simp add: pbind_def borrow_handle_def praise_def)

lemma pbind_borrow [simp]: "ps_open s \<Longrightarrow> pbind borrow_handle f s = f () s"
  by (simp add: pbind_def)

lemma on_handle_Some:
  "on_handle ctx m s = Some (r, s') \<longleftrightarrow>
     (\<exists>r0 h. m (ps_handle s) = Some (r0, h) \<and> r = map_err (runtime_error_with_context ctx) r0 \<and> s' = s\<lparr>ps_handle := h\<rparr>)"
  by (auto simp: on_handle_def)

lemma plift_Some [simp]: "plift r0 s = Some (r, s') \<longleftrightarrow> r = r0 \<and> s' = s"
  by (auto simp: plift_def)

lemma pret_Some [simp]: "pret a s = Some (r, s') \<longleftrightarrow> r = Inr a \<and> s' = s"
  by (auto simp: pret_def)

lemma map_err_simps [simp]: "map_err f (Inl e) = Inl (f e)" "map_err f (Inr a) = Inr a"
  by (simp_all add: map_err_def)

declare map_err_Inr [simp]

lemma map_err_Inl: "map_err f r = Inl e \<longleftrightarrow> (\<exists>e0. r = Inl e0 \<and> e = f e0)"
  by (cases r) auto

section \<open>What a request changes\<close>

text \<open>A wait touches the termination record and the shutdown flag only.\<close>

definition waits_only :: "(runtime_handle \<Rightarrow> ('r \<times> runtime_handle) option) \<Rightarrow> bool" where
  "waits_only wait \<longleftrightarrow>
     (\<forall>h r h'. wait h = Some (r, h') \<longrightarrow> (\<exists>t b. h' = h\<lparr>h_term := t, h_shutdown := b\<rparr> \<and> (h_shutdown h \<longrightarrow> b)))"

lemma keep_shutdown: "h\<lparr>h_term := t\<rparr> = h\<lparr>h_term := t, h_shutdown := h_shutdown h\<rparr>"
  by simp

lemma waits_only_recv [simp]: "waits_only (recv_result shown env what)" "waits_only (recv_unbounded env lost)"
  unfolding waits_only_def recv_result_def recv_unbounded_def
  by (auto split: option.splits wait_end.splits intro: keep_shutdown)

lemma ask_effect:
  assumes "waits_only wait" "ask_runtime wait cmd name h = Some (r, h')"
  shows "(\<exists>e. r = Inl e \<and> h' = h)
    \<or> (\<exists>t b. h' = (post cmd h)\<lparr>h_term := t, h_shutdown := b\<rparr> \<and> (h_shutdown h \<longrightarrow> b))"
proof (cases "handle_dead h \<or> \<not> h_open h")
  case True
  then show ?thesis
    using assms(2) by (cases "handle_dead h") (auto simp: ask_runtime_def sender_dead sender_alive)
next
  case False
  then obtain r0 where "wait (post cmd h) = Some (r0, h')"
    using assms(2) by (auto simp: ask_runtime_def sender_alive)
  then have "\<exists>t b. h' = (post cmd h)\<lparr>h_term := t, h_shutdown := b\<rparr> \<and> (h_shutdown (post cmd h) \<longrightarrow> b)"
    using assms(1) unfolding waits_only_def by blast
  then show ?thesis by (simp add: post_def)
qed

text \<open>The runtime thread is there and nobody has asked it to stop; nobody does so while a request waits.\<close>

definition running :: "runtime_handle \<Rightarrow> bool" where
  "running h \<longleftrightarrow> \<not> handle_dead h \<and> h_open h"

definition calm :: "'a wait_env \<Rightarrow> bool" where
  "calm env \<longleftrightarrow> (\<forall>k. \<not> is_requested (we_term env k))"

lemma running_up [simp]: "running h \<Longrightarrow> \<not> is_shutdown_handle h"
  by (auto simp: running_def handle_dead_def is_shutdown_handle_def terminated_requested)

lemma calm_recv:
  assumes "calm env"
    and "recv_result shown env what h = Some (r, h') \<or> recv_unbounded env lost h = Some (r, h')"
  shows "\<exists>k. h' = h\<lparr>h_term := we_term env k\<rparr>"
proof -
  have sliced: "recv_sliced g env None 0 \<noteq> Some (Killed, k)" for g k
    using assms(1) killed_unanswered [of g env None 0 k] by (auto simp: calm_def waited_def unanswered_def)
  have same: "\<exists>k. h\<lparr>h_term := we_term env b\<rparr> = h\<lparr>h_term := we_term env k\<rparr>" for b
    by (rule exI) (rule refl)
  show ?thesis
    using assms(2) same
    by (auto simp: recv_result_def recv_unbounded_def sliced plain_not_killed split: option.splits wait_end.splits)
qed

lemma calm_ask:
  assumes "calm env" "running h"
    and "ask_runtime (recv_result shown env what) cmd name h = Some (r, h')
       \<or> ask_runtime (recv_unbounded env lost) cmd name h = Some (r, h')"
  shows "\<exists>k. h' = (post cmd h)\<lparr>h_term := we_term env k\<rparr>"
proof -
  obtain r0 where "recv_result shown env what (post cmd h) = Some (r0, h') \<or> recv_unbounded env lost (post cmd h) = Some (r0, h')"
    using assms(2,3) by (auto simp: running_def sender_alive ask_runtime_def)
  then show ?thesis by (rule calm_recv [OF assms(1)])
qed

lemma calm_running [simp]: "calm env \<Longrightarrow> running h \<Longrightarrow> running ((post cmd h)\<lparr>h_term := we_term env k\<rparr>)"
  by (auto simp: running_def handle_dead_def calm_def post_def)

section \<open>Closing\<close>

fun stream_release_of :: "runtime_command \<Rightarrow> u32 list" where
  "stream_release_of (CmdStreamRelease i _) = [i]"
| "stream_release_of _ = []"

fun function_release_of :: "runtime_command \<Rightarrow> u32 list" where
  "function_release_of (CmdReleaseFunction i _) = [i]"
| "function_release_of _ = []"

text \<open>One turn of either loop: at most one release, and no id is added.\<close>

lemma stream_release_effect:
  assumes "h_stream_release shown env i h = Some (r, h')"
  shows "(\<exists>new. h_sent h' = h_sent h @ new \<and> (new = [] \<or> new = [CmdStreamRelease i (h_next h)]))
    \<and> h_js_streams h' \<subseteq> h_js_streams h \<and> h_functions h' = h_functions h \<and> h_py_streams h' = h_py_streams h
    \<and> h_tx h' = h_tx h"
proof -
  obtain r0 h0 where ask: "ask_runtime (recv_result shown env ''stream_release'') (CmdStreamRelease i) ''stream_release'' h
      = Some (r0, h0)" and h': "h' = h0 \<or> h' = untrack_js_stream_id i h0"
    using assms by (auto simp: h_stream_release_def untracking_def split: option.splits sum.splits)
  from ask_effect [OF _ ask] h' show ?thesis
    by (auto simp: untrack_js_stream_id_def post_def)
qed

lemma function_release_effect:
  assumes "h_release_function env i h = Some (r, h')"
  shows "(\<exists>new. h_sent h' = h_sent h @ new \<and> (new = [] \<or> new = [CmdReleaseFunction i (h_next h)]))
    \<and> h_js_streams h' = h_js_streams h \<and> h_functions h' = h_functions h \<and> h_py_streams h' = h_py_streams h
    \<and> h_tx h' = h_tx h"
  using ask_effect [OF _ assms [unfolded h_release_function_def]] by (auto simp: post_def)

text \<open>What a loop of releases leaves behind.\<close>

definition released ::
  "(runtime_command \<Rightarrow> u32 list) \<Rightarrow> u32 list \<Rightarrow> runtime_handle \<Rightarrow> runtime_handle \<Rightarrow> runtime_command list \<Rightarrow> bool" where
  "released of_cmd ids h h' new \<longleftrightarrow>
     h_sent h' = h_sent h @ new \<and> (\<forall>cmd\<in>set new. of_cmd cmd \<noteq> []) \<and> subseq (concat (map of_cmd new)) ids
     \<and> h_js_streams h' \<subseteq> h_js_streams h \<and> h_functions h' = h_functions h \<and> h_py_streams h' = h_py_streams h
     \<and> h_tx h' = h_tx h"

lemma released_Nil [simp]: "released of_cmd [] h h []"
  by (simp add: released_def)

lemma released_stop: "released of_cmd ids h h []"
  by (simp add: released_def)

lemma released_Cons:
  assumes "released of_cmd ids h1 h' new" "h_sent h1 = h_sent h @ first" "first = [] \<or> first = [cmd]" "of_cmd cmd = [i]"
    and "h_js_streams h1 \<subseteq> h_js_streams h" "h_functions h1 = h_functions h" "h_py_streams h1 = h_py_streams h"
      "h_tx h1 = h_tx h"
  shows "released of_cmd (i # ids) h h' (first @ new)"
  using assms unfolding released_def by auto

lemma release_js_streams_effect:
  "release_js_streams ta ids h = Some h' \<Longrightarrow> \<exists>new. released stream_release_of ids h h' new"
proof (induction ids arbitrary: h)
  case (Cons i ids)
  show ?case
  proof (cases "is_shutdown_handle h")
    case False
    with Cons.prems obtain r h1 where one: "h_stream_release (ta_shown ta) (ta_unit ta (h_next h)) i h = Some (r, h1)"
      and rest: "release_js_streams ta ids h1 = Some h'"
      by (auto simp: asking_def split: option.splits)
    obtain new where "released stream_release_of ids h1 h' new"
      using Cons.IH [OF rest] by auto
    then show ?thesis
      using stream_release_effect [OF one] released_Cons [where of_cmd = stream_release_of and cmd = "CmdStreamRelease i (h_next h)"]
      by (fastforce)
  qed (use Cons.prems released_stop in auto)
qed (auto intro: released_stop)

lemma release_functions_effect:
  "release_functions ta ids h = Some h' \<Longrightarrow> \<exists>new. released function_release_of ids h h' new"
proof (induction ids arbitrary: h)
  case (Cons i ids)
  show ?case
  proof (cases "is_shutdown_handle h")
    case False
    with Cons.prems obtain r h1 where one: "h_release_function (ta_unit ta (h_next h)) i h = Some (r, h1)"
      and rest: "release_functions ta ids h1 = Some h'"
      by (auto simp: asking_def split: option.splits)
    obtain new where "released function_release_of ids h1 h' new"
      using Cons.IH [OF rest] by auto
    then show ?thesis
      using function_release_effect [OF one] released_Cons [where of_cmd = function_release_of and cmd = "CmdReleaseFunction i (h_next h)"]
      by (fastforce)
  qed (use Cons.prems released_stop in auto)
qed (auto intro: released_stop)

text \<open>A runtime that stays up gets every release.\<close>

lemma stream_release_calm:
  assumes "calm env" "running h" "h_stream_release shown env i h = Some (r, h')"
  shows "running h' \<and> h_sent h' = h_sent h @ [CmdStreamRelease i (h_next h)]"
proof -
  obtain r0 h0 where ask: "ask_runtime (recv_result shown env ''stream_release'') (CmdStreamRelease i) ''stream_release'' h
      = Some (r0, h0)" and h': "h' = h0 \<or> h' = untrack_js_stream_id i h0"
    using assms(3) by (auto simp: h_stream_release_def untracking_def split: option.splits sum.splits)
  obtain k where h0: "h0 = (post (CmdStreamRelease i) h)\<lparr>h_term := we_term env k\<rparr>"
    using calm_ask [OF assms(1,2)] ask by blast
  have "running h0"
    unfolding h0 by (rule calm_running [OF assms(1,2)])
  then have "running h'"
    using h' by (auto simp: untrack_js_stream_id_def running_def handle_dead_def)
  then show ?thesis
    using h' h0 by (auto simp: untrack_js_stream_id_def post_def)
qed

lemma function_release_calm:
  assumes "calm env" "running h" "h_release_function env i h = Some (r, h')"
  shows "running h' \<and> h_sent h' = h_sent h @ [CmdReleaseFunction i (h_next h)]"
proof -
  obtain k where h': "h' = (post (CmdReleaseFunction i) h)\<lparr>h_term := we_term env k\<rparr>"
    using calm_ask [OF assms(1,2)] assms(3) unfolding h_release_function_def by blast
  moreover have "running h'"
    unfolding h' by (rule calm_running [OF assms(1,2)])
  ultimately show ?thesis
    by (simp add: post_def)
qed

lemma release_js_streams_calm:
  "release_js_streams ta ids h = Some h' \<Longrightarrow> (\<And>n. calm (ta_unit ta n)) \<Longrightarrow> running h \<Longrightarrow>
   running h' \<and> (\<exists>new. h_sent h' = h_sent h @ new \<and> concat (map stream_release_of new) = ids)"
proof (induction ids arbitrary: h)
  case (Cons i ids)
  then obtain r h1 where one: "h_stream_release (ta_shown ta) (ta_unit ta (h_next h)) i h = Some (r, h1)"
    and rest: "release_js_streams ta ids h1 = Some h'"
    by (auto simp: asking_def split: option.splits)
  have h1: "running h1" "h_sent h1 = h_sent h @ [CmdStreamRelease i (h_next h)]"
    using stream_release_calm [OF Cons.prems(2,3) one] by auto
  obtain new where "running h'" "h_sent h' = h_sent h1 @ new" "concat (map stream_release_of new) = ids"
    using Cons.IH [OF rest Cons.prems(2) h1(1)] by auto
  then have "running h' \<and> h_sent h' = h_sent h @ (CmdStreamRelease i (h_next h) # new)
      \<and> concat (map stream_release_of (CmdStreamRelease i (h_next h) # new)) = i # ids"
    using h1(2) by simp
  then show ?case by blast
qed auto

lemma release_functions_calm:
  "release_functions ta ids h = Some h' \<Longrightarrow> (\<And>n. calm (ta_unit ta n)) \<Longrightarrow> running h \<Longrightarrow>
   running h' \<and> (\<exists>new. h_sent h' = h_sent h @ new \<and> concat (map function_release_of new) = ids)"
proof (induction ids arbitrary: h)
  case (Cons i ids)
  then obtain r h1 where one: "h_release_function (ta_unit ta (h_next h)) i h = Some (r, h1)"
    and rest: "release_functions ta ids h1 = Some h'"
    by (auto simp: asking_def split: option.splits)
  have h1: "running h1" "h_sent h1 = h_sent h @ [CmdReleaseFunction i (h_next h)]"
    using function_release_calm [OF Cons.prems(2,3) one] by auto
  obtain new where "running h'" "h_sent h' = h_sent h1 @ new" "concat (map function_release_of new) = ids"
    using Cons.IH [OF rest Cons.prems(2) h1(1)] by auto
  then have "running h' \<and> h_sent h' = h_sent h @ (CmdReleaseFunction i (h_next h) # new)
      \<and> concat (map function_release_of (CmdReleaseFunction i (h_next h) # new)) = i # ids"
    using h1(2) by simp
  then show ?case by blast
qed auto

lemma running_tables [simp]:
  "running (h\<lparr>h_functions := A\<rparr>) = running h" "running (h\<lparr>h_js_streams := A\<rparr>) = running h"
  "running (h\<lparr>h_py_streams := A\<rparr>) = running h"
  by (simp_all add: running_def handle_dead_def)

lemma cancel_py_streams_effect [simp]:
  "h_sent (cancel_py_streams ids h) = h_sent h" "h_functions (cancel_py_streams ids h) = h_functions h"
  "h_js_streams (cancel_py_streams ids h) = h_js_streams h" "h_py_streams (cancel_py_streams ids h) = h_py_streams h - set ids"
  "running (cancel_py_streams ids h) = running h"
  by (induction ids arbitrary: h) (auto simp: untrack_py_stream_id_def running_def handle_dead_def)

lemma close_effect:
  assumes "h_close env h = Some (r, h')"
  shows "\<exists>new. h_sent h' = h_sent h @ new \<and> (new = [] \<or> new = [CmdShutdown (h_next h)]) \<and> (running h \<longrightarrow> new \<noteq> [])
    \<and> h_js_streams h' = h_js_streams h \<and> h_functions h' = h_functions h \<and> h_py_streams h' = h_py_streams h"
proof (cases "running h")
  case True
  then have up: "\<not> h_shutdown h" "\<not> is_requested (h_term h)" "\<not> is_terminated (h_term h)" "h_tx h" "h_open h"
    by (auto simp: running_def handle_dead_def terminated_requested)
  obtain r0 h0 where wait: "recv_unbounded env ''Failed to confirm runtime shutdown'' (post CmdShutdown (h\<lparr>h_tx := False\<rparr>))
      = Some (r0, h0)"
    using assms by (auto simp: h_close_def up split: option.splits)
  then obtain t b where "h0 = (post CmdShutdown (h\<lparr>h_tx := False\<rparr>))\<lparr>h_term := t, h_shutdown := b\<rparr>"
    using waits_only_recv(2) unfolding waits_only_def by blast
  moreover have "h' = h0 \<or> h' = h0\<lparr>h_shutdown := True\<rparr>"
    using assms wait by (auto simp: h_close_def up split: sum.splits)
  ultimately show ?thesis by (auto simp: post_def)
next
  case False
  then show ?thesis
    using assms by (auto simp: h_close_def running_def handle_dead_def split: if_splits)
qed

lemma close_shuts:
  "h_close env h = Some (Inr (), h') \<Longrightarrow> h_tx h \<Longrightarrow> is_shutdown_handle (h'\<lparr>h_tx := b\<rparr>)"
  by (auto simp: h_close_def is_shutdown_handle_def split: if_splits option.splits sum.splits)

text \<open>The phases of \<open>close_blocking\<close>.\<close>

lemma py_close_phases:
  assumes "py_close ta s = Some (r, s')" "ps_open s"
  obtains h2 h6 h7 r0 where
    "release_js_streams ta (ta_order ta (h_js_streams (ps_handle s))) ((ps_handle s)\<lparr>h_js_streams := {}\<rparr>) = Some h2"
    "release_functions ta (ta_order ta (h_functions h2))
       ((cancel_py_streams (ta_order ta (h_py_streams h2)) (h2\<lparr>h_py_streams := {}\<rparr>))\<lparr>h_functions := {}\<rparr>) = Some h6"
    "h_close (ta_close ta (h_next h6)) h6 = Some (r0, h7)"
    "r = map_err (runtime_error_with_context ''Shutdown failed'') r0"
    "s' = s\<lparr>ps_open := False, ps_handle := h7\<lparr>h_tx := h_tx (ps_handle s)\<rparr>,
       ps_cancels := ps_cancels s @ ta_order ta (h_py_streams h2)\<rparr>"
  using assms that
  by (auto simp: py_close_def close_blocking_def drain_tracked_js_stream_ids_def drain_tracked_py_stream_ids_def
      drain_tracked_function_ids_def Let_def split: option.splits)

lemma concat_other:
  "(\<And>cmd. cmd \<in> set cmds \<Longrightarrow> f cmd = []) \<Longrightarrow> concat (map f cmds) = []"
  by simp

lemma release_kinds:
  "stream_release_of cmd \<noteq> [] \<Longrightarrow> function_release_of cmd = []"
  "function_release_of cmd \<noteq> [] \<Longrightarrow> stream_release_of cmd = []"
  by (cases cmd; simp)+

lemma close_sends:
  assumes "py_close ta s = Some (r, s')" "ps_open s"
  shows "\<exists>js fns end n. h_sent (ps_handle s') = h_sent (ps_handle s) @ js @ fns @ end
    \<and> (\<forall>cmd\<in>set js. stream_release_of cmd \<noteq> []) \<and> (\<forall>cmd\<in>set fns. function_release_of cmd \<noteq> [])
    \<and> (end = [] \<or> end = [CmdShutdown n])
    \<and> subseq (concat (map stream_release_of js)) (ta_order ta (h_js_streams (ps_handle s)))
    \<and> subseq (concat (map function_release_of fns)) (ta_order ta (h_functions (ps_handle s)))
    \<and> ((\<forall>n. calm (ta_unit ta n)) \<longrightarrow> running (ps_handle s) \<longrightarrow> end \<noteq> []
         \<and> concat (map stream_release_of js) = ta_order ta (h_js_streams (ps_handle s))
         \<and> concat (map function_release_of fns) = ta_order ta (h_functions (ps_handle s)))
    \<and> h_functions (ps_handle s') = {} \<and> h_js_streams (ps_handle s') = {} \<and> h_py_streams (ps_handle s') = {}
    \<and> ps_cancels s' = ps_cancels s @ ta_order ta (h_py_streams (ps_handle s))"
proof (rule py_close_phases [OF assms])
  fix h2 h6 h7 r0
  let ?h = "ps_handle s" and ?drained = "(ps_handle s)\<lparr>h_js_streams := {}\<rparr>"
  let ?idle = "(cancel_py_streams (ta_order ta (h_py_streams h2)) (h2\<lparr>h_py_streams := {}\<rparr>))\<lparr>h_functions := {}\<rparr>"
  assume js: "release_js_streams ta (ta_order ta (h_js_streams ?h)) ?drained = Some h2"
    and fns: "release_functions ta (ta_order ta (h_functions h2)) ?idle = Some h6"
    and close: "h_close (ta_close ta (h_next h6)) h6 = Some (r0, h7)"
    and s': "s' = s\<lparr>ps_open := False, ps_handle := h7\<lparr>h_tx := h_tx ?h\<rparr>, ps_cancels := ps_cancels s @ ta_order ta (h_py_streams h2)\<rparr>"
  obtain new1 where new1: "released stream_release_of (ta_order ta (h_js_streams ?h)) ?drained h2 new1"
    using release_js_streams_effect [OF js] by auto
  obtain new2 where new2: "released function_release_of (ta_order ta (h_functions h2)) ?idle h6 new2"
    using release_functions_effect [OF fns] by auto
  obtain new3 where new3: "h_sent h7 = h_sent h6 @ new3" "new3 = [] \<or> new3 = [CmdShutdown (h_next h6)]" "running h6 \<longrightarrow> new3 \<noteq> []"
      "h_js_streams h7 = h_js_streams h6" "h_functions h7 = h_functions h6" "h_py_streams h7 = h_py_streams h6"
    using close_effect [OF close] by auto
  have tables: "h_functions h2 = h_functions ?h" "h_py_streams h2 = h_py_streams ?h"
    using new1 by (simp_all add: released_def)
  have up: "running ?drained = running ?h" "running ?idle = running h2"
    by simp_all
  have calm: "concat (map stream_release_of new1) = ta_order ta (h_js_streams ?h) \<and> running h2"
    if "\<forall>n. calm (ta_unit ta n)" "running ?h"
    using release_js_streams_calm [OF js] that new1 up(1) by (auto simp: released_def)
  have calm2: "concat (map function_release_of new2) = ta_order ta (h_functions h2) \<and> running h6"
    if "\<forall>n. calm (ta_unit ta n)" "running h2"
    using release_functions_calm [OF fns] that new2 up(2) by (auto simp: released_def)
  have "h_sent (ps_handle s') = h_sent ?h @ new1 @ new2 @ new3"
    using new1 new2 new3(1) unfolding s' by (simp add: released_def)
  moreover have "\<forall>cmd\<in>set new1. stream_release_of cmd \<noteq> []" "\<forall>cmd\<in>set new2. function_release_of cmd \<noteq> []"
      "subseq (concat (map stream_release_of new1)) (ta_order ta (h_js_streams ?h))"
      "subseq (concat (map function_release_of new2)) (ta_order ta (h_functions ?h))"
    using new1 new2 tables by (simp_all add: released_def)
  moreover have "h_js_streams h2 = {}"
    using new1 by (simp add: released_def)
  then have "h_functions (ps_handle s') = {}" "h_js_streams (ps_handle s') = {}"
    using new2 new3(4,5) unfolding s' by (simp_all add: released_def)
  moreover have "h_py_streams (ps_handle s') = {}" "ps_cancels s' = ps_cancels s @ ta_order ta (h_py_streams ?h)"
    using new2 new3(6) tables unfolding s' by (simp_all add: released_def)
  moreover have "(\<forall>n. calm (ta_unit ta n)) \<longrightarrow> running ?h \<longrightarrow> new3 \<noteq> []
       \<and> concat (map stream_release_of new1) = ta_order ta (h_js_streams ?h)
       \<and> concat (map function_release_of new2) = ta_order ta (h_functions ?h)"
    using calm calm2 new3(3) tables by simp
  ultimately show ?thesis
    using new3(2) by blast
qed

section \<open>Binding\<close>

lemma on_handle_effect:
  assumes "on_handle ctx (asking envs (\<lambda>e. ask_runtime (wait e) cmd name)) s = Some (r, s')" "\<And>e. waits_only (wait e)"
  shows "\<exists>new. h_sent (ps_handle s') = h_sent (ps_handle s) @ new \<and> (new = [] \<or> new = [cmd (h_next (ps_handle s))])
    \<and> (\<forall>a. r = Inr a \<longrightarrow> new \<noteq> []) \<and> ps_open s' = ps_open s \<and> h_limits (ps_handle s') = h_limits (ps_handle s)"
proof -
  obtain r0 h where ask: "ask_runtime (wait (envs (h_next (ps_handle s)))) cmd name (ps_handle s) = Some (r0, h)"
    and r: "r = map_err (runtime_error_with_context ctx) r0" "s' = s\<lparr>ps_handle := h\<rparr>"
    using assms(1) by (auto simp: on_handle_Some asking_def)
  from ask_effect [OF assms(2) ask] r show ?thesis
    by (auto simp: post_def)
qed

lemma to_python_effect:
  assumes "to_python py v s = Some (r, s')"
  shows "h_sent (ps_handle s') = h_sent (ps_handle s)" "h_next (ps_handle s') = h_next (ps_handle s)" "ps_open s' = ps_open s"
  using assms by (auto simp: to_python_def split: prod.splits)

lemma py_eval_effect:
  assumes "py_eval py ta code s = Some (r, s')" "ps_open s"
  shows "\<exists>new. h_sent (ps_handle s') = h_sent (ps_handle s) @ new \<and> (new = [] \<or> new = [CmdEval code (h_next (ps_handle s))])
    \<and> (\<forall>a. r = Inr a \<longrightarrow> new \<noteq> []) \<and> ps_open s' = ps_open s"
  using assms
  by (auto simp: py_eval_def h_eval_sync_def pbind_Some to_python_effect dest!: on_handle_effect)

lemma register_with_effect:
  assumes "register_with ta name m handler s = Some (r, s')"
  shows "\<exists>new. h_sent (ps_handle s') = h_sent (ps_handle s) @ new
    \<and> (new = [] \<or> new = [CmdRegisterPythonOp name m handler (h_next (ps_handle s))])
    \<and> (\<forall>a. r = Inr a \<longrightarrow> new \<noteq> []) \<and> ps_open s' = ps_open s"
  using on_handle_effect [OF assms [unfolded register_with_def h_register_op_def]] by auto

lemma expose_with_effect:
  assumes "expose_with ta ctx tok flag s = Some (r, s')"
  shows "\<exists>new. h_sent (ps_handle s') = h_sent (ps_handle s) @ new
    \<and> (new = [] \<or> new = [CmdSetPythonOpExposure tok flag (h_next (ps_handle s))])
    \<and> (\<forall>a. r = Inr a \<longrightarrow> new \<noteq> []) \<and> ps_open s' = ps_open s"
  using on_handle_effect [OF assms [unfolded expose_with_def h_set_op_exposure_def]] by auto

fun exposes :: "runtime_command \<Rightarrow> bool" where
  "exposes (CmdSetPythonOpExposure _ flag _) = flag"
| "exposes _ = False"

section \<open>The budget of a call\<close>

lemma tracked_fits:
  assumes "tracker_wf t" "python_to_js_value_tracked env heap obj t = (Inr v, t')"
  shows "fits (js_weight True (big_len env) v) (js_height True v) t t'"
proof -
  obtain seen where "py_to_js env heap (Suc (max_depth t - current_depth t)) obj (t, {}) = (Inr v, (t', seen))"
    using assms(2) by (auto simp: python_to_js_value_tracked_def split: prod.splits)
  then show ?thesis
    using py_to_js_fits [OF assms(1)] by blast
qed

lemma tracked_args_fit:
  "smap (python_to_js_value_tracked env heap) args t = (Inr vs, t') \<Longrightarrow> tracker_wf t \<Longrightarrow>
   charges (sum_list (map (js_weight True (big_len env)) vs)) t t'
   \<and> (\<forall>v\<in>set vs. current_depth t + js_height True v \<le> max_depth t)"
proof (induction args arbitrary: t vs)
  case (Cons a args)
  from Cons.prems(1) obtain v t1 ws where one: "python_to_js_value_tracked env heap a t = (Inr v, t1)"
    and rest: "smap (python_to_js_value_tracked env heap) args t1 = (Inr ws, t')" and vs: "vs = v # ws"
    by (auto simp: sbind_Inr)
  have f: "fits (js_weight True (big_len env) v) (js_height True v) t t1"
    by (rule tracked_fits [OF Cons.prems(2) one])
  then have "tracker_wf t1"
    using Cons.prems(2) charges_wf by (auto simp: fits_def)
  then have "charges (sum_list (map (js_weight True (big_len env)) ws)) t1 t'
      \<and> (\<forall>v\<in>set ws. current_depth t1 + js_height True v \<le> max_depth t1)"
    by (rule Cons.IH [OF rest])
  then show ?case
    using f vs charges_trans by (auto simp: fits_def charges_def meters_def)
qed auto

lemma call_budget:
  assumes "convert_python_args env heap limits args = Inr vs" "lim_depth limits < usize_max" "lim_bytes limits < usize_max"
  shows "sum_list (map (js_weight True (big_len env)) vs) \<le> lim_bytes limits \<and> (\<forall>v\<in>set vs. js_depth v \<le> lim_depth limits)"
proof -
  let ?t = "tracker_new (lim_depth limits) (lim_bytes limits)"
  have "tracker_wf ?t" using assms(2,3) by (simp add: tracker_wf_def tracker_new_def)
  moreover obtain t' where "smap (python_to_js_value_tracked env heap) args ?t = (Inr vs, t')"
    using assms(1) unfolding convert_python_args_def by (metis prod.collapse)
  ultimately show ?thesis
    using tracked_args_fit [of env heap args ?t vs t']
    by (auto simp: charges_def meters_def tracker_new_def js_height_deep)
qed

section \<open>Cancelling a stream\<close>

text \<open>A cancellation is under way only once the stream is closed, and there is at most one.\<close>

definition race_inv :: "stream_race \<Rightarrow> bool" where
  "race_inv r \<longleftrightarrow>
     sr_cancels r + count_list (sr_threads r) AboutToTake \<le> 1
     \<and> (\<not> ss_closed (sr_shared r) \<longrightarrow> sr_cancels r = 0 \<and> AboutToTake \<notin> set (sr_threads r) \<and> AboutToDrop \<notin> set (sr_threads r)
          \<and> ss_handle (sr_shared r))"

lemma count_list_zero: "x \<notin> set xs \<Longrightarrow> count_list xs x = 0"
  by (simp add: count_list_0_iff)

lemma race_step_inv: "race_step r r' \<Longrightarrow> race_inv r \<Longrightarrow> race_inv r'"
  by (induction rule: race_step.induct)
    (auto simp: race_inv_def swap_closed_def take_stream_handle_def count_list_zero)

lemma race_steps_inv: "race_step\<^sup>*\<^sup>* r r' \<Longrightarrow> race_inv r \<Longrightarrow> race_inv r'"
  by (induction rule: rtranclp_induct) (auto intro: race_step_inv)

lemma race_stays_closed: "race_step\<^sup>*\<^sup>* r r' \<Longrightarrow> ss_closed (sr_shared r) \<Longrightarrow> ss_closed (sr_shared r')"
  by (induction rule: rtranclp_induct) (auto elim!: race_stepE simp: swap_closed_def take_stream_handle_def)

lemma race_no_handle:
  "race_step\<^sup>*\<^sup>* r r' \<Longrightarrow> \<not> ss_handle (sr_shared r) \<Longrightarrow> \<not> ss_handle (sr_shared r') \<and> sr_cancels r' = sr_cancels r"
  by (induction rule: rtranclp_induct) (auto elim!: race_stepE simp: swap_closed_def take_stream_handle_def)

section \<open>The bridge\<close>

definition bridge_inv :: "js_bridge \<Rightarrow> bool" where
  "bridge_inv b \<longleftrightarrow> (jb_running b \<longrightarrow> \<not> jb_setter b) \<and> (jb_setter b \<longrightarrow> jb_outcome b \<noteq> None)"

lemma run_setter_effect:
  "run_setter py ctx b s = Some (r, b', s') \<Longrightarrow>
   \<not> jb_setter b' \<and> jb_running b' = jb_running b \<and> (future_done (jb_future b) \<longrightarrow> jb_future b' = jb_future b)"
  by (auto simp: run_setter_def Let_def split: if_splits option.splits sum.splits)

lemma bridge_step_inv: "bridge_step py ctx x y \<Longrightarrow> bridge_inv (fst x) \<Longrightarrow> bridge_inv (fst y)"
  by (induction rule: bridge_step.induct)
    (auto simp: bridge_inv_def cancel_callback_def task_settles_def task_aborts_def schedule_js_future_result_def
      set_future_exception_immediate_def split: sum.splits dest: run_setter_effect)

lemma bridge_step_settled:
  "bridge_step py ctx x y \<Longrightarrow> future_done (jb_future (fst x)) \<Longrightarrow> jb_future (fst y) = jb_future (fst x)"
  by (induction rule: bridge_step.induct)
    (auto simp: cancel_callback_def task_settles_def task_aborts_def schedule_js_future_result_def
      set_future_exception_immediate_def split: sum.splits dest: run_setter_effect)

lemma bridge_steps_inv: "(bridge_step py ctx)\<^sup>*\<^sup>* x y \<Longrightarrow> bridge_inv (fst x) \<Longrightarrow> bridge_inv (fst y)"
  by (induction rule: rtranclp_induct) (auto intro: bridge_step_inv)

lemma bridge_steps_settled:
  "(bridge_step py ctx)\<^sup>*\<^sup>* x y \<Longrightarrow> future_done (jb_future (fst x)) \<Longrightarrow> jb_future (fst y) = jb_future (fst x)"
  by (induction rule: rtranclp_induct) (auto dest: bridge_step_settled)

text \<open>
  A task that has ended and a setter that has run leave nothing that could settle the future: from then
  on it is pending or cancelled.
\<close>

lemma spent_bridge_never_settles:
  assumes "(bridge_step py ctx)\<^sup>*\<^sup>* (b, s) (b', s')" "\<not> jb_running b" "\<not> jb_setter b" "jb_future b = FutPending"
  shows "jb_future b' = FutPending \<or> jb_future b' = FutCancelled"
proof -
  have "\<not> jb_running b' \<and> \<not> jb_setter b' \<and> (jb_future b' = FutPending \<or> jb_future b' = FutCancelled)"
    using assms
  proof (induction rule: rtranclp_induct2)
    case (step b1 s1 b2 s2)
    from step.hyps(2) step.IH [OF step.prems] show ?case
      by (auto elim!: bridge_stepE simp: cancel_callback_def split: if_splits)
  qed simp
  then show ?thesis by simp
qed

text \<open>The answer of the runtime thread, as the two kinds of call receive it.\<close>

lemma recv_plain_both:
  assumes "recv_plain (we_event env) 0 = Some (Answered v, k)"
  shows "recv_unbounded env lost h = Some (Inr v, h\<lparr>h_term := we_term env k\<rparr>)"
    "h_grace h = None \<Longrightarrow> recv_result shown env what h = Some (Inr v, h\<lparr>h_term := we_term env k\<rparr>)"
  using assms by (simp_all add: recv_unbounded_def recv_result_def)

lemma eval_answers:
  assumes "running h" "h_grace h = None" "recv_plain (we_event env) 0 = Some (Answered ans, k)"
  shows "h_eval_sync shown env code h = Some (ans, (post (CmdEval code) h)\<lparr>h_term := we_term env k\<rparr>)"
    "h_eval_async env code t l h = Some (ans, (post (CmdEvalAsync code t l) h)\<lparr>h_term := we_term env k\<rparr>)"
  using assms recv_plain_both [OF assms(3)]
  by (simp_all add: h_eval_sync_def h_eval_async_def ask_runtime_def running_def sender_alive flatten_def post_def)

text \<open>A conversion sees the heap and the tracked sets only.\<close>

lemma to_python_same:
  assumes "h_functions h = h_functions h'" "h_js_streams h = h_js_streams h'"
  shows "\<exists>r x y. to_python py v (s\<lparr>ps_handle := h\<rparr>) = Some (r, x) \<and> to_python py v (s\<lparr>ps_handle := h'\<rparr>) = Some (r, y)
    \<and> ps_store x = ps_store y"
  using assms by (auto simp: to_python_def split: prod.splits)

lemma subseq_facts: "subseq xs ys \<Longrightarrow> distinct ys \<Longrightarrow> distinct xs \<and> set xs \<subseteq> set ys"
  by (induction rule: list_emb.induct) auto

lemma last_only:
  assumes "x \<notin> set xs" "xs @ ys = cmds @ x # later" "ys = [] \<or> ys = [y]"
  shows "later = []"
  using assms by (auto simp: append_eq_append_conv2 append_eq_Cons_conv Cons_eq_append_conv)

text \<open>The report of a closing: which commands release what, and that the shutdown ends it.\<close>

lemma released_only:
  assumes "\<forall>cmd\<in>set js. stream_release_of cmd \<noteq> []" "\<forall>cmd\<in>set fns. function_release_of cmd \<noteq> []"
    and "fin = [] \<or> fin = [CmdShutdown n]"
  shows "concat (map stream_release_of (js @ fns @ fin)) = concat (map stream_release_of js)"
    "concat (map function_release_of (js @ fns @ fin)) = concat (map function_release_of fns)"
proof -
  have "concat (map function_release_of js) = []"
    by (rule concat_other) (use assms(1) release_kinds(1) in blast)
  moreover have "concat (map stream_release_of fns) = []"
    by (rule concat_other) (use assms(2) release_kinds(2) in blast)
  ultimately show "concat (map stream_release_of (js @ fns @ fin)) = concat (map stream_release_of js)"
    "concat (map function_release_of (js @ fns @ fin)) = concat (map function_release_of fns)"
    using assms(3) by auto
qed

lemma shutdown_last:
  assumes "\<forall>cmd\<in>set js. stream_release_of cmd \<noteq> []" "\<forall>cmd\<in>set fns. function_release_of cmd \<noteq> []"
    and "fin = [] \<or> fin = [CmdShutdown n]" "js @ fns @ fin = cmds @ CmdShutdown m # later"
  shows "later = []"
proof -
  have "CmdShutdown m \<notin> set (js @ fns)"
    using assms(1,2) by fastforce
  then show ?thesis
    by (rule last_only [where xs = "js @ fns" and ys = fin and cmds = cmds]) (use assms(3,4) in simp_all)
qed

section \<open>The properties\<close>

text \<open>
  C32  A closed runtime stays closed: once \<open>close\<close> has returned, whatever it returned, every operation of
  the object raises ''Runtime has been closed'' and sends nothing, a second \<open>close\<close> and a late
  \<open>terminate\<close> do nothing, and \<open>is_closed\<close> is true.
\<close>

theorem closed_runtime_refuses:
  fixes closed :: py_exc
  defines "closed \<equiv> PyRuntimeError ''Runtime has been closed''"
  assumes "py_close ta0 s0 = Some (r0, s)"
  shows "py_eval py ta code s = Some (Inl closed, s) \<and> py_eval_module py ta code s = Some (Inl closed, s)
    \<and> py_eval_async py code timeout s = Some (Inl closed, s) \<and> py_eval_module_async py code timeout s = Some (Inl closed, s)
    \<and> py_get_stats ta s = Some (Inl closed, s) \<and> py_termination_handle s = Some (Inl closed, s)
    \<and> py_register_op py ta name f mode s = Some (Inl closed, s) \<and> py_revoke_op ta tok s = Some (Inl closed, s)
    \<and> py_bind_function py ta name f s = Some (Inl closed, s) \<and> py_bind_object py ta name obj s = Some (Inl closed, s)
    \<and> py_set_module_resolver ta f s = Some (Inl closed, s) \<and> py_set_module_loader ta f s = Some (Inl closed, s)
    \<and> py_add_static_module ta name code s = Some (Inl closed, s) \<and> py_stream_from_async_iterable py f s = Some (Inl closed, s)
    \<and> py_close ta s = Some (Inr (), s) \<and> py_terminate ta s = Some (Inr (), s) \<and> py_is_closed s"
proof -
  have "\<not> ps_open s"
  proof (cases "ps_open s0")
    case True
    show ?thesis by (rule py_close_phases [OF assms(2) True]) simp
  qed (use assms(2) in \<open>simp add: py_close_def\<close>)
  moreover from this have "py_termination_handle s = Some (Inl closed, s)"
    by (simp add: py_termination_handle_def borrow_handle_def praise_def closed_def)
  ultimately show ?thesis
    by (simp add: closed_def py_eval_def py_eval_module_def py_eval_async_def py_eval_module_async_def py_get_stats_def
        py_register_op_def py_revoke_op_def py_bind_function_def py_bind_object_def py_set_module_resolver_def
        py_set_module_loader_def py_add_static_module_def py_stream_from_async_iterable_def py_close_def py_terminate_def
        py_is_closed_def borrow_closed)
qed

text \<open>
  C23  Closing leaves nothing behind: afterwards no function or stream is tracked, every Python stream has
  its cancellation spawned, no function or stream was released twice and none that was not tracked, and
  the shutdown command comes last.  If nobody stops the runtime meanwhile, every tracked function and
  stream was released and the runtime told to shut down.
\<close>

theorem close_leaves_nothing:
  assumes "py_close ta s = Some (r, s')" "ps_open s"
    and "\<And>A. set (ta_order ta A) = A \<and> distinct (ta_order ta A)"
  shows "h_functions (ps_handle s') = {} \<and> h_js_streams (ps_handle s') = {} \<and> h_py_streams (ps_handle s') = {}
    \<and> (\<forall>i\<in>h_py_streams (ps_handle s). i \<in> set (ps_cancels s'))
    \<and> (\<exists>new. h_sent (ps_handle s') = h_sent (ps_handle s) @ new
         \<and> (let js = concat (map stream_release_of new); fns = concat (map function_release_of new) in
              distinct js \<and> set js \<subseteq> h_js_streams (ps_handle s) \<and> distinct fns \<and> set fns \<subseteq> h_functions (ps_handle s)
              \<and> (\<forall>cmds n later. new = cmds @ CmdShutdown n # later \<longrightarrow> later = [])
              \<and> (running (ps_handle s) \<and> (\<forall>n. calm (ta_unit ta n)) \<longrightarrow>
                   set js = h_js_streams (ps_handle s) \<and> set fns = h_functions (ps_handle s)
                   \<and> (\<exists>cmds n. new = cmds @ [CmdShutdown n]))))"
proof -
  obtain js fns fin n where sent: "h_sent (ps_handle s') = h_sent (ps_handle s) @ js @ fns @ fin"
    and kinds: "\<forall>cmd\<in>set js. stream_release_of cmd \<noteq> []" "\<forall>cmd\<in>set fns. function_release_of cmd \<noteq> []"
      "fin = [] \<or> fin = [CmdShutdown n]"
    and ids: "subseq (concat (map stream_release_of js)) (ta_order ta (h_js_streams (ps_handle s)))"
      "subseq (concat (map function_release_of fns)) (ta_order ta (h_functions (ps_handle s)))"
    and calm: "(\<forall>n. calm (ta_unit ta n)) \<longrightarrow> running (ps_handle s) \<longrightarrow> fin \<noteq> []
         \<and> concat (map stream_release_of js) = ta_order ta (h_js_streams (ps_handle s))
         \<and> concat (map function_release_of fns) = ta_order ta (h_functions (ps_handle s))"
    and rest: "h_functions (ps_handle s') = {}" "h_js_streams (ps_handle s') = {}" "h_py_streams (ps_handle s') = {}"
      "ps_cancels s' = ps_cancels s @ ta_order ta (h_py_streams (ps_handle s))"
    using close_sends [OF assms(1,2)] by blast
  let ?new = "js @ fns @ fin"
  note only = released_only [OF kinds] and last = shutdown_last [OF kinds]
  have facts: "distinct (concat (map stream_release_of js))" "set (concat (map stream_release_of js)) \<subseteq> h_js_streams (ps_handle s)"
      "distinct (concat (map function_release_of fns))" "set (concat (map function_release_of fns)) \<subseteq> h_functions (ps_handle s)"
    using subseq_facts [OF ids(1)] subseq_facts [OF ids(2)] assms(3) by simp_all
  have all: "set (concat (map stream_release_of js)) = h_js_streams (ps_handle s)
      \<and> set (concat (map function_release_of fns)) = h_functions (ps_handle s) \<and> (\<exists>cmds n. ?new = cmds @ [CmdShutdown n])"
    if "running (ps_handle s)" "\<forall>n. calm (ta_unit ta n)"
  proof -
    have "fin = [CmdShutdown n]"
      using calm that kinds(3) by simp
    then have "?new = (js @ fns) @ [CmdShutdown n]" by simp
    then have "\<exists>cmds n. ?new = cmds @ [CmdShutdown n]" by blast
    moreover have "concat (map stream_release_of js) = ta_order ta (h_js_streams (ps_handle s))"
        "concat (map function_release_of fns) = ta_order ta (h_functions (ps_handle s))"
      using calm that by simp_all
    ultimately show ?thesis
      using assms(3) by simp
  qed
  show ?thesis
    unfolding rest
  proof (intro conjI exI [of _ ?new])
    let ?P = "\<lambda>js fns. distinct js \<and> set js \<subseteq> h_js_streams (ps_handle s) \<and> distinct fns \<and> set fns \<subseteq> h_functions (ps_handle s)
        \<and> (\<forall>cmds n later. ?new = cmds @ CmdShutdown n # later \<longrightarrow> later = [])
        \<and> (running (ps_handle s) \<and> (\<forall>n. calm (ta_unit ta n)) \<longrightarrow>
             set js = h_js_streams (ps_handle s) \<and> set fns = h_functions (ps_handle s) \<and> (\<exists>cmds n. ?new = cmds @ [CmdShutdown n]))"
    have "?P (concat (map stream_release_of js)) (concat (map function_release_of fns))"
      using facts all last by (intro conjI impI allI) simp_all
    then show "let js = concat (map stream_release_of ?new); fns = concat (map function_release_of ?new) in ?P js fns"
      unfolding only Let_def .
  qed (use sent assms(3) in simp_all)
qed

text \<open>How far a \<open>bind_function\<close> got, stage by stage.\<close>

lemma bind_function_stages:
  assumes "py_bind_function py ta name handler s = Some (r, s')" "ps_open s"
  obtains (mode) e where "r = Inl e" "s' = s"
  | (register) m e where "detected_mode py handler = Inr m" "register_with ta name m handler s = Some (Inl e, s')" "r = Inl e"
  | (script) m tok s1 e where "detected_mode py handler = Inr m" "register_with ta name m handler s = Some (Inr tok, s1)"
      "py_eval py ta (binding_script name m tok) s1 = Some (Inl e, s')" "r = Inl e"
  | (exposed) m tok s1 x s2 r3 where "detected_mode py handler = Inr m" "register_with ta name m handler s = Some (Inr tok, s1)"
      "py_eval py ta (binding_script name m tok) s1 = Some (Inr x, s2)"
      "expose_with ta ''Op registration failed'' tok True s2 = Some (r3, s')"
      "(\<exists>e. r = Inl e) \<or> r = Inr tok \<and> (\<exists>b. r3 = Inr b)"
proof (cases "detected_mode py handler")
  case (Inl e)
  then show thesis
    using assms by (intro mode [of e]) (auto simp: py_bind_function_def praise_def)
next
  case (Inr m)
  then show thesis
    using assms by (auto simp: py_bind_function_def pbind_Some intro: register script exposed)
qed

lemma bind_function_sent:
  shows "register_with ta name m handler s = Some (r1, s1) \<Longrightarrow> ps_open s \<Longrightarrow>
      ps_open s1 \<and> (h_sent (ps_handle s1) = h_sent (ps_handle s) \<and> (\<exists>e. r1 = Inl e)
        \<or> h_sent (ps_handle s1) = h_sent (ps_handle s) @ [CmdRegisterPythonOp name m handler (h_next (ps_handle s))])"
    and "py_eval py ta code s1 = Some (r2, s2) \<Longrightarrow> ps_open s1 \<Longrightarrow>
      h_sent (ps_handle s2) = h_sent (ps_handle s1) \<and> (\<exists>e. r2 = Inl e)
        \<or> h_sent (ps_handle s2) = h_sent (ps_handle s1) @ [CmdEval code (h_next (ps_handle s1))]"
    and "expose_with ta what tok flag s2 = Some (r3, s3) \<Longrightarrow>
      h_sent (ps_handle s3) = h_sent (ps_handle s2) \<and> (\<exists>e. r3 = Inl e)
        \<or> h_sent (ps_handle s3) = h_sent (ps_handle s2) @ [CmdSetPythonOpExposure tok flag (h_next (ps_handle s2))]"
proof -
  assume reg: "register_with ta name m handler s = Some (r1, s1)" and "ps_open s"
  then show "ps_open s1 \<and> (h_sent (ps_handle s1) = h_sent (ps_handle s) \<and> (\<exists>e. r1 = Inl e)
        \<or> h_sent (ps_handle s1) = h_sent (ps_handle s) @ [CmdRegisterPythonOp name m handler (h_next (ps_handle s))])"
    using register_with_effect [OF reg] by (cases r1) auto
next
  assume ev: "py_eval py ta code s1 = Some (r2, s2)" and "ps_open s1"
  then show "h_sent (ps_handle s2) = h_sent (ps_handle s1) \<and> (\<exists>e. r2 = Inl e)
        \<or> h_sent (ps_handle s2) = h_sent (ps_handle s1) @ [CmdEval code (h_next (ps_handle s1))]"
    using py_eval_effect [OF ev] by (cases r2) auto
next
  assume ex: "expose_with ta what tok flag s2 = Some (r3, s3)"
  then show "h_sent (ps_handle s3) = h_sent (ps_handle s2) \<and> (\<exists>e. r3 = Inl e)
        \<or> h_sent (ps_handle s3) = h_sent (ps_handle s2) @ [CmdSetPythonOpExposure tok flag (h_next (ps_handle s2))]"
    using expose_with_effect [OF ex] by (cases r3) auto
qed

text \<open>
  C12  \<open>bind_function\<close> makes an op callable only after the script that binds it ran without an error: the
  requests are the registration, the script and the exposure of the registered token, in this order, and a
  call that fails earlier exposes nothing.
\<close>

theorem bound_function_exposed_last:
  assumes "py_bind_function py ta name handler s = Some (r, s')" "ps_open s"
  shows "\<exists>new. h_sent (ps_handle s') = h_sent (ps_handle s) @ new
    \<and> ((\<forall>cmd\<in>set new. \<not> exposes cmd) \<and> (\<exists>e. r = Inl e)
       \<or> (\<exists>m tok n1 n2 n3 s1 s2 x.
            new = [CmdRegisterPythonOp name m handler n1, CmdEval (binding_script name m tok) n2, CmdSetPythonOpExposure tok True n3]
            \<and> detected_mode py handler = Inr m \<and> register_with ta name m handler s = Some (Inr tok, s1)
            \<and> py_eval py ta (binding_script name m tok) s1 = Some (Inr x, s2) \<and> (\<forall>t. r = Inr t \<longrightarrow> t = tok)))"
  using assms
proof (cases rule: bind_function_stages)
  case (register m e)
  then show ?thesis
    using bind_function_sent(1) [OF register(2) assms(2)] by (elim conjE disjE) auto
next
  case (script m tok s1 e)
  note sent = bind_function_sent(1) [OF script(2) assms(2)]
  then show ?thesis
    using script bind_function_sent(2) [OF script(3)] by (elim conjE disjE) auto
next
  case (exposed m tok s1 x s2 r3)
  note one = bind_function_sent(1) [OF exposed(2) assms(2)]
  have two: "h_sent (ps_handle s2) = h_sent (ps_handle s)
      @ [CmdRegisterPythonOp name m handler (h_next (ps_handle s)), CmdEval (binding_script name m tok) (h_next (ps_handle s1))]"
    using one bind_function_sent(2) [OF exposed(3)] by auto
  show ?thesis
    using bind_function_sent(3) [OF exposed(4)]
  proof (elim disjE conjE)
    assume "h_sent (ps_handle s') = h_sent (ps_handle s2)" "\<exists>e. r3 = Inl e"
    then show ?thesis using exposed(5) two by auto
  next
    assume "h_sent (ps_handle s') = h_sent (ps_handle s2) @ [CmdSetPythonOpExposure tok True (h_next (ps_handle s2))]"
    then show ?thesis using exposed two by auto
  qed
qed auto

text \<open>
  C17  The arguments of one call of a JavaScript function share one budget: whatever Python objects a call
  is given, the command it sends names the called function and carries arguments that together weigh at
  most \<open>max_bytes\<close> and nest at most \<open>max_depth\<close> deep.
\<close>

theorem call_arguments_share_budget:
  assumes "js_function_call py ta f args timeout s = Some (r, s')"
    and "lim_depth (h_limits (ps_handle s)) < usize_max" "lim_bytes (h_limits (ps_handle s)) < usize_max"
  shows "\<exists>new. h_sent (ps_handle s') = h_sent (ps_handle s) @ new
    \<and> (\<forall>cmd\<in>set new. \<exists>vs t n. cmd = CmdCallFunctionSync (jf_id f) vs t n
         \<and> sum_list (map (js_weight True (big_len (ph_env py))) vs) \<le> lim_bytes (h_limits (ps_handle s))
         \<and> (\<forall>v\<in>set vs. js_depth v \<le> lim_depth (h_limits (ps_handle s))))"
proof (cases "call_args py f args s")
  case None
  then show ?thesis
    using assms(1) by (simp add: js_function_call_def pbind_def)
next
  case (Some p)
  obtain ra sa where p: "p = (ra, sa)" by force
  have sa: "sa = s"
    using Some p by (auto simp: call_args_def pbind_def plift_def split: sum.splits)
  show ?thesis
  proof (cases ra)
    case (Inl e)
    then show ?thesis
      using assms(1) Some p sa by (auto simp: js_function_call_def pbind_def)
  next
    case (Inr vs)
    have "convert_python_args (env_now py s) (py_heap_of (ps_store s)) (h_limits (ps_handle s)) args = Inr vs"
      using Some p Inr by (auto simp: call_args_def pbind_Some)
    then have budget: "sum_list (map (js_weight True (big_len (ph_env py))) vs) \<le> lim_bytes (h_limits (ps_handle s))
        \<and> (\<forall>v\<in>set vs. js_depth v \<le> lim_depth (h_limits (ps_handle s)))"
      using call_budget [OF _ assms(2,3)] by (fastforce simp: env_now_def)
    show ?thesis
    proof (cases "of_outcome (normalize_timeout_to_ms (ph_extract py) timeout)")
      case (Inl e)
      then show ?thesis
        using assms(1) Some p sa Inr by (auto simp: js_function_call_def pbind_Some praise_def)
    next
      case timeout: (Inr t)
      let ?call = "on_handle ''Function call failed''
        (asking (ta_call ta) (\<lambda>e. h_call_function_sync (ta_shown ta) e (jf_id f) vs t))"
      let ?k = "\<lambda>a. case a of
          Immediate v \<Rightarrow> pbind (to_python py v) (\<lambda>x. pret (CallValue x))
        | PendingCall call_id \<Rightarrow>
            pbind (plift (ph_locals py)) (\<lambda>locals. pret (CallAwaitable (ReqResume call_id locals) ''Function call failed''))"
      have "pbind ?call ?k s = Some (r, s')"
        using assms(1) Some p sa Inr timeout by (simp add: js_function_call_def pbind_def)
      then obtain rc sc where call: "?call s = Some (rc, sc)" and cont: "s' = sc \<or> (\<exists>a. ?k a sc = Some (r, s'))"
        unfolding pbind_Some [of ?call] by blast
      have quiet: "h_sent (ps_handle s') = h_sent (ps_handle sc)" if "?k a sc = Some (r, s')" for a
        using that by (cases a) (auto simp: pbind_Some to_python_effect)
      with cont have rest: "h_sent (ps_handle s') = h_sent (ps_handle sc)"
        by auto
      show ?thesis
        using on_handle_effect [OF call [unfolded h_call_function_sync_def]] budget rest by fastforce
    qed
  qed
qed

text \<open>
  C33  A JavaScript stream is cancelled at most once: in every interleaving of calls of \<open>cancel\<close> (from
  \<open>close\<close> and the finalizer) with reads that find the end of the stream, \<open>stream_cancel\<close> is called at most
  once; after it every read is refused; and once the handle is gone, because the stream ended or was
  cancelled, it is not called any more.
\<close>

theorem stream_cancelled_at_most_once:
  assumes "race_step\<^sup>*\<^sup>* \<lparr>sr_shared = stream_shared_new i, sr_threads = [], sr_cancels = 0\<rparr> r" "race_step\<^sup>*\<^sup>* r r'"
  shows "sr_cancels r' \<le> 1
    \<and> (0 < sr_cancels r \<longrightarrow> stream_anext (sr_shared r') = Inl (PyStopAsyncIteration ''Stream closed''))
    \<and> (\<not> ss_handle (sr_shared r) \<longrightarrow> sr_cancels r' = sr_cancels r)"
proof -
  have start: "race_inv \<lparr>sr_shared = stream_shared_new i, sr_threads = [], sr_cancels = 0\<rparr>"
    by (simp add: race_inv_def stream_shared_new_def)
  have r: "race_inv r" by (rule race_steps_inv [OF assms(1) start])
  have "ss_closed (sr_shared r)" if "0 < sr_cancels r"
    using r that by (auto simp: race_inv_def)
  then show ?thesis
    using race_steps_inv [OF assms(2) r] race_stays_closed [OF assms(2)] race_no_handle [OF assms(2)]
    by (auto simp: race_inv_def stream_anext_def)
qed

text \<open>
  C22  An \<open>asyncio\<close> future is settled at most once: a future that is done, by a result, an exception or a
  cancellation, never changes again, whichever of the callback, the task and the setter run later; and the
  setter always finds the outcome it is to deliver, so its \<open>expect\<close> cannot fail.
\<close>

theorem future_settled_once:
  assumes "(bridge_step py ctx)\<^sup>*\<^sup>* (bridge_js_future, s0) (b, s)"
  shows "((bridge_step py ctx)\<^sup>*\<^sup>* (b, s) (b', s') \<longrightarrow> future_done (jb_future b) \<longrightarrow> jb_future b' = jb_future b)
    \<and> (jb_setter b \<longrightarrow> jb_outcome b \<noteq> None)"
proof -
  have "bridge_inv b"
    using bridge_steps_inv [OF assms] by (simp add: bridge_inv_def bridge_js_future_def)
  then show ?thesis
    using bridge_steps_settled [of py ctx "(b, s)" "(b', s')"] by (simp add: bridge_inv_def)
qed

text \<open>
  C21  \<open>eval_async\<close> gives what \<open>eval\<close> gives on an open session of a running runtime without a force-kill
  grace, when its timeout is accepted, the runtime thread gives the same answer to both commands (it does
  not for code that returns a promise, which \<open>eval_async\<close> awaits), and nobody cancels: the future gets the result or the exception that \<open>eval\<close> returns or raises, over the same Python
  heap.  The one difference is a value that cannot be converted: \<open>eval\<close> raises, and the future stays
  pending, for ever unless it is cancelled.
\<close>

theorem eval_async_agrees_with_eval:
  assumes "ps_open s" "running (ps_handle s)" "h_grace (ps_handle s) = None"
    and "recv_plain (we_event (ta_value ta (h_next (ps_handle s)))) 0 = Some (Answered ans, k)"
    and "normalize_timeout_to_ms (ph_extract py) timeout = Returns t" "ph_locals py = Inr l"
  shows "\<exists>req r s1 b s2. py_eval py ta code s = Some (r, s1)
    \<and> py_eval_async py code timeout s = Some (Inr (req, ''Evaluation failed''), s)
    \<and> await_bridge py ta req ''Evaluation failed'' s = Some (b, s2) \<and> ps_store s1 = ps_store s2
    \<and> (case (ans, r) of
         (Inr v, Inl e) \<Rightarrow>
           (\<forall>b' s'. (bridge_step py ''Evaluation failed'')\<^sup>*\<^sup>* (b, s2) (b', s') \<longrightarrow>
              jb_future b' = FutPending \<or> jb_future b' = FutCancelled)
       | _ \<Rightarrow> future_result (jb_future b) = Some r)"
proof -
  let ?h = "ps_handle s" and ?env = "ta_value ta (h_next (ps_handle s))"
  let ?req = "ReqEval code t l"
  let ?sync = "(post (CmdEval code) ?h)\<lparr>h_term := we_term ?env k\<rparr>"
  let ?async = "(post (CmdEvalAsync code t (Some l)) ?h)\<lparr>h_term := we_term ?env k\<rparr>"
  have async: "py_eval_async py code timeout s = Some (Inr (?req, ''Evaluation failed''), s)"
    using assms by (simp add: py_eval_async_def start_async_def pret_def)
  note answers = eval_answers [OF assms(2,3,4)]
  have ev: "py_eval py ta code s = (case ans of
      Inl e \<Rightarrow> Some (Inl (runtime_error_with_context ''Evaluation failed'' e), s\<lparr>ps_handle := ?sync\<rparr>)
    | Inr v \<Rightarrow> to_python py v (s\<lparr>ps_handle := ?sync\<rparr>))"
    using assms(1) answers(1) by (simp add: py_eval_def pbind_def on_handle_def asking_def split: sum.split)
  let ?b = "task_settles (Inr ()) ans bridge_js_future"
  have aw: "await_bridge py ta ?req ''Evaluation failed'' s
      = map_option snd (run_setter py ''Evaluation failed'' ?b (s\<lparr>ps_handle := ?async\<rparr>))"
    using answers(2) by (simp add: await_bridge_def asking_def)
  have b: "jb_future ?b = FutPending" "jb_outcome ?b = Some ans" "\<not> jb_running ?b"
    by (simp_all add: task_settles_def schedule_js_future_result_def bridge_js_future_def)
  show ?thesis
  proof (cases ans)
    case (Inl e)
    then show ?thesis
      using async ev aw b by (auto simp: run_setter_def future_done_def python_future_cancelled_def future_result_def)
  next
    case (Inr v)
    obtain r x y where conv: "to_python py v (s\<lparr>ps_handle := ?sync\<rparr>) = Some (r, x)"
        "to_python py v (s\<lparr>ps_handle := ?async\<rparr>) = Some (r, y)" "ps_store x = ps_store y"
      using to_python_same [of ?sync ?async py v s] by (auto simp: post_def)
    show ?thesis
    proof (cases r)
      case (Inl e)
      let ?b' = "?b\<lparr>jb_setter := False, jb_outcome := None\<rparr>"
      have "await_bridge py ta ?req ''Evaluation failed'' s = Some (?b', y)"
        using aw b Inr conv(2) Inl by (simp add: run_setter_def future_done_def python_future_cancelled_def)
      moreover have "jb_future b' = FutPending \<or> jb_future b' = FutCancelled"
        if "(bridge_step py ''Evaluation failed'')\<^sup>*\<^sup>* (?b', y) (b', s')" for b' s'
        by (rule spent_bridge_never_settles [OF that]) (use b in simp_all)
      ultimately show ?thesis
        using async ev Inr conv Inl by auto
    next
      case (Inr w)
      then have "await_bridge py ta ?req ''Evaluation failed'' s
          = Some (?b\<lparr>jb_setter := False, jb_outcome := None, jb_future := FutResult w\<rparr>, y)"
        using aw b \<open>ans = Inr v\<close> conv(2) by (simp add: run_setter_def future_done_def python_future_cancelled_def)
      then show ?thesis
        using async ev \<open>ans = Inr v\<close> conv Inr by (auto simp: future_result_def)
    qed
  qed
qed

text \<open>
  C1  A collected proxy releases its function once: the finalizer of a \<open>JsFunction\<close> sends a release only
  for a function that is still tracked in a runtime that is up, at most one, and leaves the function
  untracked; a function that \<open>close\<close> has released, and a finalizer that has already run, send nothing.
\<close>

theorem collected_function_released_once:
  assumes "function_finalizer ta i armed h = Some (armed', h')"
  shows "\<not> armed' \<and> (armed \<longrightarrow> i \<notin> h_functions h')
    \<and> (\<exists>new. h_sent h' = h_sent h @ new \<and> (new = [] \<or> new = [CmdReleaseFunction i (h_next h)])
         \<and> (new \<noteq> [] \<longrightarrow> armed \<and> i \<in> h_functions h \<and> \<not> is_shutdown_handle h))
    \<and> function_finalizer ta i armed' h' = Some (False, h')
    \<and> (close_function_task ta i s = Some (r, s') \<longrightarrow>
         function_finalizer ta i True (ps_handle s') = Some (False, ps_handle s'))"
proof -
  have twice: "\<not> armed'"
    using assms by (auto simp: function_finalizer_def split: if_splits option.splits)
  have closed: "i \<notin> h_functions (ps_handle s')" if "close_function_task ta i s = Some (r, s')"
    using that by (auto simp: close_function_task_def untrack_function_id_def split: option.splits)
  have "(armed \<longrightarrow> i \<notin> h_functions h')
    \<and> (\<exists>new. h_sent h' = h_sent h @ new \<and> (new = [] \<or> new = [CmdReleaseFunction i (h_next h)])
         \<and> (new \<noteq> [] \<longrightarrow> armed \<and> i \<in> h_functions h \<and> \<not> is_shutdown_handle h))"
  proof (cases "armed \<and> i \<in> h_functions h \<and> \<not> is_shutdown_handle h")
    case True
    then obtain r0 h0 where one: "h_release_function (ta_unit ta (h_next h)) i h = Some (r0, h0)"
        and h': "h' = untrack_function_id i h0"
      using assms by (auto simp: function_finalizer_def is_function_tracked_def asking_def split: option.splits)
    show ?thesis
      using function_release_effect [OF one] True unfolding h' untrack_function_id_def by auto
  next
    case False
    then show ?thesis
      using assms by (auto simp: function_finalizer_def is_function_tracked_def untrack_function_id_def split: if_splits)
  qed
  with twice closed show ?thesis
    by (simp add: function_finalizer_def is_function_tracked_def)
qed

section \<open>Sample runs\<close>

text \<open>A runtime thread that answers at once, and a host with plain callables.\<close>

definition prompt_env :: "'a \<Rightarrow> 'a wait_env" where
  "prompt_env v = \<lparr>we_event = (\<lambda>_. Received v), we_term = (\<lambda>_. termination_new)\<rparr>"

definition prompt_answers :: thread_answers where
  "prompt_answers = \<lparr>ta_shown = (\<lambda>_. []), ta_value = (\<lambda>_. prompt_env (Inr JNull)), ta_token = (\<lambda>_. prompt_env (Inr 7)),
     ta_flag = (\<lambda>_. prompt_env (Inr True)), ta_unit = (\<lambda>_. prompt_env (Inr ())),
     ta_call = (\<lambda>_. prompt_env (Inr (Immediate JNull))), ta_stats = (\<lambda>_. prompt_env (Inl (Internal []))),
     ta_close = (\<lambda>_. prompt_env ()), ta_started = 0, ta_clock = (\<lambda>k. k), ta_order = sorted_list_of_set\<rparr>"

definition plain_host :: py_host where
  "plain_host = \<lparr>ph_env = sample_env, ph_extract = \<lparr>ext_f64 = (\<lambda>_. None), ext_u64 = (\<lambda>_. None), ext_i64 = (\<lambda>_. None),
       timedelta_type = Inr (), is_timedelta = (\<lambda>_. Inr False), total_seconds = (\<lambda>_. Inr (Fin 0)),
       ext_bytes = (\<lambda>_. Inr []), is_callable = (\<lambda>_. False)\<rparr>,
     ph_iscoroutinefunction = (\<lambda>_. Inr False), ph_has_call = (\<lambda>_. Inr False), ph_call_attr = (\<lambda>_. Inr 0),
     ph_object = (\<lambda>_. 0), ph_locals = Inr 0\<rparr>"

definition up_session :: "u32 set \<Rightarrow> py_session" where
  "up_session fns = \<lparr>ps_open = True,
     ps_handle = (waiting_handle None)\<lparr>h_term := termination_new, h_functions := fns\<rparr>, ps_store = empty_store, ps_cancels = []\<rparr>"

lemma prompt_recv [simp]:
  "recv_unbounded (prompt_env v) lost h = Some (Inr v, h\<lparr>h_term := termination_new\<rparr>)"
  "h_grace h = None \<Longrightarrow> recv_result shown (prompt_env v) what h = Some (Inr v, h\<lparr>h_term := termination_new\<rparr>)"
  "recv_plain (we_event (prompt_env v)) 0 = Some (Answered v, 0)"
  by (simp_all add: recv_unbounded_def recv_result_def prompt_env_def recv_plain.simps)

lemma new_term [simp]:
  "\<not> is_requested termination_new" "\<not> is_terminated termination_new"
  by (simp_all add: is_requested_def is_terminated_def termination_new_def status_defs)

lemma up_facts [simp]:
  "ps_open (up_session fns)" "running (ps_handle (up_session fns))" "h_grace (ps_handle (up_session fns)) = None"
  "h_functions (ps_handle (up_session fns)) = fns" "h_js_streams (ps_handle (up_session fns)) = {}"
  "h_sent (ps_handle (up_session fns)) = []" "h_next (ps_handle (up_session fns)) = 0"
  "h_py_streams (ps_handle (up_session fns)) = {}" "ps_cancels (up_session fns) = []"
  by (simp_all add: up_session_def running_def handle_dead_def waiting_handle_def handle_spawn_def)

lemma prompt_calm: "calm (ta_unit prompt_answers n)"
  by (simp add: prompt_answers_def calm_def prompt_env_def)

lemmas prompt_run = up_session_def waiting_handle_def handle_spawn_def prompt_answers_def asking_def on_handle_def
  ask_runtime_def sender_def post_def flatten_def is_shutdown_handle_def

lemma prompt_close:
  "\<exists>s'. py_close prompt_answers (up_session {3}) = Some (Inr (), s')
    \<and> h_sent (ps_handle s') = [CmdReleaseFunction 3 0, CmdShutdown 1]"
  by (simp add: py_close_def close_blocking_def drain_tracked_js_stream_ids_def drain_tracked_py_stream_ids_def
      drain_tracked_function_ids_def h_release_function_def h_close_def prompt_run)

lemma to_python_null [simp]:
  "to_python plain_host JNull s = Some (Inr PNone, s\<lparr>ps_handle := ps_handle s,
     ps_store := (ps_store s)\<lparr>tracked_fns := h_functions (ps_handle s), tracked_streams := h_js_streams (ps_handle s)\<rparr>\<rparr>)"
  by (simp add: to_python_def js_value_to_python_def level_def charge_def enter_py_def on_tracker_def add_bytes_def enter_def
      sthen_def sbind_def sret_def tracker_new_def usize_max_def usat_add_def exit_level_def)

lemma plain_mode [simp]: "detected_mode plain_host f = Inr SyncOp"
  by (simp add: detected_mode_def detect_async_def plain_host_def rbind_def)

lemma prompt_bind: "\<exists>s'. py_bind_function plain_host prompt_answers ''f'' 0 (up_session {}) = Some (Inr 7, s')"
  by (simp add: py_bind_function_def pbind_def register_with_def h_register_op_def py_eval_def h_eval_sync_def
      expose_with_def h_set_op_exposure_def prompt_run pret_def borrow_handle_def)

text \<open>A Python whose sets refuse unhashable elements, and a script that returns \<open>new Set([[]])\<close>.\<close>

definition hashing_host :: py_host where
  "hashing_host = plain_host\<lparr>ph_env := sample_env\<lparr>set_add := \<lambda>x xs.
     (case x of PRef _ \<Rightarrow> Inl (PyOther ''TypeError'' ''unhashable type'') | _ \<Rightarrow> Inr (xs @ [x]))\<rparr>\<rparr>"

definition set_answers :: thread_answers where
  "set_answers = prompt_answers\<lparr>ta_value := \<lambda>_. prompt_env (Inr (JSet [JArray []]))\<rparr>"

lemma unhashable_fails:
  "\<exists>s'. to_python hashing_host (JSet [JArray []]) s = Some (Inl (PyOther ''TypeError'' ''unhashable type''), s')"
  by (simp add: to_python_def js_value_to_python_def level_def charge_def enter_py_def on_tracker_def add_bytes_def enter_def
      sthen_def sbind_def sret_def slift_def tracker_new_def usize_max_def usat_add_def usat_mul_def exit_level_def alloc_def
      store_cont_def hashing_host_def plain_host_def sample_env_def split: prod.split)

lemma eval_of_set_raises:
  "\<exists>s'. py_eval hashing_host set_answers [] (up_session {}) = Some (Inl (PyOther ''TypeError'' ''unhashable type''), s')"
proof -
  have "\<exists>s'. py_eval hashing_host set_answers [] (up_session {}) = to_python hashing_host (JSet [JArray []]) s'"
    by (simp add: py_eval_def pbind_def h_eval_sync_def set_answers_def prompt_run borrow_handle_def pret_def)
      (rule exI, rule refl)
  then show ?thesis
    using unhashable_fails by metis
qed

lemma no_timeout [simp]: "normalize_timeout_to_ms px None = Returns None"
  by (simp add: normalize_timeout_to_ms_def)

text \<open>Two arguments, which share the budget of the session.\<close>

abbreviation two_args :: "py_val list" where
  "two_args \<equiv> [PBytesObj [1, 2], PBool True]"

lemma two_args_converted:
  "lim_depth l = 100 \<Longrightarrow> lim_bytes l = 10485760 \<Longrightarrow> convert_python_args env h l two_args = Inr [JBytes [1, 2], JBool True]"
  by (simp add: convert_python_args_def python_to_js_value_tracked_def enter_py_def charge_def on_tracker_def add_bytes_def
      enter_def finish_def sthen_def sbind_def sret_def tracker_new_def usat_add_def usize_max_def exit_level_def leave_def slift_def del: Suc_numeral)

lemma up_limits: "lim_depth (h_limits (ps_handle (up_session A))) = 100" "lim_bytes (h_limits (ps_handle (up_session A))) = 10485760"
  by (simp_all add: up_session_def waiting_handle_def handle_spawn_def tick_defs config_limits_def MAX_JS_DEPTH_def MAX_JS_BYTES_def)

lemma prompt_call:
  "\<exists>s'. js_function_call plain_host prompt_answers \<lparr>jf_id = 3, jf_closed = False, jf_has_handle = True\<rparr> two_args None (up_session {3})
    = Some (Inr (CallValue PNone), s')
    \<and> h_sent (ps_handle s') = [CmdCallFunctionSync 3 [JBytes [1, 2], JBool True] None 0]"
  by (simp add: js_function_call_def call_args_def function_handle_def two_args_converted up_limits pbind_def plift_def sret_def)
    (simp add: h_call_function_sync_def prompt_run pret_def pbind_def)

section \<open>The hypotheses can hold\<close>

theorem closed_runtime_refuses_witness:
  "\<exists>s. py_close prompt_answers (up_session {3}) = Some (Inr (), s)
    \<and> py_eval plain_host prompt_answers ''1'' s = Some (Inl (PyRuntimeError ''Runtime has been closed''), s)"
  using prompt_close closed_runtime_refuses by blast

theorem close_leaves_nothing_witness:
  "\<exists>s. py_close prompt_answers (up_session {3}) = Some (Inr (), s) \<and> h_functions (ps_handle s) = {}
    \<and> (\<exists>n. h_sent (ps_handle s) = [CmdReleaseFunction 3 0, CmdShutdown n])"
proof -
  have order: "set (ta_order prompt_answers A) = A \<and> distinct (ta_order prompt_answers A)" for A
    by (simp add: prompt_answers_def)
  obtain s where s: "py_close prompt_answers (up_session {3}) = Some (Inr (), s)"
      "h_sent (ps_handle s) = [CmdReleaseFunction 3 0, CmdShutdown 1]"
    using prompt_close by blast
  then show ?thesis
    using close_leaves_nothing [OF s(1) _ order] by simp
qed

theorem bound_function_exposed_last_witness:
  "\<exists>s tok n1 n2 n3. py_bind_function plain_host prompt_answers ''f'' 0 (up_session {}) = Some (Inr 7, s)
    \<and> h_sent (ps_handle s) = [CmdRegisterPythonOp ''f'' SyncOp 0 n1, CmdEval (binding_script ''f'' SyncOp tok) n2,
         CmdSetPythonOpExposure tok True n3]"
proof -
  obtain s where s: "py_bind_function plain_host prompt_answers ''f'' 0 (up_session {}) = Some (Inr 7, s)"
    using prompt_bind by blast
  show ?thesis
    using bound_function_exposed_last [OF s] s by auto
qed

theorem call_arguments_share_budget_witness:
  "\<exists>s. js_function_call plain_host prompt_answers \<lparr>jf_id = 3, jf_closed = False, jf_has_handle = True\<rparr> two_args None (up_session {3})
      = Some (Inr (CallValue PNone), s)
    \<and> h_sent (ps_handle s) = [CmdCallFunctionSync 3 [JBytes [1, 2], JBool True] None 0]
    \<and> js_weight True (big_len (ph_env plain_host)) (JBytes [1, 2]) + js_weight True (big_len (ph_env plain_host)) (JBool True) \<le> 10485760"
proof -
  obtain s where s: "js_function_call plain_host prompt_answers \<lparr>jf_id = 3, jf_closed = False, jf_has_handle = True\<rparr> two_args None
      (up_session {3}) = Some (Inr (CallValue PNone), s)"
      "h_sent (ps_handle s) = [CmdCallFunctionSync 3 [JBytes [1, 2], JBool True] None 0]"
    using prompt_call by blast
  have "lim_depth (h_limits (ps_handle (up_session {3}))) < usize_max" "lim_bytes (h_limits (ps_handle (up_session {3}))) < usize_max"
    by (simp_all add: up_limits usize_max_def)
  from call_arguments_share_budget [OF s(1) this] show ?thesis
    using s by (auto simp: up_limits simp del: js_weight.simps)
qed

theorem stream_cancelled_at_most_once_witness:
  "\<exists>r r'. race_step\<^sup>*\<^sup>* \<lparr>sr_shared = stream_shared_new 5, sr_threads = [], sr_cancels = 0\<rparr> r \<and> race_step\<^sup>*\<^sup>* r r'
    \<and> sr_cancels r = 1 \<and> sr_threads r = [] \<and> sr_threads r' = [AboutToSwap]
    \<and> sr_cancels r' \<le> 1 \<and> stream_anext (sr_shared r') = Inl (PyStopAsyncIteration ''Stream closed'')"
proof -
  let ?start = "\<lparr>sr_shared = stream_shared_new 5, sr_threads = [], sr_cancels = 0\<rparr>"
  let ?called = "?start\<lparr>sr_threads := [AboutToSwap]\<rparr>"
  let ?swapped = "?start\<lparr>sr_shared := snd (swap_closed (stream_shared_new 5)), sr_threads := [AboutToTake]\<rparr>"
  let ?r = "?start\<lparr>sr_shared := snd (take_stream_handle (snd (swap_closed (stream_shared_new 5)))), sr_cancels := 1\<rparr>"
  let ?r' = "?r\<lparr>sr_threads := [AboutToSwap]\<rparr>"
  have "race_step ?start ?called"
    using race_step.call_cancel [of ?start] by simp
  moreover have "race_step ?called ?swapped"
    using race_step.swap [of ?called "[]" "[]" False] by (simp add: stream_shared_new_def swap_closed_def)
  moreover have "race_step ?swapped ?r"
    using race_step.take [of ?swapped "[]" "[]"]
    by (simp add: stream_shared_new_def swap_closed_def take_stream_handle_def)
  ultimately have first: "race_step\<^sup>*\<^sup>* ?start ?r"
    by (meson converse_rtranclp_into_rtranclp rtranclp.rtrancl_refl)
  have "race_step ?r ?r'"
    using race_step.call_cancel [of ?r] by simp
  then have second: "race_step\<^sup>*\<^sup>* ?r ?r'" by blast
  show ?thesis
    using stream_cancelled_at_most_once [OF first second] first second
    by (intro exI [of _ ?r] exI [of _ ?r']) simp
qed

theorem future_settled_once_witness:
  "jb_future (cancel_callback (bridge_js_future\<lparr>jb_future := FutCancelled\<rparr>)) = FutCancelled"
proof -
  let ?s = "up_session {}" and ?b = "bridge_js_future\<lparr>jb_future := FutCancelled\<rparr>"
  have "bridge_step plain_host [] (bridge_js_future, ?s) (?b, ?s)"
    by (rule bridge_step.cancelled) (simp add: bridge_js_future_def future_done_def)
  then have reach: "(bridge_step plain_host [])\<^sup>*\<^sup>* (bridge_js_future, ?s) (?b, ?s)" by blast
  have "bridge_step plain_host [] (?b, ?s) (cancel_callback ?b, ?s)"
    by (rule bridge_step.callback) (simp add: future_done_def)
  then have "(bridge_step plain_host [])\<^sup>*\<^sup>* (?b, ?s) (cancel_callback ?b, ?s)" by blast
  then show ?thesis
    using future_settled_once [OF reach, of "cancel_callback ?b" ?s] by (simp add: future_done_def)
qed

theorem eval_async_agrees_with_eval_witness:
  "\<exists>s1 b s2. py_eval hashing_host set_answers [] (up_session {}) = Some (Inl (PyOther ''TypeError'' ''unhashable type''), s1)
    \<and> await_bridge hashing_host set_answers (ReqEval [] None 0) ''Evaluation failed'' (up_session {}) = Some (b, s2)
    \<and> (jb_future b = FutPending \<or> jb_future b = FutCancelled)"
proof -
  obtain s1 where s1: "py_eval hashing_host set_answers [] (up_session {}) = Some (Inl (PyOther ''TypeError'' ''unhashable type''), s1)"
    using eval_of_set_raises by blast
  have start: "py_eval_async hashing_host [] None (up_session {}) = Some (Inr (ReqEval [] None 0, ''Evaluation failed''), up_session {})"
    by (simp add: py_eval_async_def start_async_def hashing_host_def plain_host_def pret_def)
  have "recv_plain (we_event (ta_value set_answers (h_next (ps_handle (up_session {}))))) 0 = Some (Answered (Inr (JSet [JArray []])), 0)"
    by (simp add: set_answers_def)
  from eval_async_agrees_with_eval [OF up_facts(1-3) this, of hashing_host None None 0 "[]"] s1 start
  show ?thesis
    by (auto simp: hashing_host_def plain_host_def)
qed

theorem collected_function_released_once_witness:
  "\<exists>h. function_finalizer prompt_answers 3 True (ps_handle (up_session {3})) = Some (False, h) \<and> 3 \<notin> h_functions h"
proof -
  have "\<exists>h. function_finalizer prompt_answers 3 True (ps_handle (up_session {3})) = Some (False, h)"
    by (simp add: function_finalizer_def is_function_tracked_def h_release_function_def prompt_run)
  then show ?thesis
    using collected_function_released_once by blast
qed

end
