(* ===== verification/Peno_Inspector.thy ===== *)
theory Peno_Inspector
  imports Peno_PyBindings
begin

text \<open>
  The inspector server (\<open>src/runtime/inspector.rs\<close>): the registry of runtimes, the HTTP routes, the
  WebSocket sessions, and the metadata that reaches Python (\<open>src/runtime/python/stats.rs\<close>).  Sockets, HTTP,
  UUIDs and V8's debugger are outside: \<open>inspector_world\<close> holds what the code asks of them.
\<close>

section \<open>Registered runtimes\<close>

record inspector_metadata =
  im_id :: string
  im_websocket_url :: string
  im_devtools_frontend_url :: string
  im_title :: string
  im_description :: string
  im_target_url :: string
  im_favicon_url :: string
  im_host :: string
  im_target_type :: string

text \<open>
  A runtime is known by the number of its session channel; \<open>ii_connection\<close> is the number of its shared
  connection flag.
\<close>

record inspector_info =
  ii_host :: string
  ii_uuid :: nat
  ii_thread_name :: "string option"
  ii_sessions :: nat
  ii_target_url :: string
  ii_wait_for_session :: bool
  ii_display_name :: "string option"
  ii_favicon_url :: string
  ii_description :: string
  ii_connection :: nat

record inspector_world =
  iw_uuid_text :: "nat \<Rightarrow> string"
  iw_uuid_parse :: "string \<Rightarrow> nat option"
  iw_pid :: string
  iw_v8_version :: string

record registration_params =
  rp_target_url :: "string option"
  rp_display_name :: "string option"
  rp_wait_for_connection :: bool

definition get_websocket_debugger_url :: "inspector_world \<Rightarrow> string \<Rightarrow> inspector_info \<Rightarrow> string" where
  "get_websocket_debugger_url iw host info = ''ws://'' @ host @ ''/ws/'' @ iw_uuid_text iw (ii_uuid info)"

definition get_devtools_url :: "inspector_world \<Rightarrow> string \<Rightarrow> inspector_info \<Rightarrow> string" where
  "get_devtools_url iw host info =
     ''devtools://devtools/bundled/js_app.html?ws='' @ host @ ''/ws/'' @ iw_uuid_text iw (ii_uuid info)
     @ ''&experiments=true&v8only=true''"

definition info_title :: "inspector_world \<Rightarrow> inspector_info \<Rightarrow> string" where
  "info_title iw info =
     (case ii_display_name info of
        Some n \<Rightarrow> n
      | None \<Rightarrow> ''peno'' @ (case ii_thread_name info of Some n \<Rightarrow> '' - '' @ n | None \<Rightarrow> []) @ '' [pid: '' @ iw_pid iw @ '']'')"

definition metadata_for_host :: "inspector_world \<Rightarrow> string option \<Rightarrow> inspector_info \<Rightarrow> inspector_metadata" where
  "metadata_for_host iw host_override info =
     (let host = (case host_override of Some h \<Rightarrow> h | None \<Rightarrow> ii_host info) in
      \<lparr>im_id = iw_uuid_text iw (ii_uuid info), im_websocket_url = get_websocket_debugger_url iw host info,
       im_devtools_frontend_url = get_devtools_url iw host info, im_title = info_title iw info,
       im_description = ii_description info, im_target_url = ii_target_url info, im_favicon_url = ii_favicon_url info,
       im_host = host, im_target_type = ''node''\<rparr>)"

section \<open>The server\<close>

text \<open>
  \<open>sv_queue\<close>: registrations the server has not taken yet; \<open>sv_gone\<close>: the session channels whose runtime
  has deregistered; \<open>sv_connected\<close>: the connection flags that are set; \<open>sv_opened\<close>: the sessions offered to
  each runtime; \<open>sv_running\<close>: the server task has not ended.
\<close>

record inspector_server =
  sv_host :: string
  sv_name :: string
  sv_running :: bool
  sv_queue :: "inspector_info list"
  sv_registry :: "nat \<rightharpoonup> inspector_info"
  sv_gone :: "nat set"
  sv_connected :: "nat set"
  sv_opened :: "nat \<Rightarrow> nat"

definition inspector_server_bind :: "string \<Rightarrow> string \<Rightarrow> string + unit \<Rightarrow> string + unit \<Rightarrow> string + inspector_server" where
  "inspector_server_bind host name bound nonblocking =
     (case bound of
        Inl _ \<Rightarrow> Inl (''Failed to bind inspector socket at '' @ host)
      | Inr _ \<Rightarrow>
     (case nonblocking of
        Inl _ \<Rightarrow> Inl ''Failed to set inspector socket to nonblocking''
      | Inr _ \<Rightarrow> Inr \<lparr>sv_host = host, sv_name = name, sv_running = True, sv_queue = [], sv_registry = Map.empty,
          sv_gone = {}, sv_connected = {}, sv_opened = (\<lambda>_. 0)\<rparr>))"

definition register_runtime ::
  "inspector_world \<Rightarrow> nat \<Rightarrow> string option \<Rightarrow> nat \<Rightarrow> registration_params \<Rightarrow> nat
    \<Rightarrow> (inspector_server, string, inspector_metadata) comp" where
  "register_runtime iw uuid thread_name sessions params connection sv =
     (let info = \<lparr>ii_host = sv_host sv, ii_uuid = uuid, ii_thread_name = thread_name, ii_sessions = sessions,
                  ii_target_url = (case rp_target_url params of Some u \<Rightarrow> u | None \<Rightarrow> ''peno://runtime''),
                  ii_wait_for_session = rp_wait_for_connection params, ii_display_name = rp_display_name params,
                  ii_favicon_url = ''https://deno.land/favicon.ico'', ii_description = sv_name sv,
                  ii_connection = connection\<rparr>
      in if sv_running sv
         then (Inr (metadata_for_host iw None info), sv\<lparr>sv_queue := sv_queue sv @ [info]\<rparr>)
         else (Inl ''Failed to register inspector'', sv))"

text \<open>One turn of \<open>listen_for_new_inspectors\<close> and the poll of the deregistration task.\<close>

definition listen_for_new_inspectors :: "inspector_server \<Rightarrow> inspector_server" where
  "listen_for_new_inspectors sv =
     (case sv_queue sv of
        [] \<Rightarrow> sv
      | info # rest \<Rightarrow> sv\<lparr>sv_queue := rest, sv_registry := (sv_registry sv)(ii_uuid info \<mapsto> info)\<rparr>)"

definition drop_deregistered :: "inspector_server \<Rightarrow> inspector_server" where
  "drop_deregistered sv =
     sv\<lparr>sv_registry := (\<lambda>u. case sv_registry sv u of
          Some info \<Rightarrow> if ii_sessions info \<in> sv_gone sv then None else Some info
        | None \<Rightarrow> None)\<rparr>"

definition mark_connected :: "nat \<Rightarrow> inspector_server \<Rightarrow> inspector_server" where
  "mark_connected c sv = sv\<lparr>sv_connected := insert c (sv_connected sv)\<rparr>"

definition is_connected :: "nat \<Rightarrow> inspector_server \<Rightarrow> bool" where
  "is_connected c sv \<longleftrightarrow> c \<in> sv_connected sv"

section \<open>Requests\<close>

text \<open>What the server reads of a request; \<open>rq_upgrade\<close> is what \<open>fastwebsockets\<close> makes of it.\<close>

datatype upgrade_result = NotAnUpgrade | Upgrades nat

record http_request =
  rq_get :: bool
  rq_path :: string
  rq_host :: "string option"
  rq_upgrade :: upgrade_result

datatype http_body = BodyText string | BodyMetadata "inspector_metadata list" | BodyVersion "(string \<times> string) list"

record http_response =
  rs_status :: nat
  rs_body :: http_body

text \<open>The session that a request opens once its upgrade is through: a session channel and a connection flag.\<close>

type_synonym pending_session = "(nat \<times> nat) option"

definition respond :: "nat \<Rightarrow> http_body \<Rightarrow> http_response \<times> pending_session" where
  "respond n body = (\<lparr>rs_status = n, rs_body = body\<rparr>, None)"

definition handle_ws_request ::
  "inspector_world \<Rightarrow> http_request \<Rightarrow> inspector_server \<Rightarrow> http_response \<times> pending_session" where
  "handle_ws_request iw rq sv =
     (case (case strip_prefix ''/ws/'' (rq_path rq) of Some s \<Rightarrow> iw_uuid_parse iw s | None \<Rightarrow> None) of
        None \<Rightarrow> respond 400 (BodyText ''Malformed inspector UUID'')
      | Some uuid \<Rightarrow>
     (case sv_registry sv uuid of
        None \<Rightarrow> respond 404 (BodyText ''Invalid inspector UUID'')
      | Some info \<Rightarrow>
     (case rq_upgrade rq of
        NotAnUpgrade \<Rightarrow> respond 400 (BodyText ''Invalid WebSocket upgrade'')
      | Upgrades n \<Rightarrow> (\<lparr>rs_status = n, rs_body = BodyText []\<rparr>, Some (ii_sessions info, ii_connection info)))))"

text \<open>\<open>order\<close>: the order in which the map is iterated.\<close>

definition handle_json_request ::
  "inspector_world \<Rightarrow> (nat set \<Rightarrow> nat list) \<Rightarrow> string option \<Rightarrow> inspector_server \<Rightarrow> http_response \<times> pending_session" where
  "handle_json_request iw order host sv =
     respond 200 (BodyMetadata (map (\<lambda>u. metadata_for_host iw host (the (sv_registry sv u))) (order (dom (sv_registry sv)))))"

definition handle_json_version_request ::
  "inspector_world \<Rightarrow> inspector_server \<Rightarrow> http_response \<times> pending_session" where
  "handle_json_version_request iw sv =
     respond 200 (BodyVersion [(''Browser'', sv_name sv), (''Protocol-Version'', ''1.3''), (''V8-Version'', iw_v8_version iw)])"

definition serve_request ::
  "inspector_world \<Rightarrow> (nat set \<Rightarrow> nat list) \<Rightarrow> http_request \<Rightarrow> inspector_server \<Rightarrow> http_response \<times> pending_session" where
  "serve_request iw order rq sv =
     (if rq_get rq \<and> starts_with ''/ws/'' (rq_path rq) then handle_ws_request iw rq sv
      else if rq_get rq \<and> (rq_path rq = ''/json'' \<or> rq_path rq = ''/json/list'') then handle_json_request iw order (rq_host rq) sv
      else if rq_get rq \<and> rq_path rq = ''/json/version'' then handle_json_version_request iw sv
      else respond 404 (BodyText ''Not Found''))"

text \<open>The task of a session: \<open>upgraded\<close> is whether the upgrade went through.\<close>

definition session_task :: "pending_session \<Rightarrow> bool \<Rightarrow> inspector_server \<Rightarrow> inspector_server" where
  "session_task pending upgraded sv =
     (case pending of
        None \<Rightarrow> sv
      | Some (sessions, connection) \<Rightarrow>
          if \<not> upgraded then sv
          else (mark_connected connection sv)\<lparr>sv_opened := (sv_opened sv)(sessions := Suc (sv_opened sv sessions))\<rparr>)"

text \<open>Dropping the server ends it.\<close>

definition inspector_server_drop :: "inspector_server \<Rightarrow> inspector_server" where
  "inspector_server_drop sv = sv\<lparr>sv_running := False\<rparr>"

section \<open>The pump\<close>

text \<open>
  What one \<open>select!\<close> of \<open>pump_websocket_messages\<close> yields: a message for the debugger and whether it could
  be written, a frame (text that is no UTF-8 is \<open>None\<close>), or nothing because both sides are at their end.
\<close>

datatype pump_event = Outbound string bool | TextFrame "string option" | CloseFrame | OtherFrame | BothEnded

fun pump_websocket_messages :: "pump_event list \<Rightarrow> string list \<times> string list \<times> bool" where
  "pump_websocket_messages [] = ([], [], False)"
| "pump_websocket_messages (Outbound msg ok # evs) =
     (if \<not> ok then ([], [], True)
      else case pump_websocket_messages evs of (out, inn, fin) \<Rightarrow> (msg # out, inn, fin))"
| "pump_websocket_messages (TextFrame t # evs) =
     (case pump_websocket_messages evs of (out, inn, fin) \<Rightarrow>
        (out, (case t of Some s \<Rightarrow> s # inn | None \<Rightarrow> inn), fin))"
| "pump_websocket_messages (CloseFrame # evs) = ([], [], True)"
| "pump_websocket_messages (OtherFrame # evs) = pump_websocket_messages evs"
| "pump_websocket_messages (BothEnded # evs) = ([], [], True)"

section \<open>InspectorConfig\<close>

text \<open>The parts of \<open>InspectorConfig\<close> that need no validation; \<open>socket_text\<close> shows a \<open>SocketAddr\<close>.\<close>

record 'a socket_text =
  sk_ip :: "'a \<Rightarrow> string"
  sk_port :: "'a \<Rightarrow> 16 word"
  sk_text :: "'a \<Rightarrow> string"

definition inspector_config_default :: "'a \<Rightarrow> 'a inspector_config" where
  "inspector_config_default local_9229 =
     \<lparr>ins_address = local_9229, ins_wait_for_connection = False, ins_break_on_next_statement = False,
      ins_target_url = None, ins_display_name = None\<rparr>"

definition config_host :: "'a socket_text \<Rightarrow> 'a inspector_config \<Rightarrow> string" where
  "config_host sk c = sk_ip sk (ins_address c)"

definition config_port :: "'a socket_text \<Rightarrow> 'a inspector_config \<Rightarrow> 16 word" where
  "config_port sk c = sk_port sk (ins_address c)"

definition set_wait_for_connection :: "bool \<Rightarrow> 'a inspector_config \<Rightarrow> 'a inspector_config" where
  "set_wait_for_connection b c = c\<lparr>ins_wait_for_connection := b\<rparr>"

definition set_break_on_next_statement :: "bool \<Rightarrow> 'a inspector_config \<Rightarrow> 'a inspector_config" where
  "set_break_on_next_statement b c = c\<lparr>ins_break_on_next_statement := b\<rparr>"

definition set_target_url :: "string option \<Rightarrow> 'a inspector_config \<Rightarrow> 'a inspector_config" where
  "set_target_url u c = c\<lparr>ins_target_url := u\<rparr>"

definition set_display_name :: "string option \<Rightarrow> 'a inspector_config \<Rightarrow> 'a inspector_config" where
  "set_display_name n c = c\<lparr>ins_display_name := n\<rparr>"

definition config_endpoint :: "'a socket_text \<Rightarrow> 'a inspector_config \<Rightarrow> string" where
  "config_endpoint sk c = sk_text sk (ins_address c)"

section \<open>What Python sees\<close>

record inspector_endpoints =
  ie_id :: string
  ie_websocket_url :: string
  ie_devtools_frontend_url :: string
  ie_title :: string
  ie_description :: string
  ie_target_url :: string
  ie_favicon_url :: string
  ie_host :: string

definition endpoints_from :: "inspector_metadata \<Rightarrow> inspector_endpoints" where
  "endpoints_from m =
     \<lparr>ie_id = im_id m, ie_websocket_url = im_websocket_url m, ie_devtools_frontend_url = im_devtools_frontend_url m,
      ie_title = im_title m, ie_description = im_description m, ie_target_url = im_target_url m,
      ie_favicon_url = im_favicon_url m, ie_host = im_host m\<rparr>"

definition endpoints_repr :: "inspector_endpoints \<Rightarrow> string" where
  "endpoints_repr e =
     ''InspectorEndpoints(id='' @ ie_id e @ '', websocket_url='' @ ie_websocket_url e
     @ '', devtools_frontend_url='' @ ie_devtools_frontend_url e @ '')''"

definition py_inspector_endpoints :: "inspector_metadata option \<Rightarrow> inspector_endpoints option py_op" where
  "py_inspector_endpoints metadata =
     pbind borrow_handle (\<lambda>_. pret (map_option endpoints_from metadata))"

section \<open>Laws\<close>

text \<open>The server takes the registrations in order; the last one under a UUID stands.\<close>

lemma listen_all:
  "sv_queue sv = infos \<Longrightarrow> (listen_for_new_inspectors ^^ length infos) sv
     = sv\<lparr>sv_queue := [], sv_registry := sv_registry sv ++ map_of (rev (map (\<lambda>i. (ii_uuid i, i)) infos))\<rparr>"
proof (induction infos arbitrary: sv)
  case (Cons i infos)
  let ?sv = "sv\<lparr>sv_queue := infos, sv_registry := (sv_registry sv)(ii_uuid i \<mapsto> i)\<rparr>"
  have "listen_for_new_inspectors sv = ?sv"
    using Cons.prems by (simp add: listen_for_new_inspectors_def)
  then have "(listen_for_new_inspectors ^^ length (i # infos)) sv = (listen_for_new_inspectors ^^ length infos) ?sv"
    by (simp add: funpow_swap1)
  also have "\<dots> = ?sv\<lparr>sv_queue := [], sv_registry := sv_registry ?sv ++ map_of (rev (map (\<lambda>i. (ii_uuid i, i)) infos))\<rparr>"
    by (rule Cons.IH) simp
  finally show ?case by (simp add: map_add_assoc [symmetric])
qed simp

lemma serve_session:
  "serve_request iw order rq sv = (resp, Some p) \<Longrightarrow> rq_get rq \<and> handle_ws_request iw rq sv = (resp, Some p)"
  by (auto simp: serve_request_def handle_json_request_def handle_json_version_request_def respond_def split: if_splits)

section \<open>The properties\<close>

text \<open>
  C36  The URL a runtime publishes leads to it: once the server has taken the registration, a WebSocket
  upgrade at the path of the published URL offers exactly one new session to that runtime and to no other,
  and marks its connection flag.
\<close>

theorem debugger_url_reaches_runtime:
  assumes "\<And>u. iw_uuid_parse iw (iw_uuid_text iw u) = Some u"
    and "register_runtime iw uuid thread_name sessions params connection sv = (Inr m, sv1)"
    and "sv2 = (listen_for_new_inspectors ^^ length (sv_queue sv1)) sv1"
    and "rq_get rq" "im_websocket_url m = ''ws://'' @ im_host m @ rq_path rq" "rq_upgrade rq = Upgrades n"
  shows "\<exists>pending. serve_request iw order rq sv2 = (\<lparr>rs_status = n, rs_body = BodyText []\<rparr>, pending)
    \<and> sv_opened (session_task pending True sv2) = (sv_opened sv2)(sessions := Suc (sv_opened sv2 sessions))
    \<and> is_connected connection (session_task pending True sv2)"
proof -
  obtain info where info: "sv1 = sv\<lparr>sv_queue := sv_queue sv @ [info]\<rparr>" "ii_uuid info = uuid" "ii_sessions info = sessions"
      "ii_connection info = connection" "m = metadata_for_host iw None info"
    using assms(2) by (auto simp: register_runtime_def Let_def split: if_splits)
  have "sv_registry sv2 uuid = Some info"
    unfolding assms(3) listen_all [OF refl] using info(1,2) by (simp add: map_add_def)
  moreover have "rq_path rq = ''/ws/'' @ iw_uuid_text iw uuid"
    using assms(5) info(2,5) by (simp add: metadata_for_host_def get_websocket_debugger_url_def Let_def)
  then have "strip_prefix ''/ws/'' (rq_path rq) = Some (iw_uuid_text iw uuid)"
    by (simp only: strip_prefix_append)
  moreover from this have "starts_with ''/ws/'' (rq_path rq)"
    by (simp add: starts_with_def)
  ultimately have "serve_request iw order rq sv2 = (\<lparr>rs_status = n, rs_body = BodyText []\<rparr>, Some (sessions, connection))"
    using assms(1,4,6) info(3,4) by (simp add: serve_request_def handle_ws_request_def)
  then show ?thesis
    by (simp add: session_task_def mark_connected_def is_connected_def)
qed

text \<open>
  C34  Nobody debugs a runtime without its UUID: a request opens a session only if it is a GET whose path
  is \<open>/ws/\<close> with the UUID of a runtime in the registry, and then of that runtime; a runtime that has
  deregistered gets no session once the server has looked.
\<close>

theorem debugger_session_needs_uuid:
  assumes "serve_request iw order rq sv = (resp, Some (sessions, connection))"
  shows "rq_get rq \<and> (\<exists>idt uuid info. strip_prefix ''/ws/'' (rq_path rq) = Some idt \<and> iw_uuid_parse iw idt = Some uuid
      \<and> sv_registry sv uuid = Some info \<and> ii_sessions info = sessions \<and> ii_connection info = connection)
    \<and> (sv = drop_deregistered sv0 \<longrightarrow> sessions \<notin> sv_gone sv0)"
proof -
  have "rq_get rq" and ws: "handle_ws_request iw rq sv = (resp, Some (sessions, connection))"
    using serve_session [OF assms] by simp_all
  then obtain idt uuid info where found: "strip_prefix ''/ws/'' (rq_path rq) = Some idt" "iw_uuid_parse iw idt = Some uuid"
      "sv_registry sv uuid = Some info" "ii_sessions info = sessions" "ii_connection info = connection"
    by (auto simp: handle_ws_request_def respond_def split: option.splits upgrade_result.splits)
  moreover have "sessions \<notin> sv_gone sv0" if "sv = drop_deregistered sv0"
    using found(3,4) that by (auto simp: drop_deregistered_def split: option.splits if_splits)
  ultimately show ?thesis
    using \<open>rq_get rq\<close> by blast
qed

section \<open>The hypotheses can hold\<close>

definition plain_world :: inspector_world where
  "plain_world = \<lparr>iw_uuid_text = (\<lambda>u. replicate u (CHR ''u'')), iw_uuid_parse = (\<lambda>s. Some (length s)), iw_pid = ''1'', iw_v8_version = ''1''\<rparr>"

definition plain_server :: inspector_server where
  "plain_server = \<lparr>sv_host = ''h'', sv_name = ''peno'', sv_running = True, sv_queue = [], sv_registry = Map.empty, sv_gone = {},
     sv_connected = {}, sv_opened = (\<lambda>_. 0)\<rparr>"

definition plain_request :: http_request where
  "plain_request = \<lparr>rq_get = True, rq_path = ''/ws/uu'', rq_host = None, rq_upgrade = Upgrades 101\<rparr>"

definition registered_server :: inspector_server where
  "registered_server = listen_for_new_inspectors
     (snd (register_runtime plain_world 2 None 7 \<lparr>rp_target_url = None, rp_display_name = None, rp_wait_for_connection = False\<rparr> 9 plain_server))"

theorem debugger_url_reaches_runtime_witness:
  "\<exists>pending. serve_request plain_world sorted_list_of_set plain_request registered_server
      = (\<lparr>rs_status = 101, rs_body = BodyText []\<rparr>, pending)
    \<and> is_connected 9 (session_task pending True registered_server)"
proof -
  let ?p = "\<lparr>rp_target_url = None, rp_display_name = None, rp_wait_for_connection = False\<rparr>"
  obtain m sv1 where reg: "register_runtime plain_world 2 None 7 ?p 9 plain_server = (Inr m, sv1)"
      "length (sv_queue sv1) = 1" "im_websocket_url m = ''ws://'' @ im_host m @ ''/ws/uu''"
    by (simp add: register_runtime_def plain_server_def plain_world_def metadata_for_host_def get_websocket_debugger_url_def
        Let_def numeral_2_eq_2)
  have "registered_server = (listen_for_new_inspectors ^^ length (sv_queue sv1)) sv1"
    using reg(1,2) by (simp add: registered_server_def)
  then show ?thesis
    using debugger_url_reaches_runtime [OF _ reg(1), of registered_server plain_request 101 sorted_list_of_set] reg(3)
    by (auto simp: plain_world_def plain_request_def)
qed

theorem debugger_session_needs_uuid_witness:
  "\<exists>idt uuid info. iw_uuid_parse plain_world idt = Some uuid \<and> sv_registry registered_server uuid = Some info
    \<and> ii_sessions info = 7"
proof -
  have "serve_request plain_world sorted_list_of_set plain_request registered_server
      = (\<lparr>rs_status = 101, rs_body = BodyText []\<rparr>, Some (7, 9))"
    by (simp add: registered_server_def listen_for_new_inspectors_def register_runtime_def plain_server_def plain_world_def
        plain_request_def serve_request_def handle_ws_request_def starts_with_def Let_def)
  from debugger_session_needs_uuid [OF this] show ?thesis by blast
qed

end
