(* ===== verification/Peno_InspectorLoop.thy ===== *)
theory Peno_InspectorLoop
  imports Peno_Inspector
begin

text \<open>
  The thread of the inspector server (\<open>server\<close> in \<open>src/runtime/inspector.rs\<close>): the loop that accepts
  connections, a task per connection, the tasks that keep the registry, and how dropping the
  \<open>InspectorServer\<close> ends them all.  The shutdown signal is a broadcast channel, to which the loop and the
  connections subscribe again and again.
\<close>

section \<open>The shutdown signal\<close>

text \<open>
  A channel that \<open>tokio::sync::broadcast\<close> makes, with one sender: sending, dropping the sender, a receiver
  subscribed to it, and whether \<open>recv\<close> on a receiver returns.
\<close>

record ('b, 'r) broadcast =
  bc_new :: 'b
  bc_send :: "'b \<Rightarrow> 'b"
  bc_close :: "'b \<Rightarrow> 'b"
  bc_subscribe :: "'b \<Rightarrow> 'r"
  bc_ready :: "'b \<Rightarrow> 'r \<Rightarrow> bool"

text \<open>What its documentation promises: \<open>recv\<close> waits for a value sent later, and fails once the sender is gone.\<close>

definition broadcast_laws :: "('b, 'r) broadcast \<Rightarrow> bool" where
  "broadcast_laws bc \<longleftrightarrow> \<not> bc_ready bc (bc_new bc) (bc_subscribe bc (bc_new bc))
     \<and> (\<forall>b rx. bc_ready bc (bc_close bc b) rx)"

section \<open>The thread\<close>

datatype connection_state = ConnServing | ConnDraining | ConnFinished

record 'r connection =
  cn_shutdown :: 'r
  cn_state :: connection_state

text \<open>Where \<open>drop\<close> is: not begun, the signal sent, its sender dropped, the thread joined.\<close>

datatype owner_state = Held | Signalled | Hushed | Joined

text \<open>
  \<open>it_started\<close>: the listener could be made, and the loop begins.  \<open>it_waiting\<close>: the receiver of the
  \<open>select!\<close> the loop is in; \<open>it_sessions\<close>: the tasks of upgraded requests
  that have not run yet.
\<close>

record ('b, 'r) inspector_task =
  it_server :: inspector_server
  it_signal :: 'b
  it_owner :: owner_state
  it_started :: bool
  it_waiting :: "'r option"
  it_conns :: "'r connection list"
  it_sessions :: "(nat \<times> nat) list"

definition inspector_task_new :: "('b, 'r) broadcast \<Rightarrow> inspector_server \<Rightarrow> ('b, 'r) inspector_task" where
  "inspector_task_new bc sv = \<lparr>it_server = sv, it_signal = bc_new bc, it_owner = Held,
     it_started = False, it_waiting = None, it_conns = [], it_sessions = []\<rparr>"

text \<open>
  The loop begins, unless the listener cannot be made, and then the thread returns at once; it subscribes,
  then a connection comes in, \<open>accept\<close> fails, or the signal is there.
\<close>

inductive loop_step ::
  "('b, 'r) broadcast \<Rightarrow> ('b, 'r) inspector_task \<Rightarrow> ('b, 'r) inspector_task \<Rightarrow> bool" for bc where
  begun: "\<lbrakk>sv_running (it_server s); \<not> it_started s\<rbrakk> \<Longrightarrow> loop_step bc s (s\<lparr>it_started := True\<rparr>)"
| unlistened: "\<lbrakk>sv_running (it_server s); \<not> it_started s\<rbrakk> \<Longrightarrow>
    loop_step bc s (s\<lparr>it_server := inspector_server_drop (it_server s)\<rparr>)"
| subscribed: "\<lbrakk>sv_running (it_server s); it_started s; it_waiting s = None\<rbrakk> \<Longrightarrow>
    loop_step bc s (s\<lparr>it_waiting := Some (bc_subscribe bc (it_signal s))\<rparr>)"
| accepted: "\<lbrakk>sv_running (it_server s); it_waiting s = Some rx\<rbrakk> \<Longrightarrow>
    loop_step bc s (s\<lparr>it_waiting := None,
      it_conns := it_conns s @ [\<lparr>cn_shutdown = bc_subscribe bc (it_signal s), cn_state = ConnServing\<rparr>]\<rparr>)"
| accept_failed: "\<lbrakk>sv_running (it_server s); it_waiting s = Some rx\<rbrakk> \<Longrightarrow> loop_step bc s (s\<lparr>it_waiting := None\<rparr>)"
| stopped: "\<lbrakk>sv_running (it_server s); it_waiting s = Some rx; bc_ready bc (it_signal s) rx\<rbrakk> \<Longrightarrow>
    loop_step bc s (s\<lparr>it_server := inspector_server_drop (it_server s)\<rparr>)"

text \<open>The connections, which end by themselves or are told to finish what they do.\<close>

inductive conn_step :: "('b, 'r) broadcast \<Rightarrow> 'b \<Rightarrow> 'r connection \<Rightarrow> 'r connection \<Rightarrow> bool" for bc b where
  told: "\<lbrakk>cn_state c = ConnServing; bc_ready bc b (cn_shutdown c)\<rbrakk> \<Longrightarrow> conn_step bc b c (c\<lparr>cn_state := ConnDraining\<rparr>)"
| finished: "cn_state c \<noteq> ConnFinished \<Longrightarrow> conn_step bc b c (c\<lparr>cn_state := ConnFinished\<rparr>)"

text \<open>The tasks of the thread end with the loop, since the runtime that polls them is dropped.\<close>

inductive task_step ::
  "('b, 'r) broadcast \<Rightarrow> inspector_world \<Rightarrow> (nat set \<Rightarrow> nat list) \<Rightarrow> ('b, 'r) inspector_task \<Rightarrow> ('b, 'r) inspector_task
    \<Rightarrow> bool" for bc iw order where
  looped: "loop_step bc s s' \<Longrightarrow> task_step bc iw order s s'"
| listened: "\<lbrakk>sv_running (it_server s); it_started s\<rbrakk> \<Longrightarrow> task_step bc iw order s (s\<lparr>it_server := listen_for_new_inspectors (it_server s)\<rparr>)"
| retained: "\<lbrakk>sv_running (it_server s); it_started s\<rbrakk> \<Longrightarrow> task_step bc iw order s (s\<lparr>it_server := drop_deregistered (it_server s)\<rparr>)"
| served: "\<lbrakk>sv_running (it_server s); c \<in> set (it_conns s); cn_state c \<noteq> ConnFinished;
     serve_request iw order rq (it_server s) = (resp, pending)\<rbrakk> \<Longrightarrow>
    task_step bc iw order s (s\<lparr>it_sessions := it_sessions s @ (case pending of Some p \<Rightarrow> [p] | None \<Rightarrow> [])\<rparr>)"
| upgraded: "\<lbrakk>sv_running (it_server s); it_sessions s = before @ p # after\<rbrakk> \<Longrightarrow>
    task_step bc iw order s (s\<lparr>it_sessions := before @ after, it_server := session_task (Some p) ok (it_server s)\<rparr>)"
| connection: "\<lbrakk>sv_running (it_server s); it_conns s = before @ c # after; conn_step bc (it_signal s) c c'\<rbrakk> \<Longrightarrow>
    task_step bc iw order s (s\<lparr>it_conns := before @ c' # after\<rparr>)"

text \<open>The other threads: runtimes register and go, and \<open>drop\<close> runs to its end.\<close>

inductive owner_step ::
  "('b, 'r) broadcast \<Rightarrow> inspector_world \<Rightarrow> ('b, 'r) inspector_task \<Rightarrow> ('b, 'r) inspector_task \<Rightarrow> bool" for bc iw where
  registers: "\<lbrakk>it_owner s = Held; register_runtime iw uuid tn sessions params connection (it_server s) = (r, sv)\<rbrakk> \<Longrightarrow>
    owner_step bc iw s (s\<lparr>it_server := sv\<rparr>)"
| departs: "owner_step bc iw s (s\<lparr>it_server := (it_server s)\<lparr>sv_gone := insert i (sv_gone (it_server s))\<rparr>\<rparr>)"
| signals: "it_owner s = Held \<Longrightarrow>
    owner_step bc iw s (s\<lparr>it_owner := Signalled, it_signal := bc_send bc (it_signal s)\<rparr>)"
| hushes: "it_owner s = Signalled \<Longrightarrow>
    owner_step bc iw s (s\<lparr>it_owner := Hushed, it_signal := bc_close bc (it_signal s)\<rparr>)"
| joins: "\<lbrakk>it_owner s = Hushed; \<not> sv_running (it_server s)\<rbrakk> \<Longrightarrow> owner_step bc iw s (s\<lparr>it_owner := Joined\<rparr>)"

definition inspector_step ::
  "('b, 'r) broadcast \<Rightarrow> inspector_world \<Rightarrow> (nat set \<Rightarrow> nat list) \<Rightarrow> ('b, 'r) inspector_task \<Rightarrow> ('b, 'r) inspector_task
    \<Rightarrow> bool" where
  "inspector_step bc iw order s s' \<longleftrightarrow> task_step bc iw order s s' \<or> owner_step bc iw s s'"

section \<open>The invariant\<close>

definition signal_ok :: "('b, 'r) broadcast \<Rightarrow> ('b, 'r) inspector_task \<Rightarrow> bool" where
  "signal_ok bc s \<longleftrightarrow>
     (case it_owner s of
        Held \<Rightarrow> it_signal s = bc_new bc \<and> (it_started s \<longrightarrow> sv_running (it_server s))
          \<and> (\<forall>rx. it_waiting s = Some rx \<longrightarrow> rx = bc_subscribe bc (bc_new bc))
          \<and> (\<forall>c \<in> set (it_conns s). cn_shutdown c = bc_subscribe bc (bc_new bc) \<and> cn_state c \<noteq> ConnDraining)
      | Signalled \<Rightarrow> True
      | Hushed \<Rightarrow> \<forall>rx. bc_ready bc (it_signal s) rx
      | Joined \<Rightarrow> \<not> sv_running (it_server s))"

lemma running_simps [simp]:
  "sv_running (listen_for_new_inspectors sv) = sv_running sv" "sv_running (drop_deregistered sv) = sv_running sv"
  "sv_running (session_task p ok sv) = sv_running sv"
  by (simp_all add: listen_for_new_inspectors_def drop_deregistered_def session_task_def mark_connected_def
      split: list.split option.split prod.split)

lemma register_running: "register_runtime iw uuid tn sessions params connection sv = (r, sv') \<Longrightarrow> sv_running sv' = sv_running sv"
  by (auto simp: register_runtime_def Let_def split: if_splits)

lemma quiet_signal: "broadcast_laws bc \<Longrightarrow> \<not> bc_ready bc (bc_new bc) (bc_subscribe bc (bc_new bc))"
  by (simp add: broadcast_laws_def)

lemma loop_keeps: "loop_step bc s s' \<Longrightarrow> broadcast_laws bc \<Longrightarrow> signal_ok bc s \<Longrightarrow> signal_ok bc s'"
proof (induction rule: loop_step.induct)
  case (begun s)
  then show ?case by (cases "it_owner s") (simp_all add: signal_ok_def)
next
  case (unlistened s)
  then show ?case by (cases "it_owner s") (simp_all add: signal_ok_def inspector_server_drop_def)
next
  case (subscribed s)
  then show ?case by (cases "it_owner s") (simp_all add: signal_ok_def)
next
  case (accepted s rx)
  then show ?case by (cases "it_owner s") (simp_all add: signal_ok_def)
next
  case (accept_failed s rx)
  then show ?case by (cases "it_owner s") (simp_all add: signal_ok_def)
next
  case (stopped s rx)
  have "it_owner s \<noteq> Held"
  proof
    assume "it_owner s = Held"
    with stopped.prems(2) have "it_signal s = bc_new bc" "\<forall>rx. it_waiting s = Some rx \<longrightarrow> rx = bc_subscribe bc (bc_new bc)"
      by (simp_all add: signal_ok_def)
    with stopped.hyps(2,3) quiet_signal [OF stopped.prems(1)] show False by simp
  qed
  with stopped.prems(2) show ?case by (cases "it_owner s") (simp_all add: signal_ok_def inspector_server_drop_def)
qed

lemma conn_keeps: "conn_step bc b c c' \<Longrightarrow> broadcast_laws bc \<Longrightarrow> b = bc_new bc
    \<Longrightarrow> cn_shutdown c = bc_subscribe bc (bc_new bc) \<Longrightarrow> cn_shutdown c' = cn_shutdown c \<and> cn_state c' \<noteq> ConnDraining"
  by (induction rule: conn_step.induct) (simp_all add: quiet_signal)

lemma task_keeps: "task_step bc iw order s s' \<Longrightarrow> broadcast_laws bc \<Longrightarrow> signal_ok bc s \<Longrightarrow> signal_ok bc s'"
proof (induction rule: task_step.induct)
  case (looped s s')
  then show ?case by (blast intro: loop_keeps)
next
  case (connection s before c after c')
  show ?case
  proof (cases "it_owner s = Held")
    case True
    with connection.prems(2) have "it_signal s = bc_new bc" "cn_shutdown c = bc_subscribe bc (bc_new bc)"
      using connection.hyps(2) by (simp_all add: signal_ok_def)
    with conn_keeps [OF connection.hyps(3) connection.prems(1)] connection.hyps(2) connection.prems(2) True
    show ?thesis by (simp add: signal_ok_def)
  next
    case False
    with connection.prems(2) show ?thesis by (cases "it_owner s") (simp_all add: signal_ok_def)
  qed
qed (auto simp: signal_ok_def split: owner_state.splits)

lemma owner_keeps: "owner_step bc iw s s' \<Longrightarrow> broadcast_laws bc \<Longrightarrow> signal_ok bc s \<Longrightarrow> signal_ok bc s'"
  by (induction rule: owner_step.induct)
    (auto simp: signal_ok_def broadcast_laws_def dest: register_running split: owner_state.splits)

lemma inspector_reachable_ok:
  assumes "(inspector_step bc iw order)\<^sup>*\<^sup>* (inspector_task_new bc sv) s" "sv_running sv" "broadcast_laws bc"
  shows "signal_ok bc s"
  using assms(1)
proof (induction rule: rtranclp_induct)
  case base
  then show ?case using assms(2) by (simp add: signal_ok_def inspector_task_new_def)
next
  case (step s s')
  then show ?case using task_keeps owner_keeps assms(3) by (auto simp: inspector_step_def)
qed

text \<open>How far the loop is from its next wait.\<close>

definition loop_rank :: "('b, 'r) inspector_task \<Rightarrow> nat" where
  "loop_rank s = (if it_waiting s \<noteq> None then 0 else if it_started s then 1 else 2)"

lemma loop_stops_at_wait:
  "sv_running (it_server s) \<Longrightarrow> \<forall>rx. bc_ready bc (it_signal s) rx \<Longrightarrow> it_waiting s \<noteq> None \<Longrightarrow>
   loop_step bc s (s\<lparr>it_server := inspector_server_drop (it_server s)\<rparr>)"
  by (auto intro: loop_step.stopped)

lemma loop_goes_on: "sv_running (it_server s) \<Longrightarrow> \<exists>s'. loop_step bc s s'"
  by (cases "it_started s"; cases "it_waiting s") (blast intro: loop_step.intros)+

lemma loop_nears_wait: "loop_step bc s s' \<Longrightarrow> it_waiting s = None \<Longrightarrow> \<not> sv_running (it_server s') \<or> loop_rank s' < loop_rank s"
  by (induction rule: loop_step.induct) (auto simp: loop_rank_def inspector_server_drop_def)

lemma ended_is_still: "\<not> sv_running (it_server s) \<Longrightarrow> \<not> task_step bc iw order s s'"
  by (auto elim!: task_step.cases loop_step.cases)

section \<open>The property\<close>

text \<open>
  C35  The inspector server stops exactly when it is dropped.  With a broadcast channel that keeps its
  promises, in every interleaving of the loop, the connections and the runtimes: while the server is
  held and its listener could be made, the thread runs and no connection is told to finish; once
  \<open>drop\<close> has signalled and let go of the sender, the loop, wherever it is, comes to a wait in at most two
  steps, at every wait it can stop, so that only another accepted or failed connection delays it, and
  as long as the thread runs every connection that still serves can be told; and a thread that has
  ended, as it has when \<open>drop\<close> returns, does nothing any more, and no runtime can register.
\<close>

theorem inspector_stops_when_dropped:
  assumes "(inspector_step bc iw order)\<^sup>*\<^sup>* (inspector_task_new bc sv) s" "sv_running sv" "broadcast_laws bc"
  shows "(it_owner s = Held \<longrightarrow> (it_started s \<longrightarrow> sv_running (it_server s)) \<and> (\<forall>c \<in> set (it_conns s). cn_state c \<noteq> ConnDraining))
    \<and> (it_owner s = Hushed \<longrightarrow> sv_running (it_server s) \<longrightarrow>
         (\<exists>s'. loop_step bc s s')
         \<and> (\<forall>s'. loop_step bc s s' \<longrightarrow> it_waiting s = None \<longrightarrow> \<not> sv_running (it_server s') \<or> loop_rank s' < loop_rank s)
         \<and> (it_waiting s \<noteq> None \<longrightarrow> loop_step bc s (s\<lparr>it_server := inspector_server_drop (it_server s)\<rparr>))
         \<and> (\<forall>c \<in> set (it_conns s). cn_state c = ConnServing \<longrightarrow>
              conn_step bc (it_signal s) c (c\<lparr>cn_state := ConnDraining\<rparr>)))
    \<and> (it_owner s = Joined \<longrightarrow> \<not> sv_running (it_server s))
    \<and> (\<not> sv_running (it_server s) \<longrightarrow> (\<forall>s'. \<not> task_step bc iw order s s')
         \<and> fst (register_runtime iw uuid tn sessions params connection (it_server s)) = Inl ''Failed to register inspector'')"
proof (intro conjI impI)
  have ok: "signal_ok bc s" by (rule inspector_reachable_ok [OF assms])
  show "sv_running (it_server s)" if "it_owner s = Held" "it_started s"
    using ok that by (simp add: signal_ok_def)
  show "\<forall>c \<in> set (it_conns s). cn_state c \<noteq> ConnDraining" if "it_owner s = Held"
    using ok that by (simp add: signal_ok_def)
  have ready: "\<forall>rx. bc_ready bc (it_signal s) rx" if "it_owner s = Hushed"
    using ok that by (simp add: signal_ok_def)
  show "\<exists>s'. loop_step bc s s'" if "sv_running (it_server s)"
    using that by (rule loop_goes_on)
  show "\<forall>s'. loop_step bc s s' \<longrightarrow> it_waiting s = None \<longrightarrow> \<not> sv_running (it_server s') \<or> loop_rank s' < loop_rank s"
    using loop_nears_wait by blast
  show "loop_step bc s (s\<lparr>it_server := inspector_server_drop (it_server s)\<rparr>)"
    if "it_owner s = Hushed" "sv_running (it_server s)" "it_waiting s \<noteq> None"
    by (rule loop_stops_at_wait [OF that(2) ready [OF that(1)] that(3)])
  show "\<forall>c \<in> set (it_conns s). cn_state c = ConnServing \<longrightarrow> conn_step bc (it_signal s) c (c\<lparr>cn_state := ConnDraining\<rparr>)"
    if "it_owner s = Hushed"
    using ready [OF that] by (auto intro: conn_step.told)
  show "\<not> sv_running (it_server s)" if "it_owner s = Joined"
    using ok that by (simp add: signal_ok_def)
  show "\<forall>s'. \<not> task_step bc iw order s s'" if "\<not> sv_running (it_server s)"
    using ended_is_still [OF that] by blast
  show "fst (register_runtime iw uuid tn sessions params connection (it_server s)) = Inl ''Failed to register inspector''"
    if "\<not> sv_running (it_server s)"
    using that by (simp add: register_runtime_def Let_def)
qed

text \<open>
  A channel of counted values, whose receivers remember the count they subscribed at; the loop is between
  two waits when the signal is sent, subscribes too late to see it, and stops by the closure.
\<close>

definition counted_signal :: "(nat \<times> bool, nat) broadcast" where
  "counted_signal = \<lparr>bc_new = (0, True), bc_send = (\<lambda>(n, op). (Suc n, op)), bc_close = (\<lambda>(n, op). (n, False)),
     bc_subscribe = fst, bc_ready = (\<lambda>(n, op) rx. rx < n \<or> \<not> op)\<rparr>"

lemma counted_signal_laws: "broadcast_laws counted_signal"
  by (simp add: broadcast_laws_def counted_signal_def)

definition late_task :: "(nat \<times> bool, nat) inspector_task" where
  "late_task = (inspector_task_new counted_signal plain_server)\<lparr>it_started := True, it_signal := (1, False),
     it_owner := Hushed, it_waiting := Some 1\<rparr>"

theorem inspector_stops_when_dropped_witness:
  "loop_step counted_signal late_task (late_task\<lparr>it_server := inspector_server_drop (it_server late_task)\<rparr>)"
proof -
  let ?new = "inspector_task_new counted_signal plain_server"
  let ?step = "inspector_step counted_signal plain_world sorted_list_of_set"
  let ?b = "?new\<lparr>it_started := True\<rparr>"
  let ?a = "?b\<lparr>it_owner := Signalled, it_signal := (1, True)\<rparr>"
  have "?step ?new ?b"
    using task_step.looped [OF loop_step.begun, of ?new counted_signal plain_world sorted_list_of_set]
    by (simp add: inspector_step_def inspector_task_new_def plain_server_def)
  moreover have "?step ?b ?a"
    using owner_step.signals [of ?b counted_signal plain_world]
    by (simp add: inspector_step_def inspector_task_new_def counted_signal_def)
  moreover have "?step ?a (?a\<lparr>it_waiting := Some 1\<rparr>)"
    using task_step.looped [OF loop_step.subscribed, of ?a counted_signal plain_world sorted_list_of_set]
    by (simp add: inspector_step_def inspector_task_new_def plain_server_def counted_signal_def)
  moreover have "?step (?a\<lparr>it_waiting := Some 1\<rparr>) late_task"
    using owner_step.hushes [of "?a\<lparr>it_waiting := Some 1\<rparr>" counted_signal plain_world]
    by (simp add: inspector_step_def inspector_task_new_def late_task_def counted_signal_def)
  ultimately have "?step\<^sup>*\<^sup>* ?new late_task"
    by (meson rtranclp.rtrancl_refl rtranclp.rtrancl_into_rtrancl)
  from inspector_stops_when_dropped [OF this _ counted_signal_laws] show ?thesis
    by (simp add: late_task_def inspector_task_new_def plain_server_def)
qed

end
