(* ===== verification/Peno_Lifecycle.thy ===== *)
theory Peno_Lifecycle
  imports Peno_PyBindings Peno_Pool
begin

text \<open>
  How runtimes, snapshots and pooled isolates come into being and go: \<open>spawn_runtime_thread\<close> and
  \<open>OwnedSnapshot\<close> (\<open>src/runtime/runner.rs\<close>), \<open>SnapshotBuilder\<close> (\<open>src/runtime/snapshot.rs\<close>) and the Python
  objects over it and over the pool (\<open>src/runtime/python/snapshot.rs\<close>, \<open>src/runtime/python/pool.rs\<close>).
\<close>

section \<open>The runtime thread\<close>

text \<open>
  What becomes of the spawned thread until it reports: it cannot be created, its core comes up or fails, or
  it panics, which drops the sender of the report.
\<close>

datatype 'c thread_start = NoThread string | Reports "runtime_error + 'c" | Panics

definition spawn_runtime_thread :: "'c thread_start \<Rightarrow> runtime_error + 'c" where
  "spawn_runtime_thread start =
     (case start of
        NoThread e \<Rightarrow> Inl (Internal (''Failed to spawn runtime thread: '' @ e))
      | Reports (Inr core) \<Rightarrow> Inr core
      | Reports (Inl err) \<Rightarrow> Inl err
      | Panics \<Rightarrow> Inl (Internal ''Runtime thread initialization failed''))"

text \<open>\<open>RuntimeHandle::spawn\<close>; \<open>None\<close> when the construction of the core does not return.\<close>

definition runtime_handle_spawn ::
  "('h, 'w) js_engine \<Rightarrow> (nat, string) runtime_config \<Rightarrow> nat \<Rightarrow> string option \<Rightarrow> 'w \<Rightarrow> (runtime_error + runtime_handle) option" where
  "runtime_handle_spawn js cfg listener refused w =
     map_option (\<lambda>start. map_sum (\<lambda>e. e) (handle_spawn cfg listener) (spawn_runtime_thread start))
       (case refused of Some e \<Rightarrow> Some (NoThread e) | None \<Rightarrow> map_option Reports (core_new js cfg w))"

section \<open>Startup snapshots\<close>

text \<open>
  The bytes are leaked to give V8 a \<open>'static\<close> slice, and reclaimed when the owner is dropped.  Leaked
  blocks live in a heap; the result \<open>None\<close> is a panic, or a second free.
\<close>

record leak_heap =
  lh_blocks :: "nat \<rightharpoonup> bytes"
  lh_next :: nat

record owned_snapshot =
  own_data :: "bytes option"
  own_leaked :: "nat option"

definition owned_snapshot_new :: "bytes \<Rightarrow> owned_snapshot" where
  "owned_snapshot_new bytes = \<lparr>own_data = Some bytes, own_leaked = None\<rparr>"

definition as_static :: "owned_snapshot \<times> leak_heap \<Rightarrow> (nat \<times> owned_snapshot \<times> leak_heap) option" where
  "as_static x =
     (case x of (os, heap) \<Rightarrow>
      case own_leaked os of
        Some p \<Rightarrow> Some (p, os, heap)
      | None \<Rightarrow>
          (case own_data os of
             None \<Rightarrow> None
           | Some bytes \<Rightarrow>
               Some (lh_next heap, \<lparr>own_data = None, own_leaked = Some (lh_next heap)\<rparr>,
                 \<lparr>lh_blocks = (lh_blocks heap)(lh_next heap \<mapsto> bytes), lh_next = Suc (lh_next heap)\<rparr>)))"

definition owned_snapshot_drop :: "owned_snapshot \<times> leak_heap \<Rightarrow> leak_heap option" where
  "owned_snapshot_drop x =
     (case x of (os, heap) \<Rightarrow>
      case own_leaked os of
        None \<Rightarrow> Some heap
      | Some p \<Rightarrow> if lh_blocks heap p = None then None else Some (heap\<lparr>lh_blocks := (lh_blocks heap)(p := None)\<rparr>))"

section \<open>Building a snapshot\<close>

text \<open>\<open>JsRuntimeForSnapshot\<close>, as the builder uses it.\<close>

record 'r snapshot_engine =
  se_new :: "string + 'r"
  se_execute :: "string \<Rightarrow> string \<Rightarrow> 'r \<Rightarrow> (js_error + unit) \<times> 'r"
  se_snapshot :: "'r \<Rightarrow> bytes"

record snapshot_config =
  sb_bootstrap_script :: "string option"
  sb_enable_console :: "bool option"

definition snapshot_config_default :: snapshot_config where
  "snapshot_config_default = \<lparr>sb_bootstrap_script = None, sb_enable_console = Some False\<rparr>"

type_synonym 'r snapshot_builder = "'r option"

definition snapshot_execute :: "'r snapshot_engine \<Rightarrow> string \<Rightarrow> string \<Rightarrow> ('r, runtime_error, unit) comp" where
  "snapshot_execute se name source r =
     (case se_execute se name source r of (x, r') \<Rightarrow> (map_err (JavaScript \<circ> from_js_error) x, r'))"

definition snapshot_disable_console_script :: string where
  \<open>snapshot_disable_console_script = ''
        (() => {
            const noop = () => {};
            const stub = new Proxy(Object.create(null), { get: () => noop });
            const existing = globalThis.console;
            if (typeof existing === "object" && existing !== null) {
                for (const key of Reflect.ownKeys(existing)) {
                    try { existing[key] = noop; } catch (_) {}
                }
                return;
            }
            globalThis.console = stub;
        })();
        ''\<close>

definition snapshot_disable_console :: "'r snapshot_engine \<Rightarrow> ('r, runtime_error, unit) comp" where
  "snapshot_disable_console se = snapshot_execute se ''<disable_console>'' snapshot_disable_console_script"

definition snapshot_builder_new ::
  "'r snapshot_engine \<Rightarrow> snapshot_config \<Rightarrow> runtime_error + 'r snapshot_builder" where
  "snapshot_builder_new se cfg =
     (case se_new se of
        Inl e \<Rightarrow> Inl (Internal (''Failed to initialize snapshot runtime: '' @ e))
      | Inr r \<Rightarrow>
          (case sthen (if sb_enable_console cfg = Some False then snapshot_disable_console se else sret ())
                  (case sb_bootstrap_script cfg of
                     Some script \<Rightarrow> snapshot_execute se ''<bootstrap>'' script
                   | None \<Rightarrow> sret ()) r of
             (Inl e, _) \<Rightarrow> Inl e
           | (Inr _, r') \<Rightarrow> Inr (Some r')))"

definition snapshot_builder_execute ::
  "'r snapshot_engine \<Rightarrow> string \<Rightarrow> string \<Rightarrow> ('r snapshot_builder, runtime_error, unit) comp" where
  "snapshot_builder_execute se name source b =
     (case b of
        None \<Rightarrow> (Inl (Internal ''Snapshot has already been built''), b)
      | Some r \<Rightarrow> (case snapshot_execute se name source r of (x, r') \<Rightarrow> (x, Some r')))"

definition snapshot_builder_build :: "'r snapshot_engine \<Rightarrow> 'r snapshot_builder \<Rightarrow> runtime_error + bytes" where
  "snapshot_builder_build se b =
     (case b of
        None \<Rightarrow> Inl (Internal ''Snapshot has already been built'')
      | Some r \<Rightarrow> Inr (se_snapshot se r))"

text \<open>The Python object: \<open>build\<close> takes the builder out, whether or not it succeeds.\<close>

type_synonym 'r snapshot_builder_py = "'r snapshot_builder option"

definition snapshot_py_new ::
  "'r snapshot_engine \<Rightarrow> string option \<Rightarrow> bool option \<Rightarrow> py_exc + 'r snapshot_builder_py" where
  "snapshot_py_new se bootstrap console =
     (case map_err runtime_error_to_py
             (snapshot_builder_new se \<lparr>sb_bootstrap_script = bootstrap, sb_enable_console = console\<rparr>) of
        Inl e \<Rightarrow> Inl e
      | Inr b \<Rightarrow> Inr (Some b))"

definition snapshot_py_execute ::
  "'r snapshot_engine \<Rightarrow> string \<Rightarrow> string \<Rightarrow> ('r snapshot_builder_py, py_exc, unit) comp" where
  "snapshot_py_execute se name source g =
     (case g of
        None \<Rightarrow> (Inl (PyRuntimeError ''Snapshot already built''), g)
      | Some b \<Rightarrow>
          (case snapshot_builder_execute se name source b of (x, b') \<Rightarrow> (map_err runtime_error_to_py x, Some b')))"

definition snapshot_py_build :: "'r snapshot_engine \<Rightarrow> ('r snapshot_builder_py, py_exc, py_val) comp" where
  "snapshot_py_build se g =
     (case g of
        None \<Rightarrow> (Inl (PyRuntimeError ''Snapshot already built''), None)
      | Some b \<Rightarrow> (map_err runtime_error_to_py (map_sum (\<lambda>e. e) PBytesObj (snapshot_builder_build se b)), None))"

section \<open>Pooled isolates in Python\<close>

definition pool_py_new :: "('i, 'c, 'v) isolate_ops \<Rightarrow> nat \<Rightarrow> 'i pool" where
  "pool_py_new io n = pool_new io n"

definition pool_py_checkout :: "('i, 'c, 'v) isolate_ops \<Rightarrow> 'i pool \<Rightarrow> nat option \<times> 'i pool" where
  "pool_py_checkout io p = (case checkout io p of (h, p') \<Rightarrow> (Some h, p'))"

text \<open>\<open>release\<close> takes the checkout out of the object, and dropping the checkout releases it.\<close>

definition pooled_release_py :: "nat option \<Rightarrow> 'i pool \<Rightarrow> nat option \<times> 'i pool" where
  "pooled_release_py inner p = (None, case inner of None \<Rightarrow> p | Some h \<Rightarrow> release h p)"

definition pooled_exit_py :: "nat option \<Rightarrow> 'i pool \<Rightarrow> bool \<times> nat option \<times> 'i pool" where
  "pooled_exit_py inner p = (False, pooled_release_py inner p)"

section \<open>Laws\<close>

text \<open>Repeated borrows of one owner; \<open>None\<close>: one of them panicked.\<close>

fun borrows :: "nat \<Rightarrow> owned_snapshot \<times> leak_heap \<Rightarrow> (nat list \<times> owned_snapshot \<times> leak_heap) option" where
  "borrows 0 x = Some ([], x)"
| "borrows (Suc n) x =
     (case as_static x of
        None \<Rightarrow> None
      | Some (p, x') \<Rightarrow> map_option (\<lambda>(ps, x''). (p # ps, x'')) (borrows n x'))"

definition heap_fresh :: "leak_heap \<Rightarrow> bool" where
  "heap_fresh h \<longleftrightarrow> (\<forall>p \<ge> lh_next h. lh_blocks h p = None)"

lemma borrows_leaked:
  "own_leaked os = Some p \<Longrightarrow> borrows n (os, h) = Some (replicate n p, os, h)"
  by (induction n) (simp_all add: as_static_def)

lemma borrows_new:
  "borrows (Suc n) (owned_snapshot_new bytes, h) = Some (replicate (Suc n) (lh_next h),
     \<lparr>own_data = None, own_leaked = Some (lh_next h)\<rparr>,
     \<lparr>lh_blocks = (lh_blocks h)(lh_next h \<mapsto> bytes), lh_next = Suc (lh_next h)\<rparr>)"
  by (simp add: as_static_def owned_snapshot_new_def borrows_leaked)

text \<open>A builder that is there stays there until it is built.\<close>

lemma snapshot_execute_keeps:
  "snapshot_py_execute se name source g = (r, g') \<Longrightarrow> g' = None \<longleftrightarrow> g = None"
  by (auto simp: snapshot_py_execute_def split: option.splits prod.splits)

fun snapshot_scripts ::
  "'r snapshot_engine \<Rightarrow> (string \<times> string) list \<Rightarrow> 'r snapshot_builder_py \<Rightarrow> (py_exc + unit) list \<times> 'r snapshot_builder_py" where
  "snapshot_scripts se [] g = ([], g)"
| "snapshot_scripts se ((name, source) # later) g =
     (case snapshot_py_execute se name source g of
        (r, g') \<Rightarrow> (case snapshot_scripts se later g' of (rs, g'') \<Rightarrow> (r # rs, g'')))"

lemma snapshot_scripts_spent:
  "snapshot_scripts se scripts None = (replicate (length scripts) (Inl (PyRuntimeError ''Snapshot already built'')), None)"
  by (induction scripts) (auto simp: snapshot_py_execute_def)

lemma snapshot_py_inner:
  "snapshot_py_new se bootstrap console = Inr g \<Longrightarrow> \<exists>r. g = Some (Some r)"
  by (auto simp: snapshot_py_new_def snapshot_builder_new_def map_err_def split: sum.splits prod.splits)

lemma snapshot_scripts_inner:
  "g = Some (Some r) \<Longrightarrow> snapshot_scripts se scripts g = (rs, g') \<Longrightarrow> \<exists>r'. g' = Some (Some r')"
proof (induction scripts arbitrary: g r rs)
  case (Cons c scripts)
  then show ?case
    by (cases c) (force simp: snapshot_py_execute_def snapshot_builder_execute_def split: prod.splits)
qed auto

section \<open>The properties\<close>

text \<open>
  The memory of a startup snapshot is reclaimed exactly once: however often the bytes are borrowed,
  every borrow gives the same address, which holds exactly the bytes; dropping the owner frees that block
  and no other, and an owner that was never borrowed from frees nothing.
\<close>

theorem snapshot_memory_reclaimed_once:
  assumes "heap_fresh h"
  shows "\<exists>ps os h'. borrows n (owned_snapshot_new bytes, h) = Some (ps, os, h') \<and> ps = replicate n (lh_next h)
    \<and> (n > 0 \<longrightarrow> lh_blocks h' (lh_next h) = Some bytes)
    \<and> (\<exists>h''. owned_snapshot_drop (os, h') = Some h'' \<and> lh_blocks h'' = lh_blocks h)"
proof (cases n)
  case 0
  then show ?thesis
    by (simp add: owned_snapshot_new_def owned_snapshot_drop_def)
next
  case (Suc m)
  have "(lh_blocks h)(lh_next h := None) = lh_blocks h"
    using assms by (auto simp: heap_fresh_def)
  then show ?thesis
    unfolding Suc borrows_new by (simp add: owned_snapshot_drop_def)
qed

text \<open>
  A snapshot is built once: a builder that came up accepts scripts, whatever they raise, until it is
  built; \<open>build\<close> then gives the bytes of the engine, and from then on every script and every further
  \<open>build\<close> raises ''Snapshot already built''.
\<close>

theorem snapshot_built_once:
  assumes "snapshot_py_new se bootstrap console = Inr g" "snapshot_scripts se scripts g = (rs, g')"
  shows "\<exists>r. snapshot_py_build se g' = (Inr (PBytesObj (se_snapshot se r)), None)
    \<and> snapshot_scripts se later None = (replicate (length later) (Inl (PyRuntimeError ''Snapshot already built'')), None)
    \<and> snapshot_py_build se None = (Inl (PyRuntimeError ''Snapshot already built''), None)"
proof -
  obtain r0 where "g = Some (Some r0)"
    using snapshot_py_inner [OF assms(1)] by blast
  then obtain r where "g' = Some (Some r)"
    using snapshot_scripts_inner [OF _ assms(2)] by blast
  then show ?thesis
    by (intro exI [of _ r] conjI snapshot_scripts_spent)
      (simp_all add: snapshot_py_build_def snapshot_builder_build_def map_err_def)
qed

section \<open>The hypotheses can hold\<close>

definition echo_engine :: "string snapshot_engine" where
  "echo_engine = \<lparr>se_new = Inr [], se_execute = (\<lambda>name source r. (Inr (), r @ source)), se_snapshot = (\<lambda>r. map (of_nat \<circ> of_char) r)\<rparr>"

theorem snapshot_memory_reclaimed_once_witness:
  "\<exists>ps os h'. borrows 2 (owned_snapshot_new [1, 2], \<lparr>lh_blocks = Map.empty, lh_next = 5\<rparr>) = Some (ps, os, h') \<and> ps = [5, 5]
    \<and> lh_blocks h' 5 = Some [1, 2]"
proof -
  have "heap_fresh \<lparr>lh_blocks = Map.empty, lh_next = 5\<rparr>"
    by (simp add: heap_fresh_def)
  from snapshot_memory_reclaimed_once [OF this, of 2 "[1, 2]"] show ?thesis
    by (auto simp: numeral_2_eq_2 simp del: borrows.simps)
qed

theorem snapshot_built_once_witness:
  "\<exists>r. snapshot_py_build echo_engine (Some (Some ''x'')) = (Inr (PBytesObj (se_snapshot echo_engine r)), None)"
proof -
  have "snapshot_py_new echo_engine None None = Inr (Some (Some []))"
    by (simp add: snapshot_py_new_def snapshot_builder_new_def echo_engine_def sthen_def sbind_def sret_def map_err_def)
  moreover have "snapshot_scripts echo_engine [([], ''x'')] (Some (Some [])) = ([Inr ()], Some (Some ''x''))"
    by (simp add: snapshot_py_execute_def snapshot_builder_execute_def snapshot_execute_def echo_engine_def map_err_def)
  ultimately show ?thesis
    using snapshot_built_once by blast
qed

end
