(* ===== verification/Peno_Threads.thy ===== *)
theory Peno_Threads
  imports Peno_Lifecycle Peno_DispatchLaws
begin

text \<open>
  The runtime threads of a process (\<open>src/runtime/runner.rs\<close>): the body of the thread that
  \<open>spawn_runtime_thread\<close> creates, from its guard to the end of its dispatcher, and the process-wide count
  that the guard keeps.
\<close>

section \<open>The guard\<close>

definition runtime_thread_guard_new :: "u64 \<Rightarrow> u64" where
  "runtime_thread_guard_new n = n + 1"

definition runtime_thread_guard_drop :: "u64 \<Rightarrow> u64" where
  "runtime_thread_guard_drop n = n - 1"

section \<open>The threads\<close>

text \<open>
  \<open>Created\<close>: the closure has not run yet; \<open>Starting\<close>: the guard is there and the core is being built;
  \<open>Serving\<close>: the dispatcher runs; \<open>Ended\<close>: the closure has returned or unwound.
\<close>

datatype ('h, 'w) runtime_thread =
    Created "(nat, string) runtime_config" 'w
  | Starting "(nat, string) runtime_config" 'w
  | Serving "phase \<times> ('h, 'w) dispatcher"
  | Ended

fun guarded :: "('h, 'w) runtime_thread \<Rightarrow> bool" where
  "guarded (Starting _ _) = True"
| "guarded (Serving _) = True"
| "guarded _ = False"

record ('h, 'w) process =
  thread_count :: u64
  runtime_threads :: "('h, 'w) runtime_thread list"

definition process_new :: "('h, 'w) process" where
  "process_new = \<lparr>thread_count = 0, runtime_threads = []\<rparr>"

definition active_runtime_threads :: "('h, 'w) process \<Rightarrow> u64" where
  "active_runtime_threads p = thread_count p"

text \<open>A step of one thread: its guard's effect on the count, and what it becomes.\<close>

inductive thread_turn ::
  "('h, 'w) js_engine \<Rightarrow> ('h, 'w) runtime_thread \<Rightarrow> (u64 \<Rightarrow> u64) \<Rightarrow> ('h, 'w) runtime_thread \<Rightarrow> bool" for js where
  begins: "thread_turn js (Created cfg w) runtime_thread_guard_new (Starting cfg w)"
| up: "core_new js cfg w = Some (Inr core) \<Longrightarrow>
    thread_turn js (Starting cfg w) (\<lambda>n. n) (Serving (Looping, dispatcher_new core))"
| failed: "core_new js cfg w = Some (Inl e) \<Longrightarrow> thread_turn js (Starting cfg w) runtime_thread_guard_drop Ended"
| serves: "run_step js s cmds s' \<Longrightarrow> thread_turn js (Serving s) (\<lambda>n. n) (Serving s')"
| left: "thread_turn js (Serving (Exited, d)) runtime_thread_guard_drop Ended"
| unwound: "guarded t \<Longrightarrow> thread_turn js t runtime_thread_guard_drop Ended"

inductive process_step :: "('h, 'w) js_engine \<Rightarrow> ('h, 'w) process \<Rightarrow> ('h, 'w) process \<Rightarrow> bool" for js where
  spawned: "process_step js p (p\<lparr>runtime_threads := runtime_threads p @ [Created cfg w]\<rparr>)"
| turn: "i < length (runtime_threads p) \<Longrightarrow> thread_turn js (runtime_threads p ! i) f t \<Longrightarrow>
    process_step js p \<lparr>thread_count = f (thread_count p), runtime_threads = (runtime_threads p)[i := t]\<rparr>"

inductive_cases process_stepE: "process_step js p p'"

inductive_simps thread_turn_Ended [simp]: "thread_turn js Ended f t"

section \<open>The count is right\<close>

definition count_ok :: "('h, 'w) process \<Rightarrow> bool" where
  "count_ok p \<longleftrightarrow> thread_count p = of_nat (length (filter guarded (runtime_threads p)))"

lemma guarded_update:
  "i < length ts \<Longrightarrow> of_nat (length (filter guarded (ts[i := t])))
    = (of_nat (length (filter guarded ts)) :: u64) - of_bool (guarded (ts ! i)) + of_bool (guarded t)"
proof (induction ts arbitrary: i)
  case (Cons x ts)
  then show ?case by (cases i) simp_all
qed simp

lemma turn_count:
  "thread_turn js t f t' \<Longrightarrow> f n = n - of_bool (guarded t) + of_bool (guarded t')"
  by (induction rule: thread_turn.induct)
    (simp_all add: runtime_thread_guard_new_def runtime_thread_guard_drop_def)

lemma process_step_count: "process_step js p p' \<Longrightarrow> count_ok p \<Longrightarrow> count_ok p'"
  by (induction rule: process_step.induct) (simp_all add: count_ok_def guarded_update turn_count)

lemma process_count: "(process_step js)\<^sup>*\<^sup>* process_new p \<Longrightarrow> count_ok p"
  by (induction rule: rtranclp_induct) (simp add: count_ok_def process_new_def, rule process_step_count)

section \<open>Threads end\<close>

lemma channel_closed_fails:
  "\<exists>new. d_sent (handle_channel_closed js d) = d_sent d @ new \<and> all_failed (outstanding d) new"
proof -
  let ?d = "on_core (\<lambda>c. c\<lparr>core_term := ensure_reason ''Command channel closed unexpectedly'' (core_term c)\<rparr>) d"
  obtain new where "d_sent (cancel_all_jobs js (core_terminated_error (d_core ?d)) ?d) = d_sent ?d @ new"
      "all_failed (outstanding ?d) new"
    using cancel_all_fails by blast
  then show ?thesis
    by (intro exI [of _ new]) (simp add: handle_channel_closed_def Let_def on_core_def outstanding_def)
qed

lemma waiting_can_end:
  fixes p :: "('h, 'w) process"
  assumes "i < length (runtime_threads p)" "runtime_threads p ! i = Serving (Waiting parked, d)"
  shows "(process_step js)\<^sup>*\<^sup>* p \<lparr>thread_count = thread_count p - 1, runtime_threads = (runtime_threads p)[i := Ended]\<rparr>"
proof -
  let ?gone = "Serving (Exited, handle_channel_closed js d)"
  let ?q = "\<lparr>thread_count = thread_count p, runtime_threads = (runtime_threads p)[i := ?gone]\<rparr>"
  have "run_step js (Waiting parked, d) [] (Exited, handle_channel_closed js d)"
    using run_step.woken [of js ChannelClosed d True] by simp
  from process_step.turn [OF assms(1), of js "\<lambda>n. n" ?gone] thread_turn.serves [OF this]
  have "process_step js p ?q" using assms(2) by simp
  moreover have "process_step js ?q \<lparr>thread_count = thread_count p - 1, runtime_threads = (runtime_threads p)[i := Ended]\<rparr>"
    using process_step.turn [of i ?q js runtime_thread_guard_drop Ended]
      thread_turn.left [of js "handle_channel_closed js d"] assms(1)
    by (simp add: runtime_thread_guard_drop_def)
  ultimately show ?thesis by (meson converse_rtranclp_into_rtranclp r_into_rtranclp)
qed

section \<open>The property\<close>

text \<open>
  Runtime threads are counted and end with their channel: in every reachable process
  \<open>active_runtime_threads\<close> is the number of threads that have begun and not ended, whatever they went
  through; and a thread that waits and finds its channel closed fails every outstanding request in order,
  is terminated, leaves its loop, and gives its place in the count back.
\<close>

theorem runtime_threads_end_with_channel:
  fixes p :: "('h, 'w) process"
  assumes "(process_step js)\<^sup>*\<^sup>* process_new p"
  shows "active_runtime_threads p = of_nat (length (filter guarded (runtime_threads p)))
    \<and> (\<forall>i < length (runtime_threads p). \<forall>parked d. runtime_threads p ! i = Serving (Waiting parked, d) \<longrightarrow>
         (\<exists>d' new. loop_wake js ChannelClosed d = Some (True, d') \<and> d_sent d' = d_sent d @ new
            \<and> all_failed (outstanding d) new \<and> outstanding d' = [] \<and> core_terminated (d_core d'))
         \<and> (process_step js)\<^sup>*\<^sup>* p
             \<lparr>thread_count = thread_count p - 1, runtime_threads = (runtime_threads p)[i := Ended]\<rparr>)"
proof (intro conjI allI impI)
  show "active_runtime_threads p = of_nat (length (filter guarded (runtime_threads p)))"
    using process_count [OF assms] by (simp add: count_ok_def active_runtime_threads_def)
next
  fix i parked and d :: "('h, 'w) dispatcher"
  obtain new where "d_sent (handle_channel_closed js d) = d_sent d @ new" "all_failed (outstanding d) new"
    using channel_closed_fails by blast
  then show "\<exists>d' new. loop_wake js ChannelClosed d = Some (True, d') \<and> d_sent d' = d_sent d @ new
            \<and> all_failed (outstanding d) new \<and> outstanding d' = [] \<and> core_terminated (d_core d')"
    using channel_closed_handled [of d js]
    by (intro exI [of _ "handle_channel_closed js d"] exI [of _ new])
      (simp, simp add: handle_channel_closed_def Let_def on_core_def finalize_terminated)
next
  fix i parked and d :: "('h, 'w) dispatcher"
  assume "i < length (runtime_threads p)" "runtime_threads p ! i = Serving (Waiting parked, d)"
  then show "(process_step js)\<^sup>*\<^sup>* p
      \<lparr>thread_count = thread_count p - 1, runtime_threads = (runtime_threads p)[i := Ended]\<rparr>"
    by (rule waiting_can_end)
qed

section \<open>The hypothesis can hold\<close>

definition tick_started :: "(nat, nat) core_state" where
  "tick_started = (snd (ask_js tick_js (tick ()) (core_blank tick_config 0)))\<lparr>core_term := termination_new\<rparr>"

lemma tick_starts: "core_new tick_js tick_config 0 = Some (Inr tick_started)"
  by (simp add: core_new_def heap_limits_of_def create_runtime_def setup_console_def run_bootstrap_def
      start_inspector_def tick_started_def tick_defs sthen_def sbind_def ask_js_eq sret_def absorb_def)

lemma tick_started_waits: "fst (loop_top tick_js (dispatcher_new tick_started)) = TurnWait True"
  by (simp add: loop_top_def drive_event_loop_def poll_active_def settle_turn_def should_reject_new_work_def
      is_requested_def termination_new_def status_defs dispatcher_new_def ask_js_eq absorb_def tick_started_def tick_defs)

abbreviation tick_process :: "u64 \<Rightarrow> (nat, nat) runtime_thread \<Rightarrow> (nat, nat) process" where
  "tick_process n t \<equiv> \<lparr>thread_count = n, runtime_threads = [t]\<rparr>"

lemma tick_process_turn:
  "thread_turn tick_js t f t' \<Longrightarrow> process_step tick_js (tick_process n t) (tick_process (f n) t')"
  using process_step.turn [of 0 "tick_process n t" tick_js f t'] by simp

lemma tick_process_waits:
  "\<exists>d. (process_step tick_js)\<^sup>*\<^sup>* process_new (tick_process 1 (Serving (Waiting True, d)))"
proof -
  obtain d where top: "loop_top tick_js (dispatcher_new tick_started) = (TurnWait True, d)"
    using tick_started_waits by (cases "loop_top tick_js (dispatcher_new tick_started)") simp
  have "process_step tick_js process_new (tick_process 0 (Created tick_config 0))"
    using process_step.spawned [of tick_js process_new tick_config 0] by (simp add: process_new_def)
  then have "(process_step tick_js)\<^sup>*\<^sup>* process_new (tick_process 0 (Created tick_config 0))" by blast
  also
  have "process_step tick_js (tick_process 0 (Created tick_config 0)) (tick_process 1 (Starting tick_config 0))"
    using tick_process_turn [OF thread_turn.begins, of 0 tick_config 0] by (simp add: runtime_thread_guard_new_def)
  also (rtranclp.rtrancl_into_rtrancl)
  have "process_step tick_js (tick_process 1 (Starting tick_config 0)) (tick_process 1 (Serving (Looping, dispatcher_new tick_started)))"
    by (rule tick_process_turn [OF thread_turn.up [OF tick_starts]])
  also (rtranclp.rtrancl_into_rtrancl)
  have "process_step tick_js (tick_process 1 (Serving (Looping, dispatcher_new tick_started))) (tick_process 1 (Serving (Waiting True, d)))"
    using tick_process_turn [OF thread_turn.serves [OF run_step.turn [OF top]]] by simp
  finally (rtranclp.rtrancl_into_rtrancl) show ?thesis by blast
qed

theorem runtime_threads_end_with_channel_witness:
  "\<exists>d d'. loop_wake tick_js ChannelClosed d = Some (True, d') \<and> core_terminated (d_core d')
    \<and> (process_step tick_js)\<^sup>*\<^sup>* (tick_process 1 (Serving (Waiting True, d))) (tick_process 0 Ended)"
proof -
  obtain d where "(process_step tick_js)\<^sup>*\<^sup>* process_new (tick_process 1 (Serving (Waiting True, d)))"
    using tick_process_waits by blast
  from runtime_threads_end_with_channel [OF this] show ?thesis by fastforce
qed

end
