(* ===== verification/Peno_System.thy ===== *)
theory Peno_System
  imports Peno_HandleLaws Peno_PyLaws Peno_Threads
begin

text \<open>
  A runtime as a whole: the callers of its handle, the command channel between them, and the runtime
  thread at its other end (\<open>spawn_runtime_thread\<close> and \<open>RuntimeDispatcher::run\<close> in
  \<open>src/runtime/runner.rs\<close>).  The handle and the dispatcher, which the other theories take one at a time,
  are composed here, and what a caller waits for is what the dispatcher does.
\<close>

section \<open>The state\<close>

text \<open>
  \<open>sy_sent\<close>: every command that was put into the channel, in order; the first \<open>sy_taken\<close> of them have
  been received.  \<open>sy_senders\<close>: some sender is left.  \<open>sy_open\<close>: the dispatcher, which owns the receiver and
  the responders it has taken, has not been dropped.
\<close>

record ('h, 'w) system =
  sy_sent :: "runtime_command list"
  sy_taken :: nat
  sy_senders :: bool
  sy_open :: bool
  sy_run :: "phase \<times> ('h, 'w) dispatcher"

definition system_new :: "('h, 'w) core_state \<Rightarrow> ('h, 'w) system" where
  "system_new core = \<lparr>sy_sent = [], sy_taken = 0, sy_senders = True, sy_open = True,
     sy_run = (Looping, dispatcher_new core)\<rparr>"

definition sy_dispatcher :: "('h, 'w) system \<Rightarrow> ('h, 'w) dispatcher" where
  "sy_dispatcher s = snd (sy_run s)"

definition unserved :: "('h, 'w) system \<Rightarrow> bool" where
  "unserved s \<longleftrightarrow> sy_taken s < length (sy_sent s)"

text \<open>
  The arms of the \<open>select!\<close>, which is biased: the channel comes first, and the waker and the timer are
  only looked at when it is empty and has a sender.
\<close>

fun arm_ready :: "bool \<Rightarrow> ('h, 'w) system \<Rightarrow> wake \<Rightarrow> bool" where
  "arm_ready parked s (GotCommand cmd) \<longleftrightarrow> unserved s \<and> cmd = sy_sent s ! sy_taken s"
| "arm_ready parked s ChannelClosed \<longleftrightarrow> \<not> unserved s \<and> \<not> sy_senders s"
| "arm_ready parked s Notified \<longleftrightarrow> \<not> unserved s \<and> sy_senders s"
| "arm_ready parked s TimerElapsed \<longleftrightarrow> \<not> unserved s \<and> sy_senders s \<and> \<not> parked"

section \<open>The steps\<close>

text \<open>The runtime thread.  \<open>dropped\<close>: it has left its loop, or unwinds.\<close>

inductive thread_step :: "('h, 'w) js_engine \<Rightarrow> ('h, 'w) system \<Rightarrow> ('h, 'w) system \<Rightarrow> bool" for js where
  turned: "\<lbrakk>sy_open s; sy_run s = (Looping, d); loop_top js d = (t, d')\<rbrakk> \<Longrightarrow>
    thread_step js s (s\<lparr>sy_run := (phase_of_turn t, d')\<rparr>)"
| woke: "\<lbrakk>sy_open s; sy_run s = (Waiting parked, d); arm_ready parked s ev; loop_wake js ev d = Some (exit, d')\<rbrakk> \<Longrightarrow>
    thread_step js s (s\<lparr>sy_taken := sy_taken s + length (taken ev), sy_run := (if exit then Exited else Looping, d')\<rparr>)"
| dropped: "sy_open s \<Longrightarrow> thread_step js s (s\<lparr>sy_open := False\<rparr>)"

text \<open>The callers, whose responders are numbered, and the other threads while the dispatcher waits.\<close>

inductive world_step :: "('h, 'w) js_engine \<Rightarrow> ('h, 'w) system \<Rightarrow> ('h, 'w) system \<Rightarrow> bool" for js where
  sent: "\<lbrakk>sy_senders s; sy_open s; responder_of cmd = length (sy_sent s)\<rbrakk> \<Longrightarrow>
    world_step js s (s\<lparr>sy_sent := sy_sent s @ [cmd]\<rparr>)"
| hung_up: "world_step js s (s\<lparr>sy_senders := False\<rparr>)"
| elsewhere: "\<lbrakk>sy_open s; sy_run s = (Waiting parked, d); run_step js (Waiting parked, d) [] (Waiting parked, d')\<rbrakk> \<Longrightarrow>
    world_step js s (s\<lparr>sy_run := (Waiting parked, d')\<rparr>)"

definition system_step :: "('h, 'w) js_engine \<Rightarrow> ('h, 'w) system \<Rightarrow> ('h, 'w) system \<Rightarrow> bool" where
  "system_step js s s' \<longleftrightarrow> thread_step js s s' \<or> world_step js s s'"

inductive_cases thread_stepE: "thread_step js s s'"
inductive_cases world_stepE: "world_step js s s'"

text \<open>What a caller finds when it looks at its responder, and so the world in which it waits.\<close>

datatype caller_view = HasAnswer answer | HasLost | HasNothing

definition caller_sees :: "('h, 'w) system \<Rightarrow> nat \<Rightarrow> caller_view" where
  "caller_sees s n =
     (case map_of (d_sent (sy_dispatcher s)) n of
        Some a \<Rightarrow> HasAnswer a
      | None \<Rightarrow> if sy_open s then HasNothing else HasLost)"

definition caller_env :: "(nat \<Rightarrow> ('h, 'w) system) \<Rightarrow> (nat \<Rightarrow> nat) \<Rightarrow> nat \<Rightarrow> answer wait_env" where
  "caller_env run clock n =
     \<lparr>we_event = (\<lambda>k. case caller_sees (run k) n of
        HasAnswer a \<Rightarrow> Received a
      | HasLost \<Rightarrow> Disconnected
      | HasNothing \<Rightarrow> SliceElapsed (clock k) (clock k)),
      we_term = (\<lambda>k. core_term (d_core (sy_dispatcher (run k))))\<rparr>"

text \<open>A handle over this channel numbers its responders as the steps do.\<close>

lemma post_is_sent:
  assumes "handle_ok h" "h_sent h = sy_sent s" "sy_senders s" "sy_open s" "\<And>r. responder_of (cmd r) = r"
  shows "world_step js s (s\<lparr>sy_sent := h_sent (post cmd h)\<rparr>) \<and> h_next h = length (sy_sent s)"
proof -
  have n: "h_next h = length (sy_sent s)"
    using assms(1,2) by (metis handle_ok_def length_map length_upt minus_nat.diff_0)
  with world_step.sent [of s "cmd (h_next h)" js] assms show ?thesis by (simp add: post_def)
qed

section \<open>The thread of a system is a dispatcher\<close>

lemma dispatcher_simps [simp]:
  "sy_dispatcher (s\<lparr>sy_run := p\<rparr>) = snd p" "sy_dispatcher (s\<lparr>sy_sent := cmds\<rparr>) = sy_dispatcher s"
  "sy_dispatcher (s\<lparr>sy_senders := b\<rparr>) = sy_dispatcher s" "sy_dispatcher (s\<lparr>sy_open := b\<rparr>) = sy_dispatcher s"
  "sy_dispatcher (s\<lparr>sy_taken := n\<rparr>) = sy_dispatcher s"
  by (simp_all add: sy_dispatcher_def)

lemma waiting_loop: "run_step js (Waiting parked, d) [] (Waiting parked, d') \<Longrightarrow>
    server_of d' = server_of d \<and> d_ok d' = d_ok d \<and> outstanding d' = outstanding d \<and> d_just d' = d_just d
    \<and> d_sent d' = d_sent d"
  by (erule run_stepE) (auto simp: server_of_def outstanding_def d_ok_def split: if_splits)

text \<open>A step of the system, seen from its dispatcher and its channel.\<close>

definition relayed ::
  "('h, 'w) js_engine \<Rightarrow> ('h, 'w) system \<Rightarrow> runtime_command list \<Rightarrow> ('h, 'w) system \<Rightarrow> bool" where
  "relayed js s new s' \<longleftrightarrow> (sy_run s' = sy_run s \<and> new = [] \<or> run_step js (sy_run s) new (sy_run s'))"

lemma thread_relays: "thread_step js s s' \<Longrightarrow> \<exists>new. relayed js s new s' \<and> sy_sent s' = sy_sent s
    \<and> new @ drop (sy_taken s') (sy_sent s) = drop (sy_taken s) (sy_sent s)
    \<and> sy_taken s' = sy_taken s + length new \<and> (sy_taken s \<le> length (sy_sent s) \<longrightarrow> sy_taken s' \<le> length (sy_sent s))"
proof (induction rule: thread_step.induct)
  case (turned s d t d')
  then show ?case by (intro exI [of _ "[]"]) (auto simp: relayed_def intro: run_step.turn)
next
  case (woke s parked d ev exit d')
  then have "run_step js (Waiting parked, d) (taken ev) (if exit then Exited else Looping, d')"
    by (intro run_step.woken) (auto split: wake.splits)
  with woke show ?case
    by (intro exI [of _ "taken ev"])
      (cases ev; auto simp: relayed_def unserved_def Cons_nth_drop_Suc)
next
  case (dropped s)
  then show ?case by (intro exI [of _ "[]"]) (simp add: relayed_def)
qed

definition numbered :: "('h, 'w) system \<Rightarrow> bool" where
  "numbered s \<longleftrightarrow> map responder_of (sy_sent s) = [0..<length (sy_sent s)] \<and> sy_taken s \<le> length (sy_sent s)"

lemma system_refines:
  assumes "(system_step js)\<^sup>*\<^sup>* (system_new core) s"
  shows "runs js (Looping, dispatcher_new core) (take (sy_taken s) (sy_sent s)) (sy_run s) \<and> numbered s"
  using assms
proof (induction rule: rtranclp_induct)
  case base
  then show ?case by (simp add: system_new_def runs.start numbered_def)
next
  case (step s s')
  then have IH: "runs js (Looping, dispatcher_new core) (take (sy_taken s) (sy_sent s)) (sy_run s)" "numbered s"
    by blast+
  from step(2) consider "thread_step js s s'" | "world_step js s s'" unfolding system_step_def by blast
  then show ?case
  proof cases
    case 1
    obtain new where new: "relayed js s new s'" "sy_sent s' = sy_sent s" "sy_taken s' = sy_taken s + length new"
      "new @ drop (sy_taken s') (sy_sent s) = drop (sy_taken s) (sy_sent s)" "sy_taken s' \<le> length (sy_sent s)"
      using thread_relays [OF 1] IH(2) by (auto simp: numbered_def)
    have "take (sy_taken s') (sy_sent s) = take (sy_taken s) (sy_sent s) @ take (length new) (drop (sy_taken s) (sy_sent s))"
      by (simp add: new(3) take_add)
    also have "\<dots> = take (sy_taken s) (sy_sent s) @ new"
      by (simp flip: new(4))
    finally have t: "take (sy_taken s') (sy_sent s') = take (sy_taken s) (sy_sent s) @ new" by (simp add: new(2))
    show ?thesis
      using IH new(1,2,5) t by (auto simp: relayed_def numbered_def intro: runs.step)
  next
    case 2
    then show ?thesis
      using IH by (induction rule: world_step.induct)
        (auto simp: numbered_def, metis append.right_neutral runs.step)
  qed
qed

section \<open>Accounts\<close>

lemma no_step_after_exit: "run_step js s new s' \<Longrightarrow> fst s \<noteq> Exited"
  by (erule run_stepE) auto

lemma shutdown_exits: "run_step js s new s' \<Longrightarrow> CmdShutdown r \<in> set new \<Longrightarrow> fst s' = Exited"
proof (erule run_stepE)
  fix ev d exit d' parked
  assume "new = taken ev" "CmdShutdown r \<in> set new" "s' = (if exit then Exited else Looping, d')"
    "loop_wake js ev d = Some (exit, d')"
  then show ?thesis by (cases ev) auto
qed simp_all

lemma runs_no_shutdown:
  "runs js s cmds s' \<Longrightarrow> fst s' \<noteq> Exited \<Longrightarrow> CmdShutdown r \<notin> set cmds"
proof (induction rule: runs.induct)
  case (step cmds s' new s'')
  have "CmdShutdown r \<notin> set cmds" by (rule step.IH [OF no_step_after_exit [OF step.hyps(2)]])
  moreover have "CmdShutdown r \<notin> set new" using shutdown_exits [OF step.hyps(2)] step.prems by blast
  ultimately show ?case by simp
qed simp

lemma taken_numbers: "numbered s \<Longrightarrow> map responder_of (take (sy_taken s) (sy_sent s)) = [0..<sy_taken s]"
  by (simp add: numbered_def take_map [symmetric])

definition outstanding_in :: "('h, 'w) system \<Rightarrow> nat list" where
  "outstanding_in s = fst (abs_state (sy_run s))"

lemma sent_in: "snd (abs_state (sy_run s)) = d_sent (sy_dispatcher s)"
  by (simp add: abs_state_def sy_dispatcher_def)

definition shut_down_by :: "('h, 'w) system \<Rightarrow> bool" where
  "shut_down_by s \<longleftrightarrow> fst (sy_run s) = Exited \<and> (\<exists>r. CmdShutdown r \<in> set (take (sy_taken s) (sy_sent s)))"

lemma system_accounts:
  assumes "(system_step js)\<^sup>*\<^sup>* (system_new core) s"
  shows "\<exists>dropped. mset [0..<sy_taken s] = mset (map fst (d_sent (sy_dispatcher s))) + mset (outstanding_in s) + dropped
    \<and> (\<not> shut_down_by s \<longrightarrow> dropped = {#})"
proof -
  note r = system_refines [OF assms]
  from serves_accounts [OF runs_from_new [OF conjunct1 [OF r]]] obtain new dropped where
    a: "d_sent (sy_dispatcher s) = new" "dropped = {#} \<or> (\<exists>cmd \<in> set (take (sy_taken s) (sy_sent s)). is_shutdown cmd)"
      "mset (map responder_of (take (sy_taken s) (sy_sent s))) = mset (map fst new) + mset (outstanding_in s) + dropped"
    by (auto simp: sent_in outstanding_in_def)
  have "dropped = {#}" if "\<not> shut_down_by s"
    using a(2) runs_no_shutdown [OF conjunct1 [OF r]] that by (auto simp: is_shutdown_def shut_down_by_def)
  with a taken_numbers [OF conjunct2 [OF r]] show ?thesis by auto
qed

lemma answered_once:
  assumes "(system_step js)\<^sup>*\<^sup>* (system_new core) s"
  shows "distinct (map fst (d_sent (sy_dispatcher s)) @ outstanding_in s)"
    "set (map fst (d_sent (sy_dispatcher s)) @ outstanding_in s) \<subseteq> {..<sy_taken s}"
proof -
  obtain dropped where
    a: "mset [0..<sy_taken s] = mset (map fst (d_sent (sy_dispatcher s)) @ outstanding_in s) + dropped"
    using system_accounts [OF assms] by (auto simp: ac_simps)
  let ?l = "map fst (d_sent (sy_dispatcher s)) @ outstanding_in s"
  have le: "mset ?l \<subseteq># mset [0..<sy_taken s]" unfolding a by (rule mset_subset_eq_add_left)
  then show "distinct ?l" by (rule distinct_sub) simp
  show "set ?l \<subseteq> {..<sy_taken s}"
    using set_mset_mono [OF le] by (simp only: set_mset_mset set_upt) auto
qed

lemma relayed_log: "relayed js s new s' \<Longrightarrow> run_ok (sy_run s)
    \<Longrightarrow> \<exists>more. d_sent (sy_dispatcher s') = d_sent (sy_dispatcher s) @ more"
  using run_step_serves [of js "sy_run s" new "sy_run s'"]
    serves_accounts [of new "abs_state (sy_run s)" "abs_state (sy_run s')"]
  by (auto simp: relayed_def sent_in) (simp add: sy_dispatcher_def)

lemma step_relays: "system_step js s s' \<Longrightarrow> \<exists>new. relayed js s new s'"
proof -
  assume "system_step js s s'"
  then consider "thread_step js s s'" | "world_step js s s'" unfolding system_step_def by blast
  then show ?thesis
  proof cases
    case 1
    then show ?thesis using thread_relays by blast
  next
    case 2
    then show ?thesis by (induction rule: world_step.induct) (auto simp: relayed_def)
  qed
qed

lemma step_keeps_ok:
  assumes "system_step js s s'" "run_ok (sy_run s)"
  shows "run_ok (sy_run s')"
  using step_relays [OF assms(1)] assms(2) run_step_serves [of js "sy_run s" _ "sy_run s'"] by (auto simp: relayed_def)

lemma log_grows:
  "(system_step js)\<^sup>*\<^sup>* s s' \<Longrightarrow> run_ok (sy_run s)
    \<Longrightarrow> (\<exists>more. d_sent (sy_dispatcher s') = d_sent (sy_dispatcher s) @ more) \<and> run_ok (sy_run s')"
proof (induction rule: rtranclp_induct)
  case (step s' s'')
  then obtain new where "relayed js s' new s''" using step_relays by blast
  then show ?case using relayed_log step step_keeps_ok [OF step.hyps(2)] by fastforce
qed simp

lemma sees_answer_stays:
  assumes "(system_step js)\<^sup>*\<^sup>* s s'" "run_ok (sy_run s)" "caller_sees s n = HasAnswer a"
  shows "caller_sees s' n = HasAnswer a"
  using log_grows [OF assms(1,2)] assms(3) by (auto simp: caller_sees_def map_add_Some_iff split: option.splits if_splits)

lemma reachable_ok: "(system_step js)\<^sup>*\<^sup>* (system_new core) s \<Longrightarrow> run_ok (sy_run s)"
  by (rule conjunct2 [OF log_grows], assumption) (simp add: system_new_def new_run_ok)

section \<open>The thread does not spin\<close>

text \<open>
  What a trip that goes round again uses up: an outstanding job, or the extra trip that a new active
  job is given.
\<close>

definition trips_left :: "('h, 'w) dispatcher \<Rightarrow> nat" where
  "trips_left d = 2 * length (outstanding d) + of_bool (d_just d)"

definition idle_loop_ok :: "('h, 'w) js_engine \<Rightarrow> ('h, 'w) dispatcher \<Rightarrow> bool" where
  "idle_loop_ok js d \<longleftrightarrow> (d_active d = None \<longrightarrow> fst (drive_event_loop js d) \<noteq> None)"

lemma trips_left_core [simp]: "trips_left (d\<lparr>d_core := c\<rparr>) = trips_left d"
  by (simp add: trips_left_def)

lemma complete_job_trips:
  assumes "d_active d = Some j"
  shows "trips_left (complete_job js job res d) < 2 * length (outstanding d)"
proof -
  let ?d = "on_core (record_job js (job_common_of job)) (d\<lparr>d_active := None\<rparr>)"
  obtain v c where f: "finish_job js job res ?d
      = ?d\<lparr>d_core := c, d_sent := d_sent ?d @ [(job_responder job, AnsValue v)]\<rparr>"
    using finish_job_eq by blast
  show ?thesis
    unfolding complete_job_def f
    by (cases "d_pending d") (simp_all add: start_next_def on_core_def outstanding_def trips_left_def assms of_bool_def)
qed

lemma drive_event_loop_trips:
  assumes "drive_event_loop js d = (r, d')"
  shows "(r = None \<and> d_active d = None) \<or> (r = None \<and> trips_left d' < trips_left d)
    \<or> (r \<noteq> None \<and> trips_left d' = trips_left d \<and> (d_active d' = None \<longleftrightarrow> d_active d = None) \<and> d_pending d' = d_pending d
       \<and> d_just d' = d_just d)"
proof -
  have less: "trips_left (complete_job js job x (d\<lparr>d_core := c\<rparr>)) < trips_left d" if "d_active d = Some job" for job c x
    using complete_job_trips [of "d\<lparr>d_core := c\<rparr>" job js job x] that by (simp add: trips_left_def [of d])
  obtain ev c where "ask_js js (js_poll_event_loop js) (d_core d) = (Inr ev, c)" by (simp add: ask_js_eq)
  then show ?thesis
    using assms less
    by (cases ev; auto simp: drive_event_loop_def split: sum.splits prod.splits if_splits option.splits)
qed

lemma poll_active_trips:
  "trips_left (poll_active js d) = trips_left d \<or> trips_left (poll_active js d) < 2 * length (outstanding d)"
proof (cases "d_active d")
  case None
  then show ?thesis by (simp add: poll_active_def)
next
  case (Some job)
  obtain r job' c where p: "job_poll js job (d_core d) = (r, job', c)" by (rule prod_cases3)
  let ?d = "d\<lparr>d_active := Some job', d_core := c\<rparr>"
  have "length (outstanding ?d) = length (outstanding d)" using Some by (simp add: outstanding_def)
  with Some p complete_job_trips [of ?d job' js job'] show ?thesis
    by (cases r) (auto simp: poll_active_def trips_left_def)
qed

lemma settle_again: "settle_turn js drained d = (TurnAgain, d') \<Longrightarrow> d_just d \<and> d' = d\<lparr>d_just := False\<rparr>"
  by (auto simp: settle_turn_def split: if_splits)

lemma loop_top_trips:
  assumes "loop_top js d = (TurnAgain, d')" "idle_loop_ok js d"
  shows "trips_left d' < trips_left d"
proof -
  obtain r d1 where e: "drive_event_loop js d = (r, d1)" by fastforce
  show ?thesis
  proof (cases r)
    case None
    with e assms drive_event_loop_trips [OF e] show ?thesis by (auto simp: loop_top_def idle_loop_ok_def)
  next
    case (Some drained)
    let ?d2 = "poll_active js d1"
    have "trips_left d1 = trips_left d" using drive_event_loop_trips [OF e] Some by blast
    moreover have "settle_turn js drained ?d2 = (TurnAgain, d')" using assms(1) e Some by (simp add: loop_top_def)
    then have "trips_left d' < trips_left ?d2"
      by (auto dest!: settle_again simp: trips_left_def outstanding_def)
    moreover have "trips_left ?d2 \<le> trips_left d1"
      using poll_active_trips [of js d1] by (auto simp: trips_left_def)
    ultimately show ?thesis by simp
  qed
qed

text \<open>The trips of the loop up to its wait, at most the given number.\<close>

fun go_round :: "('h, 'w) js_engine \<Rightarrow> nat \<Rightarrow> ('h, 'w) dispatcher \<Rightarrow> turn \<times> ('h, 'w) dispatcher" where
  "go_round js 0 d = (TurnAgain, d)"
| "go_round js (Suc n) d = (case loop_top js d of (TurnAgain, d') \<Rightarrow> go_round js n d' | r \<Rightarrow> r)"

lemma go_round_settles:
  assumes "\<And>d. idle_loop_ok js d"
  shows "trips_left d < n \<Longrightarrow> fst (go_round js n d) \<noteq> TurnAgain"
proof (induction n arbitrary: d)
  case (Suc n)
  obtain t d' where top: "loop_top js d = (t, d')" by fastforce
  show ?case
  proof (cases t)
    case TurnAgain
    then have "trips_left d' < trips_left d" using loop_top_trips [of js d d'] top assms by blast
    with Suc top TurnAgain show ?thesis by simp
  qed (simp_all add: top)
qed simp

text \<open>
  If the event loop does not fail while no job is active, the dispatcher goes round at most twice for
  each outstanding job, and once for a job just activated, before it waits for the channel or leaves.
\<close>

lemma loop_reaches_its_wait:
  assumes "\<And>d. idle_loop_ok js d"
  shows "fst (go_round js (Suc (2 * length (outstanding d) + of_bool (d_just d))) d) \<noteq> TurnAgain"
  by (rule go_round_settles [OF assms]) (simp add: trips_left_def)

section \<open>Fair executions\<close>

definition execution :: "('h, 'w) js_engine \<Rightarrow> (nat \<Rightarrow> ('h, 'w) system) \<Rightarrow> bool" where
  "execution js run \<longleftrightarrow> (\<forall>k. run (Suc k) = run k \<or> system_step js (run k) (run (Suc k)))"

text \<open>
  The thread has something to do: it is not waiting, or it waits with a timer, or the channel it waits for
  holds a command or has no sender.
\<close>

definition thread_ready :: "('h, 'w) system \<Rightarrow> bool" where
  "thread_ready s \<longleftrightarrow> sy_open s \<and> (\<forall>parked. fst (sy_run s) = Waiting parked \<longrightarrow> unserved s \<or> \<not> sy_senders s \<or> \<not> parked)"

definition thread_fair :: "('h, 'w) js_engine \<Rightarrow> (nat \<Rightarrow> ('h, 'w) system) \<Rightarrow> bool" where
  "thread_fair js run \<longleftrightarrow> (\<forall>k. \<exists>j \<ge> k. \<not> thread_ready (run j) \<or> thread_step js (run j) (run (Suc j)))"

fun phase_rank :: "phase \<Rightarrow> nat" where
  "phase_rank Looping = 2"
| "phase_rank (Waiting _) = 1"
| "phase_rank Exited = 0"

definition distance :: "nat \<Rightarrow> ('h, 'w) system \<Rightarrow> nat \<times> nat \<times> nat" where
  "distance n s = (Suc n - sy_taken s, phase_rank (fst (sy_run s)), trips_left (sy_dispatcher s))"

definition nearer :: "((nat \<times> nat \<times> nat) \<times> (nat \<times> nat \<times> nat)) set" where
  "nearer = less_than <*lex*> less_than <*lex*> less_than"

lemma wf_nearer: "wf nearer"
  by (simp add: nearer_def wf_lex_prod)

text \<open>Command \<open>n\<close> is in the channel and not yet received.\<close>

definition queued :: "nat \<Rightarrow> ('h, 'w) system \<Rightarrow> bool" where
  "queued n s \<longleftrightarrow> sy_open s \<and> sy_taken s \<le> n \<and> n < length (sy_sent s)"

lemma queued_ready: "queued n s \<Longrightarrow> thread_ready s"
  by (simp add: queued_def thread_ready_def unserved_def)

lemma world_keeps: "world_step js s s' \<Longrightarrow> distance n s' = distance n s \<and> (queued n s \<longrightarrow> queued n s')"
  by (induction rule: world_step.induct)
    (auto simp: distance_def queued_def trips_left_def sy_dispatcher_def dest!: waiting_loop)

lemma thread_nears:
  assumes "thread_step js s s'" "queued n s" "\<And>d. sy_run s = (Looping, d) \<Longrightarrow> idle_loop_ok js d"
  shows "\<not> sy_open s' \<or> (distance n s', distance n s) \<in> nearer"
  using assms
proof (induction rule: thread_step.induct)
  case (turned s d t d')
  then show ?case
    using loop_top_trips [of js d d'] by (cases t) (auto simp: distance_def nearer_def sy_dispatcher_def)
next
  case (woke s parked d ev exit d')
  then show ?case by (cases ev) (auto simp: distance_def nearer_def queued_def unserved_def)
qed simp

text \<open>A need of the thread that the rest of the world leaves alone, and so is met in a fair execution.\<close>

locale thread_need =
  fixes js :: "('h, 'w) js_engine" and need :: "('h, 'w) system \<Rightarrow> bool"
  assumes kept: "world_step js s s' \<Longrightarrow> need s \<Longrightarrow> need s'"
    and ready: "need s \<Longrightarrow> thread_ready s"
begin

lemma goes_on:
  assumes "execution js run" "thread_ready (run (k + m)) \<longrightarrow> thread_step js (run (k + m)) (run (Suc (k + m)))"
    and "need (run k)"
  shows "\<exists>j \<ge> k. thread_step js (run j) (run (Suc j)) \<and> need (run j)"
  using assms(2,3)
proof (induction m arbitrary: k)
  case 0
  then show ?case using ready by (intro exI [of _ k]) auto
next
  case (Suc m)
  show ?case
  proof (cases "thread_step js (run k) (run (Suc k))")
    case True
    then show ?thesis using Suc.prems by blast
  next
    case False
    with assms(1) have "run (Suc k) = run k \<or> world_step js (run k) (run (Suc k))"
      by (auto simp: execution_def system_step_def)
    then have "need (run (Suc k))"
      using kept Suc.prems(2) by auto
    with Suc.IH [of "Suc k"] Suc.prems(1) show ?thesis by (metis Suc_leD add_Suc_shift)
  qed
qed

lemma met:
  assumes "execution js run" "thread_fair js run" "need (run k)"
  shows "\<exists>j \<ge> k. thread_step js (run j) (run (Suc j)) \<and> need (run j)"
proof -
  obtain m where "thread_ready (run (k + m)) \<longrightarrow> thread_step js (run (k + m)) (run (Suc (k + m)))"
    using assms(2) unfolding thread_fair_def by (metis le_add_diff_inverse)
  then show ?thesis by (rule goes_on [OF assms(1) _ assms(3)])
qed

end

definition left_loop :: "('h, 'w) system \<Rightarrow> bool" where
  "left_loop s \<longleftrightarrow> sy_open s \<and> fst (sy_run s) = Exited"

interpretation receiving: thread_need js "\<lambda>s. queued n s \<and> distance n s = dist" for js n dist
  by unfold_locales (use world_keeps queued_ready in blast)+

interpretation leaving: thread_need js left_loop for js
  by unfold_locales (auto simp: left_loop_def thread_ready_def elim: world_step.cases)

lemma queue_drains:
  assumes "execution js run" "thread_fair js run"
    and "\<And>k d. sy_run (run k) = (Looping, d) \<Longrightarrow> idle_loop_ok js d"
  shows "queued n (run k) \<Longrightarrow> \<exists>j \<ge> k. \<not> sy_open (run j) \<or> n < sy_taken (run j)"
proof (induction "distance n (run k)" arbitrary: k rule: wf_induct_rule [OF wf_nearer])
  case 1
  obtain j where j: "j \<ge> k" "thread_step js (run j) (run (Suc j))" "queued n (run j)"
      "distance n (run j) = distance n (run k)"
    using receiving.met [OF assms(1,2), where k = k and n = n] 1(2) by blast
  have "\<not> sy_open (run (Suc j)) \<or> (distance n (run (Suc j)), distance n (run k)) \<in> nearer"
    using thread_nears [OF j(2,3)] assms(3) j(4) by force
  moreover have "length (sy_sent (run (Suc j))) = length (sy_sent (run j))"
    using thread_relays [OF j(2)] by auto
  ultimately have "\<not> sy_open (run (Suc j)) \<or> n < sy_taken (run (Suc j))
      \<or> (distance n (run (Suc j)), distance n (run k)) \<in> nearer \<and> queued n (run (Suc j))"
    using j(3) by (auto simp: queued_def)
  with 1(1) [of "Suc j"] j(1) show ?case by (meson Suc_leD le_trans le_SucI)
qed

lemma exit_drops:
  assumes "execution js run" "thread_fair js run" "fst (sy_run (run k)) = Exited"
  shows "\<exists>j \<ge> k. \<not> sy_open (run j)"
proof (cases "sy_open (run k)")
  case True
  then obtain j where "j \<ge> k" "thread_step js (run j) (run (Suc j))" "left_loop (run j)"
    using leaving.met [OF assms(1,2), of k] assms(3) by (auto simp: left_loop_def)
  then show ?thesis
    by (intro exI [of _ "Suc j"]) (auto simp: left_loop_def elim: thread_stepE)
qed blast

text \<open>A channel without senders is emptied, and then the thread ends.\<close>

definition hung_up :: "nat \<Rightarrow> ('h, 'w) system \<Rightarrow> bool" where
  "hung_up n s \<longleftrightarrow> sy_open s \<and> \<not> sy_senders s \<and> length (sy_sent s) = n"

lemma thread_ends_nearer:
  assumes "thread_step js s s'" "hung_up n s" "\<And>d. sy_run s = (Looping, d) \<Longrightarrow> idle_loop_ok js d"
  shows "\<not> sy_open s' \<or> (distance n s', distance n s) \<in> nearer \<and> hung_up n s'"
  using assms
proof (induction rule: thread_step.induct)
  case (turned s d t d')
  then show ?case
    using loop_top_trips [of js d d'] by (cases t) (auto simp: distance_def nearer_def sy_dispatcher_def hung_up_def)
next
  case (woke s parked d ev exit d')
  then show ?case by (cases ev) (auto simp: distance_def nearer_def hung_up_def unserved_def)
qed simp

interpretation ending: thread_need js "\<lambda>s. hung_up n s \<and> distance n s = dist" for js n dist
proof
  fix s s' :: "('a, 'b) system"
  assume w: "world_step js s s'" and n: "hung_up n s \<and> distance n s = dist"
  have "hung_up n s'" using w n by (induction rule: world_step.induct) (auto simp: hung_up_def)
  with world_keeps [OF w, of n] n show "hung_up n s' \<and> distance n s' = dist" by simp
qed (auto simp: hung_up_def thread_ready_def)

lemma hung_up_ends:
  assumes "execution js run" "thread_fair js run"
    and "\<And>k d. sy_run (run k) = (Looping, d) \<Longrightarrow> idle_loop_ok js d"
  shows "hung_up n (run k) \<Longrightarrow> \<exists>j \<ge> k. \<not> sy_open (run j)"
proof (induction "distance n (run k)" arbitrary: k rule: wf_induct_rule [OF wf_nearer])
  case 1
  obtain j where j: "j \<ge> k" "thread_step js (run j) (run (Suc j))" "hung_up n (run j)"
      "distance n (run j) = distance n (run k)"
    using ending.met [OF assms(1,2), where k = k and n = n] 1(2) by blast
  have "\<not> sy_open (run (Suc j)) \<or> (distance n (run (Suc j)), distance n (run k)) \<in> nearer \<and> hung_up n (run (Suc j))"
    using thread_ends_nearer [OF j(2,3)] assms(3) j(4) by force
  with 1(1) [of "Suc j"] j(1) show ?case by (meson Suc_leD le_trans le_SucI)
qed

section \<open>Answers on the spot\<close>

lemma serves_queue:
  "serves cmds a b \<Longrightarrow> set (fst b) \<subseteq> set (fst a) \<union> responder_of ` {cmd \<in> set cmds. makes_job cmd}"
proof (induction rule: serves.induct)
  case (more cmds s s' new s'')
  from more.hyps(2) have "set (fst s'') \<subseteq> set (fst s') \<union> responder_of ` {cmd \<in> set new. makes_job cmd}"
    by (induction rule: serve.induct) auto
  with more.IH show ?case by fastforce
qed simp

lemma numbered_nth: "numbered s \<Longrightarrow> i < length (sy_sent s) \<Longrightarrow> responder_of (sy_sent s ! i) = i"
  by (metis add_cancel_left_left nth_map nth_upt numbered_def length_map)

lemma outstanding_jobs:
  assumes "(system_step js)\<^sup>*\<^sup>* (system_new core) s" "n \<in> set (outstanding_in s)"
  shows "n < length (sy_sent s) \<and> makes_job (sy_sent s ! n)"
proof -
  note r = system_refines [OF assms(1)]
  from serves_queue [OF runs_from_new [OF conjunct1 [OF r]]] assms(2)
  obtain cmd where "cmd \<in> set (take (sy_taken s) (sy_sent s))" "makes_job cmd" "n = responder_of cmd"
    by (auto simp: outstanding_in_def)
  then obtain i where "i < length (sy_sent s)" "cmd = sy_sent s ! i"
    by (metis in_set_takeD in_set_conv_nth)
  with \<open>makes_job cmd\<close> \<open>n = responder_of cmd\<close> numbered_nth [OF conjunct2 [OF r]] show ?thesis by auto
qed

lemma received_answered:
  assumes "(system_step js)\<^sup>*\<^sup>* (system_new core) s" "n < sy_taken s" "\<not> makes_job (sy_sent s ! n)"
    and "fst (sy_run s) \<noteq> Exited"
  shows "n \<in> fst ` set (d_sent (sy_dispatcher s))"
proof -
  have "mset [0..<sy_taken s] = mset (map fst (d_sent (sy_dispatcher s))) + mset (outstanding_in s)"
    using system_accounts [OF assms(1)] assms(4) by (auto simp: shut_down_by_def)
  then have "set [0..<sy_taken s] = fst ` set (d_sent (sy_dispatcher s)) \<union> set (outstanding_in s)"
    by (metis list.set_map mset_append set_append set_mset_mset)
  with assms(2,3) outstanding_jobs [OF assms(1)] show ?thesis by auto
qed

lemma execution_reaches: "execution js run \<Longrightarrow> (system_step js)\<^sup>*\<^sup>* (run 0) (run k)"
proof (induction k)
  case (Suc k)
  then have "run (Suc k) = run k \<or> system_step js (run k) (run (Suc k))" by (simp add: execution_def)
  with Suc show ?case by (auto intro: rtranclp.rtrancl_into_rtrancl)
qed simp

lemma sent_stays:
  assumes "execution js run" "k \<le> j"
  shows "\<exists>more. sy_sent (run j) = sy_sent (run k) @ more"
  using assms(2)
proof (induction rule: dec_induct)
  case (step j)
  have "run (Suc j) = run j \<or> thread_step js (run j) (run (Suc j)) \<or> world_step js (run j) (run (Suc j))"
    using assms(1) by (auto simp: execution_def system_step_def)
  then have "\<exists>more. sy_sent (run (Suc j)) = sy_sent (run j) @ more"
    by (auto dest!: thread_relays elim: world_stepE)
  with step.IH show ?case by fastforce
qed simp

lemma recv_plain_ends:
  "k \<le> j \<Longrightarrow> (\<forall>a b. ev j \<noteq> SliceElapsed a b) \<Longrightarrow> \<exists>w i. recv_plain ev k = Some (w, i)"
proof (induction "j - k" arbitrary: k)
  case 0
  then show ?case by (subst recv_plain.simps) (auto split: recv_event.split)
next
  case (Suc m)
  then have "\<exists>w i. recv_plain ev (Suc k) = Some (w, i)" by simp
  then show ?case by (subst recv_plain.simps) (auto split: recv_event.split)
qed

text \<open>A wait ended by what the caller found at that look.\<close>

definition ended_by :: "(nat \<Rightarrow> 'a recv_event) \<Rightarrow> nat \<Rightarrow> 'a wait_end \<times> nat \<Rightarrow> bool" where
  "ended_by ev k r \<longleftrightarrow> k \<le> snd r \<and>
     (case fst r of Answered a \<Rightarrow> ev (snd r) = Received a | Lost \<Rightarrow> ev (snd r) = Disconnected | Killed \<Rightarrow> False)"

lemma recv_plain_sound:
  assumes "recv_plain ev k = Some r"
  shows "ended_by ev k r"
proof (rule recv_plain.raw_induct [where P = ended_by, OF _ assms])
  fix rec ev k r
  assume IH: "\<And>ev k r. rec ev k = Some r \<Longrightarrow> ended_by ev k r"
    and eq: "(case ev k of Received v \<Rightarrow> Some (Answered v, k) | Disconnected \<Rightarrow> Some (Lost, k)
      | SliceElapsed _ _ \<Rightarrow> rec ev (Suc k)) = Some r"
  from IH [of ev "Suc k" r] eq show "ended_by ev k r"
    by (cases "ev k") (auto simp: ended_by_def)
qed

lemma sees_nothing: "caller_sees s n = HasNothing \<longleftrightarrow> sy_open s \<and> n \<notin> fst ` set (d_sent (sy_dispatcher s))"
  by (auto simp: caller_sees_def map_of_eq_None_iff [symmetric] split: option.split)

section \<open>The moment a command is received\<close>

lemma step_taken:
  assumes "system_step js s s'" "sy_taken s \<le> n" "n < sy_taken s'"
  shows "\<exists>parked d exit d'. sy_run s = (Waiting parked, d) \<and> sy_taken s = n \<and> n < length (sy_sent s)
    \<and> handle_command js (sy_sent s ! n) d = Some (exit, d') \<and> sy_run s' = (if exit then Exited else Looping, d')"
proof -
  have "thread_step js s s'"
    using assms by (auto simp: system_step_def elim!: world_stepE)
  then show ?thesis
  proof (rule thread_stepE)
    fix parked d ev exit d'
    assume s': "s' = s\<lparr>sy_taken := sy_taken s + length (taken ev), sy_run := (if exit then Exited else Looping, d')\<rparr>"
      and s: "sy_run s = (Waiting parked, d)" "arm_ready parked s ev" "loop_wake js ev d = Some (exit, d')"
    from s' assms(2,3) obtain cmd where ev: "ev = GotCommand cmd" by (cases ev) auto
    have n: "sy_taken s = n" using s' assms(2,3) ev by simp
    have cmd: "n < length (sy_sent s)" "handle_command js (sy_sent s ! n) d = Some (exit, d')"
      using s(2,3) ev n by (simp_all add: unserved_def)
    show ?thesis using s(1) n cmd s' by (intro exI [of _ parked] exI [of _ d] exI [of _ exit] exI [of _ d']) simp
  qed (use assms(2,3) in auto)
qed

lemma first_beyond: "(f 0 :: nat) \<le> n \<Longrightarrow> n < f j \<Longrightarrow> \<exists>i < j. f i \<le> n \<and> n < f (Suc i)"
proof (induction j)
  case (Suc j)
  then show ?case by (cases "n < f j") (auto intro: less_SucI)
qed simp

lemma received_at:
  assumes "execution js run" "run 0 = system_new core" "n < sy_taken (run j)"
  shows "\<exists>i < j. \<exists>parked d exit d'. sy_run (run i) = (Waiting parked, d) \<and> sy_taken (run i) = n \<and> n < length (sy_sent (run i))
    \<and> handle_command js (sy_sent (run i) ! n) d = Some (exit, d')
    \<and> sy_run (run (Suc i)) = (if exit then Exited else Looping, d')"
proof -
  have "sy_taken (run 0) \<le> n" using assms(2) by (simp add: system_new_def)
  from first_beyond [of "\<lambda>i. sy_taken (run i)", OF this assms(3)] obtain i where
    i: "i < j" "sy_taken (run i) \<le> n" "n < sy_taken (run (Suc i))" by blast
  then have "run (Suc i) \<noteq> run i" by auto
  then have "system_step js (run i) (run (Suc i))" using assms(1) by (auto simp: execution_def)
  from step_taken [OF this i(2,3)] i(1) show ?thesis by blast
qed

lemma same_command:
  assumes "execution js run" "n < length (sy_sent (run i))" "n < length (sy_sent (run k))"
  shows "sy_sent (run i) ! n = sy_sent (run k) ! n"
  using sent_stays [OF assms(1), of i k] sent_stays [OF assms(1), of k i] assms(2,3) nat_le_linear [of i k]
  by (auto simp: nth_append)

lemma execution_between: "execution js run \<Longrightarrow> i \<le> j \<Longrightarrow> (system_step js)\<^sup>*\<^sup>* (run i) (run j)"
  using execution_reaches [of js "\<lambda>m. run (i + m)" "j - i"] by (simp add: execution_def)

text \<open>The answer to an evaluation is what the evaluation gives on the core that received it.\<close>

definition eval_outcome ::
  "('h, 'w) js_engine \<Rightarrow> string \<Rightarrow> ('h, 'w) dispatcher \<Rightarrow> js_value runtime_result" where
  "eval_outcome js code d =
     fst (watched js ''Synchronous evaluation timed out'' ''Sync evaluation'' (eval_sync js code) (d_core d))"

lemma eval_answer:
  assumes "execution js run" "run 0 = system_new core"
    and "n < length (sy_sent (run k))" "sy_sent (run k) ! n = CmdEval code n"
    and "caller_sees (run j) n = HasAnswer a"
  shows "\<exists>i < j. \<exists>parked d. sy_run (run i) = (Waiting parked, d) \<and> sy_taken (run i) = n
    \<and> a = AnsValue (eval_outcome js code d)"
proof -
  have reach: "(system_step js)\<^sup>*\<^sup>* (system_new core) (run m)" for m
    using execution_reaches [OF assms(1)] assms(2) by metis
  have "(n, a) \<in> set (d_sent (sy_dispatcher (run j)))"
    using assms(5) by (auto simp: caller_sees_def split: option.splits if_splits dest: map_of_SomeD)
  then have "n < sy_taken (run j)" using answered_once(2) [OF reach, of j] by force
  from received_at [OF assms(1,2) this] obtain i parked d exit d' where
    i: "i < j" "sy_run (run i) = (Waiting parked, d)" "sy_taken (run i) = n" "n < length (sy_sent (run i))"
      "handle_command js (sy_sent (run i) ! n) d = Some (exit, d')"
      "sy_run (run (Suc i)) = (if exit then Exited else Looping, d')" by blast
  then have d': "d' = handle_eval js code n d"
    using same_command [OF assms(1) i(4) assms(3)] assms(4) by simp
  have log: "d_sent (sy_dispatcher (run (Suc i))) = d_sent d @ [(n, AnsValue (eval_outcome js code d))]"
    using i(6) by (simp add: sy_dispatcher_def d' handle_eval_def answer_with_def reply_def eval_outcome_def split: prod.split)
  have "n \<notin> fst ` set (d_sent d)"
    using answered_once(1) [OF reach, of "Suc i"] by (simp add: log)
  then have "caller_sees (run (Suc i)) n = HasAnswer (AnsValue (eval_outcome js code d))"
    by (simp add: caller_sees_def log map_add_def map_of_eq_None_iff [THEN iffD2] split: option.split)
  from sees_answer_stays [OF execution_between [OF assms(1), of "Suc i" j] reachable_ok [OF reach] this] i(1) assms(5)
  have "a = AnsValue (eval_outcome js code d)" by simp
  with i show ?thesis by blast
qed

section \<open>Waits end\<close>

lemma command_received:
  assumes "execution js run" "thread_fair js run" "\<And>k d. sy_run (run k) = (Looping, d) \<Longrightarrow> idle_loop_ok js d"
    and "n < length (sy_sent (run k))"
  shows "\<exists>j \<ge> k. \<not> sy_open (run j) \<or> n < sy_taken (run j)"
proof -
  have "queued n (run k) \<or> \<not> sy_open (run k) \<or> n < sy_taken (run k)" using assms(4) by (auto simp: queued_def)
  then show ?thesis using queue_drains [OF assms(1,2), where k = k and n = n] assms(3) by blast
qed

lemma synchronous_seen:
  assumes "execution js run" "thread_fair js run" "\<And>k d. sy_run (run k) = (Looping, d) \<Longrightarrow> idle_loop_ok js d"
    and "n < length (sy_sent (run k))" "run 0 = system_new core" "\<not> makes_job (sy_sent (run k) ! n)"
  shows "\<exists>i \<ge> k. caller_sees (run i) n \<noteq> HasNothing"
proof -
  obtain j where j: "j \<ge> k" "\<not> sy_open (run j) \<or> n < sy_taken (run j)"
    using command_received [OF assms(1,2) _ assms(4)] assms(3) by blast
  have "\<exists>j \<ge> k. \<not> sy_open (run j) \<or> n \<in> fst ` set (d_sent (sy_dispatcher (run j)))"
  proof (cases "sy_open (run j) \<and> fst (sy_run (run j)) \<noteq> Exited")
    case True
    have "\<not> makes_job (sy_sent (run j) ! n)"
      using sent_stays [OF assms(1) j(1)] assms(4,6) by (auto simp: nth_append)
    with received_answered [of js core "run j" n] True j execution_reaches [OF assms(1), of j] assms(5)
    show ?thesis by auto
  next
    case False
    then show ?thesis using exit_drops [OF assms(1,2), of j] j(1) by (meson le_trans)
  qed
  then show ?thesis by (auto simp: sees_nothing)
qed

text \<open>What a wait that looks at the runs from \<open>k\<close> on ends with.\<close>

lemma seen_wait_ends:
  assumes "i \<ge> k" "caller_sees (run i) n \<noteq> HasNothing"
  shows "\<exists>w j. recv_plain (we_event (caller_env (\<lambda>m. run (k + m)) clock n)) 0 = Some (w, j)
    \<and> (case w of Answered a \<Rightarrow> caller_sees (run (k + j)) n = HasAnswer a
       | Lost \<Rightarrow> caller_sees (run (k + j)) n = HasLost | Killed \<Rightarrow> False)"
proof -
  let ?ev = "we_event (caller_env (\<lambda>m. run (k + m)) clock n)"
  have "\<forall>a b. ?ev (i - k) \<noteq> SliceElapsed a b"
    using assms by (simp add: caller_env_def split: caller_view.split)
  then obtain w m where r: "recv_plain ?ev 0 = Some (w, m)"
    using recv_plain_ends [of 0 "i - k" ?ev] by blast
  from recv_plain_sound [OF r] show ?thesis
    by (intro exI [of _ w] exI [of _ m] conjI r)
      (cases w; auto simp: ended_by_def caller_env_def split: caller_view.splits)
qed

lemma sees_lost: "caller_sees s n = HasLost \<Longrightarrow> \<not> sy_open s"
  by (auto simp: caller_sees_def split: option.splits if_splits)

lemma sees_answer: "caller_sees s n = HasAnswer a \<Longrightarrow> (n, a) \<in> set (d_sent (sy_dispatcher s))"
  by (auto simp: caller_sees_def split: option.splits if_splits dest: map_of_SomeD)

text \<open>The responder of an evaluation carries nothing but values.\<close>

definition value_env :: "answer wait_env \<Rightarrow> js_value runtime_result wait_env" where
  "value_env env =
     \<lparr>we_event = (\<lambda>k. case we_event env k of
        Received (AnsValue r) \<Rightarrow> Received r
      | SliceElapsed t1 t2 \<Rightarrow> SliceElapsed t1 t2
      | _ \<Rightarrow> Disconnected),
      we_term = we_term env\<rparr>"

lemma value_wait:
  "recv_plain (we_event env) k = Some (w, i) \<Longrightarrow> \<forall>k a. we_event env k = Received a \<longrightarrow> (\<exists>r. a = AnsValue r)
    \<Longrightarrow> recv_plain (we_event (value_env env)) k
      = Some (case w of Answered (AnsValue r) \<Rightarrow> Answered r | _ \<Rightarrow> Lost, i)"
proof (induction "i - k" arbitrary: k)
  case 0
  then have "k = i" using recv_plain_sound [of "we_event env" k "(w, i)"] by (simp add: ended_by_def)
  with 0(2,3) show ?case
    by (subst recv_plain.simps, subst (asm) recv_plain.simps)
      (cases "we_event env i"; fastforce simp: value_env_def dest: recv_plain_sound simp: ended_by_def)
next
  case (Suc m)
  show ?case
    using Suc.hyps(1) [of "Suc k"] Suc.hyps(2) Suc.prems
    by (subst recv_plain.simps, subst (asm) (2) recv_plain.simps)
      (cases "we_event env k"; fastforce simp: value_env_def)
qed

lemma wait_reports:
  assumes "i \<ge> k" "caller_sees (run i) n \<noteq> HasNothing"
  shows "\<exists>w j. recv_plain (we_event (caller_env (\<lambda>m. run (k + m)) clock n)) 0 = Some (w, j)
    \<and> (case w of Answered a \<Rightarrow> (n, a) \<in> set (d_sent (sy_dispatcher (run (k + j))))
       | Lost \<Rightarrow> \<not> sy_open (run (k + j)) | Killed \<Rightarrow> False)"
proof -
  from seen_wait_ends [where run = run and clock = clock, OF assms] obtain w j where
    w: "recv_plain (we_event (caller_env (\<lambda>m. run (k + m)) clock n)) 0 = Some (w, j)"
      "case w of Answered a \<Rightarrow> caller_sees (run (k + j)) n = HasAnswer a
       | Lost \<Rightarrow> caller_sees (run (k + j)) n = HasLost | Killed \<Rightarrow> False" by blast
  then show ?thesis
    by (intro exI [of _ w] exI [of _ j]) (auto split: wait_end.splits intro: sees_answer dest: sees_lost)
qed

section \<open>How a thread ends\<close>

lemma exited_stays: "system_step js s s' \<Longrightarrow> fst (sy_run s) = Exited \<Longrightarrow> sy_run s' = sy_run s \<and> sy_taken s' = sy_taken s"
  by (auto simp: system_step_def elim!: thread_stepE world_stepE)

text \<open>The step that leaves the loop, after which nothing is received or answered.\<close>

lemma exit_step:
  assumes "execution js run" "fst (sy_run (run 0)) \<noteq> Exited"
  shows "fst (sy_run (run j)) = Exited \<Longrightarrow> \<exists>i < j. thread_step js (run i) (run (Suc i)) \<and> fst (sy_run (run i)) \<noteq> Exited
    \<and> sy_run (run j) = sy_run (run (Suc i)) \<and> sy_taken (run j) = sy_taken (run (Suc i))"
proof (induction j)
  case (Suc j)
  consider "run (Suc j) = run j" | "system_step js (run j) (run (Suc j))" using assms(1) by (auto simp: execution_def)
  then show ?case
  proof cases
    case 1
    with Suc show ?thesis by (auto intro: less_SucI)
  next
    case 2
    show ?thesis
    proof (cases "fst (sy_run (run j)) = Exited")
      case True
      from Suc.IH [OF this] exited_stays [OF 2 True] show ?thesis by (auto intro: less_SucI)
    next
      case False
      then have "thread_step js (run j) (run (Suc j))"
        using 2 Suc.prems by (auto simp: system_step_def elim!: world_stepE)
      with False show ?thesis by blast
    qed
  qed
qed (simp add: assms(2))

lemma silent_channel:
  assumes "execution js run" "\<not> sy_senders (run i)" "i \<le> j"
  shows "sy_sent (run j) = sy_sent (run i) \<and> \<not> sy_senders (run j)"
  using assms(3)
proof (induction rule: dec_induct)
  case (step j)
  have "run (Suc j) = run j \<or> system_step js (run j) (run (Suc j))" using assms(1) by (auto simp: execution_def)
  with step.IH show ?case by (auto simp: system_step_def elim!: thread_stepE world_stepE)
qed (simp add: assms(2))

text \<open>
  The two ways out of the loop: the channel was found empty and without senders, what was outstanding
  has failed and so everything that was sent is answered; or the runtime was told to stop before, by a
  command, or by a request for termination that met unfinished work.
\<close>

definition drained_end :: "(nat \<Rightarrow> ('h, 'w) system) \<Rightarrow> nat \<Rightarrow> bool" where
  "drained_end run j \<longleftrightarrow> (\<exists>i < j. \<exists>parked d new. sy_run (run i) = (Waiting parked, d)
     \<and> sy_taken (run i) = length (sy_sent (run j)) \<and> d_sent (sy_dispatcher (run j)) = d_sent d @ new
     \<and> all_failed (outstanding d) new \<and> fst ` set (d_sent (sy_dispatcher (run j))) = {..<length (sy_sent (run j))})"

definition told_to_stop :: "('h, 'w) js_engine \<Rightarrow> (nat \<Rightarrow> ('h, 'w) system) \<Rightarrow> nat \<Rightarrow> bool" where
  "told_to_stop js run j \<longleftrightarrow>
     (\<exists>cmd r. cmd \<in> set (take (sy_taken (run j)) (sy_sent (run j))) \<and> (cmd = CmdTerminate r \<or> cmd = CmdShutdown r))
     \<or> (\<exists>i < j. \<exists>d. sy_run (run i) = (Looping, d) \<and> fst (loop_top js d) = TurnBreak)"

lemma turn_exits: "phase_of_turn t = Exited \<Longrightarrow> t = TurnBreak"
  by (cases t) simp_all

lemma command_exits: "handle_command js cmd d = Some (True, d') \<Longrightarrow> \<exists>r. cmd = CmdTerminate r \<or> cmd = CmdShutdown r"
  by (cases cmd) auto

lemma closed_log: "\<exists>new. d_sent (handle_channel_closed js d) = d_sent d @ new \<and> all_failed (outstanding d) new"
  using cancel_all_fails [of js _ "on_core (\<lambda>c. c\<lparr>core_term := ensure_reason ''Command channel closed unexpectedly'' (core_term c)\<rparr>) d"]
  by (simp add: handle_channel_closed_def Let_def) (simp add: on_core_def outstanding_def)

lemma exit_cause:
  assumes "execution js run" "run 0 = system_new core" "fst (sy_run (run j)) = Exited"
  shows "drained_end run j \<or> told_to_stop js run j"
proof -
  have reach: "(system_step js)\<^sup>*\<^sup>* (system_new core) (run m)" for m
    using execution_reaches [OF assms(1), of m] assms(2) by simp
  have "fst (sy_run (run 0)) \<noteq> Exited" by (simp add: assms(2) system_new_def)
  from exit_step [OF assms(1) this assms(3)] obtain i where
    i: "i < j" "thread_step js (run i) (run (Suc i))" "fst (sy_run (run i)) \<noteq> Exited"
      "sy_run (run j) = sy_run (run (Suc i))" "sy_taken (run j) = sy_taken (run (Suc i))" by blast
  from i(2) show ?thesis
  proof (rule thread_stepE)
    fix d t d'
    assume "run (Suc i) = run i\<lparr>sy_run := (phase_of_turn t, d')\<rparr>" "sy_run (run i) = (Looping, d)" "loop_top js d = (t, d')"
    then show ?thesis using i(1,4) assms(3) turn_exits [of t] by (auto simp: told_to_stop_def)
  next
    fix parked d ev exit d'
    assume s: "run (Suc i) = run i\<lparr>sy_taken := sy_taken (run i) + length (taken ev), sy_run := (if exit then Exited else Looping, d')\<rparr>"
      "sy_run (run i) = (Waiting parked, d)" "arm_ready parked (run i) ev" "loop_wake js ev d = Some (exit, d')"
    have exit: "exit" using s(1) i(4) assms(3) by (auto split: if_splits)
    show ?thesis
    proof (cases ev)
      case (GotCommand cmd)
      then obtain r where "cmd = CmdTerminate r \<or> cmd = CmdShutdown r" using s(4) exit command_exits by fastforce
      moreover obtain more where "sy_sent (run j) = sy_sent (run i) @ more" using sent_stays [OF assms(1), of i j] i(1) by auto
      then have "cmd \<in> set (take (sy_taken (run j)) (sy_sent (run j)))"
        using s(1,3) i(5) GotCommand by (auto simp: unserved_def take_Suc_conv_app_nth nth_append)
      ultimately show ?thesis by (auto simp: told_to_stop_def)
    next
      case ChannelClosed
      then have closed: "\<not> sy_senders (run i)" "\<not> unserved (run i)" "d' = handle_channel_closed js d"
        using s(3,4) by auto
      have same: "sy_sent (run j) = sy_sent (run i)" using silent_channel [OF assms(1) closed(1), of j] i(1) by simp
      have "sy_taken (run i) \<le> length (sy_sent (run i))"
        using system_refines [OF reach, of i] by (simp add: numbered_def)
      then have all: "sy_taken (run i) = length (sy_sent (run j))" "sy_taken (run j) = length (sy_sent (run j))"
        using closed(2) same i(5) s(1) ChannelClosed by (simp_all add: unserved_def)
      have "CmdShutdown r \<notin> set (take (sy_taken (run i)) (sy_sent (run i)))" for r
        using runs_no_shutdown [OF conjunct1 [OF system_refines [OF reach]] i(3)] .
      then have "\<not> shut_down_by (run j)" using all same by (simp add: shut_down_by_def)
      with system_accounts [OF reach, of j] all(2) assms(3)
      have "mset [0..<length (sy_sent (run j))] = mset (map fst (d_sent (sy_dispatcher (run j))))"
        by (auto simp: outstanding_in_def abs_state_def)
      then have "set [0..<length (sy_sent (run j))] = set (map fst (d_sent (sy_dispatcher (run j))))"
        by (rule mset_eq_setD)
      then have "fst ` set (d_sent (sy_dispatcher (run j))) = {..<length (sy_sent (run j))}"
        by (simp add: atLeast_upt)
      moreover have "sy_dispatcher (run j) = handle_channel_closed js d"
        using i(4) s(1) closed(3) by (simp add: sy_dispatcher_def)
      ultimately show ?thesis
        using closed_log [of js d] s(2) all(1) i(1) by (auto simp: drained_end_def)
    qed (use s(4) exit in auto)
  qed (use i assms(3) in simp)
qed

section \<open>Properties\<close>

text \<open>
  C1  Nobody who asks for something synchronous is forgotten.  In every fair execution of a runtime whose
  event loop does not fail while no job is active, every command that was put into the channel is
  received, whatever else is queued or running, or the runtime thread ends; and the caller of a
  command that makes no job sees its wait end, with the answer that the dispatcher sent to it, or
  with a dropped responder once the dispatcher is gone.
\<close>

theorem synchronous_caller_hears:
  assumes "run 0 = system_new core" "execution js run" "thread_fair js run"
    and "\<And>k d. sy_run (run k) = (Looping, d) \<Longrightarrow> idle_loop_ok js d"
    and "n < length (sy_sent (run k))"
  shows "(\<exists>j \<ge> k. \<not> sy_open (run j) \<or> n < sy_taken (run j))
    \<and> (\<not> makes_job (sy_sent (run k) ! n) \<longrightarrow>
        (\<exists>w j. recv_plain (we_event (caller_env (\<lambda>m. run (k + m)) clock n)) 0 = Some (w, j)
          \<and> (case w of Answered a \<Rightarrow> (n, a) \<in> set (d_sent (sy_dispatcher (run (k + j))))
             | Lost \<Rightarrow> \<not> sy_open (run (k + j)) | Killed \<Rightarrow> False)))"
proof (intro conjI impI)
  show "\<exists>j \<ge> k. \<not> sy_open (run j) \<or> n < sy_taken (run j)"
    by (rule command_received [OF assms(2-5)])
  assume "\<not> makes_job (sy_sent (run k) ! n)"
  then obtain i where "i \<ge> k" "caller_sees (run i) n \<noteq> HasNothing"
    using synchronous_seen [OF assms(2,3) _ assms(5,1)] assms(4) by blast
  then show "\<exists>w j. recv_plain (we_event (caller_env (\<lambda>m. run (k + m)) clock n)) 0 = Some (w, j)
      \<and> (case w of Answered a \<Rightarrow> (n, a) \<in> set (d_sent (sy_dispatcher (run (k + j))))
         | Lost \<Rightarrow> \<not> sy_open (run (k + j)) | Killed \<Rightarrow> False)"
    by (rule wait_reports [where run = run])
qed

text \<open>
  C2  Answers reach those who asked.  In every reachable runtime the commands in the channel carry the
  responders 0, 1, 2, \<open>\<dots>\<close> in the order they were sent; only received commands are answered, none twice;
  every received command is answered or outstanding, and not both, unless a shutdown command made the
  loop exit, and once the loop has exited nothing is outstanding; and what a caller has once found at
  its responder it finds there for ever.
\<close>

theorem answers_reach_their_callers:
  assumes "(system_step js)\<^sup>*\<^sup>* (system_new core) s"
  shows "map responder_of (sy_sent s) = [0..<length (sy_sent s)] \<and> sy_taken s \<le> length (sy_sent s)
    \<and> distinct (map fst (d_sent (sy_dispatcher s))) \<and> fst ` set (d_sent (sy_dispatcher s)) \<subseteq> {..<sy_taken s}
    \<and> (\<not> shut_down_by s \<longrightarrow> mset [0..<sy_taken s] = mset (map fst (d_sent (sy_dispatcher s)))
         + (if fst (sy_run s) = Exited then {#} else mset (outstanding (sy_dispatcher s))))
    \<and> ((system_step js)\<^sup>*\<^sup>* s s' \<longrightarrow> caller_sees s n = HasAnswer a \<longrightarrow> caller_sees s' n = HasAnswer a)"
proof (intro conjI impI)
  show "map responder_of (sy_sent s) = [0..<length (sy_sent s)]" "sy_taken s \<le> length (sy_sent s)"
    using system_refines [OF assms] by (simp_all add: numbered_def)
  show "distinct (map fst (d_sent (sy_dispatcher s)))" "fst ` set (d_sent (sy_dispatcher s)) \<subseteq> {..<sy_taken s}"
    using answered_once [OF assms] by auto
  show "mset [0..<sy_taken s] = mset (map fst (d_sent (sy_dispatcher s)))
      + (if fst (sy_run s) = Exited then {#} else mset (outstanding (sy_dispatcher s)))" if "\<not> shut_down_by s"
    using system_accounts [OF assms] that by (auto simp: outstanding_in_def abs_state_def sy_dispatcher_def)
  show "caller_sees s' n = HasAnswer a" if "(system_step js)\<^sup>*\<^sup>* s s'" "caller_sees s n = HasAnswer a"
    using sees_answer_stays [OF that(1) reachable_ok [OF assms] that(2)] .
qed

text \<open>
  C4  \<open>Runtime.eval\<close> end to end.  When the command that \<open>eval\<close> sends on an open session, to a handle that
  counts the runtime as running and has no force-kill grace, is command \<open>n\<close> of a runtime that runs fairly
  and whose event loop does not fail while no job is active, the call comes back: with the conversion of what the evaluation under its watchdog gave on
  the core of the dispatcher at the moment it received command \<open>n\<close>, and so after every command sent
  before, or with the exception of its error; or, when the dispatcher was dropped before it answered,
  with the exception that says that no result was received.
\<close>

theorem eval_end_to_end:
  assumes "run 0 = system_new core" "execution js run" "thread_fair js run"
    and "\<And>k d. sy_run (run k) = (Looping, d) \<Longrightarrow> idle_loop_ok js d"
    and "n < length (sy_sent (run k))" "sy_sent (run k) ! n = CmdEval code n"
    and "ps_open s" "running (ps_handle s)" "h_grace (ps_handle s) = None" "h_next (ps_handle s) = n"
    and "ta_value ta n = value_env (caller_env (\<lambda>m. run (k + m)) clock n)"
  shows "\<exists>s'. (\<exists>h. s' = s\<lparr>ps_handle := h\<rparr> \<and> h_sent h = h_sent (ps_handle s) @ [CmdEval code n])
    \<and> ((\<exists>i parked d. sy_run (run i) = (Waiting parked, d) \<and> sy_taken (run i) = n
          \<and> py_eval py ta code s = (case eval_outcome js code d of
               Inl e \<Rightarrow> Some (Inl (runtime_error_with_context ''Evaluation failed'' e), s')
             | Inr v \<Rightarrow> to_python py v s'))
       \<or> (\<exists>j \<ge> k. caller_sees (run j) n = HasLost) \<and> py_eval py ta code s
           = Some (Inl (runtime_error_with_context ''Evaluation failed'' (Internal ''Failed to receive eval result'')), s'))"
proof -
  let ?env = "caller_env (\<lambda>m. run (k + m)) clock n"
  obtain i where "i \<ge> k" "caller_sees (run i) n \<noteq> HasNothing"
    using synchronous_seen [OF assms(2,3) _ assms(5,1)] assms(4,6) by force
  from seen_wait_ends [where run = run and clock = clock, OF this] obtain w j where
    w: "recv_plain (we_event ?env) 0 = Some (w, j)"
      "case w of Answered a \<Rightarrow> caller_sees (run (k + j)) n = HasAnswer a
       | Lost \<Rightarrow> caller_sees (run (k + j)) n = HasLost | Killed \<Rightarrow> False" by blast
  have carried: "\<exists>r. a = AnsValue r" if "we_event ?env m = Received a" for m a
    using eval_answer [OF assms(2,1,5,6), of "k + m" a] that by (auto simp: caller_env_def split: caller_view.splits)
  have ve: "recv_plain (we_event (ta_value ta n)) 0 = Some (case w of Answered (AnsValue r) \<Rightarrow> Answered r | _ \<Rightarrow> Lost, j)"
    using value_wait [OF w(1)] carried by (simp add: assms(11))
  let ?h = "(post (CmdEval code) (ps_handle s))\<lparr>h_term := we_term (ta_value ta n) j\<rparr>"
  have h: "h_sent ?h = h_sent (ps_handle s) @ [CmdEval code n]" using assms(10) by (simp add: post_def)
  have py: "py_eval py ta code s = (case (case w of Answered (AnsValue r) \<Rightarrow> r | _ \<Rightarrow> Inl (Internal ''Failed to receive eval result'')) of
      Inl e \<Rightarrow> Some (Inl (runtime_error_with_context ''Evaluation failed'' e), s\<lparr>ps_handle := ?h\<rparr>)
    | Inr v \<Rightarrow> to_python py v (s\<lparr>ps_handle := ?h\<rparr>))"
    using assms(7-10) ve
    by (simp add: py_eval_def pbind_def on_handle_def asking_def h_eval_sync_def ask_runtime_def running_def sender_alive
        flatten_def post_def recv_result_def split: sum.splits wait_end.splits answer.splits)
      (auto simp: map_err_Inl)
  show ?thesis
  proof (cases w)
    case (Answered a)
    with w(2) eval_answer [OF assms(2,1,5,6)] obtain i parked d where
      "sy_run (run i) = (Waiting parked, d)" "sy_taken (run i) = n" "a = AnsValue (eval_outcome js code d)" by force
    with Answered py h show ?thesis by (intro exI [of _ "s\<lparr>ps_handle := ?h\<rparr>"]) auto
  next
    case Lost
    with w(2) have "\<exists>j \<ge> k. caller_sees (run j) n = HasLost" by (intro exI [of _ "k + j"]) simp
    with Lost py h show ?thesis by (intro exI [of _ "s\<lparr>ps_handle := ?h\<rparr>"]) auto
  next
    case Killed
    with w(2) show ?thesis by simp
  qed
qed

text \<open>
  C5  An abandoned runtime ends.  Once every handle of a runtime is gone, in every fair execution of a
  runtime whose event loop does not fail while no job is active, its dispatcher is dropped, and nobody
  waits for an answer any more.  Unless the thread unwinds, or was told to stop before (by a terminate
  or shutdown command it received, or by a termination request that met unfinished work), it has then
  emptied the channel, every job that was outstanding at that point has failed with an error, in the
  order of the queue, and every command ever sent has been answered.
\<close>

theorem abandoned_runtime_ends:
  assumes "run 0 = system_new core" "execution js run" "thread_fair js run"
    and "\<And>k d. sy_run (run k) = (Looping, d) \<Longrightarrow> idle_loop_ok js d"
    and "\<not> sy_senders (run k)"
  shows "\<exists>j \<ge> k. \<not> sy_open (run j) \<and> (\<forall>n. caller_sees (run j) n \<noteq> HasNothing)
    \<and> (fst (sy_run (run j)) = Exited \<longrightarrow> drained_end run j \<or> told_to_stop js run j)"
proof -
  have "\<not> sy_open (run k) \<or> hung_up (length (sy_sent (run k))) (run k)"
    using assms(5) by (simp add: hung_up_def)
  then obtain j where "j \<ge> k" "\<not> sy_open (run j)"
    using hung_up_ends [OF assms(2,3), of "length (sy_sent (run k))" k] assms(4) by blast
  with exit_cause [OF assms(2,1), of j] show ?thesis by (auto simp: sees_nothing)
qed

section \<open>A short life\<close>

text \<open>
  One command is sent, the thread comes to wait, receives it, and its dispatcher is dropped.
\<close>

definition tick_waits :: "(nat, nat) dispatcher" where
  "tick_waits = dispatcher_new (snd (ask_js tick_js (tick ()) (tick_core 0)))"

text \<open>The first argument is the system after the step of a caller, the second what the thread does with it.\<close>

fun short_life :: "(nat, nat) system \<Rightarrow> phase \<times> (nat, nat) dispatcher \<Rightarrow> nat \<Rightarrow> (nat, nat) system" where
  "short_life first after 0 = system_new (tick_core 0)"
| "short_life first after (Suc 0) = first"
| "short_life first after (Suc (Suc 0)) = first\<lparr>sy_run := (Waiting True, tick_waits)\<rparr>"
| "short_life first after (Suc (Suc (Suc 0))) = first\<lparr>sy_taken := length (sy_sent first), sy_run := after\<rparr>"
| "short_life first after (Suc (Suc (Suc (Suc n)))) =
     first\<lparr>sy_taken := length (sy_sent first), sy_run := after, sy_open := False\<rparr>"

lemma nat_cases5: "k = 0 \<or> k = 1 \<or> k = 2 \<or> k = 3 \<or> (\<exists>m. k = Suc (Suc (Suc (Suc m))))"
  by presburger

lemma short_life_runs:
  assumes "world_step tick_js (system_new (tick_core 0)) first" "sy_run first = (Looping, dispatcher_new (tick_core 0))"
    "sy_open first" "sy_taken first = 0" "loop_wake tick_js ev tick_waits = Some (exit, d)" "arm_ready True first ev"
    "length (sy_sent first) = length (taken ev)"
  shows "execution tick_js (short_life first (if exit then Exited else Looping, d))"
proof -
  let ?life = "short_life first (if exit then Exited else Looping, d)"
  have "system_step tick_js (?life 0) (?life (Suc 0))"
    using assms(1) by (simp add: system_step_def)
  moreover have "system_step tick_js (?life (Suc 0)) (?life (Suc (Suc 0)))"
    using thread_step.turned [of first "dispatcher_new (tick_core 0)" tick_js] tick_top [of 0] assms(2,3)
    by (simp add: system_step_def tick_waits_def)
  moreover have "arm_ready True (first\<lparr>sy_run := (Waiting True, tick_waits)\<rparr>) ev"
    using assms(6) by (cases ev) (simp_all add: unserved_def)
  then have "system_step tick_js (?life (Suc (Suc 0))) (?life (Suc (Suc (Suc 0))))"
    using thread_step.woke [of "?life (Suc (Suc 0))" True tick_waits ev tick_js exit d] assms(3,4,5,7)
    by (simp add: system_step_def)
  moreover have "system_step tick_js (?life (Suc (Suc (Suc 0)))) (?life (Suc (Suc (Suc (Suc 0)))))"
    using thread_step.dropped [of "?life (Suc (Suc (Suc 0)))" tick_js] assms(3) by (simp add: system_step_def)
  moreover have "?life (Suc (Suc (Suc (Suc (Suc m))))) = ?life (Suc (Suc (Suc (Suc m))))" for m by simp
  ultimately show ?thesis
    unfolding execution_def by (metis nat_cases5 One_nat_def numeral_2_eq_2 numeral_3_eq_3)
qed

definition tick_asked :: "runtime_command \<Rightarrow> (nat, nat) system" where
  "tick_asked cmd = (system_new (tick_core 0))\<lparr>sy_sent := [cmd]\<rparr>"

lemma asked_life_runs:
  assumes "responder_of cmd = 0" "handle_command tick_js cmd tick_waits = Some (exit, d)"
  shows "execution tick_js (short_life (tick_asked cmd) (if exit then Exited else Looping, d))"
  using short_life_runs [of "tick_asked cmd" "GotCommand cmd" exit d]
    world_step.sent [of "system_new (tick_core 0)" cmd tick_js] assms
  by (simp add: system_new_def unserved_def tick_asked_def)

lemma short_life_fair: "thread_fair tick_js (short_life first after)"
  unfolding thread_fair_def
proof
  fix k
  have "\<not> thread_ready (short_life first after (Suc (Suc (Suc (Suc k)))))" by (simp add: thread_ready_def)
  then show "\<exists>j \<ge> k. \<not> thread_ready (short_life first after j)
      \<or> thread_step tick_js (short_life first after j) (short_life first after (Suc j))"
    by (intro exI [of _ "Suc (Suc (Suc (Suc k)))"]) simp
qed

lemma tick_idle_ok: "idle_loop_ok tick_js d"
  by (simp add: idle_loop_ok_def drive_event_loop_def ask_js_eq tick_defs)

theorem synchronous_caller_hears_witness:
  "\<exists>w j. recv_plain (we_event (caller_env (\<lambda>m. short_life (tick_asked (CmdShutdown 0)) (Exited, handle_shutdown 0 tick_waits) (1 + m)) id 0)) 0
    = Some (w, j)"
proof -
  let ?life = "short_life (tick_asked (CmdShutdown 0)) (Exited, handle_shutdown 0 tick_waits)"
  have "?life 0 = system_new (tick_core 0)" "0 < length (sy_sent (?life 1))" "\<not> makes_job (sy_sent (?life 1) ! 0)" by (simp_all add: tick_asked_def)
  from synchronous_caller_hears [OF this(1) _ short_life_fair tick_idle_ok this(2), of id]
    asked_life_runs [of "CmdShutdown 0" True "handle_shutdown 0 tick_waits"] this(3) show ?thesis by auto
qed

theorem answers_reach_their_callers_witness:
  "caller_sees (short_life (tick_asked (CmdShutdown 0)) (Exited, handle_shutdown 0 tick_waits) 4) 0 = HasAnswer AnsShutdown"
proof -
  let ?life = "short_life (tick_asked (CmdShutdown 0)) (Exited, handle_shutdown 0 tick_waits)"
  have run: "execution tick_js ?life"
    using asked_life_runs [of "CmdShutdown 0" True "handle_shutdown 0 tick_waits"] by simp
  have "(system_step tick_js)\<^sup>*\<^sup>* (system_new (tick_core 0)) (?life 3)"
    using execution_reaches [OF run, of 3] by simp
  moreover have "caller_sees (?life 3) 0 = HasAnswer AnsShutdown"
    by (simp add: caller_sees_def sy_dispatcher_def handle_shutdown_def reply_def Let_def on_core_def tick_waits_def
        dispatcher_new_def numeral_3_eq_3)
  ultimately show ?thesis
    using answers_reach_their_callers [of tick_js "tick_core 0" "?life 3" "?life 4" 0 AnsShutdown]
      execution_between [OF run, of 3 4] by simp
qed

lemma tick_kind [simp]: "v8_kind_of tick_v8 h w = KNull" by (simp add: tick_v8_def)

lemma tick_null:
  assumes "core_limits c = core_limits (tick_core 0)"
  shows "\<exists>v. value_to_js_value tick_v8 (core_limits c) h (core_v8 c) = (Inr JNull, v)"
  unfolding assms value_to_js_value_def v8_to_js.simps
  by (simp add: kind_to_js_def look_v8_def enter_v8_def pay_def on_tracker_def done_v8_def leave_def
     tracker_new_def enter_def add_bytes_def exit_level_def usat_add_def usize_max_def sthen_def sbind_def sret_def 
     tick_core_def core_blank_def tick_config_def runtime_config_default_def config_limits_def MAX_JS_DEPTH_def MAX_JS_BYTES_def Let_def)
lemma tick_facts: "js_v8 tick_js = tick_v8" "js_execute_script tick_js n s = tick (Inr (if s = ''promise'' then 7 else 1))"
  "js_watchdog_spawn tick_js a b = tick (Inr 0)" "js_watchdog_join tick_js j = tick (Some False)"
  "absorb tick_js c = c"
  by (simp_all add: tick_js_def absorb_def)

lemma waits_core: "d_core tick_waits = (tick_core 0)\<lparr>core_v8 := (core_v8 (tick_core 0))\<lparr>v8_world := 1\<rparr>\<rparr>"
  by (simp add: tick_waits_def dispatcher_new_def ask_js_eq tick_facts tick_def tick_core_def)

lemma tick_eval: "eval_outcome tick_js ''1'' tick_waits = Inr JNull"
proof -
  have conv: "\<exists>v. in_v8_of tick_js (value_to_js_value tick_v8 (core_limits c) h) c = (Inr JNull, c\<lparr>core_v8 := v\<rparr>)"
    if "core_limits c = core_limits (tick_core 0)" for c h
    using tick_null [OF that, of h] by (auto simp: in_v8_of_def tick_facts)
  have ev: "\<exists>c'. eval_sync tick_js ''1'' c = (Inr JNull, c')" if "core_limits c = core_limits (tick_core 0)" for c
  proof -
    let ?c = "c\<lparr>core_v8 := (core_v8 c)\<lparr>v8_world := Suc (core_world c)\<rparr>\<rparr>"
    have lim: "core_limits ?c = core_limits (tick_core 0)" using that by simp
    from conv [OF lim, of 1] obtain v where
      "in_v8_of tick_js (value_to_js_value tick_v8 (core_limits (tick_core 0)) 1) ?c = (Inr JNull, ?c\<lparr>core_v8 := v\<rparr>)"
      unfolding lim by blast
    with that show ?thesis
      by (simp add: eval_sync_def with_timing_def Let_def sbind_def tick_facts ask_js_eq tick_def convert_out_def)
  qed
  let ?c = "(tick_core 0)\<lparr>core_v8 := (core_v8 (tick_core 0))\<lparr>v8_world := 2\<rparr>\<rparr>"
  obtain c' where "eval_sync tick_js ''1'' ?c = (Inr JNull, c')" using ev [of ?c] by auto
  moreover have "should_reject_new_work (tick_core w) = False" "core_inspector (tick_core w) = None"
    "core_execution_timeout (tick_core w) = Some 5000000" for w
    by (simp_all add: tick_core_def core_blank_def tick_config_def runtime_config_default_def should_reject_new_work_def)
  ultimately show ?thesis
    by (simp add: eval_outcome_def waits_core watched_def gated_def should_reject_new_work_def ensure_inspector_ready_def 
      start_sync_watchdog_def spawn_watchdog_def tick_facts ask_js_eq tick_def sthen_def sbind_def sret_def slift_def 
      internally_def apply_watchdog_result_def resolve_sync_watchdog_def watchdog_verdict_def numeral_2_eq_2)
qed
definition short_answers :: thread_answers where
  "short_answers = prompt_answers\<lparr>ta_value := \<lambda>_. value_env (caller_env
     (\<lambda>m. short_life (tick_asked (CmdEval ''1'' 0)) (Looping, handle_eval tick_js ''1'' 0 tick_waits) (1 + m)) id 0)\<rparr>"

theorem eval_end_to_end_witness:
  "\<exists>s'. py_eval plain_host short_answers ''1'' (up_session {}) = Some (Inr PNone, s')"
proof -
  let ?life = "short_life (tick_asked (CmdEval ''1'' 0)) (Looping, handle_eval tick_js ''1'' 0 tick_waits)"
  have run: "execution tick_js ?life"
    using asked_life_runs [of "CmdEval ''1'' 0" False "handle_eval tick_js ''1'' 0 tick_waits"] by simp
  have start: "?life 0 = system_new (tick_core 0)" "0 < length (sy_sent (?life 1))" "sy_sent (?life 1) ! 0 = CmdEval ''1'' 0"
    "ta_value short_answers 0 = value_env (caller_env (\<lambda>m. ?life (1 + m)) id 0)" by (simp_all add: short_answers_def tick_asked_def)
  have "caller_sees (?life j) 0 \<noteq> HasLost" for j
    using nat_cases5 [of j]
    by (auto simp: caller_sees_def tick_asked_def numeral_2_eq_2 numeral_3_eq_3 system_new_def sy_dispatcher_def handle_eval_def
        answer_with_def reply_def tick_waits_def dispatcher_new_def split: prod.split)
  moreover have "d = tick_waits" if "sy_run (?life i) = (Waiting parked, d)" for i parked d
    using nat_cases5 [of i] that by (auto simp: tick_asked_def numeral_2_eq_2 numeral_3_eq_3 system_new_def)
  moreover note up = up_facts(1,2,3,7) [of "{}"]
  ultimately obtain s' d where "d = tick_waits" "py_eval plain_host short_answers ''1'' (up_session {})
      = (case eval_outcome tick_js ''1'' d of
           Inl e \<Rightarrow> Some (Inl (runtime_error_with_context ''Evaluation failed'' e), s')
         | Inr v \<Rightarrow> to_python plain_host v s')"
    using eval_end_to_end [OF start(1) run short_life_fair tick_idle_ok start(2,3) up start(4), where py = plain_host]
    by blast
  then show ?thesis by (simp add: tick_eval)
qed

section \<open>A life with an unfinished job\<close>

text \<open>
  The engine of the samples, but the promise never settles, and no timeout is configured.  An evaluation
  is sent; the thread waits, receives it, starts it and waits again; the last handle is dropped; the
  thread cancels the evaluation and ends.
\<close>

definition stuck_js :: "(nat, nat) js_engine" where
  "stuck_js = tick_js\<lparr>js_promise_state := \<lambda>_ _. PromisePending\<rparr>"

definition stuck_core :: "nat \<Rightarrow> (nat, nat) core_state" where
  "stuck_core w = (tick_core w)\<lparr>core_execution_timeout := None\<rparr>"

definition stuck_dispatcher :: "nat runtime_job option \<Rightarrow> nat runtime_job list \<Rightarrow> bool \<Rightarrow> nat \<Rightarrow> (nat, nat) dispatcher" where
  "stuck_dispatcher active queue just w = \<lparr>d_core = stuck_core w, d_pending = queue, d_active = active, d_just = just,
     d_closed = False, d_sent = []\<rparr>"

definition stuck_call :: runtime_command where
  "stuck_call = CmdEvalAsync ''promise'' None None 0"

definition stuck_job :: "nat promise_start option \<Rightarrow> nat promise_job_state \<Rightarrow> nat runtime_job" where
  "stuck_job start st = JobOfPromise \<lparr>pj_common = job_common_new 1000000 EvalAsync WORDING_EVAL ''Async evaluation'' None None 0 None,
     pj_start = start, pj_hook = None, pj_state = st\<rparr>"

abbreviation stuck_waiting :: "nat runtime_job" where
  "stuck_waiting \<equiv> stuck_job None (PJWaiting 7)"

lemma stuck_new: "dispatcher_new (stuck_core w) = stuck_dispatcher None [] False w"
  by (simp add: dispatcher_new_def stuck_dispatcher_def)

lemma stuck_facts: "js_promise_state stuck_js h w = PromisePending" "js_poll_event_loop stuck_js = tick (Some (Inr ()))"
  "js_execute_script stuck_js n s = tick (Inr (if s = ''promise'' then 7 else 1))" "js_v8 stuck_js = tick_v8"
  "absorb stuck_js c = c" "core_now stuck_js c = core_world c * 1000000"
  by (simp_all add: stuck_js_def tick_js_def absorb_def)

lemma stuck_world [simp]: "(stuck_core w)\<lparr>core_v8 := (core_v8 (stuck_core w))\<lparr>v8_world := v\<rparr>\<rparr> = stuck_core v"
  "core_world (stuck_core w) = w" "\<not> should_reject_new_work (stuck_core w)" "core_inspector (stuck_core w) = None"
  "core_execution_timeout (stuck_core w) = None" 
  by (simp_all add: stuck_core_def tick_core_def core_blank_def should_reject_new_work_def is_requested_def termination_new_def
    status_defs tick_config_def runtime_config_default_def)

lemma stuck_ask [simp]: "ask_js stuck_js (tick a) (stuck_core w) = (Inr a, stuck_core (Suc w))"
  by (simp add: ask_js_eq stuck_facts tick_def)

lemma stuck_drive [simp]:
  "drive_event_loop stuck_js (stuck_dispatcher a ps b w) = (Some True, stuck_dispatcher a ps b (Suc w))"
  by (simp add: drive_event_loop_def stuck_facts stuck_dispatcher_def)

lemma stuck_polls [simp]:
  "job_poll stuck_js stuck_waiting (stuck_core w) = (None, stuck_waiting, stuck_core w)"
  "job_poll stuck_js (stuck_job (Some (StartEval ''promise'')) PJInit) (stuck_core w) = (None, stuck_waiting, stuck_core (Suc w))"
  by (simp_all add: stuck_job_def promise_poll_def expired_def promise_step_def job_common_new_def stuck_facts
     start_eval_def sbind_def as_promise_def sret_def tick_v8_def install_task_locals_def)

lemma stuck_tops:
  "loop_top stuck_js (stuck_dispatcher None [] False w) = (TurnWait True, stuck_dispatcher None [] False (Suc w))"
  "loop_top stuck_js (stuck_dispatcher (Some (stuck_job (Some (StartEval ''promise'')) PJInit)) [] True w)
    = (TurnAgain, stuck_dispatcher (Some stuck_waiting) [] False (Suc (Suc w)))"
  "loop_top stuck_js (stuck_dispatcher (Some stuck_waiting) ps False w)
    = (TurnWait False, stuck_dispatcher (Some stuck_waiting) ps False (Suc w))"
  by (simp_all add: loop_top_def poll_active_def settle_turn_def) (simp_all add: stuck_dispatcher_def)

lemma stuck_eval: "handle_command stuck_js stuck_call (stuck_dispatcher None [] False 1)
    = Some (False, stuck_dispatcher (Some (stuck_job (Some (StartEval ''promise'')) PJInit)) [] True 1)"
  by (simp add: stuck_call_def handle_eval_async_def submit_made_def gated_def sthen_def sbind_def sret_def
      ensure_inspector_ready_def stuck_dispatcher_def effective_timeout_ms_def start_timeout_watchdog_def
      make_now_def submit_job_def eval_async_job_def promise_job_new_def stuck_job_def stuck_facts)

text \<open>A system by its fields, and its steps.\<close>

abbreviation sys :: "runtime_command list \<Rightarrow> nat \<Rightarrow> bool \<Rightarrow> bool \<Rightarrow> phase \<Rightarrow> ('h, 'w) dispatcher \<Rightarrow> ('h, 'w) system" where
  "sys cmds n senders alive ph d \<equiv>
     \<lparr>sy_sent = cmds, sy_taken = n, sy_senders = senders, sy_open = alive, sy_run = (ph, d)\<rparr>"

lemma sys_turned: "loop_top js d = (t, d') \<Longrightarrow> thread_step js (sys cmds n b True Looping d) (sys cmds n b True (phase_of_turn t) d')"
  using thread_step.turned [of "sys cmds n b True Looping d" d js t d'] by simp

lemma sys_woke:
  "arm_ready parked (sys cmds n b True (Waiting parked) d) ev \<Longrightarrow> loop_wake js ev d = Some (exit, d') \<Longrightarrow>
   thread_step js (sys cmds n b True (Waiting parked) d)
     (sys cmds (n + length (taken ev)) b True (if exit then Exited else Looping) d')"
  using thread_step.woke [of "sys cmds n b True (Waiting parked) d" parked d ev js exit d'] by simp

lemma sys_received:
  "handle_command js (cmds ! n) d = Some (exit, d') \<Longrightarrow> n < length cmds \<Longrightarrow>
   thread_step js (sys cmds n b True (Waiting parked) d) (sys cmds (Suc n) b True (if exit then Exited else Looping) d')"
  using sys_woke [of parked cmds n b d "GotCommand (cmds ! n)" js exit d'] by (simp add: unserved_def)

lemma sys_ticked: "thread_step js (sys cmds (length cmds) True True (Waiting False) d) (sys cmds (length cmds) True True Looping d)"
  using sys_woke [of False cmds "length cmds" True d TimerElapsed js False d] by (simp add: unserved_def)

lemma sys_closed: "thread_step js (sys cmds (length cmds) False True (Waiting parked) d)
    (sys cmds (length cmds) False True Exited (handle_channel_closed js d))"
  using sys_woke [of parked cmds "length cmds" False d ChannelClosed js True "handle_channel_closed js d"]
  by (simp add: unserved_def)

lemma sys_sent: "responder_of cmd = length cmds \<Longrightarrow>
   world_step js (sys cmds n True True ph d) (sys (cmds @ [cmd]) n True True ph d)"
  using world_step.sent [of "sys cmds n True True ph d" cmd js] by simp

lemma sys_hung_up: "world_step js (sys cmds n b alive ph d) (sys cmds n False alive ph d)"
  using world_step.hung_up [of js "sys cmds n b alive ph d"] by simp

lemma sys_dropped: "thread_step js (sys cmds n b True ph d) (sys cmds n b False ph d)"
  using thread_step.dropped [of "sys cmds n b True ph d" js] by simp

definition scripted :: "'s list \<Rightarrow> nat \<Rightarrow> 's" where
  "scripted xs k = xs ! min k (length xs - 1)"

lemma scripted_runs:
  assumes "successively (system_step js) xs" "xs \<noteq> []"
  shows "execution js (scripted xs)"
proof -
  have "scripted xs (Suc k) = scripted xs k \<or> system_step js (scripted xs k) (scripted xs (Suc k))" for k
  proof (cases "Suc k < length xs")
    case True
    then show ?thesis using assms by (simp add: scripted_def successively_conv_nth)
  next
    case False
    then have "min (Suc k) (length xs - 1) = min k (length xs - 1)" by simp
    then show ?thesis by (simp add: scripted_def)
  qed
  then show ?thesis by (simp add: execution_def)
qed

lemma scripted_fair: "xs \<noteq> [] \<Longrightarrow> \<not> sy_open (last xs) \<Longrightarrow> thread_fair js (scripted xs)"
  unfolding thread_fair_def
proof
  fix k
  assume "xs \<noteq> []" "\<not> sy_open (last xs)"
  then have "\<not> thread_ready (scripted xs (max k (length xs)))"
    by (simp add: thread_ready_def scripted_def last_conv_nth)
  then show "\<exists>j \<ge> k. \<not> thread_ready (scripted xs j) \<or> thread_step js (scripted xs j) (scripted xs (Suc j))"
    by (intro exI [of _ "max k (length xs)"]) simp
qed

definition stuck_started :: "(nat, nat) dispatcher" where
  "stuck_started = stuck_dispatcher (Some stuck_waiting) [] False 4"

definition stuck_abandoned :: "(nat, nat) system list" where
  "stuck_abandoned =
    [sys [] 0 True True Looping (stuck_dispatcher None [] False 0),
     sys [stuck_call] 0 True True Looping (stuck_dispatcher None [] False 0),
     sys [stuck_call] 0 True True (Waiting True) (stuck_dispatcher None [] False 1),
     sys [stuck_call] 1 True True Looping (stuck_dispatcher (Some (stuck_job (Some (StartEval ''promise'')) PJInit)) [] True 1),
     sys [stuck_call] 1 True True Looping (stuck_dispatcher (Some stuck_waiting) [] False 3),
     sys [stuck_call] 1 True True (Waiting False) stuck_started,
     sys [stuck_call] 1 False True (Waiting False) stuck_started,
     sys [stuck_call] 1 False True Exited (handle_channel_closed stuck_js stuck_started),
     sys [stuck_call] 1 False False Exited (handle_channel_closed stuck_js stuck_started)]"

lemma stuck_abandoned_runs: "execution stuck_js (scripted stuck_abandoned)"
proof (rule scripted_runs)
  have "responder_of stuck_call = 0" by (simp add: stuck_call_def)
  then show "successively (system_step stuck_js) stuck_abandoned"
    using sys_sent [of stuck_call "[]" stuck_js 0 Looping "stuck_dispatcher None [] False 0"]
      sys_turned [OF stuck_tops(1), of "[stuck_call]" 0 True 0]
      sys_received [of stuck_js "[stuck_call]" 0, OF _ , of _ False] stuck_eval
      sys_turned [OF stuck_tops(2), of "[stuck_call]" 1 True 1] sys_turned [OF stuck_tops(3), of "[stuck_call]" 1 True "[]" 3]
      sys_hung_up [of stuck_js "[stuck_call]" 1 True True "Waiting False" stuck_started]
      sys_closed [of stuck_js "[stuck_call]" False stuck_started]
      sys_dropped [of stuck_js "[stuck_call]" 1 False Exited "handle_channel_closed stuck_js stuck_started"]
    by (simp add: stuck_abandoned_def system_step_def stuck_started_def eval_nat_numeral)
qed (simp add: stuck_abandoned_def)

lemma scripted_in: "xs \<noteq> [] \<Longrightarrow> scripted xs k \<in> set xs"
  unfolding scripted_def by (rule nth_mem) (cases xs; simp)

theorem abandoned_runtime_ends_witness:
  "(\<exists>j. drained_end (scripted stuck_abandoned) j) \<and> outstanding stuck_started = [0]"
proof -
  let ?life = "scripted stuck_abandoned"
  have start: "?life 0 = system_new (stuck_core 0)" "\<not> sy_senders (?life 6)"
    by (simp_all add: scripted_def stuck_abandoned_def system_new_def stuck_new)
  have idle: "idle_loop_ok stuck_js d" for d
    by (simp add: idle_loop_ok_def drive_event_loop_def stuck_facts ask_js_eq tick_def split: prod.split)
  have "thread_fair stuck_js ?life"
    by (rule scripted_fair) (simp_all add: stuck_abandoned_def)
  then obtain j where j: "\<not> sy_open (?life j)"
      "fst (sy_run (?life j)) = Exited \<longrightarrow> drained_end ?life j \<or> told_to_stop stuck_js ?life j"
    using abandoned_runtime_ends [OF start(1) stuck_abandoned_runs _ idle start(2)] by blast
  have states: "?life m \<in> set stuck_abandoned" for m
    by (rule scripted_in) (simp add: stuck_abandoned_def)
  have "fst (sy_run (?life j)) = Exited \<and> sy_sent (?life j) = [stuck_call]"
    using states [of j] j(1) by (auto simp: stuck_abandoned_def)
  moreover have "fst (loop_top stuck_js d) \<noteq> TurnBreak" if "sy_run (?life m) = (Looping, d)" for m d
    using states [of m] that by (auto simp: stuck_abandoned_def stuck_tops)
  then have "\<not> told_to_stop stuck_js ?life j"
    using calculation by (auto simp: told_to_stop_def stuck_call_def dest: in_set_takeD)
  ultimately show ?thesis
    using j(2) by (auto simp: stuck_started_def stuck_dispatcher_def outstanding_def stuck_job_def job_common_new_def
      job_responder_def)
qed

end
