(* ===== verification/Peno_SystemJobs.thy ===== *)
theory Peno_SystemJobs
  imports Peno_System
begin

text \<open>
  Asynchronous jobs in a running system: the order in which the dispatcher (\<open>src/runtime/runner.rs\<close>) works
  off its queue, and when a deadline is enforced.
\<close>

section \<open>The queue\<close>

text \<open>The active job and the queued ones, by what the dispatcher keeps of them.\<close>

definition commons :: "('h, 'w) dispatcher \<Rightarrow> job_common list" where
  "commons d = map job_common_of ((case d_active d of Some j \<Rightarrow> [j] | None \<Rightarrow> []) @ d_pending d)"

lemma outstanding_commons: "outstanding d = map jc_responder (commons d)"
  by (simp add: outstanding_def commons_def job_responder_def)

text \<open>
  The queue moves on by \<open>m\<close>: its first \<open>m\<close> jobs are answered, the others keep their order, and new ones
  come last.
\<close>

definition shifts :: "nat \<Rightarrow> ('h, 'w) dispatcher \<Rightarrow> ('h, 'w) dispatcher \<Rightarrow> bool" where
  "shifts m d d' \<longleftrightarrow> (\<exists>new. commons d' = drop m (commons d) @ new)
     \<and> (\<exists>ans. d_sent d' = d_sent d @ ans \<and> jc_responder ` set (take m (commons d)) \<subseteq> fst ` set ans)"

lemma shifts_keep: "commons d' = commons d @ new \<Longrightarrow> d_sent d' = d_sent d @ ans \<Longrightarrow> shifts 0 d d'"
  by (auto simp: shifts_def)

lemma shifts_refl [simp]: "shifts 0 d d"
  by (simp add: shifts_def)

lemma shifts_from: "shifts m d d' \<Longrightarrow> commons d = commons c \<Longrightarrow> d_sent d = d_sent c \<Longrightarrow> shifts m c d'"
  by (simp add: shifts_def)

lemma shifts_to: "shifts m d d' \<Longrightarrow> commons e = commons d' \<Longrightarrow> d_sent e = d_sent d' \<Longrightarrow> shifts m d e"
  by (simp add: shifts_def)

lemma commons_core [simp]: "commons (on_core f d) = commons d" "commons (d\<lparr>d_core := c\<rparr>) = commons d"
  "commons (reply r a d) = commons d" "commons (d\<lparr>d_closed := b\<rparr>) = commons d" "commons (d\<lparr>d_just := b\<rparr>) = commons d"
  by (simp_all add: commons_def on_core_def reply_def)

lemma sent_core [simp]: "d_sent (on_core f d) = d_sent d" "d_sent (reply r a d) = d_sent d @ [(r, a)]"
  by (simp_all add: on_core_def reply_def)

lemma complete_job_shifts:
  assumes "d_active d = Some j0" "job_common_of job = job_common_of j0"
  shows "shifts 1 d (complete_job js job res d)"
proof -
  let ?d = "on_core (record_job js (job_common_of job)) (d\<lparr>d_active := None\<rparr>)"
  obtain v c where f: "finish_job js job res ?d
      = ?d\<lparr>d_core := c, d_sent := d_sent ?d @ [(job_responder job, AnsValue v)]\<rparr>"
    using finish_job_eq by blast
  show ?thesis
    unfolding complete_job_def f using assms
    by (cases "d_pending d") (auto simp: shifts_def start_next_def on_core_def commons_def job_responder_def)
qed

section \<open>A trip\<close>

lemma drive_shifts:
  assumes "drive_event_loop js d = (r, d')" "d_active d = Some job"
  shows "(case r of None \<Rightarrow> shifts 1 d d' | Some _ \<Rightarrow> \<exists>c. d' = d\<lparr>d_core := c\<rparr>)"
proof -
  have full: "shifts 1 d (complete_job js job x (d\<lparr>d_core := c\<rparr>))" for c x
    by (rule shifts_from [OF complete_job_shifts [of "d\<lparr>d_core := c\<rparr>" job]]) (simp_all add: assms(2))
  obtain ev c where "ask_js js (js_poll_event_loop js) (d_core d) = (Inr ev, c)" by (simp add: ask_js_eq)
  with assms full show ?thesis
    by (cases ev) (auto simp: drive_event_loop_def split: sum.splits prod.splits if_splits)
qed

lemma poll_shifts:
  assumes "d_active d = Some job"
  shows "shifts 1 d (poll_active js d)
    \<or> commons (poll_active js d) = commons d \<and> d_sent (poll_active js d) = d_sent d \<and> d_just (poll_active js d) = d_just d
      \<and> fst (job_poll js job (d_core d)) = None \<and> d_active (poll_active js d) \<noteq> None"
proof -
  obtain r job' c where p: "job_poll js job (d_core d) = (r, job', c)" by (rule prod_cases3)
  have same: "job_common_of job' = job_common_of job" by (rule job_poll_common [OF p])
  let ?d = "d\<lparr>d_active := Some job', d_core := c\<rparr>"
  have cs: "commons (d\<lparr>d_active := Some job'\<rparr>) = commons d" using assms same by (simp add: commons_def)
  show ?thesis
  proof (cases r)
    case None
    with assms p cs show ?thesis by (simp add: poll_active_def)
  next
    case (Some x)
    have "shifts 1 d (complete_job js job' x ?d)"
      by (rule shifts_from [OF complete_job_shifts [of ?d job']]) (simp_all add: cs)
    with Some assms p show ?thesis by (simp add: poll_active_def)
  qed
qed

text \<open>A trip that does not leave the loop answers the active job or nobody; past the deadline, the active job.\<close>

lemma loop_top_shifts:
  assumes "loop_top js d = (t, d')" "d_active d = Some job" "t \<noteq> TurnBreak"
  shows "\<exists>m. m \<le> 1 \<and> shifts m d d'
    \<and> ((\<exists>T. jc_deadline (job_common_of job) = Some T
        \<and> (\<forall>r e. drive_event_loop js d = (Some r, e) \<longrightarrow> T \<le> core_now js (d_core e))) \<longrightarrow> m = 1)"
proof -
  obtain r e where dr: "drive_event_loop js d = (r, e)" by fastforce
  show ?thesis
  proof (cases r)
    case None
    with dr assms(1) drive_shifts [OF dr assms(2)] show ?thesis by (intro exI [of _ 1]) (simp add: loop_top_def)
  next
    case (Some drained)
    then obtain c where e: "e = d\<lparr>d_core := c\<rparr>" using drive_shifts [OF dr assms(2)] by auto
    have act: "d_active e = Some job" by (simp add: e assms(2))
    have "settle_turn js drained (poll_active js e) = (t, d')" using assms(1) dr Some by (simp add: loop_top_def)
    then have d': "commons d' = commons (poll_active js e)" "d_sent d' = d_sent (poll_active js e)"
      using assms(3) by (auto simp: settle_turn_def split: if_splits)
    from poll_shifts [OF act, of js] show ?thesis
    proof (elim disjE conjE)
      assume "shifts 1 e (poll_active js e)"
      then have "shifts 1 d (poll_active js e)" by (rule shifts_from) (simp_all add: e)
      from shifts_to [OF this d'] show ?thesis by (intro exI [of _ 1]) simp
    next
      assume p: "commons (poll_active js e) = commons e" "d_sent (poll_active js e) = d_sent e"
        "fst (job_poll js job (d_core e)) = None"
      have "commons d' = commons d" "d_sent d' = d_sent d" unfolding d' p by (simp_all add: e)
      then have "shifts 0 d d'" by (auto intro: shifts_keep [where new = "[]" and ans = "[]"])
      moreover have "\<not> T \<le> core_now js (d_core e)" if "jc_deadline (job_common_of job) = Some T" for T
        using job_poll_past [OF that, of js "d_core e"] p(3) by auto
      ultimately show ?thesis using dr Some by (intro exI [of _ 0]) auto
    qed
  qed
qed

section \<open>A command\<close>

lemma submit_job_shifts: "d_active d \<noteq> None \<Longrightarrow> shifts 0 d (submit_job job (d\<lparr>d_core := c\<rparr>))"
  by (rule shifts_keep [where new = "[job_common_of job]" and ans = "[]"])
    (auto simp: submit_job_def commons_def)

lemma submit_made_shifts: "d_active d \<noteq> None \<Longrightarrow> shifts 0 d (submit_made r m d)"
  using submit_job_shifts [of d]
  by (auto simp: submit_made_def intro: shifts_keep [where new = "[]"] split: prod.split sum.split)

lemma answer_with_shifts: "shifts 0 d (answer_with wrap r m d)"
  by (auto simp: answer_with_def intro: shifts_keep [where new = "[]"] split: prod.split)

lemma reply_shifts: "shifts 0 d (reply r a (on_core f d))" "shifts 0 d (reply r a (d\<lparr>d_core := c\<rparr>))" "shifts 0 d (reply r a d)"
  by (auto intro: shifts_keep [where new = "[]"])

lemma register_op_shifts: "handle_register_op js n m h r d = Some d' \<Longrightarrow> shifts 0 d d'"
  by (auto simp: handle_register_op_def reply_shifts split: if_splits option.splits prod.splits)

lemma handle_command_shifts:
  assumes "handle_command js cmd d = Some (False, d')" "d_active d \<noteq> None"
  shows "shifts 0 d d'"
  using assms
  by (cases cmd)
    (auto simp: handle_eval_def handle_eval_async_def handle_eval_module_def handle_eval_module_async_def handle_exposure_def
      handle_set_resolver_def handle_set_loader_def handle_add_static_module_def handle_bind_object_def handle_call_sync_def
      handle_call_async_def handle_resume_def handle_release_function_def handle_stream_read_def
      submit_made_shifts answer_with_shifts reply_shifts register_op_shifts)

lemma loop_wake_shifts: "loop_wake js ev d = Some (False, d') \<Longrightarrow> d_active d \<noteq> None \<Longrightarrow> shifts 0 d d'"
  by (cases ev) (auto simp: handle_command_shifts intro: shifts_keep [where new = "[]" and ans = "[]"])

section \<open>Deadlines ahead\<close>

text \<open>
  Job \<open>n\<close> has \<open>i\<close> jobs ahead of it, and all of them, and it itself, have a deadline not after \<open>T\<close>.
\<close>

definition timed_ahead :: "nat \<Rightarrow> nat \<Rightarrow> nat \<Rightarrow> ('h, 'w) dispatcher \<Rightarrow> bool" where
  "timed_ahead n i T d \<longleftrightarrow> i < length (commons d) \<and> jc_responder (commons d ! i) = n
     \<and> (\<forall>m \<le> i. \<exists>t \<le> T. jc_deadline (commons d ! m) = Some t)"

lemma timed_shifts:
  assumes "timed_ahead n i T d" "shifts m d d'"
  shows "n \<in> fst ` set (d_sent d') \<or> (m \<le> i \<and> timed_ahead n (i - m) T d')"
proof (cases "m \<le> i")
  case True
  with assms show ?thesis by (auto simp: timed_ahead_def shifts_def nth_append)
next
  case False
  with assms(1) have "commons d ! i \<in> set (take m (commons d))"
    by (auto simp: timed_ahead_def in_set_conv_nth intro!: exI [of _ i])
  then have "jc_responder (commons d ! i) \<in> jc_responder ` set (take m (commons d))" by (rule imageI)
  moreover obtain ans where "d_sent d' = d_sent d @ ans" "jc_responder ` set (take m (commons d)) \<subseteq> fst ` set ans"
    using assms(2) by (auto simp: shifts_def)
  ultimately have "jc_responder (commons d ! i) \<in> fst ` set (d_sent d')" by auto
  with assms(1) show ?thesis by (simp add: timed_ahead_def)
qed

lemma timed_active:
  assumes "timed_ahead n i T d" "d_active d \<noteq> None"
  obtains job t where "d_active d = Some job" "t \<le> T" "jc_deadline (job_common_of job) = Some t"
  using assms by (force simp: timed_ahead_def commons_def)

lemma timed_busy: "timed_ahead n i T d \<Longrightarrow> d_ok d \<Longrightarrow> d_active d \<noteq> None"
  by (auto simp: timed_ahead_def commons_def d_ok_def split: option.splits)

text \<open>Only an idle dispatcher waits without a timer.\<close>

definition parked_idle :: "('h, 'w) system \<Rightarrow> bool" where
  "parked_idle s \<longleftrightarrow> (fst (sy_run s) = Waiting True \<longrightarrow> d_active (sy_dispatcher s) = None)"

lemma step_parks:
  assumes "system_step js s s'" "parked_idle s"
  shows "parked_idle s'"
  using assms unfolding system_step_def
proof (elim disjE)
  assume "thread_step js s s'" "parked_idle s"
  then show ?thesis
  proof (induction rule: thread_step.induct)
    case (turned s d t d')
    then show ?case
      by (auto simp: parked_idle_def loop_top_def settle_turn_def sy_dispatcher_def split: prod.splits option.splits if_splits)
  qed (auto simp: parked_idle_def sy_dispatcher_def)
next
  assume "world_step js s s'" "parked_idle s"
  then show ?thesis
  proof (induction rule: world_step.induct)
    case (elsewhere s parked d d')
    then have "d_active d' = d_active d" by (auto elim!: run_stepE split: if_splits)
    with elsewhere show ?case by (simp add: parked_idle_def sy_dispatcher_def)
  qed (auto simp: parked_idle_def sy_dispatcher_def)
qed

lemma reachable_parks: "(system_step js)\<^sup>*\<^sup>* (system_new core) s \<Longrightarrow> parked_idle s"
proof (induction rule: rtranclp_induct)
  case (step s s')
  then show ?case by (simp add: step_parks)
qed (simp add: parked_idle_def system_new_def)

section \<open>Towards the answer\<close>

text \<open>The job is still to be answered, or its caller has its answer or is about to lose its responder.\<close>

definition due :: "nat \<Rightarrow> nat \<Rightarrow> nat \<Rightarrow> ('h, 'w) system \<Rightarrow> bool" where
  "due n i T s \<longleftrightarrow> sy_open s \<and> fst (sy_run s) \<noteq> Exited \<and> run_ok (sy_run s) \<and> parked_idle s
     \<and> timed_ahead n i T (sy_dispatcher s)"

definition heard_out :: "nat \<Rightarrow> ('h, 'w) system \<Rightarrow> bool" where
  "heard_out n s \<longleftrightarrow> \<not> sy_open s \<or> fst (sy_run s) = Exited \<or> n \<in> fst ` set (d_sent (sy_dispatcher s))"

definition past :: "('h, 'w) js_engine \<Rightarrow> nat \<Rightarrow> ('h, 'w) system \<Rightarrow> bool" where
  "past js T s \<longleftrightarrow> (\<forall>d r e. sy_open s \<longrightarrow> sy_run s = (Looping, d) \<longrightarrow> drive_event_loop js d = (Some r, e)
     \<longrightarrow> T \<le> core_now js (d_core e))"

lemma world_due:
  assumes "world_step js s s'" "due n i T s"
  shows "due n i T s' \<and> fst (sy_run s') = fst (sy_run s)"
proof -
  have "parked_idle s'" "run_ok (sy_run s')"
    using assms step_parks [of js s s'] step_keeps_ok [of js s s'] by (auto simp: system_step_def due_def)
  with assms show ?thesis
  proof (induction rule: world_step.induct)
    case (elsewhere s parked d d')
    then have "commons d' = commons d" by (auto simp: commons_def elim!: run_stepE split: if_splits)
    with elsewhere show ?case by (simp add: due_def timed_ahead_def sy_dispatcher_def)
  qed (auto simp: due_def)
qed

lemma thread_due:
  assumes "thread_step js s s'" "due n i T s"
  shows "heard_out n s' \<or> (\<exists>i' \<le> i. due n i' T s' \<and> (past js T s \<longrightarrow> fst (sy_run s) = Looping \<longrightarrow> i' < i)
    \<and> (fst (sy_run s) \<noteq> Looping \<longrightarrow> fst (sy_run s') = Looping))"
proof -
  have keeps: "parked_idle s'" "run_ok (sy_run s')"
    using assms step_parks [of js s s'] step_keeps_ok [of js s s'] by (auto simp: system_step_def due_def)
  have ok: "timed_ahead n i T (sy_dispatcher s)" "d_active (sy_dispatcher s) \<noteq> None"
    using assms(2) timed_busy [of n i T "sy_dispatcher s"] by (auto simp: due_def run_ok_def sy_dispatcher_def)
  from assms(1) show ?thesis
  proof (rule thread_stepE)
    fix d t d'
    assume s: "s' = s\<lparr>sy_run := (phase_of_turn t, d')\<rparr>" "sy_open s" "sy_run s = (Looping, d)" "loop_top js d = (t, d')"
    then have d: "timed_ahead n i T d" "d_active d \<noteq> None" using ok by (simp_all add: sy_dispatcher_def)
    from timed_active [OF d] obtain job u where job: "d_active d = Some job" "u \<le> T"
      "jc_deadline (job_common_of job) = Some u" by blast
    show ?thesis
    proof (cases "t = TurnBreak")
      case True
      with s show ?thesis by (simp add: heard_out_def)
    next
      case False
      obtain m where m: "m \<le> 1" "shifts m d d'" "past js T s \<Longrightarrow> m = 1"
        using loop_top_shifts [OF s(4) job(1) False] job(2,3) s(2,3) unfolding past_def by (metis le_trans)
      from timed_shifts [OF d(1) m(2)] show ?thesis
      proof
        assume "m \<le> i \<and> timed_ahead n (i - m) T d'"
        with m(3) keeps s False show ?thesis
          by (intro disjI2 exI [of _ "i - m"]) (cases t; auto simp: due_def sy_dispatcher_def)
      qed (simp add: heard_out_def s)
    qed
  next
    fix parked d ev exit d'
    assume s: "s' = s\<lparr>sy_taken := sy_taken s + length (taken ev), sy_run := (if exit then Exited else Looping, d')\<rparr>"
      "sy_open s" "sy_run s = (Waiting parked, d)" "loop_wake js ev d = Some (exit, d')"
    show ?thesis
    proof (cases exit)
      case True
      with s show ?thesis by (simp add: heard_out_def)
    next
      case False
      with s ok have "shifts 0 d d'" using loop_wake_shifts [of js ev d d'] by (simp add: sy_dispatcher_def)
      from timed_shifts [OF _ this, of n i T] ok s(3)
      have "n \<in> fst ` set (d_sent d') \<or> timed_ahead n i T d'" by (simp add: sy_dispatcher_def)
      with keeps s False show ?thesis by (auto simp: heard_out_def due_def sy_dispatcher_def)
    qed
  qed (simp add: heard_out_def)
qed

text \<open>The clock passes every time, as the dispatcher reads it after it has driven the event loop.\<close>

definition clock_passes :: "('h, 'w) js_engine \<Rightarrow> (nat \<Rightarrow> ('h, 'w) system) \<Rightarrow> bool" where
  "clock_passes js run \<longleftrightarrow> (\<forall>T. \<exists>k. \<forall>j \<ge> k. past js T (run j))"

interpretation timing: thread_need js "\<lambda>s. due n i T s \<and> fst (sy_run s) = ph" for js n i T ph
proof
  fix s s' :: "('a, 'b) system"
  assume "world_step js s s'" "due n i T s \<and> fst (sy_run s) = ph"
  then show "due n i T s' \<and> fst (sy_run s') = ph" using world_due [of js s s' n i T] by simp
next
  fix s :: "('a, 'b) system"
  assume d: "due n i T s \<and> fst (sy_run s) = ph"
  then have "d_active (sy_dispatcher s) \<noteq> None"
    using timed_busy [of n i T "sy_dispatcher s"] by (auto simp: due_def run_ok_def sy_dispatcher_def)
  with d show "thread_ready s" by (auto simp: thread_ready_def due_def parked_idle_def)
qed

lemma due_stays:
  assumes "execution js run" "k \<le> j" "due n i T (run k)"
  shows "(\<exists>m \<ge> k. heard_out n (run m)) \<or> (\<exists>i' \<le> i. due n i' T (run j))"
  using assms(2)
proof (induction rule: dec_induct)
  case base
  then show ?case using assms(3) by blast
next
  case (step j)
  show ?case
  proof (cases "\<exists>m \<ge> k. heard_out n (run m)")
    case False
    with step.IH obtain i' where i': "i' \<le> i" "due n i' T (run j)" by blast
    consider "run (Suc j) = run j" | "world_step js (run j) (run (Suc j))" | "thread_step js (run j) (run (Suc j))"
      using assms(1) by (auto simp: execution_def system_step_def)
    then have "\<exists>i'' \<le> i'. due n i'' T (run (Suc j))"
    proof cases
      case 2
      from world_due [OF this i'(2)] show ?thesis by blast
    next
      case 3
      have "\<not> heard_out n (run (Suc j))" using False step.hyps(1) by (meson le_SucI)
      with thread_due [OF 3 i'(2)] show ?thesis by blast
    qed (use i' in auto)
    with i'(1) show ?thesis by (meson le_trans)
  qed blast
qed

lemma due_heard:
  assumes "execution js run" "thread_fair js run" "\<And>j. K \<le> j \<Longrightarrow> past js T (run j)"
  shows "K \<le> k \<Longrightarrow> due n i T (run k) \<Longrightarrow> \<exists>j \<ge> k. heard_out n (run j)"
proof (induction "(i, of_bool (fst (sy_run (run k)) \<noteq> Looping) :: nat)" arbitrary: i k rule: wf_induct_rule [OF wf_lex_prod [OF wf_less_than wf_less_than]])
  case prems: 1
  obtain j where j: "j \<ge> k" "thread_step js (run j) (run (Suc j))" "due n i T (run j)" "fst (sy_run (run j)) = fst (sy_run (run k))"
    using timing.met [OF assms(1,2), where k = k and n = n and i = i and T = T] prems(3) by blast
  have "past js T (run j)" using assms(3) prems(2) j(1) by simp
  with thread_due [OF j(2,3)] j(4) consider "heard_out n (run (Suc j))"
    | i' where "due n i' T (run (Suc j))" "i' < i"
    | i' where "due n i' T (run (Suc j))" "i' = i" "fst (sy_run (run k)) \<noteq> Looping" "fst (sy_run (run (Suc j))) = Looping"
    by (auto simp: le_less)
  then show ?case
  proof cases
    case 1
    then show ?thesis using j(1) by (intro exI [of _ "Suc j"]) simp
  next
    case 2
    have "\<exists>m \<ge> Suc j. heard_out n (run m)"
      by (rule prems(1) [OF _ _ 2(1)]) (use 2(2) prems(2) j(1) in simp_all)
    then show ?thesis using j(1) by (meson le_trans le_SucI)
  next
    case 3
    have "\<exists>m \<ge> Suc j. heard_out n (run m)"
      by (rule prems(1) [OF _ _ 3(1)]) (use 3(2-4) prems(2) j(1) in simp_all)
    then show ?thesis using j(1) by (meson le_trans le_SucI)
  qed
qed

lemma heard_out_seen:
  assumes "execution js run" "thread_fair js run" "heard_out n (run k)"
  shows "\<exists>j \<ge> k. caller_sees (run j) n \<noteq> HasNothing"
proof (cases "sy_open (run k) \<and> n \<notin> fst ` set (d_sent (sy_dispatcher (run k)))")
  case True
  then obtain j where "j \<ge> k" "\<not> sy_open (run j)"
    using exit_drops [OF assms(1,2), of k] assms(3) by (auto simp: heard_out_def)
  then show ?thesis by (auto simp: sees_nothing)
qed (auto simp: sees_nothing)

section \<open>A call behind an evaluation that never ends\<close>













section \<open>Properties\<close>

text \<open>
  C6  A deadline is kept by the running system, whether or not promises settle: in every fair execution in
  which the clock goes on, the caller of an asynchronous job that has a deadline, and behind jobs that
  all have one, sees its wait end, with the answer the dispatcher sent to it or with a dropped responder
  once the dispatcher is gone.  In a fair execution every call of the engine returns: guest code that
  runs for ever in a call without a watchdog is outside.
\<close>

theorem timed_caller_hears:
  assumes "run 0 = system_new core" "execution js run" "thread_fair js run" "clock_passes js run"
    and "i < length (commons (sy_dispatcher (run k)))" "jc_responder (commons (sy_dispatcher (run k)) ! i) = n"
    and "\<And>m. m \<le> i \<Longrightarrow> jc_deadline (commons (sy_dispatcher (run k)) ! m) \<noteq> None"
  shows "\<exists>w j. recv_plain (we_event (caller_env (\<lambda>m. run (k + m)) clock n)) 0 = Some (w, j)
    \<and> (case w of Answered a \<Rightarrow> (n, a) \<in> set (d_sent (sy_dispatcher (run (k + j))))
       | Lost \<Rightarrow> \<not> sy_open (run (k + j)) | Killed \<Rightarrow> False)"
proof -
  let ?d = "sy_dispatcher (run k)"
  define T where "T = Max ((\<lambda>m. the (jc_deadline (commons ?d ! m))) ` {..i})"
  have "\<exists>t \<le> T. jc_deadline (commons ?d ! m) = Some t" if "m \<le> i" for m
    using assms(7) [OF that] that by (auto simp: T_def intro!: Max_ge)
  then have timed: "timed_ahead n i T ?d" using assms(5,6) by (simp add: timed_ahead_def)
  have reach: "(system_step js)\<^sup>*\<^sup>* (system_new core) (run k)"
    using execution_reaches [OF assms(2)] assms(1) by metis
  obtain K where K: "\<And>j. K \<le> j \<Longrightarrow> past js T (run j)" using assms(4) by (auto simp: clock_passes_def)
  have "\<exists>m \<ge> k. heard_out n (run m)"
  proof (cases "heard_out n (run k)")
    case False
    then have "due n i T (run k)"
      using timed reachable_ok [OF reach] reachable_parks [OF reach] by (simp add: due_def heard_out_def)
    from due_stays [OF assms(2) _ this, of "max k K"] consider "\<exists>m \<ge> k. heard_out n (run m)"
      | i' where "due n i' T (run (max k K))" by auto
    then show ?thesis
    proof cases
      case 2
      obtain j where "j \<ge> max k K" "heard_out n (run j)"
        using due_heard [OF assms(2,3), of K T "max k K" n i'] K 2 by auto
      then show ?thesis by (intro exI [of _ j]) simp
    qed
  qed blast
  then obtain m where m: "m \<ge> k" "caller_sees (run m) n \<noteq> HasNothing"
    using heard_out_seen [OF assms(2,3)] by (meson le_trans)
  then show ?thesis by (rule wait_reports [where run = run])
qed


section \<open>A short life\<close>

text \<open>A job with a deadline is submitted, and its runtime is dropped.\<close>

definition tick_timed :: runtime_command where
  "tick_timed = CmdEvalAsync ''promise'' (Some 0) None 0"

lemma tick_timed_commons:
  "\<exists>j. commons (handle_eval_async tick_js ''promise'' (Some 0) None 0 tick_waits) = [j] \<and> jc_responder j = 0
    \<and> jc_deadline j \<noteq> None"
proof -
  have "should_reject_new_work (tick_core w) = False" "core_inspector (tick_core w) = None" for w
    by (simp_all add: tick_core_def core_blank_def should_reject_new_work_def)
  then show ?thesis
    by (simp add: handle_eval_async_def submit_made_def gated_def should_reject_new_work_def sthen_def sbind_def sret_def
        slift_def internally_def
        ensure_inspector_ready_def waits_core effective_timeout_ms_def start_timeout_watchdog_def spawn_watchdog_def
        make_now_def tick_facts ask_js_eq tick_def Let_def)
      (simp add: tick_waits_def dispatcher_new_def submit_job_def commons_def eval_async_job_def promise_job_new_def
        job_common_new_def)
qed

theorem timed_caller_hears_witness:
  "\<exists>w j. recv_plain (we_event (caller_env (\<lambda>m. short_life (tick_asked tick_timed)
      (Looping, handle_eval_async tick_js ''promise'' (Some 0) None 0 tick_waits) (3 + m)) id 0)) 0 = Some (w, j)"
proof -
  let ?d = "handle_eval_async tick_js ''promise'' (Some 0) None 0 tick_waits"
  let ?life = "short_life (tick_asked tick_timed) (Looping, ?d)"
  have start: "?life 0 = system_new (tick_core 0)" by simp
  have run: "execution tick_js ?life"
    using asked_life_runs [of tick_timed False ?d] by (simp add: tick_timed_def)
  have "past tick_js T (?life j)" if "j \<ge> 4" for T j
    using nat_cases5 [of j] that by (auto simp: past_def)
  then have clock: "clock_passes tick_js ?life" unfolding clock_passes_def by blast
  have d: "sy_dispatcher (?life 3) = ?d" by (simp add: numeral_3_eq_3 sy_dispatcher_def)
  obtain j where "commons (sy_dispatcher (?life 3)) = [j]" "jc_responder j = 0" "jc_deadline j \<noteq> None"
    using tick_timed_commons unfolding d by blast
  with timed_caller_hears [OF start run short_life_fair clock, of 0 3 0 id] show ?thesis by auto
qed

end
