(* ===== verification/Peno_ConfigAccess.thy ===== *)
theory Peno_ConfigAccess
  imports Peno_Config
begin

text \<open>
  What Python reads back from a configuration (the getters of \<open>src/runtime/config.rs\<close>), and how exact a
  \<open>Duration\<close> survives its trip through a double.
\<close>

section \<open>The accuracy of rounding\<close>

lemma bit_length_bounds: "0 < n \<Longrightarrow> 2 ^ (bit_length n - 1) \<le> n \<and> n < 2 ^ bit_length n \<and> 0 < bit_length n"
proof (induction n rule: bit_length.induct)
  case (1 n)
  show ?case
  proof (cases "n = 1")
    case True
    then show ?thesis by (simp add: bit_length_1)
  next
    case False
    with 1 have half: "2 ^ (bit_length (n div 2) - 1) \<le> n div 2" "n div 2 < 2 ^ bit_length (n div 2)"
        "0 < bit_length (n div 2)" by auto
    have l: "bit_length n = Suc (bit_length (n div 2))" using 1(2) by (subst bit_length.simps) simp
    have "(2 :: int) ^ bit_length (n div 2) = 2 * 2 ^ (bit_length (n div 2) - 1)"
      using half(3) by (cases "bit_length (n div 2)") simp_all
    moreover have "2 * m \<le> n" "n < 2 * k" if "m \<le> n div 2" "n div 2 < k" for m k :: int
      using that by linarith+
    ultimately show ?thesis using half l by (metis diff_Suc_1 power_Suc zero_less_Suc)
  qed
qed

lemma pow2_nonneg [simp]: "0 \<le> pow2 e"
  by (rule less_imp_le) simp

lemma pow2_Suc: "pow2 (e + 1) = 2 * pow2 e"
proof (cases "0 \<le> e")
  case True
  then show ?thesis by (simp add: pow2_def nat_add_distrib)
next
  case False
  then have "nat (- e) = Suc (nat (- e - 1))" by (simp add: Suc_nat_eq_nat_zadd1)
  then have "(2 :: rat) ^ nat (- e) = 2 * 2 ^ nat (- e - 1)" by simp
  with False show ?thesis by (auto simp: pow2_def)
qed

lemma pow2_diff: "pow2 (int a - int b) = 2 ^ a / 2 ^ b"
proof (induction a)
  case 0
  show ?case by (simp add: pow2_def)
next
  case (Suc a)
  have "int (Suc a) - int b = (int a - int b) + 1" by simp
  then show ?case using Suc by (simp only: pow2_Suc) simp
qed

lemma exponent_le:
  assumes "q \<noteq> 0"
  shows "pow2 (exponent q) \<le> \<bar>q\<bar>"
proof -
  obtain n d where nd: "quotient_of \<bar>q\<bar> = (n, d)" by fastforce
  then have d: "0 < d" and q: "\<bar>q\<bar> = of_int n / of_int d"
    using quotient_of_denom_pos quotient_of_div by blast+
  have "0 < \<bar>q\<bar>" using assms by simp
  then have n: "0 < n" using d by (simp add: q zero_less_divide_iff)
  let ?a = "bit_length n" and ?b = "bit_length d"
  note bn = bit_length_bounds [OF n] and bd = bit_length_bounds [OF d]
  have "pow2 (int ?a - int ?b - 1) = pow2 (int (?a - 1) - int ?b)" using bn by (simp add: of_nat_diff algebra_simps)
  also have "\<dots> = 2 ^ (?a - 1) / 2 ^ ?b" by (rule pow2_diff)
  also have "\<dots> \<le> of_int n / of_int d"
  proof (rule frac_le)
    show "(2 :: rat) ^ (?a - 1) \<le> of_int n" using bn by (metis of_int_le_iff of_int_numeral of_int_power)
    show "of_int d \<le> (2 :: rat) ^ ?b" using bd by (metis less_imp_le of_int_le_iff of_int_numeral of_int_power)
  qed (use d n in simp_all)
  finally show ?thesis using nd q by (auto simp: exponent_def Let_def)
qed

lemma round_half_even_error: "\<bar>of_int (round_half_even q) - q\<bar> \<le> 1 / 2"
  using of_int_floor_le [of q] floor_correct [of q] by (auto simp: round_half_even_def Let_def abs_le_iff)

text \<open>The relative error of a rounding to 53 bits.\<close>

lemma round53_error: "\<bar>round53 q - q\<bar> \<le> \<bar>q\<bar> / 2 ^ 53"
proof (cases "q = 0")
  case True
  then show ?thesis by (simp add: round53_def)
next
  case False
  let ?s = "pow2 (exponent q - 52)"
  have s: "0 < ?s" by simp
  have "round53 q - q = (of_int (round_half_even (q / ?s)) - q / ?s) * ?s"
    using False s by (simp add: round53_def Let_def left_diff_distrib less_imp_neq [OF s, symmetric])
  then have "\<bar>round53 q - q\<bar> = \<bar>of_int (round_half_even (q / ?s)) - q / ?s\<bar> * ?s"
    by (simp add: abs_mult)
  also have "\<dots> \<le> 1 / 2 * ?s" using s by (intro mult_right_mono round_half_even_error) simp
  also have "?s = pow2 (exponent q) / 2 ^ 52"
  proof -
    have "pow2 (e - int k) = pow2 e / 2 ^ k" for e k
    proof (induction k)
      case (Suc k)
      have "pow2 (e - int k) = 2 * pow2 (e - int (Suc k))" using pow2_Suc [of "e - int (Suc k)"] by simp
      with Suc show ?case by simp
    qed simp
    from this [of "exponent q" 52] show ?thesis by simp
  qed
  finally show ?thesis using exponent_le [OF False] by simp
qed

section \<open>Durations\<close>

text \<open>\<open>Duration::as_secs_f64\<close>: seconds and nanoseconds are converted each for itself.\<close>

definition duration_as_secs_f64 :: "nat \<Rightarrow> f64" where
  "duration_as_secs_f64 d =
     Fin (round53 (round53 (of_nat (d div 1000000000)) + round53 (of_nat (d mod 1000000000) / 1000000000)))"

lemma round_half_even_near: "\<bar>q - of_int n\<bar> < 1 / 2 \<Longrightarrow> round_half_even q = n"
proof -
  assume near: "\<bar>q - of_int n\<bar> < 1 / 2"
  have "\<bar>of_int (round_half_even q) - of_int n :: rat\<bar> < 1"
    using round_half_even_error [of q] near by linarith
  then show ?thesis by linarith
qed

text \<open>Up to four million seconds, 46 days, the double determines the duration.\<close>

lemma as_secs_error:
  assumes "d < 4000000 * 1000000000" "duration_as_secs_f64 d = Fin q"
  shows "\<bar>q * 1000000000 - of_nat d\<bar> < 1 / 2"
proof -
  let ?s = "d div 1000000000" and ?n = "of_nat (d mod 1000000000) / 1000000000 :: rat"
  have s: "?s < 4000000" using assms(1) by simp
  have "round53 (of_int (int ?s)) = of_int (int ?s)"
    by (rule round53_of_int) (use s in simp)
  then have rs: "round53 (of_nat ?s) = of_nat ?s" by simp
  have d: "of_nat d = (of_nat ?s + ?n) * (1000000000 :: rat)"
  proof -
    have "(of_nat d :: rat) = of_nat (?s * 1000000000 + d mod 1000000000)" by simp
    also have "\<dots> = of_nat ?s * 1000000000 + of_nat (d mod 1000000000)" by (simp only: of_nat_add of_nat_mult of_nat_numeral)
    finally show ?thesis by (simp add: distrib_right)
  qed
  have n: "0 \<le> ?n" "?n < 1" by (simp_all add: divide_less_eq)
  let ?x = "of_nat ?s + round53 ?n"
  have e1: "\<bar>round53 ?n - ?n\<bar> \<le> 1 / 2 ^ 53"
    using round53_error [of ?n] n by (simp add: field_simps)
  have x: "\<bar>?x\<bar> \<le> 4000002"
  proof -
    have "(of_nat ?s :: rat) \<le> 4000000" using s by (metis less_imp_le of_nat_le_iff of_nat_numeral)
    moreover have "(1 :: rat) / 2 ^ 53 \<le> 1" by simp
    ultimately show ?thesis using e1 n by linarith
  qed
  have q: "q = round53 ?x" using assms(2) by (simp add: duration_as_secs_f64_def rs)
  have "\<bar>?x\<bar> / 2 ^ 53 \<le> 4000002 / 2 ^ 53" using x by (rule divide_right_mono) simp
  then have "\<bar>q - ?x\<bar> \<le> 4000002 / 2 ^ 53"
    using round53_error [of ?x] unfolding q by linarith
  then have "\<bar>q - (of_nat ?s + ?n)\<bar> \<le> 4000003 / 2 ^ 53"
    using e1 unfolding abs_le_iff by linarith
  then have "\<bar>q - (of_nat ?s + ?n)\<bar> * 1000000000 \<le> 4000003 / 2 ^ 53 * 1000000000" by (rule mult_right_mono) simp
  moreover have "\<bar>q * 1000000000 - of_nat d\<bar> = \<bar>q - (of_nat ?s + ?n)\<bar> * 1000000000"
    unfolding d by (simp only: left_diff_distrib [symmetric] abs_mult abs_numeral)
  moreover have "(4000003 :: rat) / 2 ^ 53 * 1000000000 < 1 / 2" by simp
  ultimately show ?thesis by linarith
qed

section \<open>The getters\<close>

definition get_max_heap_size :: "('v, 'a) runtime_config \<Rightarrow> nat option" where
  "get_max_heap_size c = max_heap_size c"

definition get_initial_heap_size :: "('v, 'a) runtime_config \<Rightarrow> nat option" where
  "get_initial_heap_size c = initial_heap_size c"

definition get_bootstrap :: "('v, 'a) runtime_config \<Rightarrow> string option" where
  "get_bootstrap c = bootstrap_script c"

definition get_timeout :: "('v, 'a) runtime_config \<Rightarrow> f64 option" where
  "get_timeout c = map_option duration_as_secs_f64 (execution_timeout c)"

definition get_enable_console :: "('v, 'a) runtime_config \<Rightarrow> bool option" where
  "get_enable_console c = enable_console c"

definition get_on_console :: "('v, 'a) runtime_config \<Rightarrow> 'v option" where
  "get_on_console c = on_console c"

definition get_inspector :: "('v, 'a) runtime_config \<Rightarrow> 'a inspector_config option" where
  "get_inspector c = inspector c"

definition get_snapshot :: "('v, 'a) runtime_config \<Rightarrow> bytes option" where
  "get_snapshot c = snapshot_bytes c"

definition get_max_serialization_depth :: "('v, 'a) runtime_config \<Rightarrow> nat" where
  "get_max_serialization_depth c = max_serialization_depth c"

definition get_max_serialization_bytes :: "('v, 'a) runtime_config \<Rightarrow> nat" where
  "get_max_serialization_bytes c = max_serialization_bytes c"

definition get_force_kill_grace :: "('v, 'a) runtime_config \<Rightarrow> f64 option" where
  "get_force_kill_grace c = map_option duration_as_secs_f64 (force_kill_grace c)"

text \<open>And those of \<open>InspectorConfig\<close>; \<open>dbg\<close> and \<open>dbg_option\<close> are the \<open>Debug\<close> renderings of a string and of an optional one.\<close>

definition get_wait_for_connection :: "'a inspector_config \<Rightarrow> bool" where
  "get_wait_for_connection c = ins_wait_for_connection c"

definition get_break_on_next_statement :: "'a inspector_config \<Rightarrow> bool" where
  "get_break_on_next_statement c = ins_break_on_next_statement c"

definition get_target_url :: "'a inspector_config \<Rightarrow> string option" where
  "get_target_url c = ins_target_url c"

definition get_display_name :: "'a inspector_config \<Rightarrow> string option" where
  "get_display_name c = ins_display_name c"

definition inspector_config_repr ::
  "(string \<Rightarrow> string) \<Rightarrow> (string option \<Rightarrow> string) \<Rightarrow> ('a \<Rightarrow> string) \<Rightarrow> ('a \<Rightarrow> 16 word) \<Rightarrow> 'a inspector_config \<Rightarrow> string" where
  "inspector_config_repr dbg dbg_option host port c =
     ''InspectorConfig(host='' @ dbg (host (ins_address c)) @ '', port='' @ show_word (port (ins_address c))
     @ '', wait_for_connection='' @ show_bool (ins_wait_for_connection c)
     @ '', break_on_next_statement='' @ show_bool (ins_break_on_next_statement c)
     @ '', target_url='' @ dbg_option (ins_target_url c) @ '', display_name='' @ dbg_option (ins_display_name c) @ '')''"

section \<open>Reading and setting again\<close>

text \<open>A double that Python hands back, and the durations for which that works.\<close>

definition takes_back :: "'v py_extract \<Rightarrow> (f64 \<Rightarrow> 'v) \<Rightarrow> bool" where
  "takes_back px wrap \<longleftrightarrow> (\<forall>f. ext_f64 px (wrap f) = Some f)"

lemma duration_survives:
  assumes "takes_back px wrap" "0 < d" "d < 4000000 * 1000000000"
  shows "duration_from_py_timeout px (wrap (duration_as_secs_f64 d)) = Returns d"
proof -
  obtain q where q: "duration_as_secs_f64 d = Fin q" by (simp add: duration_as_secs_f64_def)
  note near = as_secs_error [OF assms(3) q]
  have d: "(1 :: rat) \<le> of_nat d" "of_nat d < (4000000 * 1000000000 :: rat)"
    using assms(2,3) by (simp_all flip: of_nat_less_iff)
  have pos: "0 < q * 1000000000" using near d(1) unfolding abs_less_iff by linarith
  have small: "q * 1000000000 \<le> 4000000 * 1000000000 + 1" using near d(2) unfolding abs_less_iff by linarith
  have "0 < q" "q \<le> 2 ^ 64 - 1" using pos small by simp_all
  moreover have "round_half_even (q * 1000000000) = int d"
    by (rule round_half_even_near) (use near in simp)
  moreover have "ext_f64 px (wrap (Fin q)) = Some (Fin q)" using assms(1) by (simp add: takes_back_def)
  ultimately show ?thesis
    unfolding duration_from_py_timeout_def duration_of_timeout_def q
    by (simp add: validate_timeout_seconds_def f64_eq_zero_def seconds_fit del: duration_from_secs_f64.simps)
qed

text \<open>
  A configuration can be copied through Python.  A timeout or a grace of up to 46 days that is read,
  as a double of seconds, and set again is the same to the nanosecond.
\<close>

theorem timeout_read_back:
  assumes "takes_back px wrap"
  shows "(\<forall>d. execution_timeout c = Some d \<longrightarrow> 0 < d \<longrightarrow> d < 4000000 * 1000000000 \<longrightarrow>
      set_timeout px (wrap (the (get_timeout c))) c = Returns c)
    \<and> (\<forall>d. force_kill_grace c = Some d \<longrightarrow> 0 < d \<longrightarrow> d < 4000000 * 1000000000 \<longrightarrow>
      set_force_kill_grace px (map_option wrap (get_force_kill_grace c)) c = Returns c)"
  using duration_survives [OF assms]
  by (simp add: set_timeout_def get_timeout_def set_force_kill_grace_def get_force_kill_grace_def)

theorem timeout_read_back_witness:
  "\<exists>c :: (f64, nat) runtime_config. execution_timeout c = Some 100000001
    \<and> set_timeout sample_extract (the (get_timeout c)) c = Returns c"
proof -
  let ?c = "runtime_config_default\<lparr>execution_timeout := Some 100000001\<rparr> :: (f64, nat) runtime_config"
  have "takes_back sample_extract (\<lambda>f. f)" by (simp add: takes_back_def sample_extract_def)
  from timeout_read_back [OF this, of ?c] show ?thesis by (intro exI [of _ ?c]) simp
qed

end
