(* ===== verification/Peno_Module.thy ===== *)
theory Peno_Module
  imports Peno_ConfigAccess Peno_Threads
begin

text \<open>
  The Python module (\<open>src/lib.rs\<close>, \<open>src/runtime/python/mod.rs\<close>): the exception classes, the singleton
  \<open>peno.undefined\<close>, and the initialisation that puts them and the classes into the module.
\<close>

section \<open>Exception classes\<close>

datatype exc_class = ExcException | ExcRuntimeError | ExcValueError | ExcStopAsyncIteration
  | ExcJavaScriptError | ExcRuntimeTerminated | ExcRuntimeForceKilled

fun exc_base :: "exc_class \<Rightarrow> exc_class option" where
  "exc_base ExcException = None"
| "exc_base ExcJavaScriptError = Some ExcException"
| "exc_base ExcRuntimeTerminated = Some ExcRuntimeError"
| "exc_base ExcRuntimeForceKilled = Some ExcRuntimeTerminated"
| "exc_base _ = Some ExcException"

fun exc_depth :: "exc_class \<Rightarrow> nat" where
  "exc_depth ExcException = 0"
| "exc_depth ExcRuntimeTerminated = 2"
| "exc_depth ExcRuntimeForceKilled = 3"
| "exc_depth _ = 1"

text \<open>The class and its bases, nearest first (\<open>__mro__\<close>).\<close>

function exc_mro :: "exc_class \<Rightarrow> exc_class list" where
  "exc_mro c = c # (case exc_base c of Some b \<Rightarrow> exc_mro b | None \<Rightarrow> [])"
  by pat_completeness auto
termination
proof (relation "measure exc_depth")
  fix c b assume "exc_base c = Some b"
  then show "(b, c) \<in> measure exc_depth" by (cases c) auto
qed simp

lemma exc_mro_table [simp]:
  "exc_mro ExcException = [ExcException]" "exc_mro ExcRuntimeError = [ExcRuntimeError, ExcException]"
  "exc_mro ExcValueError = [ExcValueError, ExcException]"
  "exc_mro ExcStopAsyncIteration = [ExcStopAsyncIteration, ExcException]"
  "exc_mro ExcJavaScriptError = [ExcJavaScriptError, ExcException]"
  "exc_mro ExcRuntimeTerminated = [ExcRuntimeTerminated, ExcRuntimeError, ExcException]"
  "exc_mro ExcRuntimeForceKilled = [ExcRuntimeForceKilled, ExcRuntimeTerminated, ExcRuntimeError, ExcException]"
  by (simp_all add: exc_mro.simps)

declare exc_mro.simps [simp del]

text \<open>\<open>issubclass\<close> is an order on the classes.\<close>

instantiation exc_class :: order
begin

definition less_eq_exc_class :: "exc_class \<Rightarrow> exc_class \<Rightarrow> bool" where
  "c \<le> b \<longleftrightarrow> b \<in> set (exc_mro c)"

definition less_exc_class :: "exc_class \<Rightarrow> exc_class \<Rightarrow> bool" where
  "c < b \<longleftrightarrow> c \<le> b \<and> \<not> b \<le> (c :: exc_class)"

instance
proof
  fix a b c :: exc_class
  show "a \<le> a" by (cases a) (simp_all add: less_eq_exc_class_def)
  show "a \<le> b \<Longrightarrow> b \<le> c \<Longrightarrow> a \<le> c" by (cases a; cases b) (auto simp: less_eq_exc_class_def)
  show "a \<le> b \<Longrightarrow> b \<le> a \<Longrightarrow> a = b" by (cases a; cases b) (simp_all add: less_eq_exc_class_def)
qed (simp add: less_exc_class_def)

end

text \<open>The class of an exception the sources make; \<open>None\<close> for one that came from elsewhere.\<close>

fun class_of_exc :: "py_exc \<Rightarrow> exc_class option" where
  "class_of_exc (PyRuntimeError _) = Some ExcRuntimeError"
| "class_of_exc (PyValueError _) = Some ExcValueError"
| "class_of_exc (JavaScriptError _ _ _ _ _) = Some ExcJavaScriptError"
| "class_of_exc (RuntimeTerminated _) = Some ExcRuntimeTerminated"
| "class_of_exc (RuntimeForceKilled _) = Some ExcRuntimeForceKilled"
| "class_of_exc (PyStopAsyncIteration _) = Some ExcStopAsyncIteration"
| "class_of_exc (PyOther _ _) = None"

text \<open>\<open>except handler\<close> catches the exception.\<close>

definition catches :: "exc_class \<Rightarrow> py_exc \<Rightarrow> bool" where
  "catches handler e \<longleftrightarrow> (\<exists>c. class_of_exc e = Some c \<and> c \<le> handler)"

section \<open>The module\<close>

datatype module_attr = AttrClass string | AttrException exc_class | AttrFloat f64 | AttrObject nat | AttrFunction string

text \<open>\<open>pm_cell\<close>: the \<open>OnceLock\<close> of the singleton; \<open>pm_objects\<close> numbers the \<open>JsUndefined\<close> objects made so far.\<close>

record py_module =
  pm_attrs :: "string \<rightharpoonup> module_attr"
  pm_exc_module :: "exc_class \<rightharpoonup> string"
  pm_cell :: "nat option"
  pm_objects :: nat

text \<open>\<open>fails\<close>: the exception of a call into Python about a name, if it raises.\<close>

type_synonym py_fails = "string \<Rightarrow> py_exc option"

definition add_attr :: "py_fails \<Rightarrow> string \<Rightarrow> module_attr \<Rightarrow> (py_module, py_exc, unit) comp" where
  "add_attr fails name a m =
     (case fails name of
        Some e \<Rightarrow> (Inl e, m)
      | None \<Rightarrow> (Inr (), m\<lparr>pm_attrs := (pm_attrs m)(name \<mapsto> a)\<rparr>))"

definition add_exception :: "py_fails \<Rightarrow> string \<Rightarrow> exc_class \<Rightarrow> (py_module, py_exc, unit) comp" where
  "add_exception fails name c m =
     (case fails (name @ ''.__module__'') of
        Some e \<Rightarrow> (Inl e, m)
      | None \<Rightarrow> add_attr fails name (AttrException c) (m\<lparr>pm_exc_module := (pm_exc_module m)(c \<mapsto> ''peno'')\<rparr>))"

definition get_js_undefined :: "py_fails \<Rightarrow> (py_module, py_exc, nat) comp" where
  "get_js_undefined fails m =
     (case pm_cell m of
        Some existing \<Rightarrow> (Inr existing, m)
      | None \<Rightarrow>
          (case fails ''JsUndefined()'' of
             Some e \<Rightarrow> (Inl e, m)
           | None \<Rightarrow> (Inr (pm_objects m), m\<lparr>pm_cell := Some (pm_objects m), pm_objects := Suc (pm_objects m)\<rparr>)))"

definition MODULE_CLASSES :: "string list" where
  "MODULE_CLASSES = [''Runtime'', ''TerminationHandle'', ''JsFunction'', ''JsStream'', ''JsUndefined'', ''RuntimeStats'',
     ''InspectorEndpoints'', ''_JsFunctionFinalizer'', ''_JsStreamFinalizer'', ''PyStreamSource'', ''_PyStreamFinalizer'',
     ''SnapshotBuilder'', ''IsolatePool'', ''PooledIsolate'', ''RuntimeConfig'', ''InspectorConfig'']"

fun add_classes :: "py_fails \<Rightarrow> string list \<Rightarrow> (py_module, py_exc, unit) comp" where
  "add_classes fails [] = sret ()"
| "add_classes fails (c # cs) = sthen (add_attr fails c (AttrClass c)) (add_classes fails cs)"

definition peno_module :: "py_fails \<Rightarrow> (py_module, py_exc, unit) comp" where
  "peno_module fails =
     sthen (add_classes fails MODULE_CLASSES)
    (sthen (add_exception fails ''JavaScriptError'' ExcJavaScriptError)
    (sthen (add_exception fails ''RuntimeTerminated'' ExcRuntimeTerminated)
    (sthen (add_exception fails ''RuntimeForceKilled'' ExcRuntimeForceKilled)
    (sthen (add_attr fails ''SUGGESTED_FORCE_KILL_GRACE'' (AttrFloat (duration_as_secs_f64 SUGGESTED_FORCE_KILL_GRACE)))
    (sbind (get_js_undefined fails) (\<lambda>undefined.
     sthen (add_attr fails ''undefined'' (AttrObject undefined))
       (add_attr fails ''_debug_active_runtime_threads'' (AttrFunction ''_debug_active_runtime_threads''))))))))"

definition debug_active_runtime_threads :: "('h, 'w) process \<Rightarrow> u64" where
  "debug_active_runtime_threads p = active_runtime_threads p"

section \<open>\<open>JsUndefined\<close>\<close>

definition js_undefined_new :: "py_exc + nat" where
  "js_undefined_new = Inl (PyRuntimeError ''JsUndefined is a singleton; use peno.undefined'')"

definition js_undefined_repr :: string where
  "js_undefined_repr = ''JsUndefined''"

definition js_undefined_str :: string where
  "js_undefined_str = ''undefined''"

definition js_undefined_bool :: bool where
  "js_undefined_bool = False"

text \<open>
  A thread in \<open>get_js_undefined\<close>: it looks into the cell, makes an object when it found it empty (which
  may let other threads run), and offers it to the cell, which keeps the first.
\<close>

datatype get_state = GetStart | GetMissed | GetMade nat | GetDone nat

inductive get_step :: "py_module \<times> (nat \<Rightarrow> get_state) \<Rightarrow> py_module \<times> (nat \<Rightarrow> get_state) \<Rightarrow> bool" where
  found: "\<lbrakk>ts i = GetStart; pm_cell m = Some existing\<rbrakk> \<Longrightarrow> get_step (m, ts) (m, ts(i := GetDone existing))"
| missed: "\<lbrakk>ts i = GetStart; pm_cell m = None\<rbrakk> \<Longrightarrow> get_step (m, ts) (m, ts(i := GetMissed))"
| made: "ts i = GetMissed \<Longrightarrow>
    get_step (m, ts) (m\<lparr>pm_objects := Suc (pm_objects m)\<rparr>, ts(i := GetMade (pm_objects m)))"
| stored: "ts i = GetMade v \<Longrightarrow>
    get_step (m, ts) (m\<lparr>pm_cell := (case pm_cell m of Some existing \<Rightarrow> Some existing | None \<Rightarrow> Some v)\<rparr>, ts(i := GetDone v))"

section \<open>Laws\<close>

lemma add_attr_Inr: "add_attr fails name a m = (Inr (), m') \<longleftrightarrow> fails name = None
    \<and> m' = m\<lparr>pm_attrs := (pm_attrs m)(name \<mapsto> a)\<rparr>"
  by (auto simp: add_attr_def split: option.splits)

lemma add_classes_keeps: "add_classes fails cs m = (r, m') \<Longrightarrow>
    pm_cell m' = pm_cell m \<and> pm_objects m' = pm_objects m \<and> pm_exc_module m' = pm_exc_module m"
  by (induction cs arbitrary: m)
    (auto simp: sret_def sthen_def sbind_def add_attr_def split: option.splits)

lemma add_exception_Inr: "add_exception fails name c m = (Inr (), m') \<Longrightarrow>
    m' = m\<lparr>pm_exc_module := (pm_exc_module m)(c \<mapsto> ''peno''), pm_attrs := (pm_attrs m)(name \<mapsto> AttrException c)\<rparr>"
  by (auto simp: add_exception_def add_attr_def split: option.splits)

lemma add_classes_ok:
  "(\<And>name. fails name = None) \<Longrightarrow> \<exists>m'. add_classes fails cs m = (Inr (), m')"
  by (induction cs arbitrary: m) (auto simp: sret_def sthen_def sbind_def add_attr_def)

lemma import_fills_cell:
  assumes "peno_module fails m = (Inr (), m')"
  shows "\<exists>v. pm_cell m' = Some v \<and> pm_attrs m' ''undefined'' = Some (AttrObject v)"
  using assms unfolding peno_module_def sthen_Inr sbind_Inr
  by (auto simp: add_attr_Inr get_js_undefined_def split: option.splits)

lemma get_step_keeps:
  "get_step x y \<Longrightarrow> pm_cell (fst x) = Some v \<Longrightarrow> (\<forall>i. snd x i \<in> {GetStart, GetDone v})
    \<Longrightarrow> pm_cell (fst y) = Some v \<and> (\<forall>i. snd y i \<in> {GetStart, GetDone v})"
proof (induction rule: get_step.induct)
  case (made ts i m)
  then show ?case by (metis get_state.distinct(1) get_state.distinct(9) insertE singletonD snd_conv)
next
  case (stored ts i w m)
  from stored(3) have "ts i \<in> {GetStart, GetDone v}" unfolding snd_conv by (rule spec)
  with stored(1) show ?case by simp
qed auto

lemma get_steps_keep:
  "get_step\<^sup>*\<^sup>* x y \<Longrightarrow> pm_cell (fst x) = Some v \<Longrightarrow> (\<forall>i. snd x i \<in> {GetStart, GetDone v})
    \<Longrightarrow> pm_cell (fst y) = Some v \<and> (\<forall>i. snd y i \<in> {GetStart, GetDone v})"
proof (induction rule: rtranclp_induct)
  case (step y z)
  then show ?case using get_step_keeps [of y z v] by blast
qed simp

text \<open>Without the import two first calls can give two objects.\<close>

definition two_gets :: "get_state \<Rightarrow> get_state \<Rightarrow> nat \<Rightarrow> get_state" where
  "two_gets a b i = (if i = 0 then a else if i = 1 then b else GetStart)"

lemma two_gets_simps [simp]:
  "(two_gets a b)(0 := c) = two_gets c b" "(two_gets a b)(Suc 0 := c) = two_gets a c"
  "two_gets a b 0 = a" "two_gets a b (Suc 0) = b"
  by (auto simp: two_gets_def)

lemma first_calls_can_differ:
  assumes "pm_cell m = None"
  shows "\<exists>m'. get_step\<^sup>*\<^sup>* (m, \<lambda>_. GetStart) (m', two_gets (GetDone (pm_objects m)) (GetDone (Suc (pm_objects m))))"
proof -
  let ?m1 = "m\<lparr>pm_objects := Suc (pm_objects m)\<rparr>"
  let ?m2 = "m\<lparr>pm_objects := Suc (Suc (pm_objects m))\<rparr>"
  let ?m3 = "?m2\<lparr>pm_cell := Some (pm_objects m)\<rparr>"
  have "get_step (m, two_gets GetStart GetStart) (m, two_gets GetMissed GetStart)"
    using get_step.missed [of "two_gets GetStart GetStart" 0 m] assms by simp
  moreover have "get_step (m, two_gets GetMissed GetStart) (m, two_gets GetMissed GetMissed)"
    using get_step.missed [of "two_gets GetMissed GetStart" 1 m] assms by simp
  moreover have "get_step (m, two_gets GetMissed GetMissed) (?m1, two_gets (GetMade (pm_objects m)) GetMissed)"
    using get_step.made [of "two_gets GetMissed GetMissed" 0 m] by simp
  moreover have "get_step (?m1, two_gets (GetMade (pm_objects m)) GetMissed)
      (?m2, two_gets (GetMade (pm_objects m)) (GetMade (Suc (pm_objects m))))"
    using get_step.made [of "two_gets (GetMade (pm_objects m)) GetMissed" 1 ?m1] by simp
  moreover have "get_step (?m2, two_gets (GetMade (pm_objects m)) (GetMade (Suc (pm_objects m))))
      (?m3, two_gets (GetDone (pm_objects m)) (GetMade (Suc (pm_objects m))))"
    using get_step.stored [of "two_gets (GetMade (pm_objects m)) (GetMade (Suc (pm_objects m)))" 0 _ ?m2] assms by simp
  moreover have "get_step (?m3, two_gets (GetDone (pm_objects m)) (GetMade (Suc (pm_objects m))))
      (?m3, two_gets (GetDone (pm_objects m)) (GetDone (Suc (pm_objects m))))"
    using get_step.stored [of "two_gets (GetDone (pm_objects m)) (GetMade (Suc (pm_objects m)))" 1 _ ?m3] by simp
  ultimately have "get_step\<^sup>*\<^sup>* (m, two_gets GetStart GetStart) (?m3, two_gets (GetDone (pm_objects m)) (GetDone (Suc (pm_objects m))))"
    by (meson rtranclp.rtrancl_refl rtranclp.rtrancl_into_rtrancl)
  moreover have "two_gets GetStart GetStart = (\<lambda>_. GetStart)" by (auto simp: two_gets_def)
  ultimately show ?thesis by auto
qed

section \<open>Properties\<close>

text \<open>
  C37  The exception classes tell the kinds of \<open>RuntimeError\<close> apart, under any context: code that catches
  \<open>RuntimeTerminated\<close> catches a termination and a force-kill and nothing else, \<open>RuntimeForceKilled\<close> only the
  force-kill, \<open>JavaScriptError\<close> exactly the errors of kind \<open>JavaScript\<close> (which host-made errors thrown in guest
  code are, too, and what guest code throws in a pooled isolate is not), and Python's \<open>RuntimeError\<close> all
  other kinds.
\<close>

theorem exception_hierarchy:
  "(catches ExcRuntimeTerminated (runtime_error_to_py_with e context) \<longleftrightarrow> (\<exists>r. e = Terminated r) \<or> (\<exists>m. e = ForceKilled m))
    \<and> (catches ExcRuntimeForceKilled (runtime_error_to_py_with e context) \<longleftrightarrow> (\<exists>m. e = ForceKilled m))
    \<and> (catches ExcJavaScriptError (runtime_error_to_py_with e context) \<longleftrightarrow> (\<exists>d. e = JavaScript d))
    \<and> (catches ExcRuntimeError (runtime_error_to_py_with e context) \<longleftrightarrow> (\<nexists>d. e = JavaScript d))"
  by (cases e) (simp_all add: catches_def less_eq_exc_class_def build_js_exception_def Let_def)

text \<open>
  \<open>peno.undefined\<close> is one object.  Once the module is imported, in every interleaving of threads that
  ask for it each gets the object that the module exports, no other is ever made for them, and
  \<open>JsUndefined()\<close> raises.
\<close>

theorem undefined_is_singleton:
  assumes "peno_module fails m = (Inr (), m')" "get_step\<^sup>*\<^sup>* (m', \<lambda>_. GetStart) (m'', ts)"
  shows "\<exists>v. pm_attrs m' ''undefined'' = Some (AttrObject v) \<and> (\<forall>i w. ts i = GetDone w \<longrightarrow> w = v)
    \<and> (\<forall>i. ts i \<noteq> GetMissed) \<and> get_js_undefined fails m'' = (Inr v, m'') \<and> (\<exists>e. js_undefined_new = Inl e)"
proof -
  obtain v where v: "pm_cell m' = Some v" "pm_attrs m' ''undefined'' = Some (AttrObject v)"
    using import_fills_cell [OF assms(1)] by blast
  from get_steps_keep [OF assms(2), of v] v(1) have c: "pm_cell m'' = Some v" and t: "ts i \<in> {GetStart, GetDone v}" for i
    by simp_all
  have "w = v" if "ts i = GetDone w" for i w using t [of i] that by simp
  moreover have "ts i \<noteq> GetMissed" for i using t [of i] by auto
  ultimately show ?thesis
    using v(2) c by (intro exI [of _ v]) (simp add: get_js_undefined_def js_undefined_new_def)
qed

theorem undefined_is_singleton_witness:
  "\<exists>m'. peno_module (\<lambda>_. None) \<lparr>pm_attrs = Map.empty, pm_exc_module = Map.empty, pm_cell = None, pm_objects = 0\<rparr> = (Inr (), m')
    \<and> get_js_undefined (\<lambda>_. None) m' = (Inr 0, m') \<and> pm_attrs m' ''undefined'' = Some (AttrObject 0)"
proof -
  let ?m = "\<lparr>pm_attrs = Map.empty, pm_exc_module = Map.empty, pm_cell = None, pm_objects = 0\<rparr>"
  obtain m1 where "add_classes (\<lambda>_. None) MODULE_CLASSES ?m = (Inr (), m1)"
    using add_classes_ok [of "\<lambda>_. None" MODULE_CLASSES ?m] by auto
  moreover from add_classes_keeps [OF this] have "pm_cell m1 = None" "pm_objects m1 = 0" by simp_all
  ultimately obtain m' where m': "peno_module (\<lambda>_. None) ?m = (Inr (), m')" "pm_attrs m' ''undefined'' = Some (AttrObject 0)"
    by (simp add: peno_module_def add_exception_def add_attr_def get_js_undefined_def sthen_def sbind_def)
  from undefined_is_singleton [OF m'(1) rtranclp.rtrancl_refl] m' show ?thesis by auto
qed

end
